(* ===== verification/Prelude.thy ===== *)
theory Prelude
  imports Main "HOL-Library.Word"
begin

text \<open>
  What every theory of the development shares: the widths of the C integer types
  (\<^verbatim>\<open>inc/types.h\<close>), the result type in which a failed assertion, a panic, an access
  outside an array and a loop that never ends are values, the collections of facts the
  component proofs draw on, and the lemmas on lists and words that more than one
  component needs (replacing a slice of a list, lists cut into blocks of one length).
\<close>

section \<open>Machine integers\<close>

type_synonym u8 = "8 word"
type_synonym u16 = "16 word"
type_synonym u32 = "32 word"

section \<open>Faults as values\<close>

text \<open>
  The C code stops in four ways that are not a return value: \<^verbatim>\<open>my_assert\<close> fails,
  \<^verbatim>\<open>panic\<close> is called, memory outside an object is touched, or a loop does not end.
\<close>

datatype fault =
    Assert_failed string
  | Panic string
  | Out_of_bounds string
  | Diverges string

type_synonym 'a result = "fault + 'a"

fun andThen :: "'a result \<Rightarrow> ('a \<Rightarrow> 'b result) \<Rightarrow> 'b result" where
  "andThen (Inl e) f = Inl e"
| "andThen (Inr x) f = f x"

lemma andThen_eq_Inr:
  "andThen m f = Inr y \<longleftrightarrow> (\<exists>x. m = Inr x \<and> f x = Inr y)"
  by (cases m) auto

lemma andThen_eq_Inl:
  "andThen m f = Inl e \<longleftrightarrow> m = Inl e \<or> (\<exists>x. m = Inr x \<and> f x = Inl e)"
  by (cases m) auto

lemma andThen_cong [fundef_cong]:
  "\<lbrakk>m = n; \<And>x. n = Inr x \<Longrightarrow> f x = g x\<rbrakk> \<Longrightarrow> andThen m f = andThen n g"
  by (cases n) auto

text \<open>\<^verbatim>\<open>inc/assert.h\<close>: \<^verbatim>\<open>my_assert(x)\<close> panics when \<^verbatim>\<open>x\<close> is false.\<close>

definition my_assert :: "string \<Rightarrow> bool \<Rightarrow> unit result" where
  "my_assert what x = (if \<not> x then Inl (Assert_failed what) else Inr ())"

lemma my_assert_simps [simp]:
  "my_assert w True = Inr ()"
  "my_assert w False = Inl (Assert_failed w)"
  by (simp_all add: my_assert_def)

lemma my_assert_eq_Inr: "my_assert w b = Inr u \<longleftrightarrow> b"
  by (cases b) auto

section \<open>Collections\<close>

named_theorems codec_simps \<open>sizes of encodings and decoding of an encoding\<close>
named_theorems fs_frame \<open>fields of the file system an operation leaves alone\<close>
named_theorems proc_frame \<open>fields of the kernel state an operation leaves alone\<close>

section \<open>Replacing a slice of a list\<close>

text \<open>
  \<open>splice_at o new xs\<close> is the list after \<^verbatim>\<open>memcpy(xs + o, new, length new)\<close>: the slice from
  \<open>o\<close> on is overwritten, and the list grows where the new slice ends behind it.
\<close>

definition splice_at :: "nat \<Rightarrow> 'a list \<Rightarrow> 'a list \<Rightarrow> 'a list" where
  "splice_at n new xs = take n xs @ new @ drop (n + length new) xs"

lemma length_splice_at:
  "n \<le> length xs \<Longrightarrow> length (splice_at n new xs) = max (length xs) (n + length new)"
  by (simp add: splice_at_def)

lemma length_splice_at_inside [simp]:
  "n + length new \<le> length xs \<Longrightarrow> length (splice_at n new xs) = length xs"
  by (simp add: splice_at_def)

lemma splice_at_Nil [simp]: "splice_at n [] xs = xs"
  by (simp add: splice_at_def)

lemma splice_at_append_right:
  "n \<le> length xs \<Longrightarrow> n + length new \<ge> length xs \<Longrightarrow> splice_at n new xs = take n xs @ new"
  by (simp add: splice_at_def)

lemma splice_at_splice_at:
  assumes "n \<le> length xs"
  shows "splice_at (n + length a) b (splice_at n a xs) = splice_at n (a @ b) xs"
  using assms by (simp add: splice_at_def ac_simps)

lemma take_splice_at:
  assumes "n \<le> m" "m \<le> length xs"
  shows "take (max m (n + length new)) (splice_at n new xs) = splice_at n new (take m xs)"
proof (cases "n + length new \<le> m")
  case True
  then have "max m (n + length new) = m" and "take (m - n) new = new" and "n \<le> length xs"
    using assms by simp_all
  with True assms show ?thesis
    by (simp add: splice_at_def min_absorb2 min_absorb1 drop_take)
next
  case False
  then have "max m (n + length new) = n + length new" and "n \<le> length xs"
    using assms by simp_all
  with False assms show ?thesis
    by (simp add: splice_at_def min_absorb2 min_absorb1)
qed

lemma take_append_splice_at:
  assumes "n \<le> length xs"
  shows "take n (splice_at n new xs) = take n xs"
  using assms by (simp add: splice_at_def)

section \<open>Lists cut into blocks of one length\<close>

lemma length_concat_const:
  "(\<And>x. x \<in> set xss \<Longrightarrow> length x = k) \<Longrightarrow> length (concat xss) = k * length xss"
  by (induction xss) auto

lemma take_concat_const:
  assumes "\<And>x. x \<in> set xss \<Longrightarrow> length x = k" "n \<le> length xss"
  shows "take (k * n) (concat xss) = concat (take n xss)"
  using assms
proof (induction xss arbitrary: n)
  case Nil
  then show ?case by simp
next
  case (Cons x xss)
  show ?case
  proof (cases n)
    case 0
    then show ?thesis by simp
  next
    case (Suc m)
    with Cons show ?thesis by simp
  qed
qed

lemma drop_concat_const:
  assumes "\<And>x. x \<in> set xss \<Longrightarrow> length x = k" "n \<le> length xss"
  shows "drop (k * n) (concat xss) = concat (drop n xss)"
  using assms
proof (induction xss arbitrary: n)
  case Nil
  then show ?case by simp
next
  case (Cons x xss)
  show ?case
  proof (cases n)
    case 0
    then show ?thesis by simp
  next
    case (Suc m)
    with Cons show ?thesis by simp
  qed
qed

text \<open>Reading inside one block of a blocked list.\<close>

lemma slice_concat_const:
  assumes len: "\<And>x. x \<in> set xss \<Longrightarrow> length x = k" and j: "j < length xss"
    and fit: "i + n \<le> k"
  shows "take n (drop (k * j + i) (concat xss)) = take n (drop i (xss ! j))"
proof -
  have kj: "length (xss ! j) = k" using len j by simp
  have "drop (k * j + i) (concat xss) = drop i (drop (k * j) (concat xss))"
    by (simp add: add.commute)
  also have "drop (k * j) (concat xss) = concat (drop j xss)"
    using drop_concat_const [of xss k j] len j by simp
  also have "drop j xss = xss ! j # drop (Suc j) xss"
    using j by (rule Cons_nth_drop_Suc [symmetric])
  finally have "take n (drop (k * j + i) (concat xss))
      = take n (drop i (xss ! j) @ drop (i - k) (concat (drop (Suc j) xss)))"
    using kj by simp
  with fit kj show ?thesis by simp
qed

text \<open>Overwriting inside one block of a blocked list.\<close>

lemma concat_splice_block:
  assumes len: "\<And>x. x \<in> set xss \<Longrightarrow> length x = k" and j: "j < length xss"
    and fit: "i + length new \<le> k"
  shows "concat (xss[j := splice_at i new (xss ! j)]) = splice_at (k * j + i) new (concat xss)"
proof -
  have kj: "length (xss ! j) = k" using len j by simp
  let ?A = "concat (take j xss)" and ?C = "concat (drop (Suc j) xss)"
  have all: "concat xss = ?A @ xss ! j @ ?C"
    by (metis concat.simps(2) concat_append id_take_nth_drop j)
  have pre: "length ?A = k * j"
    using length_concat_const [of "take j xss" k] len j
    by (auto dest: in_set_takeD)
  have "concat (xss[j := splice_at i new (xss ! j)]) = ?A @ splice_at i new (xss ! j) @ ?C"
    using j by (simp add: upd_conv_take_nth_drop)
  also have "\<dots> = splice_at (length ?A + i) new (?A @ xss ! j @ ?C)"
    using fit kj by (simp add: splice_at_def)
  finally show ?thesis by (simp only: all pre)
qed

section \<open>Words\<close>

lemma unat_add_small:
  fixes a b :: u32
  assumes "unat a + unat b < 2 ^ 32"
  shows "unat (a + b) = unat a + unat b"
  using assms by (simp add: unat_word_ariths)

lemma unat_of_nat_u32 [simp]:
  "n < 2 ^ 32 \<Longrightarrow> unat (of_nat n :: u32) = n"
  by (simp add: unat_of_nat take_bit_nat_eq_self)

lemma unat_add_of_nat:
  fixes a :: u32
  assumes "unat a + n < 2 ^ 32"
  shows "unat (a + of_nat n) = unat a + n"
  using assms by (simp add: unat_word_ariths)

lemma unat_minus_1_u32 [simp]: "unat (- 1 :: u32) = 4294967295"
  by (simp add: unsigned_minus_1_eq_mask mask_numeral)

lemma unat_eq_iff: "(unat a = unat b) = (a = b)"
  by (rule word_unat_eq_iff [symmetric])

lemma sint_small: "unat (w :: u32) < 2147483648 \<Longrightarrow> sint w = int (unat w)"
proof -
  assume "unat w < 2147483648"
  moreover have "uint w = int (unat w)" by simp
  ultimately have "- 2147483648 \<le> uint w" "uint w < 2147483648" by linarith+
  then show ?thesis unfolding sint_uint by (simp add: signed_take_bit_int_eq_self)
qed

end
