(* ===== verification/CString.thy ===== *)
theory CString
  imports Prelude "HOL-Library.Signed_Division"
begin

text \<open>
  \<^verbatim>\<open>lib/string.c\<close>. A C array is the list of its elements, and a string argument is the array
  its pointer points to: reading or writing outside it is \<open>Out_of_bounds\<close>. The functions
  that move raw bytes (\<^verbatim>\<open>memcpy\<close>, \<^verbatim>\<open>memset\<close>) work on the flat memory of 32-bit addresses,
  one byte at a time and upwards, as \<^verbatim>\<open>cld; rep movsb\<close> and \<^verbatim>\<open>cld; rep stosb\<close> do.
\<close>

section \<open>Arrays\<close>

definition array_get :: "string \<Rightarrow> 'a list \<Rightarrow> nat \<Rightarrow> 'a result" where
  "array_get what xs i = (if i < length xs then Inr (xs ! i) else Inl (Out_of_bounds what))"

definition array_put :: "string \<Rightarrow> 'a list \<Rightarrow> nat \<Rightarrow> 'a \<Rightarrow> 'a list result" where
  "array_put what xs i x = (if i < length xs then Inr (xs[i := x]) else Inl (Out_of_bounds what))"

section \<open>strlen, strcpy, strncmp, strncpy\<close>

fun strlen_loop :: "u8 list \<Rightarrow> nat \<Rightarrow> nat result" where
  "strlen_loop [] len = Inl (Out_of_bounds ''strlen'')"
| "strlen_loop (c # str) len = (if c \<noteq> 0 then strlen_loop str (len + 1) else Inr len)"

definition strlen :: "u8 list \<Rightarrow> nat result" where
  "strlen str = strlen_loop str 0"

text \<open>\<^verbatim>\<open>strcpy(d, s)\<close> is \<^verbatim>\<open>memcpy(d, s, strlen(s) + 1)\<close> into the array \<^verbatim>\<open>d\<close>.\<close>

definition strcpy :: "u8 list \<Rightarrow> u8 list \<Rightarrow> u8 list result" where
  "strcpy d s = andThen (strlen s) (\<lambda>n.
     if n + 1 \<le> length d then Inr (splice_at 0 (take (n + 1) s) d)
     else Inl (Out_of_bounds ''strcpy''))"

function strncmp_loop :: "u8 list \<Rightarrow> u8 list \<Rightarrow> nat \<Rightarrow> nat \<Rightarrow> int result" where
  "strncmp_loop s1 s2 n i =
     (if i < n then
        andThen (array_get ''strncmp'' s1 i) (\<lambda>a.
        andThen (array_get ''strncmp'' s2 i) (\<lambda>b.
          if a \<noteq> b then Inr 1
          else if a = 0 then Inr 0
          else strncmp_loop s1 s2 n (i + 1)))
      else Inr 0)"
  by pat_completeness auto
termination
  by (relation "measure (\<lambda>(s1, s2, n, i). n - i)") auto

definition strncmp :: "u8 list \<Rightarrow> u8 list \<Rightarrow> nat \<Rightarrow> int result" where
  "strncmp s1 s2 n = strncmp_loop s1 s2 n 0"

function strncpy_loop :: "u8 list \<Rightarrow> u8 list \<Rightarrow> nat \<Rightarrow> nat \<Rightarrow> bool \<Rightarrow> u8 list result" where
  "strncpy_loop dest src n i eos =
     (if i < n then
        if eos then andThen (array_put ''strncpy'' dest i 0) (\<lambda>dest'.
          strncpy_loop dest' src n (i + 1) eos)
        else andThen (array_get ''strncpy'' src i) (\<lambda>c.
          andThen (array_put ''strncpy'' dest i c) (\<lambda>dest'.
            strncpy_loop dest' src n (i + 1) (c = 0)))
      else Inr dest)"
  by pat_completeness auto
termination
  by (relation "measure (\<lambda>(dest, src, n, i, eos). n - i)") auto

definition strncpy :: "u8 list \<Rightarrow> u8 list \<Rightarrow> nat \<Rightarrow> u8 list result" where
  "strncpy dest src n = strncpy_loop dest src n 0 False"

declare strncmp_loop.simps [simp del] strncpy_loop.simps [simp del]

section \<open>itoa\<close>

text \<open>
  \<^verbatim>\<open>itoa\<close> fills a static buffer from its end; the result is the list of the characters from
  the returned pointer on. \<^verbatim>\<open>%\<close> and \<^verbatim>\<open>/\<close> round towards zero, as in C.
\<close>

lemma abs_sdiv_10_less:
  fixes a :: int
  assumes "a sdiv 10 \<noteq> 0"
  shows "\<bar>a sdiv 10\<bar> < \<bar>a\<bar>"
proof -
  have "a \<noteq> 0" using assms by (auto simp: signed_divide_int_def)
  then have "\<bar>a\<bar> div 10 < \<bar>a\<bar>" by simp
  moreover have "\<bar>a sdiv 10\<bar> = \<bar>a\<bar> div 10"
    using \<open>a \<noteq> 0\<close> by (simp add: signed_divide_int_def abs_mult abs_sgn_eq)
  ultimately show ?thesis by simp
qed

function itoa_loop :: "int \<Rightarrow> u8 list \<Rightarrow> u8 list" where
  "itoa_loop a p =
     (let p' = of_int (48 + a smod 10) # p; a' = a sdiv 10
      in if a' \<noteq> 0 then itoa_loop a' p' else p')"
  by pat_completeness auto
termination
  by (relation "measure (\<lambda>(a, p). nat \<bar>a\<bar>)") (auto simp: abs_sdiv_10_less)

declare itoa_loop.simps [simp del]

definition itoa :: "int \<Rightarrow> u8 list" where
  "itoa a = itoa_loop a []"

section \<open>memcpy and memset on the flat memory\<close>

type_synonym memory = "u32 \<Rightarrow> u8"

fun memcpy :: "u32 \<Rightarrow> u32 \<Rightarrow> nat \<Rightarrow> memory \<Rightarrow> memory" where
  "memcpy dest src 0 m = m"
| "memcpy dest src (Suc n) m = memcpy (dest + 1) (src + 1) n (m(dest := m src))"

fun memset :: "u32 \<Rightarrow> u8 \<Rightarrow> nat \<Rightarrow> memory \<Rightarrow> memory" where
  "memset dest c 0 m = m"
| "memset dest c (Suc n) m = memset (dest + 1) c n (m(dest := c))"

section \<open>What the string functions compute\<close>

text \<open>The string an array holds: its bytes up to the first NUL, \<^verbatim>\<open>n\<close> at most.\<close>

definition cstr :: "nat \<Rightarrow> u8 list \<Rightarrow> u8 list" where
  "cstr n xs = takeWhile (\<lambda>c. c \<noteq> 0) (take n xs)"

lemma strlen_loop_NUL:
  "0 \<notin> set p \<Longrightarrow> strlen_loop (p @ 0 # rest) k = Inr (k + length p)"
  by (induction p arbitrary: k) auto

lemma strlen_NUL: "0 \<notin> set p \<Longrightarrow> strlen (p @ 0 # rest) = Inr (length p)"
  by (simp add: strlen_def strlen_loop_NUL)

lemma strlen_no_NUL: "0 \<notin> set p \<Longrightarrow> strlen p = Inl (Out_of_bounds ''strlen'')"
proof -
  have "0 \<notin> set p \<Longrightarrow> strlen_loop p k = Inl (Out_of_bounds ''strlen'')" for k
    by (induction p arbitrary: k) auto
  then show "0 \<notin> set p \<Longrightarrow> strlen p = Inl (Out_of_bounds ''strlen'')"
    by (simp add: strlen_def)
qed

lemma strcpy_NUL:
  assumes "0 \<notin> set p" "length p < length d"
  shows "strcpy d (p @ [0]) = Inr (p @ 0 # drop (Suc (length p)) d)"
  using assms by (simp add: strcpy_def strlen_NUL splice_at_def)

text \<open>
  \<^verbatim>\<open>strncmp\<close> answers 0 exactly when the two strings agree on their first \<^verbatim>\<open>n\<close> bytes, and
  never reads behind the terminator of the first one.
\<close>

lemma strncmp_loop_spec:
  assumes "i \<le> n" "n \<le> length t" "0 \<notin> set p" "i \<le> length p"
  shows "strncmp_loop (p @ [0]) t n i =
    Inr (if cstr (n - i) (drop i (p @ [0])) = cstr (n - i) (drop i t) then 0 else 1)"
  using assms
proof (induction "p @ [0 :: u8]" t n i rule: strncmp_loop.induct)
  case (1 t n i)
  show ?case
  proof (cases "i < n")
    case False
    with 1 show ?thesis by (simp add: strncmp_loop.simps cstr_def)
  next
    case True
    with 1 have it: "i < length t" and ip: "i < length (p @ [0])" by auto
    let ?a = "(p @ [0]) ! i" and ?b = "t ! i"
    from True have ni: "n - i = Suc (n - Suc i)" by simp
    have unfold_a: "cstr (n - i) (drop i (p @ [0])) =
        (if ?a = 0 then [] else ?a # cstr (n - Suc i) (drop (Suc i) (p @ [0])))"
      using Cons_nth_drop_Suc [OF ip, symmetric] by (simp add: cstr_def ni del: drop_append)
    have unfold_b: "cstr (n - i) (drop i t) =
        (if ?b = 0 then [] else ?b # cstr (n - Suc i) (drop (Suc i) t))"
      using Cons_nth_drop_Suc [OF it, symmetric] by (simp add: cstr_def ni)
    have step: "strncmp_loop (p @ [0]) t n i =
        (if ?a \<noteq> ?b then Inr 1 else if ?a = 0 then Inr 0
         else strncmp_loop (p @ [0]) t n (i + 1))"
      using True it ip by (subst strncmp_loop.simps) (simp add: array_get_def)
    show ?thesis
    proof (cases "?a = ?b \<and> ?a \<noteq> 0")
      case True
      then have "i < length p" using ip by (auto simp: nth_append split: if_splits)
      with True \<open>i < n\<close> it ip 1 show ?thesis
        by (simp add: step unfold_a unfold_b array_get_def del: drop_append)
    next
      case False
      then show ?thesis by (auto simp: step unfold_a unfold_b simp del: drop_append)
    qed
  qed
qed

lemma strncmp_spec:
  assumes "n \<le> length t" "0 \<notin> set p"
  shows "strncmp (p @ [0]) t n = Inr (if cstr n (p @ [0]) = cstr n t then 0 else 1)"
  using strncmp_loop_spec [of 0 n t p] assms by (simp add: strncmp_def)

text \<open>Against a shorter literal, it decides equality.\<close>

lemma strncmp_loop_literal:
  assumes "0 \<notin> set p" "0 \<notin> set q" "length q < n"
    and "i \<le> length p" "i \<le> length q" "take i p = take i q"
  shows "strncmp_loop (p @ [0]) (q @ [0]) n i = Inr (if p = q then 0 else 1)"
  using assms(4-6)
proof (induction "length q - i" arbitrary: i rule: less_induct)
  case less
  let ?a = "(p @ [0]) ! i" and ?b = "(q @ [0]) ! i"
  have step: "strncmp_loop (p @ [0]) (q @ [0]) n i =
      (if ?a \<noteq> ?b then Inr 1 else if ?a = 0 then Inr 0
       else strncmp_loop (p @ [0]) (q @ [0]) n (i + 1))"
    using less.prems assms(3) by (subst strncmp_loop.simps) (simp add: array_get_def)
  have az: "?a = 0 \<longleftrightarrow> i = length p"
    using less.prems(1) assms(1) by (cases "i < length p") (auto simp: nth_append in_set_conv_nth)
  have bz: "?b = 0 \<longleftrightarrow> i = length q"
    using less.prems(2) assms(2) by (cases "i < length q") (auto simp: nth_append in_set_conv_nth)
  consider "?a \<noteq> ?b" | "?a = ?b" "?a = 0" | "?a = ?b" "?a \<noteq> 0" by blast
  then show ?case
  proof cases
    case 1
    then have "p \<noteq> q" by auto
    with 1 show ?thesis unfolding step by simp
  next
    case 2
    have "i = length p" using 2 az by simp
    moreover have "i = length q" using 2 bz by simp
    ultimately have "p = q" using less.prems(3) by simp
    with 2 show ?thesis unfolding step by simp
  next
    case 3
    then have i: "i < length p" "i < length q" using az bz less.prems by auto
    with 3 have "p ! i = q ! i" by (simp add: nth_append)
    with less.prems(3) i have "take (i + 1) p = take (i + 1) q" by (simp add: take_Suc_conv_app_nth)
    with less.hyps [of "i + 1"] i 3 show ?thesis unfolding step by simp
  qed
qed

lemma strncmp_literal:
  "\<lbrakk>0 \<notin> set p; 0 \<notin> set q; length q < n\<rbrakk> \<Longrightarrow>
    strncmp (p @ [0]) (q @ [0]) n = Inr (if p = q then 0 else 1)"
  using strncmp_loop_literal [of p q n 0] by (simp add: strncmp_def)

lemma cstr_name:
  assumes "0 \<notin> set p"
  shows "cstr n (p @ [0]) = take n p" "cstr n (take n (p @ replicate n 0)) = take n p"
proof -
  have "takeWhile (\<lambda>c. c \<noteq> 0) (take n p @ zs) = take n p" if "set zs \<subseteq> {0}" for zs :: "u8 list"
  proof -
    have "c \<noteq> 0" if "c \<in> set (take n p)" for c using assms that by (auto dest: in_set_takeD)
    then have "takeWhile (\<lambda>c. c \<noteq> 0) (take n p @ zs) = take n p @ takeWhile (\<lambda>c. c \<noteq> 0) zs"
      by (simp add: takeWhile_append2)
    moreover have "takeWhile (\<lambda>c. c \<noteq> 0) zs = []" using that by (cases zs) auto
    ultimately show ?thesis by simp
  qed
  then show "cstr n (p @ [0]) = take n p" "cstr n (take n (p @ replicate n 0)) = take n p"
    by (simp_all add: cstr_def take_replicate set_replicate_conv_if take_Cons' del: takeWhile_append)
qed

text \<open>\<^verbatim>\<open>strncpy\<close> copies the string and fills the rest of the field with zeros.\<close>

lemma nth_padded_eq_0:
  assumes "0 \<notin> set p" "i < n"
  shows "(p @ replicate n (0 :: u8)) ! i = 0 \<longleftrightarrow> length p \<le> i"
  using assms by (cases "i < length p") (auto simp: nth_append dest: nth_mem)

lemma strncpy_loop_spec:
  assumes "i \<le> n" "n \<le> length dest" "0 \<notin> set p"
    and "eos = (length p < i)"
  shows "strncpy_loop dest (p @ [0]) n i eos =
    Inr (take i dest @ take (n - i) (drop i (p @ replicate n 0)) @ drop n dest)"
  using assms
proof (induction dest "p @ [0 :: u8]" n i eos rule: strncpy_loop.induct)
  case (1 dest n i eos)
  show ?case
  proof (cases "i < n")
    case False
    with 1 show ?thesis by (simp add: strncpy_loop.simps)
  next
    case True
    let ?q = "p @ replicate n (0 :: u8)"
    have iq: "i < length ?q" using True by simp
    have head: "take (n - i) (drop i ?q) = ?q ! i # take (n - Suc i) (drop (Suc i) ?q)"
      using True Cons_nth_drop_Suc [OF iq, symmetric]
      by (simp add: Suc_diff_Suc [symmetric] del: drop_append take_append)
    have idest: "i < length dest" using True 1 by simp
    have put: "take (Suc i) (dest[i := c]) = take i dest @ [c]" for c
      using idest by (simp add: take_Suc_conv_app_nth)
    have IH: "strncpy_loop (dest[i := ?q ! i]) (p @ [0]) n (i + 1) (length p < i + 1) =
        Inr (take (Suc i) (dest[i := ?q ! i]) @ take (n - Suc i) (drop (Suc i) ?q)
             @ drop n (dest[i := ?q ! i]))"
    proof (cases "length p < i")
      case True
      then have "?q ! i = 0" using \<open>i < n\<close> by (simp add: nth_append)
      with True \<open>i < n\<close> 1 idest show ?thesis
        by (simp add: array_put_def del: drop_append take_append)
    next
      case False
      then have get: "(p @ [0]) ! i = ?q ! i" and "i < length (p @ [0])"
        using \<open>i < n\<close> by (auto simp: nth_append)
      moreover have "(?q ! i = 0) = (length p < i + 1)"
        using nth_padded_eq_0 [OF \<open>0 \<notin> set p\<close> \<open>i < n\<close>] by auto
      ultimately show ?thesis
        using "1.hyps"(2) [of "(p @ [0]) ! i" "dest[i := ?q ! i]"] False \<open>i < n\<close> 1(3-6) idest
        by (simp add: array_put_def array_get_def del: drop_append take_append)
    qed
    have "strncpy_loop dest (p @ [0]) n i eos =
        strncpy_loop (dest[i := ?q ! i]) (p @ [0]) n (i + 1) (length p < i + 1)"
    proof (cases "length p < i")
      case True
      with \<open>i < n\<close> 1(6) idest show ?thesis
        by (subst strncpy_loop.simps) (simp add: array_put_def nth_append)
    next
      case False
      have "(?q ! i = 0) = (length p < i + 1)"
        using nth_padded_eq_0 [OF \<open>0 \<notin> set p\<close> \<open>i < n\<close>] by auto
      moreover have "(p @ [0]) ! i = ?q ! i" "i < length (p @ [0])"
        using False \<open>i < n\<close> by (auto simp: nth_append)
      ultimately show ?thesis
        using False \<open>i < n\<close> 1(6) idest
        by (subst strncpy_loop.simps) (simp add: array_put_def array_get_def)
    qed
    with IH \<open>i < n\<close> show ?thesis
      by (simp add: put head del: drop_append take_append)
  qed
qed

lemma strncpy_spec:
  assumes "n \<le> length dest" "0 \<notin> set p"
  shows "strncpy dest (p @ [0]) n = Inr (take n (p @ replicate n 0) @ drop n dest)"
  using strncpy_loop_spec [of 0 n dest p False] assms by (simp add: strncpy_def)

end
