(* ===== verification/Disk.thy ===== *)
theory Disk
  imports Prelude
begin

text \<open>
  The interfaces below the file system: what a block device promises
  (\<^verbatim>\<open>inc/ide.h\<close>), as the locale \<open>block_device\<close>, and what a binary encoding promises, as the
  locales \<open>codec\<close> and \<open>sector_codec\<close>. The disk the file system runs on is a map from sector
  numbers to sectors; the drivers that implement it are in the theories of the drivers.
\<close>

unbundle bit_operations_syntax

section \<open>Sectors and the disk\<close>

text \<open>\<^verbatim>\<open>inc/ide.h\<close>\<close>

definition SECTSIZE :: nat where
  [simp]: "SECTSIZE = 512"

type_synonym sector = "u8 list"
type_synonym disk = "u32 \<Rightarrow> sector"

definition disk_read :: "u32 \<Rightarrow> disk \<Rightarrow> sector" where
  "disk_read secno d = d secno"

definition disk_write :: "u32 \<Rightarrow> sector \<Rightarrow> disk \<Rightarrow> disk" where
  "disk_write secno src d = d(secno := src)"

definition disk_ok :: "disk \<Rightarrow> bool" where
  "disk_ok d \<longleftrightarrow> (\<forall>n. length (d n) = SECTSIZE)"

section \<open>The contract of a block device\<close>

text \<open>
  \<open>rd\<close> and \<open>wr\<close> transfer one sector, \<open>ok\<close> is the state the device keeps, \<open>valid\<close> the sectors it
  has.
\<close>

locale block_device =
  fixes rd :: "u32 \<Rightarrow> 'd \<Rightarrow> sector"
    and wr :: "u32 \<Rightarrow> sector \<Rightarrow> 'd \<Rightarrow> 'd"
    and ok :: "'d \<Rightarrow> bool"
    and valid :: "u32 \<Rightarrow> bool"
  assumes rd_length: "\<lbrakk>ok d; valid n\<rbrakk> \<Longrightarrow> length (rd n d) = SECTSIZE"
    and ok_wr: "\<lbrakk>ok d; valid n; length s = SECTSIZE\<rbrakk> \<Longrightarrow> ok (wr n s d)"
    and rd_wr_same: "\<lbrakk>ok d; valid n; length s = SECTSIZE\<rbrakk> \<Longrightarrow> rd n (wr n s d) = s"
    and rd_wr_other: "\<lbrakk>ok d; valid n; valid m; length s = SECTSIZE; m \<noteq> n\<rbrakk> \<Longrightarrow>
          rd m (wr n s d) = rd m d"
begin

text \<open>Writing a list of sectors, in order.\<close>

fun wr_all :: "(u32 \<times> sector) list \<Rightarrow> 'd \<Rightarrow> 'd" where
  "wr_all [] d = d"
| "wr_all ((n, s) # ws) d = wr_all ws (wr n s d)"

definition good_writes :: "(u32 \<times> sector) list \<Rightarrow> bool" where
  "good_writes ws \<longleftrightarrow> (\<forall>(n, s) \<in> set ws. valid n \<and> length s = SECTSIZE)"

lemma good_writes_Cons:
  "good_writes ((n, s) # ws) \<longleftrightarrow> valid n \<and> length s = SECTSIZE \<and> good_writes ws"
  by (auto simp: good_writes_def)

lemma ok_wr_all: "\<lbrakk>good_writes ws; ok d\<rbrakk> \<Longrightarrow> ok (wr_all ws d)"
  by (induction ws d rule: wr_all.induct) (auto simp: good_writes_Cons ok_wr)

lemma rd_wr_all_other:
  "\<lbrakk>good_writes ws; ok d; valid m; m \<notin> fst ` set ws\<rbrakk> \<Longrightarrow> rd m (wr_all ws d) = rd m d"
  by (induction ws d rule: wr_all.induct) (auto simp: good_writes_Cons ok_wr rd_wr_other)

text \<open>What a sector holds afterwards is the last thing written to it.\<close>

lemma rd_wr_all:
  "\<lbrakk>good_writes ws; ok d; valid m\<rbrakk> \<Longrightarrow>
    rd m (wr_all ws d) = (case map_of (rev ws) m of None \<Rightarrow> rd m d | Some s \<Rightarrow> s)"
proof (induction ws d rule: wr_all.induct)
  case (1 d)
  then show ?case by simp
next
  case (2 n s ws d)
  then have "rd m (wr_all ws (wr n s d)) =
      (case map_of (rev ws) m of None \<Rightarrow> rd m (wr n s d) | Some t \<Rightarrow> t)"
    by (simp add: good_writes_Cons ok_wr)
  with 2 show ?case
    by (auto simp: good_writes_Cons rd_wr_same rd_wr_other map_add_def split: option.splits)
qed

end

interpretation disk: block_device disk_read disk_write disk_ok "\<lambda>_. True"
  by unfold_locales (auto simp: disk_read_def disk_write_def disk_ok_def)

section \<open>The contract of a binary encoding\<close>

locale codec =
  fixes enc :: "'a \<Rightarrow> u8 list"
    and dec :: "u8 list \<Rightarrow> 'a"
    and wf :: "'a \<Rightarrow> bool"
    and width :: nat
  assumes enc_length: "wf x \<Longrightarrow> length (enc x) = width"
    and dec_enc: "wf x \<Longrightarrow> dec (enc x) = x"

text \<open>Cutting a byte list into chunks of one width.\<close>

fun chunks :: "nat \<Rightarrow> nat \<Rightarrow> 'a list \<Rightarrow> 'a list list" where
  "chunks w 0 bs = []"
| "chunks w (Suc n) bs = take w bs # chunks w n (drop w bs)"

lemma length_chunks [simp]: "length (chunks w n bs) = n"
  by (induction n arbitrary: bs) auto

lemma chunk_length:
  "\<lbrakk>c \<in> set (chunks w n bs); w * n \<le> length bs\<rbrakk> \<Longrightarrow> length c = w"
proof (induction n arbitrary: bs)
  case 0
  then show ?case by simp
next
  case (Suc n)
  then show ?case by (auto simp: min_def)
qed

lemma concat_chunks: "length bs = w * n \<Longrightarrow> concat (chunks w n bs) = bs"
  by (induction n arbitrary: bs) auto

context codec begin

lemma enc_list_length:
  "(\<And>x. x \<in> set xs \<Longrightarrow> wf x) \<Longrightarrow> length (concat (map enc xs)) = width * length xs"
  using length_concat_const [of "map enc xs" width] enc_length by auto

lemma chunks_enc_list:
  "(\<And>x. x \<in> set xs \<Longrightarrow> wf x) \<Longrightarrow>
    chunks width (length xs) (concat (map enc xs) @ rest) = map enc xs"
proof (induction xs)
  case Nil
  then show ?case by simp
next
  case (Cons x xs)
  then show ?case by (simp add: enc_length)
qed

text \<open>A list of encoded items is decoded item by item.\<close>

lemma dec_enc_list:
  assumes "\<And>x. x \<in> set xs \<Longrightarrow> wf x" "length xs = n"
  shows "map dec (chunks width n (concat (map enc xs) @ rest)) = xs"
proof -
  have "map (dec \<circ> enc) xs = xs"
    using assms(1) by (auto intro!: map_idI simp: dec_enc)
  with chunks_enc_list [of xs rest] assms show ?thesis by simp
qed

end

text \<open>An encoding that fills one sector can be stored on any block device.\<close>

locale sector_codec = codec +
  assumes one_sector: "width = SECTSIZE"

context sector_codec begin

lemma enc_sector: "wf x \<Longrightarrow> length (enc x) = SECTSIZE"
  using enc_length one_sector by simp

lemma load_store: "wf x \<Longrightarrow> dec (disk_read n (disk_write n (enc x) d)) = x"
  by (simp add: disk_read_def disk_write_def dec_enc)

lemma load_store_other:
  "m \<noteq> n \<Longrightarrow> dec (disk_read m (disk_write n (enc x) d)) = dec (disk_read m d)"
  by (simp add: disk_read_def disk_write_def)

lemma store_ok: "\<lbrakk>disk_ok d; wf x\<rbrakk> \<Longrightarrow> disk_ok (disk_write n (enc x) d)"
  by (rule disk.ok_wr) (auto simp: enc_sector)

end

section \<open>Little-endian 32-bit words\<close>

definition bytes_of_u32 :: "u32 \<Rightarrow> u8 list" where
  "bytes_of_u32 w = [ucast w, ucast (drop_bit 8 w), ucast (drop_bit 16 w), ucast (drop_bit 24 w)]"

definition u32_of_bytes :: "u8 list \<Rightarrow> u32" where
  "u32_of_bytes bs = ucast (bs ! 0) OR push_bit 8 (ucast (bs ! 1))
     OR push_bit 16 (ucast (bs ! 2)) OR push_bit 24 (ucast (bs ! 3))"

lemma length_bytes_of_u32 [codec_simps]: "length (bytes_of_u32 w) = 4"
  by (simp add: bytes_of_u32_def)

lemma u32_of_bytes_of_u32: "u32_of_bytes (bytes_of_u32 w) = w"
proof (rule bit_word_eqI)
  fix n
  assume "n < LENGTH(32)"
  then have "n < 32" by simp
  then consider "n < 8" | "8 \<le> n" "n < 16" | "16 \<le> n" "n < 24" | "24 \<le> n" "n < 32" by linarith
  then show "bit (u32_of_bytes (bytes_of_u32 w)) n = bit w n"
    by cases (auto simp add: u32_of_bytes_def bytes_of_u32_def bit_simps)
qed

interpretation u32: codec bytes_of_u32 u32_of_bytes "\<lambda>_. True" 4
  by unfold_locales (auto simp: length_bytes_of_u32 u32_of_bytes_of_u32)

lemma bytes_of_u32_of_bytes4:
  "bytes_of_u32 (u32_of_bytes [a, b, c, d]) = [a, b, c, d]"
proof -
  have "ucast (ucast a OR push_bit 8 (ucast b) OR push_bit 16 (ucast c) OR push_bit 24 (ucast d) :: u32) = a"
    by (rule bit_word_eqI) (simp add: bit_simps)
  moreover have "ucast (drop_bit 8 (ucast a OR push_bit 8 (ucast b) OR push_bit 16 (ucast c) OR push_bit 24 (ucast d) :: u32)) = b"
    by (rule bit_word_eqI) (auto simp add: bit_simps dest: bit_imp_le_length)
  moreover have "ucast (drop_bit 16 (ucast a OR push_bit 8 (ucast b) OR push_bit 16 (ucast c) OR push_bit 24 (ucast d) :: u32)) = c"
    by (rule bit_word_eqI) (auto simp add: bit_simps dest: bit_imp_le_length)
  moreover have "ucast (drop_bit 24 (ucast a OR push_bit 8 (ucast b) OR push_bit 16 (ucast c) OR push_bit 24 (ucast d) :: u32)) = d"
    by (rule bit_word_eqI) (auto simp add: bit_simps dest: bit_imp_le_length)
  ultimately show ?thesis by (simp add: bytes_of_u32_def u32_of_bytes_def)
qed
lemma bytes_of_u32_of_bytes: "length bs = 4 \<Longrightarrow> bytes_of_u32 (u32_of_bytes bs) = bs"
  by (auto simp: numeral_eq_Suc length_Suc_conv bytes_of_u32_of_bytes4)

section \<open>Little-endian 16-bit words\<close>

definition bytes_of_u16 :: "u16 \<Rightarrow> u8 list" where
  "bytes_of_u16 w = [ucast w, ucast (drop_bit 8 w)]"

definition u16_of_bytes :: "u8 list \<Rightarrow> u16" where
  "u16_of_bytes bs = ucast (bs ! 0) OR push_bit 8 (ucast (bs ! 1))"

lemma u16_of_bytes_of_u16: "u16_of_bytes (bytes_of_u16 w) = w"
proof (rule bit_word_eqI)
  fix n
  assume "n < LENGTH(16)"
  then have "n < 16" by simp
  then consider "n < 8" | "8 \<le> n" "n < 16" by linarith
  then show "bit (u16_of_bytes (bytes_of_u16 w)) n = bit w n"
    by cases (auto simp add: u16_of_bytes_def bytes_of_u16_def bit_simps)
qed

lemma length_bytes_of_u16 [codec_simps]: "length (bytes_of_u16 w) = 2"
  by (simp add: bytes_of_u16_def)

interpretation u16: codec bytes_of_u16 u16_of_bytes "\<lambda>_. True" 2
  by unfold_locales (auto simp: codec_simps u16_of_bytes_of_u16)

end
