(* ===== verification/Fs.thy ===== *)
theory Fs
  imports CString Disk
begin

text \<open>
  \<^verbatim>\<open>kernel/fs.h\<close> and \<^verbatim>\<open>kernel/fs.c\<close>: the on-disk structures with their encodings, the state of
  the file system (the cached bitmap and directory, the descriptor pool with one cached
  inode and one cached sector per descriptor, and the disk), and every operation of the
  file, statement by statement. Assertions, the panic of the allocator and accesses outside
  an array are faults. The status \<^verbatim>\<open>ide_read\<close> and \<^verbatim>\<open>ide_write\<close> return is ignored by the code;
  the disk of the model transfers every sector.
\<close>

section \<open>Layout: kernel/fs.h\<close>

definition FILENAME_LENGTH :: nat where [simp]: "FILENAME_LENGTH = 24"
definition ENTRY_COUNT :: nat where [simp]: "ENTRY_COUNT = SECTSIZE div 32"
definition N_INODE_DATABLOCK :: nat where [simp]: "N_INODE_DATABLOCK = SECTSIZE div 4 - 1"
definition INODE_CAPACITY :: nat where [simp]: "INODE_CAPACITY = N_INODE_DATABLOCK * SECTSIZE"
definition BITMAP_SIZE :: nat where [simp]: "BITMAP_SIZE = SECTSIZE * 8"

definition FSOFFSET_BOOTLOADER :: u32 where [simp]: "FSOFFSET_BOOTLOADER = 0"
definition FSOFFSET_BITMAP :: u32 where [simp]: "FSOFFSET_BITMAP = FSOFFSET_BOOTLOADER + 1"
definition FSLENGTH_BITMAP :: u32 where
  [simp]: "FSLENGTH_BITMAP = of_nat (BITMAP_SIZE div SECTSIZE div 8)"
definition FSOFFSET_DIR :: u32 where [simp]: "FSOFFSET_DIR = FSOFFSET_BITMAP + FSLENGTH_BITMAP"
definition FSOFFSET_DATA :: u32 where [simp]: "FSOFFSET_DATA = FSOFFSET_DIR + 1"
definition FSOFFSET_END :: u32 where [simp]: "FSOFFSET_END = FSOFFSET_DATA + of_nat BITMAP_SIZE"

record dirent =
  fileName :: "u8 list"
  fileSize :: u32
  inodeOffset :: u32

record inode =
  dataBlocks :: "u32 list"
  next_inode :: u32

type_synonym bitmap = "u32 list"

text \<open>The bytes of the structures, as the compiler lays them out.\<close>

definition bytes_of_dirent :: "dirent \<Rightarrow> u8 list" where
  "bytes_of_dirent e = fileName e @ bytes_of_u32 (fileSize e) @ bytes_of_u32 (inodeOffset e)"

definition dirent_of_bytes :: "u8 list \<Rightarrow> dirent" where
  "dirent_of_bytes bs =
     \<lparr>fileName = take FILENAME_LENGTH bs,
      fileSize = u32_of_bytes (take 4 (drop FILENAME_LENGTH bs)),
      inodeOffset = u32_of_bytes (take 4 (drop (FILENAME_LENGTH + 4) bs))\<rparr>"

definition bytes_of_dir :: "dirent list \<Rightarrow> sector" where
  "bytes_of_dir d = concat (map bytes_of_dirent d)"

definition dir_of_bytes :: "sector \<Rightarrow> dirent list" where
  "dir_of_bytes bs = map dirent_of_bytes (chunks 32 ENTRY_COUNT bs)"

definition bytes_of_inode :: "inode \<Rightarrow> sector" where
  "bytes_of_inode i = concat (map bytes_of_u32 (dataBlocks i)) @ bytes_of_u32 (next_inode i)"

definition inode_of_bytes :: "sector \<Rightarrow> inode" where
  "inode_of_bytes bs =
     \<lparr>dataBlocks = map u32_of_bytes (chunks 4 N_INODE_DATABLOCK bs),
      next_inode = u32_of_bytes (drop (4 * N_INODE_DATABLOCK) bs)\<rparr>"

definition bytes_of_bitmap :: "bitmap \<Rightarrow> sector" where
  "bytes_of_bitmap b = concat (map bytes_of_u32 b)"

definition bitmap_of_bytes :: "sector \<Rightarrow> bitmap" where
  "bitmap_of_bytes bs = map u32_of_bytes (chunks 4 (BITMAP_SIZE div 32) bs)"

definition dirent_wf :: "dirent \<Rightarrow> bool" where
  "dirent_wf e \<longleftrightarrow> length (fileName e) = FILENAME_LENGTH"

definition dir_wf :: "dirent list \<Rightarrow> bool" where
  "dir_wf d \<longleftrightarrow> length d = ENTRY_COUNT \<and> (\<forall>e \<in> set d. dirent_wf e)"

definition inode_wf :: "inode \<Rightarrow> bool" where
  "inode_wf i \<longleftrightarrow> length (dataBlocks i) = N_INODE_DATABLOCK"

definition bitmap_wf :: "bitmap \<Rightarrow> bool" where
  "bitmap_wf b \<longleftrightarrow> length b = BITMAP_SIZE div 32"

interpretation dirent: codec bytes_of_dirent dirent_of_bytes dirent_wf 32
  by unfold_locales
    (auto simp: dirent_wf_def bytes_of_dirent_def dirent_of_bytes_def codec_simps
      u32_of_bytes_of_u32)

interpretation dir: sector_codec bytes_of_dir dir_of_bytes dir_wf 512
proof
  fix d
  assume d: "dir_wf d"
  then show "length (bytes_of_dir d) = 512"
    using dirent.enc_list_length [of d] by (simp add: dir_wf_def bytes_of_dir_def)
  from d show "dir_of_bytes (bytes_of_dir d) = d"
    using dirent.dec_enc_list [of d 16 "[]"]
    by (simp add: dir_wf_def bytes_of_dir_def dir_of_bytes_def)
qed simp

interpretation inode: sector_codec bytes_of_inode inode_of_bytes inode_wf 512
proof
  fix i
  assume i: "inode_wf i"
  then have len: "length (concat (map bytes_of_u32 (dataBlocks i))) = 508"
    using u32.enc_list_length [of "dataBlocks i"] by (simp add: inode_wf_def)
  then show "length (bytes_of_inode i) = 512"
    by (simp add: bytes_of_inode_def codec_simps)
  from i len show "inode_of_bytes (bytes_of_inode i) = i"
    using u32.dec_enc_list [of "dataBlocks i" 127]
    by (simp add: inode_wf_def bytes_of_inode_def inode_of_bytes_def u32_of_bytes_of_u32)
qed simp

interpretation bitmap: sector_codec bytes_of_bitmap bitmap_of_bytes bitmap_wf 512
proof
  fix b
  assume b: "bitmap_wf b"
  then show "length (bytes_of_bitmap b) = 512"
    using u32.enc_list_length [of b] by (simp add: bitmap_wf_def bytes_of_bitmap_def)
  from b show "bitmap_of_bytes (bytes_of_bitmap b) = b"
    using u32.dec_enc_list [of b 128 "[]"]
    by (simp add: bitmap_wf_def bytes_of_bitmap_def bitmap_of_bytes_def)
qed simp

section \<open>The state: kernel/fs.c\<close>

datatype cache_state = GARBAGE | USEFUL | NEED_WASHING

record fdesc =
  index :: nat
  offset :: u32
  buffer :: "u8 list"
  inode :: inode
  buffer_idx :: u32
  inode_idx :: u32
  buffer_state :: cache_state
  inode_state :: cache_state
  opened :: bool
  writable :: bool

record fs_state =
  bitmap :: bitmap
  dir :: "dirent list"
  state_bitmap :: cache_state
  state_dir :: cache_state
  fd_pool :: "nat \<Rightarrow> fdesc"
  disk :: disk

definition UPCB_NUM :: nat where [simp]: "UPCB_NUM = 64"
definition FDPOOL_SIZE :: nat where [simp]: "FDPOOL_SIZE = ENTRY_COUNT * UPCB_NUM"

definition O_RDONLY :: u32 where [simp]: "O_RDONLY = 0"
definition O_RDWR :: u32 where [simp]: "O_RDWR = 2"
definition O_CREAT :: u32 where [simp]: "O_CREAT = 64"

definition E_ACCESS :: int where [simp]: "E_ACCESS = -5"
definition E_DQUOT :: int where [simp]: "E_DQUOT = -6"
definition E_NOENT :: int where [simp]: "E_NOENT = -7"
definition E_EMPTYPATH :: int where [simp]: "E_EMPTYPATH = -10"

definition SEEK_SET :: int where [simp]: "SEEK_SET = 0"
definition SEEK_CUR :: int where [simp]: "SEEK_CUR = 1"
definition SEEK_END :: int where [simp]: "SEEK_END = 2"

definition upd_fd :: "nat \<Rightarrow> (fdesc \<Rightarrow> fdesc) \<Rightarrow> fs_state \<Rightarrow> fs_state" where
  "upd_fd fd f s = s\<lparr>fd_pool := (fd_pool s)(fd := f (fd_pool s fd))\<rparr>"

text \<open>The entry of the directory a descriptor is bound to.\<close>

definition fd_entry :: "nat \<Rightarrow> fs_state \<Rightarrow> dirent" where
  "fd_entry fd s = dir s ! index (fd_pool s fd)"

definition upd_entry :: "nat \<Rightarrow> (dirent \<Rightarrow> dirent) \<Rightarrow> fs_state \<Rightarrow> fs_state" where
  "upd_entry i f s = s\<lparr>dir := (dir s)[i := f (dir s ! i)]\<rparr>"

definition IDE_READ :: "u32 \<Rightarrow> fs_state \<Rightarrow> sector" where
  "IDE_READ secno s = disk_read (secno + FSOFFSET_DATA) (disk s)"

definition IDE_WRITE :: "u32 \<Rightarrow> sector \<Rightarrow> fs_state \<Rightarrow> fs_state" where
  "IDE_WRITE secno src s = s\<lparr>disk := disk_write (secno + FSOFFSET_DATA) src (disk s)\<rparr>"

section \<open>Mounting and flushing\<close>

definition fs_init :: "fs_state \<Rightarrow> fs_state" where
  "fs_init s = s\<lparr>state_bitmap := USEFUL, state_dir := USEFUL,
     dir := dir_of_bytes (disk_read FSOFFSET_DIR (disk s)),
     bitmap := bitmap_of_bytes (disk_read FSOFFSET_BITMAP (disk s))\<rparr>"

definition fs_flush :: "fs_state \<Rightarrow> fs_state" where
  "fs_flush s =
     (let s1 = (if state_dir s = NEED_WASHING
                then s\<lparr>disk := disk_write FSOFFSET_DIR (bytes_of_dir (dir s)) (disk s)\<rparr> else s);
          s2 = (if state_bitmap s1 = NEED_WASHING
                then s1\<lparr>disk := disk_write FSOFFSET_BITMAP (bytes_of_bitmap (bitmap s1)) (disk s1)\<rparr>
                else s1)
      in s2\<lparr>state_bitmap := USEFUL, state_dir := USEFUL\<rparr>)"

section \<open>The block allocator\<close>

text \<open>
  \<^verbatim>\<open>while(!(j & 0x1)) { j >>= 1; bit_count += 1; }\<close> does not end for 0, which the caller
  excludes: \<open>None\<close> is a run that does not end.
\<close>

partial_function (option) count_trailing :: "u32 \<Rightarrow> u32 \<Rightarrow> u32 option" where
  "count_trailing j bit_count =
     (if j AND 1 = 0 then count_trailing (drop_bit 1 j) (bit_count + 1) else Some bit_count)"

text \<open>
  The loop of the allocator runs up to \<^verbatim>\<open>BITMAP_SIZE\<close>, the number of bits, over an array of
  \<^verbatim>\<open>BITMAP_SIZE / 32\<close> words: an index past the array is a fault here.
\<close>

function find_empty_from :: "nat \<Rightarrow> fs_state \<Rightarrow> (u32 \<times> fs_state) result" where
  "find_empty_from i s =
     (if i < BITMAP_SIZE then
        andThen (array_get ''bitmap'' (bitmap s) i) (\<lambda>w.
          let j = NOT w in
          if j = 0 then find_empty_from (i + 1) s
          else case count_trailing j 0 of
            None \<Rightarrow> Inl (Diverges ''find_empty_inode'')
          | Some bit_count \<Rightarrow>
              Inr (push_bit 5 (of_nat i) + bit_count,
                   s\<lparr>state_bitmap := NEED_WASHING,
                     bitmap := (bitmap s)[i := w OR push_bit (unat bit_count) 1]\<rparr>))
      else Inl (Panic ''No more empty inode available''))"
  by pat_completeness auto
termination
  by (relation "measure (\<lambda>(i, s). BITMAP_SIZE - i)") auto

declare find_empty_from.simps [simp del]

definition find_empty_inode :: "fs_state \<Rightarrow> (u32 \<times> fs_state) result" where
  "find_empty_inode s =
     andThen (my_assert ''state_bitmap != GARBAGE'' (state_bitmap s \<noteq> GARBAGE))
       (\<lambda>_. find_empty_from 0 s)"

section \<open>The cached inode of a descriptor\<close>

definition zero_inode :: inode where
  "zero_inode = \<lparr>dataBlocks = replicate N_INODE_DATABLOCK 0, next_inode = 0\<rparr>"

definition fd_inode_flush :: "nat \<Rightarrow> fs_state \<Rightarrow> fs_state" where
  "fd_inode_flush fd s =
     (if inode_state (fd_pool s fd) = NEED_WASHING then
        let s1 = upd_fd fd (\<lambda>f. f\<lparr>inode_state := USEFUL\<rparr>) s
        in IDE_WRITE (inode_idx (fd_pool s1 fd)) (bytes_of_inode (inode (fd_pool s1 fd))) s1
      else s)"

definition fd_set_inode :: "nat \<Rightarrow> fs_state \<Rightarrow> fs_state result" where
  "fd_set_inode fd s =
     andThen (find_empty_inode s) (\<lambda>(n, s1).
       let s2 = upd_entry (index (fd_pool s1 fd)) (\<lambda>e. e\<lparr>inodeOffset := n\<rparr>) s1;
           s3 = upd_fd fd (\<lambda>f. f\<lparr>inode_idx := n\<rparr>) s2;
           s4 = s3\<lparr>state_dir := NEED_WASHING\<rparr>
       in Inr (upd_fd fd (\<lambda>f. f\<lparr>inode := zero_inode, inode_state := NEED_WASHING\<rparr>) s4))"

definition fd_alloc_next_inode :: "nat \<Rightarrow> fs_state \<Rightarrow> fs_state result" where
  "fd_alloc_next_inode fd s =
     (let s1 = upd_fd fd (\<lambda>f. f\<lparr>inode_state := NEED_WASHING\<rparr>) s
      in andThen (find_empty_inode s1) (\<lambda>(n, s2).
        let s3 = upd_fd fd (\<lambda>f. f\<lparr>inode := (inode f)\<lparr>next_inode := n\<rparr>\<rparr>) s2;
            s4 = fd_inode_flush fd s3;
            s5 = upd_fd fd (\<lambda>f. f\<lparr>inode_state := NEED_WASHING\<rparr>) s4;
            s6 = upd_fd fd (\<lambda>f. f\<lparr>inode_idx := next_inode (inode f)\<rparr>) s5
        in Inr (upd_fd fd (\<lambda>f. f\<lparr>inode := zero_inode\<rparr>) s6)))"

definition fd_load_inode :: "nat \<Rightarrow> u32 \<Rightarrow> fs_state \<Rightarrow> fs_state" where
  "fd_load_inode fd n s =
     upd_fd fd (\<lambda>f. f\<lparr>inode_state := USEFUL, inode_idx := n, inode := inode_of_bytes (IDE_READ n s)\<rparr>) s"

definition fd_inode_state_init :: "nat \<Rightarrow> fs_state \<Rightarrow> fs_state result" where
  "fd_inode_state_init fd s =
     andThen (my_assert ''offset % INODE_CAPACITY == 0''
                (offset (fd_pool s fd) mod of_nat INODE_CAPACITY = 0)) (\<lambda>_.
       if offset (fd_pool s fd) = 0 then
         if inodeOffset (fd_entry fd s) = -1 then fd_set_inode fd s
         else Inr (fd_load_inode fd (inodeOffset (fd_entry fd s)) s)
       else if next_inode (inode (fd_pool s fd)) = 0 then fd_alloc_next_inode fd s
       else Inr (fd_load_inode fd (next_inode (inode (fd_pool s fd))) s))"

section \<open>The cached sector of a descriptor\<close>

definition fd_buffer_flush :: "nat \<Rightarrow> fs_state \<Rightarrow> fs_state" where
  "fd_buffer_flush fd s =
     (let s1 = (if buffer_state (fd_pool s fd) = NEED_WASHING
                then IDE_WRITE (buffer_idx (fd_pool s fd)) (buffer (fd_pool s fd)) s else s)
      in upd_fd fd (\<lambda>f. f\<lparr>buffer_state := GARBAGE\<rparr>) s1)"

text \<open>Leaving the current inode: the first half of \<^verbatim>\<open>fd_buffer_fetch\<close>.\<close>

definition fd_enter_inode :: "nat \<Rightarrow> fs_state \<Rightarrow> fs_state result" where
  "fd_enter_inode fd s =
     (if offset (fd_pool s fd) mod of_nat INODE_CAPACITY = 0 then
        let s1 = fd_inode_flush fd s;
            s2 = upd_fd fd (\<lambda>f. f\<lparr>inode_state := GARBAGE\<rparr>) s1
        in fd_inode_state_init fd s2
      else Inr s)"

text \<open>Finding the block under the offset: the second half of \<^verbatim>\<open>fd_buffer_fetch\<close>.\<close>

definition fd_enter_block :: "nat \<Rightarrow> fs_state \<Rightarrow> fs_state result" where
  "fd_enter_block fd s =
     (let idx = unat (offset (fd_pool s fd) div of_nat SECTSIZE mod of_nat N_INODE_DATABLOCK);
          b = dataBlocks (inode (fd_pool s fd)) ! idx
      in andThen
        (if b = 0 then
           let s1 = upd_fd fd (\<lambda>f. f\<lparr>inode_state := NEED_WASHING\<rparr>) s
           in andThen (find_empty_inode s1) (\<lambda>(n, s2).
             Inr (upd_fd fd (\<lambda>f. f\<lparr>buffer_idx := n,
               inode := (inode f)\<lparr>dataBlocks := (dataBlocks (inode f))[idx := n]\<rparr>\<rparr>) s2))
         else Inr (upd_fd fd (\<lambda>f. f\<lparr>buffer_idx := b, buffer := IDE_READ b s\<rparr>) s))
        (\<lambda>s3. Inr (upd_fd fd (\<lambda>f. f\<lparr>buffer_state := USEFUL\<rparr>) s3)))"

definition fd_buffer_fetch :: "nat \<Rightarrow> fs_state \<Rightarrow> fs_state result" where
  "fd_buffer_fetch fd s =
     (if buffer_state (fd_pool s fd) = GARBAGE then
        andThen (my_assert ''offset % SECTSIZE == 0''
                   (offset (fd_pool s fd) mod of_nat SECTSIZE = 0)) (\<lambda>_.
          andThen (fd_enter_inode fd s) (fd_enter_block fd))
      else Inr s)"

section \<open>Opening a file\<close>

definition internal_open :: "nat \<Rightarrow> fs_state \<Rightarrow> fs_state" where
  "internal_open fd s =
     upd_fd fd (\<lambda>f. f\<lparr>buffer_state := GARBAGE, inode_state := GARBAGE, offset := 0, opened := True\<rparr>) s"

text \<open>\<^verbatim>\<open>for (int j = 0; j < FDPOOL_SIZE; ++j) if (!fd_pool[j].opened)\<close>: the first closed descriptor.\<close>

function first_closed :: "nat \<Rightarrow> fs_state \<Rightarrow> nat option" where
  "first_closed j s =
     (if j < FDPOOL_SIZE then
        if \<not> opened (fd_pool s j) then Some j else first_closed (j + 1) s
      else None)"
  by pat_completeness auto
termination
  by (relation "measure (\<lambda>(j, s). FDPOOL_SIZE - j)") auto

declare first_closed.simps [simp del]

text \<open>
  \<^verbatim>\<open>if (!(fd_pool[j].index = i) && (fd_pool[j].writable = (flags & O_RDWR) != 0)) return E_ACCESS;\<close>
  The second assignment runs only when \<^verbatim>\<open>i\<close> is 0.
\<close>

definition open_existing :: "nat \<Rightarrow> nat \<Rightarrow> u32 \<Rightarrow> fs_state \<Rightarrow> int \<times> fs_state" where
  "open_existing i j flags s =
     (let s1 = upd_fd j (\<lambda>f. f\<lparr>index := i\<rparr>) s;
          w = (flags AND O_RDWR \<noteq> 0);
          s2 = (if i = 0 then upd_fd j (\<lambda>f. f\<lparr>writable := w\<rparr>) s1 else s1)
      in if i = 0 \<and> w then (E_ACCESS, s2) else (int j, internal_open j s2))"

text \<open>What the search through the directory ends with: a return, or the first free slot.\<close>

datatype scan = Returned "int \<times> fs_state" | Slot "nat option"

function open_scan :: "u8 list \<Rightarrow> u32 \<Rightarrow> nat \<Rightarrow> nat option \<Rightarrow> fs_state \<Rightarrow> scan result" where
  "open_scan pathname flags i file_slot s =
     (if i < ENTRY_COUNT then
        let slot' = (if file_slot = None \<and> hd (fileName (dir s ! i)) = 0 then Some i else file_slot)
        in andThen (strncmp pathname (fileName (dir s ! i)) FILENAME_LENGTH) (\<lambda>c.
          if c = 0 then
            (case first_closed 0 s of
              Some j \<Rightarrow> Inr (Returned (open_existing i j flags s))
            | None \<Rightarrow> open_scan pathname flags (i + 1) slot' s)
          else open_scan pathname flags (i + 1) slot' s)
      else Inr (Slot file_slot))"
  by pat_completeness auto
termination
  by (relation "measure (\<lambda>(p, fl, i, sl, s). ENTRY_COUNT - i)") auto

declare open_scan.simps [simp del]

text \<open>A string literal, with its terminator.\<close>

definition c_string :: "string \<Rightarrow> u8 list" where
  "c_string str = map of_char str @ [0]"

definition open_create :: "u8 list \<Rightarrow> u32 \<Rightarrow> nat \<Rightarrow> fs_state \<Rightarrow> (int \<times> fs_state) result" where
  "open_create pathname flags slot s =
     andThen (strncmp pathname (c_string ''kernel.bin'') FILENAME_LENGTH) (\<lambda>c.
     andThen (my_assert ''file_slot'' (if c \<noteq> 0 then slot > 0 else slot = 0)) (\<lambda>_.
       case first_closed 0 s of
         None \<Rightarrow> Inr (E_NOENT, s)
       | Some j \<Rightarrow>
           let s1 = (upd_fd j (\<lambda>f. f\<lparr>index := slot\<rparr>) s)\<lparr>state_dir := NEED_WASHING\<rparr>;
               s2 = (if flags AND O_RDWR \<noteq> 0 then upd_fd j (\<lambda>f. f\<lparr>writable := True\<rparr>) s1 else s1);
               s3 = internal_open j s2;
               s4 = upd_entry slot (\<lambda>e. e\<lparr>inodeOffset := -1, fileSize := 0\<rparr>) s3
           in andThen (strncpy (fileName (dir s4 ! slot)) pathname FILENAME_LENGTH) (\<lambda>nm.
                Inr (int j, upd_entry slot (\<lambda>e. e\<lparr>fileName := nm\<rparr>) s4))))"

text \<open>\<^verbatim>\<open>pathname\<close> is \<open>None\<close> for a null pointer, else the array it points to.\<close>

definition fs_open :: "u8 list option \<Rightarrow> u32 \<Rightarrow> fs_state \<Rightarrow> (int \<times> fs_state) result" where
  "fs_open pathname flags s =
     (case pathname of
        None \<Rightarrow> Inr (E_EMPTYPATH, s)
      | Some p \<Rightarrow>
          andThen (array_get ''pathname'' p 0) (\<lambda>c.
          if c = 0 then Inr (E_EMPTYPATH, s)
          else andThen (open_scan p flags 0 None s) (\<lambda>r.
            case r of
              Returned ret \<Rightarrow> Inr ret
            | Slot file_slot \<Rightarrow>
                if flags AND O_CREAT = 0 then Inr (E_NOENT, s)
                else (case file_slot of
                  None \<Rightarrow> Inr (E_DQUOT, s)
                | Some slot \<Rightarrow> open_create p flags slot s))))"

section \<open>Reading, writing, seeking, closing\<close>

text \<open>
  The descriptor is a C \<^verbatim>\<open>int\<close>; a value that is no index of \<^verbatim>\<open>fd_pool\<close> is an access outside it.
\<close>

definition fd_check :: "nat \<Rightarrow> unit result" where
  "fd_check fd = (if fd < FDPOOL_SIZE then Inr () else Inl (Out_of_bounds ''fd_pool''))"

definition fd_opened :: "nat \<Rightarrow> fs_state \<Rightarrow> unit result" where
  "fd_opened fd s = andThen (fd_check fd) (\<lambda>_. my_assert ''opened'' (opened (fd_pool s fd)))"

text \<open>Both loops below move at least one byte, and stop at the end of the sector.\<close>

lemma chunk_progress:
  fixes w :: u32
  assumes "n < len"
  shows "nat (len - (n + min (len - n) (int SECTSIZE - int (unat (w mod of_nat SECTSIZE)))))
    < nat (len - n)"
proof -
  have "uint (w mod 512) < 512" by (simp add: uint_mod)
  with assms show ?thesis by simp
qed

text \<open>
  The loop of \<^verbatim>\<open>fs_read\<close>. The bytes copied to the caller's buffer so far are \<open>buf\<close>; \<^verbatim>\<open>n_read\<close> of
  them are there.
\<close>

function fs_read_loop :: "nat \<Rightarrow> int \<Rightarrow> int \<Rightarrow> u8 list \<Rightarrow> fs_state
    \<Rightarrow> (int \<times> u8 list \<times> fs_state) result" where
  "fs_read_loop fd len n_read buf s =
     (if n_read < len then
        andThen (fd_buffer_fetch fd s) (\<lambda>s1.
          let off = unat (offset (fd_pool s1 fd) mod of_nat SECTSIZE);
              count = min (len - n_read) (int SECTSIZE - int off);
              s2 = upd_fd fd (\<lambda>f. f\<lparr>offset := offset f + of_int count\<rparr>) s1;
              buf' = buf @ take (nat count) (drop off (buffer (fd_pool s2 fd)));
              n' = n_read + count;
              s3 = (if offset (fd_pool s2 fd) mod of_nat SECTSIZE = 0 then fd_buffer_flush fd s2 else s2)
          in fs_read_loop fd len n' buf' s3)
      else Inr (n_read, buf, s))"
  by pat_completeness auto
termination
  by (relation "measure (\<lambda>(fd, len, n_read, buf, s). nat (len - n_read))")
    (simp_all only: in_measure split_conv wf_measure chunk_progress)

declare fs_read_loop.simps [simp del]

definition fs_read :: "nat \<Rightarrow> int \<Rightarrow> fs_state \<Rightarrow> (int \<times> u8 list \<times> fs_state) result" where
  "fs_read fd len s =
     andThen (fd_opened fd s) (\<lambda>_.
       fs_read_loop fd (min len (sint (fileSize (fd_entry fd s) - offset (fd_pool s fd)))) 0 [] s)"

function fs_write_loop :: "nat \<Rightarrow> u8 list \<Rightarrow> int \<Rightarrow> int \<Rightarrow> fs_state \<Rightarrow> (int \<times> fs_state) result" where
  "fs_write_loop fd buf len res s =
     (if res < len then
        let off = unat (offset (fd_pool s fd) mod of_nat SECTSIZE);
            count = min (len - res) (int SECTSIZE - int off)
        in andThen (fd_buffer_fetch fd s) (\<lambda>s1.
          let s2 = upd_fd fd (\<lambda>f. f\<lparr>buffer_state := NEED_WASHING, offset := offset f + of_int count\<rparr>) s1
          in if nat (res + count) > length buf then Inl (Out_of_bounds ''fs_write'')
          else
            let s3 = upd_fd fd (\<lambda>f. f\<lparr>buffer :=
                  splice_at off (take (nat count) (drop (nat res) buf)) (buffer f)\<rparr>) s2;
                res' = res + count;
                s4 = (if fileSize (fd_entry fd s3) < offset (fd_pool s3 fd)
                      then (upd_entry (index (fd_pool s3 fd))
                              (\<lambda>e. e\<lparr>fileSize := offset (fd_pool s3 fd)\<rparr>) s3)\<lparr>state_dir := NEED_WASHING\<rparr>
                      else s3);
                s5 = (if int off + count = int SECTSIZE then fd_buffer_flush fd s4 else s4)
            in fs_write_loop fd buf len res' s5)
      else Inr (res, s))"
  by pat_completeness auto
termination
  by (relation "measure (\<lambda>(fd, buf, len, res, s). nat (len - res))")
    (simp_all only: in_measure split_conv wf_measure chunk_progress)

declare fs_write_loop.simps [simp del]

definition fs_write :: "nat \<Rightarrow> u8 list \<Rightarrow> int \<Rightarrow> fs_state \<Rightarrow> (int \<times> fs_state) result" where
  "fs_write fd buf len s =
     andThen (fd_opened fd s) (\<lambda>_.
     andThen (my_assert ''writable'' (writable (fd_pool s fd))) (\<lambda>_.
       fs_write_loop fd buf len 0 s))"

definition fs_lseek :: "nat \<Rightarrow> int \<Rightarrow> int \<Rightarrow> fs_state \<Rightarrow> (int \<times> fs_state) result" where
  "fs_lseek fd off whence s =
     andThen (fd_opened fd s) (\<lambda>_.
       if whence = SEEK_SET then
         Inr (0, upd_fd fd (\<lambda>f. f\<lparr>offset := 0, inode_state := GARBAGE\<rparr>)
                   (fd_inode_flush fd (fd_buffer_flush fd s)))
       else if whence = SEEK_CUR then
         Inr (0, upd_fd fd (\<lambda>f. f\<lparr>offset := offset f + of_int off\<rparr>) s)
       else if whence = SEEK_END then
         Inr (0, upd_fd fd (\<lambda>f. f\<lparr>offset := offset f + (fileSize (fd_entry fd s) + of_int off)\<rparr>) s)
       else Inl (Assert_failed ''0''))"

definition fs_close :: "nat \<Rightarrow> fs_state \<Rightarrow> (int \<times> fs_state) result" where
  "fs_close fd s =
     andThen (fd_opened fd s) (\<lambda>_.
       let s1 = upd_fd fd (\<lambda>f. f\<lparr>opened := False\<rparr>) s;
           s2 = fd_inode_flush fd s1;
           s3 = fd_buffer_flush fd s2;
           s4 = fs_flush s3
       in Inr (0, s4))"


section \<open>Properties\<close>

text \<open>The three metadata sectors survive the disk: a directory, an inode and a bitmap of
  the right sizes are each one sector long, and reading the sector back after it was written
  decodes to the same structure, field by field, little-endian.\<close>

lemma metadata_round_trip:
  assumes "dir_wf d" "inode_wf i" "bitmap_wf b"
  shows "length (bytes_of_dir d) = SECTSIZE \<and> length (bytes_of_inode i) = SECTSIZE
    \<and> length (bytes_of_bitmap b) = SECTSIZE
    \<and> dir_of_bytes (disk_read n (disk_write n (bytes_of_dir d) dsk)) = d
    \<and> inode_of_bytes (disk_read n (disk_write n (bytes_of_inode i) dsk)) = i
    \<and> bitmap_of_bytes (disk_read n (disk_write n (bytes_of_bitmap b) dsk)) = b"
  using assms dir.enc_sector dir.load_store inode.enc_sector inode.load_store bitmap.enc_sector
    bitmap.load_store by simp

lemma metadata_round_trip_witness:
  "inode_of_bytes (disk_read 7 (disk_write 7
     (bytes_of_inode \<lparr>dataBlocks = replicate 127 258, next_inode = 9\<rparr>) (\<lambda>_. []))) =
   \<lparr>dataBlocks = replicate 127 258, next_inode = 9\<rparr>"
proof -
  have "dir_wf (replicate 16 \<lparr>fileName = replicate 24 0, fileSize = 3, inodeOffset = 4\<rparr>)"
    by (simp add: dir_wf_def dirent_wf_def)
  moreover have "inode_wf \<lparr>dataBlocks = replicate 127 258, next_inode = 9\<rparr>" by (simp add: inode_wf_def)
  moreover have "bitmap_wf (replicate 128 5)" by (simp add: bitmap_wf_def)
  ultimately show ?thesis using metadata_round_trip by blast
qed

end
