(* ===== verification/Fs_Alloc.thy ===== *)
theory Fs_Alloc
  imports Fs
begin

text \<open>
  The block allocator of \<^verbatim>\<open>kernel/fs.c\<close> (\<^verbatim>\<open>find_empty_inode\<close>): what a bitmap says about a
  block, which block the two nested loops find, and the contract of an allocator as a
  locale, with the facts about allocating several blocks proved once from the contract.
\<close>

section \<open>Reading the bitmap\<close>

definition used :: "bitmap \<Rightarrow> u32 \<Rightarrow> bool" where
  "used bm n \<longleftrightarrow> unat n < BITMAP_SIZE \<and> bit (bm ! (unat n div 32)) (unat n mod 32)"

definition mark :: "u32 \<Rightarrow> bitmap \<Rightarrow> bitmap" where
  "mark n bm = bm[unat n div 32 := bm ! (unat n div 32) OR push_bit (unat n mod 32) 1]"

definition free_blocks :: "bitmap \<Rightarrow> nat" where
  "free_blocks bm = length (filter (\<lambda>k. \<not> used bm (of_nat k)) [0..<BITMAP_SIZE])"

lemma used_bound: "used bm n \<Longrightarrow> unat n < 4096"
  by (simp add: used_def)

lemma mark_wf [simp]: "bitmap_wf (mark n bm) = bitmap_wf bm"
  by (simp add: bitmap_wf_def mark_def)

lemma used_mark:
  assumes "bitmap_wf bm" "unat n < 4096"
  shows "used (mark n bm) m \<longleftrightarrow> m = n \<or> used bm m"
proof (cases "unat m < 4096 \<and> unat m div 32 = unat n div 32")
  case True
  then have "unat m div 32 < length bm" using assms by (simp add: bitmap_wf_def)
  moreover have "m = n \<longleftrightarrow> unat m mod 32 = unat n mod 32"
    using True by (metis div_mult_mod_eq unat_eq_iff)
  ultimately show ?thesis
    using True by (auto simp: used_def mark_def bit_simps)
next
  case False
  then show ?thesis using assms by (auto simp: used_def mark_def)
qed

lemma free_blocks_card:
  "free_blocks bm = card {n :: u32. unat n < 4096 \<and> \<not> used bm n}"
proof -
  let ?A = "{k. k < 4096 \<and> \<not> used bm (of_nat k)}"
  have "set (filter (\<lambda>k. \<not> used bm (of_nat k)) [0..<4096]) = ?A" by auto
  then have "free_blocks bm = card ?A"
    using distinct_card [of "filter (\<lambda>k. \<not> used bm (of_nat k)) [0..<4096]"]
    by (simp add: free_blocks_def)
  also have "\<dots> = card ((of_nat :: nat \<Rightarrow> u32) ` ?A)"
    by (rule card_image [symmetric], rule inj_onI) (auto dest: arg_cong [where f = unat])
  also have "(of_nat :: nat \<Rightarrow> u32) ` ?A = {n :: u32. unat n < 4096 \<and> \<not> used bm n}"
    by (auto intro!: image_eqI [where x = "unat n" for n])
  finally show ?thesis .
qed

lemma free_blocks_mark:
  assumes "bitmap_wf bm" "unat n < 4096" "\<not> used bm n"
  shows "free_blocks (mark n bm) = free_blocks bm - 1"
proof -
  have "{m :: u32. unat m < 4096 \<and> \<not> used (mark n bm) m}
      = {m. unat m < 4096 \<and> \<not> used bm m} - {n}"
    using assms by (auto simp: used_mark)
  then show ?thesis
    using assms by (simp add: free_blocks_card)
qed

lemma free_blocks_pos_iff: "0 < free_blocks bm \<longleftrightarrow> (\<exists>n. unat n < 4096 \<and> \<not> used bm n)"
  by (auto simp: free_blocks_card card_gt_0_iff)

section \<open>The two loops\<close>

lemma count_trailing_spec:
  assumes "bit j k" "\<And>m. m < k \<Longrightarrow> \<not> bit j m"
  shows "count_trailing j c = Some (c + of_nat k)"
  using assms
proof (induction k arbitrary: j c)
  case 0
  then have "j AND 1 \<noteq> 0" by (simp add: and_one_eq bit_0 odd_iff_mod_2_eq_one)
  then show ?case by (subst count_trailing.simps) simp
next
  case (Suc k)
  have "\<not> bit j 0" using Suc.prems(2) by blast
  then have even: "j AND 1 = 0" by (simp add: and_one_eq bit_0 even_iff_mod_2_eq_zero)
  have "count_trailing (drop_bit 1 j) (c + 1) = Some (c + 1 + of_nat k)"
    by (rule Suc.IH) (use Suc.prems in \<open>auto simp: bit_simps\<close>)
  with even show ?case by (subst count_trailing.simps) simp
qed

text \<open>The inner loop ends on every word the outer one hands to it.\<close>

lemma lowest_bit:
  fixes j :: u32
  assumes "j \<noteq> 0"
  obtains k where "k < 32" "bit j k" "\<And>m. m < k \<Longrightarrow> \<not> bit j m"
proof -
  from assms obtain k where "bit j k" by (metis bit_eqI bit_0_eq bot_apply bot_bool_def)
  then have least: "bit j (LEAST k. bit j k)" by (rule LeastI)
  moreover have "(LEAST k. bit j k) < 32" using least by (auto dest: bit_imp_le_length)
  ultimately show thesis by (metis that not_less_Least)
qed

lemma bit_of_full:
  fixes w :: u32
  assumes "NOT w = 0" "k < 32"
  shows "bit w k"
proof -
  have "\<not> bit (NOT w) k" using assms(1) by simp
  with assms(2) show ?thesis by (simp add: bit_not_iff)
qed

lemma full_of_bits:
  fixes w :: u32
  assumes "\<And>k. k < 32 \<Longrightarrow> bit w k"
  shows "NOT w = 0"
  by (rule bit_word_eqI) (use assms in \<open>auto simp: bit_simps\<close>)

text \<open>Block \<open>n\<close> is bit \<open>n mod 32\<close> of word \<open>n div 32\<close>.\<close>

lemma block_of_word_bit:
  fixes n :: u32
  shows "push_bit 5 (of_nat (unat n div 32)) + of_nat (unat n mod 32) = n"
proof -
  have "push_bit 5 (of_nat (unat n div 32)) + of_nat (unat n mod 32)
      = (of_nat (unat n div 32) * 32 + of_nat (unat n mod 32) :: u32)"
    by (simp add: push_bit_eq_mult)
  also have "\<dots> = of_nat (unat n div 32 * 32 + unat n mod 32)"
    by (simp only: of_nat_add of_nat_mult of_nat_numeral)
  finally show ?thesis by (simp only: div_mult_mod_eq) simp
qed

lemma used_word_bit:
  "\<lbrakk>q < 4096; q div 32 = i; q mod 32 = k\<rbrakk> \<Longrightarrow> used bm (of_nat q) \<longleftrightarrow> bit (bm ! i) k"
  by (auto simp: used_def)

lemma word_full:
  assumes "\<And>q. q < N \<Longrightarrow> used bm (of_nat q)" "32 * i + 32 \<le> N" "i < 128"
  shows "NOT (bm ! i) = 0"
proof (rule full_of_bits)
  fix k :: nat
  assume k: "k < 32"
  define q where "q = 32 * i + k"
  have "q < N" "q < 4096" "q div 32 = i" "q mod 32 = k"
    using k assms by (auto simp: q_def)
  with assms(1) [of q] show "bit (bm ! i) k" using used_word_bit [of q i k bm] by blast
qed

lemma find_empty_from_spec:
  assumes wf: "bitmap_wf (bitmap s)" and n: "unat n < 4096" "\<not> used (bitmap s) n"
    and least: "\<And>q. q < unat n \<Longrightarrow> used (bitmap s) (of_nat q)"
    and i: "i \<le> unat n div 32"
  shows "find_empty_from i s =
    Inr (n, s\<lparr>state_bitmap := NEED_WASHING, bitmap := mark n (bitmap s)\<rparr>)"
  using i
proof (induction "unat n div 32 - i" arbitrary: i)
  case 0
  let ?w = "bitmap s ! i" and ?k = "unat n mod 32"
  have i: "i = unat n div 32" "i < 128" using 0 n by simp_all
  have "bit (NOT ?w) ?k"
    using n i by (simp add: used_def bit_not_iff)
  moreover have "\<not> bit (NOT ?w) m" if "m < ?k" for m
  proof -
    define q where "q = 32 * i + m"
    have q: "q < unat n" "q div 32 = i" "q mod 32 = m"
      using that i by (auto simp: q_def) (metis add_strict_left_mono mult_div_mod_eq)
    then have "bit ?w m" using least [of q] n used_word_bit [of q i m] by simp
    then show ?thesis by (simp add: bit_not_iff)
  qed
  ultimately have "count_trailing (NOT ?w) 0 = Some (of_nat ?k)" and "NOT ?w \<noteq> 0"
    using count_trailing_spec [of "NOT ?w" ?k 0] by auto
  with wf i show ?case
    by (subst find_empty_from.simps)
      (simp add: array_get_def bitmap_wf_def mark_def block_of_word_bit)
next
  case (Suc d)
  have i: "i < unat n div 32" "i < 128" using Suc.hyps(2) n by simp_all
  then have "32 * i + 32 \<le> unat n" by linarith
  then have "NOT (bitmap s ! i) = 0" using least i by (auto intro: word_full)
  moreover have "find_empty_from (i + 1) s =
      Inr (n, s\<lparr>state_bitmap := NEED_WASHING, bitmap := mark n (bitmap s)\<rparr>)"
    using Suc by simp
  ultimately show ?case
    using wf i by (subst find_empty_from.simps) (simp add: array_get_def bitmap_wf_def)
qed

text \<open>
  With every bit set, the loop leaves the array before it reaches the panic it means to
  call: \<^verbatim>\<open>i\<close> counts words and is compared with the number of bits.
\<close>

lemma find_empty_from_full:
  assumes "bitmap_wf (bitmap s)" "free_blocks (bitmap s) = 0" "i \<le> 128"
  shows "find_empty_from i s = Inl (Out_of_bounds ''bitmap'')"
  using assms(3)
proof (induction "128 - i" arbitrary: i)
  case 0
  with assms show ?case
    by (subst find_empty_from.simps) (simp add: array_get_def bitmap_wf_def)
next
  case (Suc d)
  then have i: "i < 128" by simp
  have "used (bitmap s) (of_nat q)" if "q < 4096" for q
    using assms(2) that free_blocks_pos_iff [of "bitmap s"] by auto
  then have "NOT (bitmap s ! i) = 0" using i by (auto intro: word_full [of 4096])
  with Suc i assms show ?case
    by (subst find_empty_from.simps) (simp add: array_get_def bitmap_wf_def)
qed

section \<open>What the allocator returns\<close>

lemma find_empty_inode_ok:
  assumes "bitmap_wf (bitmap s)" "state_bitmap s \<noteq> GARBAGE" "0 < free_blocks (bitmap s)"
  obtains n where "find_empty_inode s =
      Inr (n, s\<lparr>state_bitmap := NEED_WASHING, bitmap := mark n (bitmap s)\<rparr>)"
    and "unat n < 4096" "\<not> used (bitmap s) n" "\<And>m. unat m < unat n \<Longrightarrow> used (bitmap s) m"
proof -
  define l where "l = (LEAST k. k < 4096 \<and> \<not> used (bitmap s) (of_nat k))"
  from assms obtain m where "unat m < 4096" "\<not> used (bitmap s) m"
    by (auto simp: free_blocks_pos_iff)
  then have "unat m < 4096 \<and> \<not> used (bitmap s) (of_nat (unat m))" by simp
  then have l: "l < 4096 \<and> \<not> used (bitmap s) (of_nat l)"
    unfolding l_def by (rule LeastI)
  have low: "used (bitmap s) (of_nat q)" if "q < l" for q
    using not_less_Least [of q "\<lambda>k. k < 4096 \<and> \<not> used (bitmap s) (of_nat k)"] that l
    by (auto simp: l_def)
  have "find_empty_inode s =
      Inr (of_nat l, s\<lparr>state_bitmap := NEED_WASHING, bitmap := mark (of_nat l) (bitmap s)\<rparr>)"
    using find_empty_from_spec [of s "of_nat l" 0] assms l low
    by (simp add: find_empty_inode_def)
  moreover have "used (bitmap s) m" if "unat m < l" for m
    using low [OF that] by simp
  ultimately show thesis using that [of "of_nat l"] l by simp
qed

text \<open>The lowest free block.\<close>

definition lowest :: "bitmap \<Rightarrow> u32 \<Rightarrow> bool" where
  "lowest bm n \<longleftrightarrow> unat n < 4096 \<and> \<not> used bm n \<and> (\<forall>m. unat m < unat n \<longrightarrow> used bm m)"

lemma lowest_unique: "lowest bm m \<Longrightarrow> lowest bm n \<Longrightarrow> m = n"
  unfolding lowest_def by (metis linorder_neqE_nat unsigned_word_eqI)

lemma find_empty_inode_garbage:
  "state_bitmap s = GARBAGE \<Longrightarrow>
    find_empty_inode s = Inl (Assert_failed ''state_bitmap != GARBAGE'')"
  by (simp add: find_empty_inode_def)

section \<open>The contract of an allocator\<close>

locale allocator =
  fixes alloc :: "'s \<Rightarrow> (u32 \<times> 's) result"
    and taken :: "'s \<Rightarrow> u32 set"
    and ready :: "'s \<Rightarrow> bool"
    and room :: "'s \<Rightarrow> nat"
  assumes alloc_fresh: "\<lbrakk>ready s; 0 < room s\<rbrakk> \<Longrightarrow>
      \<exists>n s'. alloc s = Inr (n, s') \<and> n \<notin> taken s \<and> taken s' = insert n (taken s)
        \<and> ready s' \<and> Suc (room s') = room s"
    and alloc_exhausted: "\<lbrakk>ready s; room s = 0\<rbrakk> \<Longrightarrow> \<exists>e. alloc s = Inl e"
begin

fun alloc_many :: "nat \<Rightarrow> 's \<Rightarrow> (u32 list \<times> 's) result" where
  "alloc_many 0 s = Inr ([], s)"
| "alloc_many (Suc k) s = andThen (alloc s) (\<lambda>(n, s1).
     andThen (alloc_many k s1) (\<lambda>(ns, s2). Inr (n # ns, s2)))"

lemma alloc_many_ok:
  assumes "ready s" "k \<le> room s"
  shows "\<exists>ns s'. alloc_many k s = Inr (ns, s') \<and> length ns = k \<and> distinct ns
    \<and> set ns \<inter> taken s = {} \<and> taken s' = taken s \<union> set ns
    \<and> ready s' \<and> room s' + k = room s"
  using assms
proof (induction k arbitrary: s)
  case 0
  then show ?case by simp
next
  case (Suc k)
  then obtain n s1 where a: "alloc s = Inr (n, s1)" "n \<notin> taken s"
      "taken s1 = insert n (taken s)" "ready s1" "Suc (room s1) = room s"
    using alloc_fresh [of s] by auto
  moreover from a Suc obtain ns s' where "alloc_many k s1 = Inr (ns, s')" "length ns = k"
      "distinct ns" "set ns \<inter> taken s1 = {}" "taken s' = taken s1 \<union> set ns"
      "ready s'" "room s' + k = room s1"
    using Suc.IH [of s1] by auto
  ultimately show ?case by auto
qed

lemma alloc_many_iff:
  assumes "ready s"
  shows "(\<exists>r. alloc_many k s = Inr r) \<longleftrightarrow> k \<le> room s"
proof
  show "k \<le> room s \<Longrightarrow> \<exists>r. alloc_many k s = Inr r"
    using alloc_many_ok [OF assms] by blast
next
  assume "\<exists>r. alloc_many k s = Inr r"
  then show "k \<le> room s"
    using assms
  proof (induction k arbitrary: s)
    case 0
    then show ?case by simp
  next
    case (Suc k)
    from Suc.prems have "0 < room s"
      using alloc_exhausted [of s] by (cases "room s = 0") auto
    with Suc.prems obtain n s1 where a: "alloc s = Inr (n, s1)" "ready s1" "Suc (room s1) = room s"
      using alloc_fresh [of s] by auto
    with Suc.prems have "\<exists>r. alloc_many k s1 = Inr r" by (auto simp: andThen_eq_Inr)
    with Suc.IH [of s1] a show ?case by auto
  qed
qed

end

definition fs_taken :: "fs_state \<Rightarrow> u32 set" where
  "fs_taken s = {n. used (bitmap s) n}"

definition fs_alloc_ready :: "fs_state \<Rightarrow> bool" where
  "fs_alloc_ready s \<longleftrightarrow> bitmap_wf (bitmap s) \<and> state_bitmap s \<noteq> GARBAGE"

definition fs_room :: "fs_state \<Rightarrow> nat" where
  "fs_room s = free_blocks (bitmap s)"

interpretation blocks: allocator find_empty_inode fs_taken fs_alloc_ready fs_room
proof
  fix s
  assume r: "fs_alloc_ready s" and pos: "0 < fs_room s"
  then obtain n where n: "find_empty_inode s =
      Inr (n, s\<lparr>state_bitmap := NEED_WASHING, bitmap := mark n (bitmap s)\<rparr>)"
      "unat n < 4096" "\<not> used (bitmap s) n"
    by (auto simp: fs_alloc_ready_def fs_room_def elim: find_empty_inode_ok)
  with r pos show "\<exists>n s'. find_empty_inode s = Inr (n, s') \<and> n \<notin> fs_taken s
      \<and> fs_taken s' = insert n (fs_taken s) \<and> fs_alloc_ready s' \<and> Suc (fs_room s') = fs_room s"
    by (auto simp: fs_alloc_ready_def fs_taken_def fs_room_def used_mark free_blocks_mark)
next
  fix s
  assume "fs_alloc_ready s" "fs_room s = 0"
  then show "\<exists>e. find_empty_inode s = Inl e"
    by (simp add: fs_alloc_ready_def fs_room_def find_empty_inode_def find_empty_from_full)
qed


section \<open>Properties\<close>

text \<open>The allocator returns the lowest free block, marks exactly it in the cached bitmap
  and the bitmap dirty, and leaves the rest of the state alone; both its loops end.\<close>

lemma allocator_takes_lowest:
  assumes "bitmap_wf (bitmap s)" "state_bitmap s \<noteq> GARBAGE" "0 < free_blocks (bitmap s)"
  shows "\<exists>n. find_empty_inode s = Inr (n, s\<lparr>state_bitmap := NEED_WASHING, bitmap := mark n (bitmap s)\<rparr>)
    \<and> unat n < 4096 \<and> \<not> used (bitmap s) n \<and> (\<forall>m < n. used (bitmap s) m)
    \<and> (\<forall>m. used (mark n (bitmap s)) m = (m = n \<or> used (bitmap s) m))
    \<and> Suc (free_blocks (mark n (bitmap s))) = free_blocks (bitmap s)"
proof -
  obtain n where n: "find_empty_inode s = Inr (n, s\<lparr>state_bitmap := NEED_WASHING, bitmap := mark n (bitmap s)\<rparr>)"
    "unat n < 4096" "\<not> used (bitmap s) n" "\<And>m. unat m < unat n \<Longrightarrow> used (bitmap s) m"
    using find_empty_inode_ok [OF assms] by metis
  then show ?thesis
    using assms by (intro exI [of _ n]) (simp add: used_mark free_blocks_mark word_less_nat_alt)
qed

definition alloc_sample :: fs_state where
  "alloc_sample = \<lparr>bitmap = (replicate 128 0)[0 := 7], dir = [], state_bitmap = USEFUL, state_dir = USEFUL,
     fd_pool = undefined, disk = undefined\<rparr>"

lemma allocator_takes_lowest_witness:
  "\<exists>n s'. find_empty_inode alloc_sample = Inr (n, s') \<and> \<not> used (bitmap alloc_sample) n \<and> used (bitmap s') n"
proof -
  have "\<not> used (bitmap alloc_sample) 100" by (simp add: used_def alloc_sample_def)
  then have "0 < free_blocks (bitmap alloc_sample)"
    unfolding free_blocks_pos_iff by (intro exI [of _ 100]) simp
  moreover have "bitmap_wf (bitmap alloc_sample)" by (simp add: bitmap_wf_def alloc_sample_def)
  moreover have "state_bitmap alloc_sample \<noteq> GARBAGE" by (simp add: alloc_sample_def)
  ultimately show ?thesis using allocator_takes_lowest [of alloc_sample] by auto
qed

text \<open>C18. On a full disk the allocator does not reach the panic it ends with: its loop counts
  words up to the number of bits, and reads behind the bitmap array.\<close>

theorem allocator_full_overruns:
  assumes "bitmap_wf (bitmap s)" "state_bitmap s \<noteq> GARBAGE" "free_blocks (bitmap s) = 0"
  shows "find_empty_inode s = Inl (Out_of_bounds ''bitmap'')"
  using find_empty_from_full [OF assms(1,3), of 0] assms(2) by (simp add: find_empty_inode_def)

definition full_sample :: fs_state where
  "full_sample = \<lparr>bitmap = replicate 128 (-1), dir = [], state_bitmap = USEFUL, state_dir = USEFUL,
     fd_pool = undefined, disk = undefined\<rparr>"

theorem allocator_full_overruns_witness:
  "find_empty_inode full_sample = Inl (Out_of_bounds ''bitmap'')"
proof -
  have "used (bitmap full_sample) n" if "unat n < 4096" for n
    using that by (simp add: used_def full_sample_def)
  then have "free_blocks (bitmap full_sample) = 0"
    using free_blocks_pos_iff [of "bitmap full_sample"] by auto
  then show ?thesis
    by (intro allocator_full_overruns) (simp_all add: bitmap_wf_def full_sample_def)
qed

end
