(* ===== verification/Fs_Rep.thy ===== *)
theory Fs_Rep
  imports Fs_Alloc
begin

text \<open>
  What a file is, for \<^verbatim>\<open>kernel/fs.c\<close>: the representation invariant that ties a descriptor's
  cached inode and sector, the directory, the bitmap and the disk to a list of inode
  sectors and a list of data sectors. The first sections compute what the small operations
  of the file do to the fields of the state; then come the invariant and the lemmas that
  \<^verbatim>\<open>fd_buffer_fetch\<close> keeps it, in the case where the block under the offset exists and in
  the case where it is allocated.
\<close>

section \<open>Fields after the small updates\<close>

lemma upd_fd_fields [simp]:
  "fd_pool (upd_fd fd f s) g = (if g = fd then f (fd_pool s fd) else fd_pool s g)"
  "bitmap (upd_fd fd f s) = bitmap s" "dir (upd_fd fd f s) = dir s"
  "state_bitmap (upd_fd fd f s) = state_bitmap s" "state_dir (upd_fd fd f s) = state_dir s"
  "disk (upd_fd fd f s) = disk s"
  by (simp_all add: upd_fd_def)

lemma upd_entry_fields [simp]:
  "fd_pool (upd_entry i u s) = fd_pool s" "bitmap (upd_entry i u s) = bitmap s"
  "dir (upd_entry i u s) = (dir s)[i := u (dir s ! i)]"
  "state_bitmap (upd_entry i u s) = state_bitmap s" "state_dir (upd_entry i u s) = state_dir s"
  "disk (upd_entry i u s) = disk s"
  by (simp_all add: upd_entry_def)

lemma IDE_WRITE_fields [simp]:
  "fd_pool (IDE_WRITE n b s) = fd_pool s" "bitmap (IDE_WRITE n b s) = bitmap s"
  "dir (IDE_WRITE n b s) = dir s" "state_bitmap (IDE_WRITE n b s) = state_bitmap s"
  "state_dir (IDE_WRITE n b s) = state_dir s"
  by (simp_all add: IDE_WRITE_def)

lemma IDE_READ_WRITE [simp]: "IDE_READ m (IDE_WRITE n b s) = (if m = n then b else IDE_READ m s)"
  by (simp add: IDE_READ_def IDE_WRITE_def disk_read_def disk_write_def)

lemma IDE_READ_cong [simp]:
  "IDE_READ n (upd_fd fd f s) = IDE_READ n s"
  "IDE_READ n (upd_entry i u s) = IDE_READ n s"
  "IDE_READ n (s\<lparr>state_bitmap := a, bitmap := b\<rparr>) = IDE_READ n s"
  "IDE_READ n (s\<lparr>state_dir := c\<rparr>) = IDE_READ n s"
  "IDE_READ n (s\<lparr>state_bitmap := a, state_dir := c\<rparr>) = IDE_READ n s"
  by (simp_all add: IDE_READ_def)

lemma fd_entry_upd_fd [simp]:
  "index (f (fd_pool s fd)) = index (fd_pool s fd) \<Longrightarrow> fd_entry g (upd_fd fd f s) = fd_entry g s"
  by (simp add: fd_entry_def)

lemma fd_entry_more [simp]:
  "fd_entry fd (IDE_WRITE n b s) = fd_entry fd s"
  "fd_entry fd (s\<lparr>state_bitmap := a, bitmap := bm\<rparr>) = fd_entry fd s"
  "fd_entry fd (s\<lparr>state_dir := c\<rparr>) = fd_entry fd s"
  by (simp_all add: fd_entry_def)

lemma fd_entry_upd_entry:
  "\<lbrakk>i = index (fd_pool s fd); i < length (dir s)\<rbrakk> \<Longrightarrow> fd_entry fd (upd_entry i u s) = u (fd_entry fd s)"
  by (simp add: fd_entry_def)

section \<open>The state as a whole\<close>

text \<open>
  Sizes of the arrays, caches that are loaded, and the two metadata caches agreeing with
  the disk unless they are marked for writing.
\<close>

definition sys_ok :: "fs_state \<Rightarrow> bool" where
  "sys_ok s \<longleftrightarrow> bitmap_wf (bitmap s) \<and> dir_wf (dir s) \<and> disk_ok (disk s)
     \<and> state_bitmap s \<noteq> GARBAGE \<and> state_dir s \<noteq> GARBAGE
     \<and> (state_dir s = USEFUL \<longrightarrow> dir_of_bytes (disk_read FSOFFSET_DIR (disk s)) = dir s)
     \<and> (state_bitmap s = USEFUL \<longrightarrow>
          bitmap_of_bytes (disk_read FSOFFSET_BITMAP (disk s)) = bitmap s)"

lemma sys_okD:
  assumes "sys_ok s"
  shows "bitmap_wf (bitmap s)" "dir_wf (dir s)" "disk_ok (disk s)"
    "state_bitmap s \<noteq> GARBAGE" "state_dir s \<noteq> GARBAGE"
  using assms by (simp_all add: sys_ok_def)

lemma dir_wf_length: "dir_wf d \<Longrightarrow> length d = 16"
  by (simp add: dir_wf_def)

lemma sys_ok_upd_fd [simp]: "sys_ok (upd_fd fd f s) = sys_ok s"
  by (simp add: sys_ok_def)

text \<open>Block \<open>n\<close> of the data region is not one of the metadata sectors.\<close>

lemma data_sector_not_meta:
  fixes n :: u32
  assumes "unat n < 4096"
  shows "n + 3 \<noteq> 1" "n + 3 \<noteq> 2" "1 \<noteq> n + 3" "2 \<noteq> n + 3"
proof -
  have "unat (n + 3) = unat n + 3"
    using unat_add_of_nat [of n 3] assms by simp
  then have "unat (n + 3) \<noteq> unat (1 :: u32)" "unat (n + 3) \<noteq> unat (2 :: u32)" by simp_all
  then show "n + 3 \<noteq> 1" "n + 3 \<noteq> 2" "1 \<noteq> n + 3" "2 \<noteq> n + 3" by metis+
qed

lemma sys_ok_IDE_WRITE:
  "\<lbrakk>sys_ok s; unat n < 4096; length b = 512\<rbrakk> \<Longrightarrow> sys_ok (IDE_WRITE n b s)"
  using disk.ok_wr [where d = "disk s" and n = "n + 3" and s = b]
  by (simp add: sys_ok_def IDE_WRITE_def disk_read_def data_sector_not_meta)
    (simp add: disk_write_def data_sector_not_meta)

lemma sys_ok_mark:
  "sys_ok s \<Longrightarrow> sys_ok (s\<lparr>state_bitmap := NEED_WASHING, bitmap := mark n (bitmap s)\<rparr>)"
  by (simp add: sys_ok_def)

lemma dir_wf_update: "\<lbrakk>dir_wf d; dirent_wf e\<rbrakk> \<Longrightarrow> dir_wf (d[i := e])"
  by (auto simp: dir_wf_def dest!: set_update_subset_insert [THEN subsetD])

lemma dir_wf_nth: "\<lbrakk>dir_wf d; i < 16\<rbrakk> \<Longrightarrow> dirent_wf (d ! i)"
  by (simp add: dir_wf_def)

lemma sys_ok_upd_entry:
  assumes "sys_ok s" "dirent_wf (u (dir s ! i))"
  shows "sys_ok ((upd_entry i u s)\<lparr>state_dir := NEED_WASHING\<rparr>)"
  using assms by (simp add: sys_ok_def dir_wf_update)

section \<open>The two views of the disk through a descriptor\<close>

text \<open>
  The inode and the sector a descriptor caches stand for what the disk holds at their
  numbers: reading through the descriptor prefers the cache.
\<close>

definition view_inode :: "fs_state \<Rightarrow> nat \<Rightarrow> u32 \<Rightarrow> inode" where
  "view_inode s fd n =
     (if inode_state (fd_pool s fd) \<noteq> GARBAGE \<and> inode_idx (fd_pool s fd) = n
      then inode (fd_pool s fd) else inode_of_bytes (IDE_READ n s))"

definition view_block :: "fs_state \<Rightarrow> nat \<Rightarrow> u32 \<Rightarrow> sector" where
  "view_block s fd b =
     (if buffer_state (fd_pool s fd) \<noteq> GARBAGE \<and> buffer_idx (fd_pool s fd) = b
      then buffer (fd_pool s fd) else IDE_READ b s)"

definition inode_coherent :: "fs_state \<Rightarrow> nat \<Rightarrow> bool" where
  "inode_coherent s fd \<longleftrightarrow> (inode_state (fd_pool s fd) = USEFUL \<longrightarrow>
     inode (fd_pool s fd) = inode_of_bytes (IDE_READ (inode_idx (fd_pool s fd)) s))"

definition buffer_coherent :: "fs_state \<Rightarrow> nat \<Rightarrow> bool" where
  "buffer_coherent s fd \<longleftrightarrow> (buffer_state (fd_pool s fd) = USEFUL \<longrightarrow>
     buffer (fd_pool s fd) = IDE_READ (buffer_idx (fd_pool s fd)) s)"

section \<open>What one step through a descriptor may change\<close>

text \<open>
  \<open>fs_step fd A s s'\<close>: the other descriptors, the other directory entries and the data
  sectors outside \<open>A\<close> are as before, no block is freed, and every block that became used
  is in \<open>A\<close>.
\<close>

definition fs_step :: "nat \<Rightarrow> u32 set \<Rightarrow> fs_state \<Rightarrow> fs_state \<Rightarrow> bool" where
  "fs_step fd A s s' \<longleftrightarrow>
     (\<forall>g. g \<noteq> fd \<longrightarrow> fd_pool s' g = fd_pool s g)
     \<and> (\<forall>n. n \<notin> A \<longrightarrow> IDE_READ n s' = IDE_READ n s)
     \<and> (\<forall>i. i \<noteq> index (fd_pool s fd) \<longrightarrow> dir s' ! i = dir s ! i)
     \<and> fileName (fd_entry fd s') = fileName (fd_entry fd s)
     \<and> index (fd_pool s' fd) = index (fd_pool s fd)
     \<and> opened (fd_pool s' fd) = opened (fd_pool s fd)
     \<and> writable (fd_pool s' fd) = writable (fd_pool s fd)
     \<and> (\<forall>n. used (bitmap s) n \<longrightarrow> used (bitmap s') n)
     \<and> (\<forall>n. used (bitmap s') n \<longrightarrow> used (bitmap s) n \<or> n \<in> A)"

lemma fs_step_refl: "fs_step fd A s s"
  by (simp add: fs_step_def)

lemma fs_step_trans:
  "\<lbrakk>fs_step fd A s s1; fs_step fd B s1 s2; A \<subseteq> C; B \<subseteq> C\<rbrakk> \<Longrightarrow> fs_step fd C s s2"
  unfolding fs_step_def by (elim conjE, intro conjI) (metis subsetD)+

lemma fs_step_mono: "\<lbrakk>fs_step fd A s s'; A \<subseteq> B\<rbrakk> \<Longrightarrow> fs_step fd B s s'"
  unfolding fs_step_def by blast

lemma fs_step_upd_fd:
  assumes "\<And>F. index (f F) = index F" "\<And>F. opened (f F) = opened F"
    "\<And>F. writable (f F) = writable F"
  shows "fs_step fd A s (upd_fd fd f s)"
  using assms by (simp add: fs_step_def)

lemma fs_step_IDE_WRITE: "n \<in> A \<Longrightarrow> fs_step fd A s (IDE_WRITE n b s)"
  by (simp add: fs_step_def)

lemma fs_step_mark:
  "\<lbrakk>bitmap_wf (bitmap s); unat n < 4096; n \<in> A\<rbrakk> \<Longrightarrow>
    fs_step fd A s (s\<lparr>state_bitmap := NEED_WASHING, bitmap := mark n (bitmap s)\<rparr>)"
  by (auto simp: fs_step_def used_mark)

lemma fs_step_upd_entry:
  assumes "dir_wf (dir s)" "i = index (fd_pool s fd)" "i < 16"
    and "fileName (u (dir s ! i)) = fileName (dir s ! i)"
  shows "fs_step fd A s ((upd_entry i u s)\<lparr>state_dir := NEED_WASHING\<rparr>)"
  using assms by (simp add: fs_step_def fd_entry_def dir_wf_length)

section \<open>The chain of inodes of a file\<close>

text \<open>
  \<open>ns\<close> are the inode sectors of a file in order, \<open>bl\<close> its data sectors in order, \<open>I\<close> what
  each inode sector holds. A slot past the last block is 0, and so is the link of the last
  inode, which is why block 0 can be neither a data sector nor a later inode.
\<close>

definition inode_at :: "u32 list \<Rightarrow> u32 list \<Rightarrow> nat \<Rightarrow> inode \<Rightarrow> bool" where
  "inode_at ns bl k i \<longleftrightarrow> inode_wf i
     \<and> next_inode i = (if Suc k < length ns then ns ! Suc k else 0)
     \<and> (\<forall>j < 127. dataBlocks i ! j = (if 127 * k + j < length bl then bl ! (127 * k + j) else 0))"

definition chain_ok :: "bitmap \<Rightarrow> (u32 \<Rightarrow> inode) \<Rightarrow> dirent \<Rightarrow> u32 list \<Rightarrow> u32 list \<Rightarrow> bool" where
  "chain_ok bm I e ns bl \<longleftrightarrow>
     inodeOffset e = (if ns = [] then -1 else hd ns)
     \<and> length bl \<le> 127 * length ns
     \<and> distinct (ns @ bl) \<and> (\<forall>n \<in> set (ns @ bl). used bm n)
     \<and> 0 \<notin> set bl \<and> 0 \<notin> set (tl ns) \<and> (ns \<noteq> [] \<longrightarrow> used bm 0)
     \<and> (\<forall>k < length ns. inode_at ns bl k (I (ns ! k)))"

lemma chain_okD:
  assumes "chain_ok bm I e ns bl"
  shows "length bl \<le> 127 * length ns" "distinct ns" "distinct bl" "set ns \<inter> set bl = {}"
    "0 \<notin> set bl" "0 \<notin> set (tl ns)" "ns \<noteq> [] \<Longrightarrow> used bm 0"
    "inodeOffset e = (if ns = [] then -1 else hd ns)"
    "\<And>k. k < length ns \<Longrightarrow> inode_at ns bl k (I (ns ! k))"
    "\<And>n. n \<in> set ns \<Longrightarrow> used bm n" "\<And>n. n \<in> set bl \<Longrightarrow> used bm n"
  using assms by (simp_all add: chain_ok_def)

lemma chain_cong:
  assumes "chain_ok bm I e ns bl" "\<And>n. n \<in> set ns \<Longrightarrow> I' n = I n"
    "inodeOffset e' = inodeOffset e" "\<And>n. used bm n \<Longrightarrow> used bm' n"
  shows "chain_ok bm' I' e' ns bl"
  using assms by (auto simp: chain_ok_def)

lemma inode_at_Suc_block:
  assumes "inode_at ns bl k i" "length bl div 127 \<noteq> k"
  shows "inode_at ns (bl @ [b]) k i"
proof -
  have "127 * k + j < length (bl @ [b]) \<longleftrightarrow> 127 * k + j < length bl" if "j < 127" for j
  proof -
    have "127 * k + j \<noteq> length bl" using assms(2) that by auto
    then show ?thesis by auto
  qed
  with assms(1) show ?thesis by (simp add: inode_at_def nth_append)
qed

text \<open>A further block, in the last inode of the chain.\<close>

lemma chain_extend_block:
  assumes ch: "chain_ok bm I e ns bl" and room: "length bl < 127 * length ns"
    and b: "b \<notin> set ns" "b \<notin> set bl" "b \<noteq> 0" "used bm' b"
    and bm: "\<And>n. used bm n \<Longrightarrow> used bm' n" and e: "inodeOffset e' = inodeOffset e"
    and k: "k = length bl div 127"
    and I: "I' (ns ! k) = (I (ns ! k))\<lparr>dataBlocks := (dataBlocks (I (ns ! k)))[length bl mod 127 := b]\<rparr>"
      "\<And>n. \<lbrakk>n \<in> set ns; n \<noteq> ns ! k\<rbrakk> \<Longrightarrow> I' n = I n"
  shows "chain_ok bm' I' e' ns (bl @ [b])"
proof -
  have kl: "k < length ns" using room k by auto
  have at: "inode_at ns bl j (I (ns ! j))" if "j < length ns" for j
    using ch that by (simp add: chain_ok_def)
  have "inode_at ns (bl @ [b]) j (I' (ns ! j))" if j: "j < length ns" for j
  proof (cases "j = k")
    case True
    have pos: "127 * k + i = length bl \<longleftrightarrow> i = length bl mod 127" if "i < 127" for i
      using k that by (metis add_left_cancel mult_div_mod_eq)
    show ?thesis
      unfolding True inode_at_def
    proof (intro conjI allI impI)
      show "inode_wf (I' (ns ! k))" and "next_inode (I' (ns ! k)) =
          (if Suc k < length ns then ns ! Suc k else 0)"
        using at [OF kl] I(1) by (simp_all add: inode_at_def inode_wf_def)
    next
      fix i :: nat
      assume i: "i < 127"
      have wf: "length (dataBlocks (I (ns ! k))) = 127"
        using at [OF kl] by (simp add: inode_at_def inode_wf_def)
      have old: "dataBlocks (I (ns ! k)) ! i = (if 127 * k + i < length bl then bl ! (127 * k + i) else 0)"
        using at [OF kl] i by (simp add: inode_at_def)
      show "dataBlocks (I' (ns ! k)) ! i =
          (if 127 * k + i < length (bl @ [b]) then (bl @ [b]) ! (127 * k + i) else 0)"
        using I(1) wf i old pos [OF i] by (auto simp: nth_list_update nth_append)
    qed
  next
    case False
    have "distinct ns" using ch by (simp add: chain_ok_def)
    then have "I' (ns ! j) = I (ns ! j)"
      using I(2) [of "ns ! j"] j kl False by (simp add: nth_eq_iff_index_eq)
    with False k at [OF j] show ?thesis by (simp add: inode_at_Suc_block)
  qed
  then show ?thesis
    using ch room b bm e by (auto simp: chain_ok_def)
qed

text \<open>A further inode, when the last one is full.\<close>

lemma chain_extend_inode:
  assumes ch: "chain_ok bm I e ns bl" and full: "length bl = 127 * length ns"
    and m: "m \<notin> set ns" "m \<notin> set bl" "ns \<noteq> [] \<Longrightarrow> m \<noteq> 0" "used bm' m" "used bm' 0"
    and bm: "\<And>n. used bm n \<Longrightarrow> used bm' n"
    and e: "inodeOffset e' = (if ns = [] then m else inodeOffset e)"
    and I: "I' m = zero_inode"
      "ns \<noteq> [] \<Longrightarrow> I' (last ns) = (I (last ns))\<lparr>next_inode := m\<rparr>"
      "\<And>n. \<lbrakk>n \<in> set (butlast ns)\<rbrakk> \<Longrightarrow> I' n = I n"
  shows "chain_ok bm' I' e' (ns @ [m]) bl"
proof -
  have at: "inode_at ns bl j (I (ns ! j))" if "j < length ns" for j
    using ch that by (simp add: chain_ok_def)
  have "inode_at (ns @ [m]) bl j (I' ((ns @ [m]) ! j))" if j: "j < length (ns @ [m])" for j
  proof -
    consider "j = length ns" | "Suc j = length ns" | "Suc j < length ns" using j by fastforce
    then show ?thesis
    proof cases
      case 1
      then show ?thesis
        using I(1) full by (simp add: inode_at_def zero_inode_def inode_wf_def nth_append)
    next
      case 2
      then have "ns \<noteq> []" "j = length ns - 1" by auto
      then have "ns ! j = last ns" by (simp add: last_conv_nth)
      with 2 I(2) \<open>ns \<noteq> []\<close> at [of j] show ?thesis
        by (simp add: inode_at_def inode_wf_def nth_append)
    next
      case 3
      then have "ns ! j \<in> set (butlast ns)"
        by (metis Suc_lessD in_set_conv_nth length_butlast less_diff_conv nth_butlast plus_1_eq_Suc add.commute)
      with 3 I(3) at [of j] show ?thesis
        by (simp add: inode_at_def nth_append)
    qed
  qed
  moreover have "0 \<notin> set (tl (ns @ [m]))"
    using ch m(3) by (cases ns) (auto simp: chain_ok_def)
  ultimately show ?thesis
    using ch full m bm e by (auto simp: chain_ok_def)
qed

end
