(* ===== verification/Fs_Fetch.thy ===== *)
theory Fs_Fetch
  imports Fs_Rep "HOL-Library.Sublist"
begin

text \<open>
  \<^verbatim>\<open>fd_buffer_fetch\<close> of \<^verbatim>\<open>kernel/fs.c\<close> against the representation invariant: it flushes and
  changes the cached inode when the offset crosses into the next one, and loads or allocates
  the block under the offset. Two cases are kept apart: the block exists
  (\<open>fetch_existing\<close>), or the offset is at the end of the last block and the file grows by
  one block, and by one inode when the last one is full (\<open>fetch_extend\<close>).
\<close>

section \<open>Fields after the flushes and the loads\<close>

lemma fd_inode_flush_fields [simp]:
  "fd_pool (fd_inode_flush fd s) g =
     (if g = fd \<and> inode_state (fd_pool s fd) = NEED_WASHING
      then (fd_pool s fd)\<lparr>inode_state := USEFUL\<rparr> else fd_pool s g)"
  "bitmap (fd_inode_flush fd s) = bitmap s" "dir (fd_inode_flush fd s) = dir s"
  "state_bitmap (fd_inode_flush fd s) = state_bitmap s"
  "state_dir (fd_inode_flush fd s) = state_dir s"
  "IDE_READ n (fd_inode_flush fd s) =
     (if inode_state (fd_pool s fd) = NEED_WASHING \<and> n = inode_idx (fd_pool s fd)
      then bytes_of_inode (inode (fd_pool s fd)) else IDE_READ n s)"
  by (simp_all add: fd_inode_flush_def)

lemma fd_buffer_flush_fields [simp]:
  "fd_pool (fd_buffer_flush fd s) g =
     (if g = fd then (fd_pool s fd)\<lparr>buffer_state := GARBAGE\<rparr> else fd_pool s g)"
  "bitmap (fd_buffer_flush fd s) = bitmap s" "dir (fd_buffer_flush fd s) = dir s"
  "state_bitmap (fd_buffer_flush fd s) = state_bitmap s"
  "state_dir (fd_buffer_flush fd s) = state_dir s"
  "IDE_READ n (fd_buffer_flush fd s) =
     (if buffer_state (fd_pool s fd) = NEED_WASHING \<and> n = buffer_idx (fd_pool s fd)
      then buffer (fd_pool s fd) else IDE_READ n s)"
  by (simp_all add: fd_buffer_flush_def)

lemma fd_load_inode_fields [simp]:
  "fd_pool (fd_load_inode fd m s) g =
     (if g = fd then (fd_pool s fd)\<lparr>inode_state := USEFUL, inode_idx := m,
        inode := inode_of_bytes (IDE_READ m s)\<rparr> else fd_pool s g)"
  "bitmap (fd_load_inode fd m s) = bitmap s" "dir (fd_load_inode fd m s) = dir s"
  "state_bitmap (fd_load_inode fd m s) = state_bitmap s"
  "state_dir (fd_load_inode fd m s) = state_dir s"
  "IDE_READ n (fd_load_inode fd m s) = IDE_READ n s"
  by (simp_all add: fd_load_inode_def)

lemma sys_ok_fd_inode_flush:
  assumes "sys_ok s"
    "inode_state (fd_pool s fd) = NEED_WASHING \<Longrightarrow>
       unat (inode_idx (fd_pool s fd)) < 4096 \<and> inode_wf (inode (fd_pool s fd))"
  shows "sys_ok (fd_inode_flush fd s)"
  using assms by (simp add: fd_inode_flush_def sys_ok_IDE_WRITE inode.enc_length)

lemma sys_ok_fd_buffer_flush:
  assumes "sys_ok s"
    "buffer_state (fd_pool s fd) = NEED_WASHING \<Longrightarrow>
       unat (buffer_idx (fd_pool s fd)) < 4096 \<and> length (buffer (fd_pool s fd)) = 512"
  shows "sys_ok (fd_buffer_flush fd s)"
  using assms by (simp add: fd_buffer_flush_def sys_ok_IDE_WRITE)

section \<open>Positions\<close>

definition pos :: "fs_state \<Rightarrow> nat \<Rightarrow> nat" where
  "pos s fd = unat (offset (fd_pool s fd))"

lemma offset_mod_sector: "unat (offset (fd_pool s fd) mod 512) = pos s fd mod 512"
  by (simp add: pos_def unat_mod)

lemma offset_mod_sector_0: "offset (fd_pool s fd) mod 512 = 0 \<longleftrightarrow> pos s fd mod 512 = 0"
  using offset_mod_sector [of s fd] by (metis unsigned_0 unat_eq_zero)

lemma offset_mod_capacity_0: "offset (fd_pool s fd) mod 65024 = 0 \<longleftrightarrow> pos s fd mod 65024 = 0"
proof -
  have "unat (offset (fd_pool s fd) mod 65024) = pos s fd mod 65024"
    by (simp add: pos_def unat_mod)
  then show ?thesis by (metis unsigned_0 unat_eq_zero)
qed

lemma offset_block_index:
  "unat (offset (fd_pool s fd) div 512 mod 127) = pos s fd div 512 mod 127"
  by (simp add: pos_def unat_mod unat_div)

lemma offset_0: "offset (fd_pool s fd) = 0 \<longleftrightarrow> pos s fd = 0"
  by (simp add: pos_def unat_eq_zero)

lemma capacity_div: "(p :: nat) div 65024 = p div 512 div 127"
  by (simp add: div_mult2_eq [symmetric])

section \<open>The invariant of a descriptor\<close>

definition holds_inode :: "fs_state \<Rightarrow> nat \<Rightarrow> u32 list \<Rightarrow> nat \<Rightarrow> bool" where
  "holds_inode s fd ns k \<longleftrightarrow> inode_state (fd_pool s fd) \<noteq> GARBAGE
     \<and> k < length ns \<and> inode_idx (fd_pool s fd) = ns ! k"

definition fd_base :: "fs_state \<Rightarrow> nat \<Rightarrow> u32 list \<Rightarrow> u32 list \<Rightarrow> bool" where
  "fd_base s fd ns bl \<longleftrightarrow> sys_ok s \<and> index (fd_pool s fd) < 16 \<and> length (buffer (fd_pool s fd)) = 512
     \<and> inode_coherent s fd \<and> chain_ok (bitmap s) (view_inode s fd) (fd_entry fd s) ns bl"

lemma fd_baseD:
  assumes "fd_base s fd ns bl"
  shows "sys_ok s" "index (fd_pool s fd) < 16" "length (buffer (fd_pool s fd)) = 512"
    "inode_coherent s fd" "chain_ok (bitmap s) (view_inode s fd) (fd_entry fd s) ns bl"
  using assms by (simp_all add: fd_base_def)

text \<open>The inode a descriptor holds is the one of its chain.\<close>

lemma holds_inode_at:
  assumes "fd_base s fd ns bl" "holds_inode s fd ns k"
  shows "inode_at ns bl k (inode (fd_pool s fd))"
proof -
  have "view_inode s fd (ns ! k) = inode (fd_pool s fd)"
    using assms(2) by (simp add: holds_inode_def view_inode_def)
  then show ?thesis
    using assms chain_okD(9) [OF fd_baseD(5) [OF assms(1)], of k]
    by (simp add: holds_inode_def)
qed

lemma holds_inode_wf:
  assumes "fd_base s fd ns bl" "holds_inode s fd ns k"
  shows "inode_wf (inode (fd_pool s fd))" "inode_idx (fd_pool s fd) \<in> set ns"
    "unat (inode_idx (fd_pool s fd)) < 4096"
proof -
  show "inode_wf (inode (fd_pool s fd))"
    using holds_inode_at [OF assms] by (simp add: inode_at_def)
  show "inode_idx (fd_pool s fd) \<in> set ns"
    using assms(2) by (simp add: holds_inode_def)
  then show "unat (inode_idx (fd_pool s fd)) < 4096"
    using chain_okD(10) [OF fd_baseD(5) [OF assms(1)]] used_bound by blast
qed

text \<open>What a change of the cached inode leaves alone.\<close>

definition keeps_data :: "nat \<Rightarrow> fs_state \<Rightarrow> fs_state \<Rightarrow> bool" where
  "keeps_data fd s s' \<longleftrightarrow> offset (fd_pool s' fd) = offset (fd_pool s fd)
     \<and> buffer_state (fd_pool s' fd) = buffer_state (fd_pool s fd)
     \<and> buffer (fd_pool s' fd) = buffer (fd_pool s fd)
     \<and> buffer_idx (fd_pool s' fd) = buffer_idx (fd_pool s fd)
     \<and> fileSize (fd_entry fd s') = fileSize (fd_entry fd s)"

lemma keeps_data_trans: "\<lbrakk>keeps_data fd s s1; keeps_data fd s1 s2\<rbrakk> \<Longrightarrow> keeps_data fd s s2"
  by (simp add: keeps_data_def)

lemma keeps_data_view:
  "\<lbrakk>keeps_data fd s s'; fs_step fd A s s'; b \<notin> A\<rbrakk> \<Longrightarrow> view_block s' fd b = view_block s fd b"
  by (simp add: keeps_data_def fs_step_def view_block_def)

lemma keeps_data_pos: "keeps_data fd s s' \<Longrightarrow> pos s' fd = pos s fd"
  by (simp add: keeps_data_def pos_def)

section \<open>Dropping the cached inode\<close>

definition drop_inode :: "nat \<Rightarrow> fs_state \<Rightarrow> fs_state" where
  "drop_inode fd s = upd_fd fd (\<lambda>f. f\<lparr>inode_state := GARBAGE\<rparr>) (fd_inode_flush fd s)"

lemma view_inode_flush:
  assumes "inode_state (fd_pool s fd) = NEED_WASHING \<Longrightarrow> inode_wf (inode (fd_pool s fd))"
  shows "view_inode (fd_inode_flush fd s) fd n = view_inode s fd n"
  using assms by (auto simp: view_inode_def inode.dec_enc)

lemma view_inode_drop:
  assumes "inode_coherent s fd"
    and "inode_state (fd_pool s fd) = NEED_WASHING \<Longrightarrow> inode_wf (inode (fd_pool s fd))"
  shows "view_inode (drop_inode fd s) fd n = view_inode s fd n"
  using assms
  by (cases "inode_state (fd_pool s fd)")
    (auto simp: view_inode_def drop_inode_def inode_coherent_def inode.dec_enc)

lemma fs_step_inode_flush:
  assumes "inode_state (fd_pool s fd) = NEED_WASHING \<Longrightarrow> inode_idx (fd_pool s fd) \<in> A"
  shows "fs_step fd A s (fd_inode_flush fd s)"
  using assms by (auto simp: fs_step_def fd_entry_def)

lemma drop_inode_ok:
  assumes base: "fd_base s fd ns bl"
    and held: "inode_state (fd_pool s fd) \<noteq> GARBAGE \<longrightarrow> holds_inode s fd ns k"
  shows "fd_base (drop_inode fd s) fd ns bl" "keeps_data fd s (drop_inode fd s)"
    "fs_step fd (set ns) s (drop_inode fd s)"
    "inode_state (fd_pool (drop_inode fd s) fd) = GARBAGE"
    "inode (fd_pool (drop_inode fd s) fd) = inode (fd_pool s fd)"
    "inode_idx (fd_pool (drop_inode fd s) fd) = inode_idx (fd_pool s fd)"
    "bitmap (drop_inode fd s) = bitmap s" "state_bitmap (drop_inode fd s) = state_bitmap s"
    "dir (drop_inode fd s) = dir s" "state_dir (drop_inode fd s) = state_dir s"
proof -
  have wf: "inode_state (fd_pool s fd) = NEED_WASHING \<Longrightarrow>
      inode_wf (inode (fd_pool s fd)) \<and> inode_idx (fd_pool s fd) \<in> set ns
      \<and> unat (inode_idx (fd_pool s fd)) < 4096"
    using holds_inode_wf [OF base] held by (metis cache_state.distinct(3))
  show "fs_step fd (set ns) s (drop_inode fd s)"
    unfolding drop_inode_def
    by (rule fs_step_trans [where A = "set ns" and B = "set ns"])
      (auto intro!: fs_step_inode_flush fs_step_upd_fd simp: wf)
  have v: "view_inode (drop_inode fd s) fd n = view_inode s fd n" for n
    by (rule view_inode_drop) (use fd_baseD [OF base] wf in auto)
  have "sys_ok (drop_inode fd s)"
    unfolding drop_inode_def using fd_baseD [OF base] wf by (simp add: sys_ok_fd_inode_flush)
  moreover have "chain_ok (bitmap (drop_inode fd s)) (view_inode (drop_inode fd s) fd)
      (fd_entry fd (drop_inode fd s)) ns bl"
    by (rule chain_cong [OF fd_baseD(5) [OF base]]) (simp_all add: v, simp_all add: drop_inode_def fd_entry_def)
  ultimately show "fd_base (drop_inode fd s) fd ns bl"
    using fd_baseD [OF base] by (simp add: fd_base_def inode_coherent_def) (simp add: drop_inode_def)
qed (auto simp: drop_inode_def keeps_data_def fd_entry_def)

section \<open>Entering the inode under the offset\<close>

lemma load_inode_ok:
  assumes base: "fd_base s fd ns bl" and none: "inode_state (fd_pool s fd) = GARBAGE"
    and k: "k < length ns"
  shows "fd_base (fd_load_inode fd (ns ! k) s) fd ns bl"
    "holds_inode (fd_load_inode fd (ns ! k) s) fd ns k"
    "keeps_data fd s (fd_load_inode fd (ns ! k) s)"
    "fs_step fd {} s (fd_load_inode fd (ns ! k) s)"
proof -
  let ?s = "fd_load_inode fd (ns ! k) s"
  have v: "view_inode ?s fd n = view_inode s fd n" for n
    using none by (simp add: view_inode_def)
  have "chain_ok (bitmap ?s) (view_inode ?s fd) (fd_entry fd ?s) ns bl"
    by (rule chain_cong [OF fd_baseD(5) [OF base]]) (auto simp: v fd_entry_def)
  moreover have "sys_ok ?s" using fd_baseD(1) [OF base] by (simp add: fd_load_inode_def)
  ultimately show "fd_base ?s fd ns bl"
    using fd_baseD [OF base] by (simp add: fd_base_def inode_coherent_def)
qed (use k in \<open>auto simp: holds_inode_def keeps_data_def fs_step_def fd_entry_def\<close>)

text \<open>
  The inode the offset needs exists: after the flush it is loaded from the disk, through
  the directory for the first one and through the link of the one before for the others.
\<close>

definition inode_cached :: "fs_state \<Rightarrow> nat \<Rightarrow> u32 list \<Rightarrow> bool" where
  "inode_cached s fd ns \<longleftrightarrow>
     (if pos s fd = 0 then inode_state (fd_pool s fd) = GARBAGE
      else holds_inode s fd ns ((pos s fd - 1) div 65024))"

lemma inode_cachedD:
  assumes "inode_cached s fd ns" "pos s fd mod 65024 = 0" "0 < pos s fd"
  shows "holds_inode s fd ns (pos s fd div 65024 - 1)"
proof -
  from assms(2) obtain q where "pos s fd = 65024 * q" by auto
  moreover from this assms(3) have "(pos s fd - 1) div 65024 = q - 1"
    by (cases q) (auto simp: div_nat_eqI)
  ultimately show ?thesis using assms by (simp add: inode_cached_def)
qed

lemma inode_cached_inside:
  assumes "inode_cached s fd ns" "pos s fd mod 65024 \<noteq> 0"
  shows "holds_inode s fd ns (pos s fd div 65024)"
proof -
  have "0 < pos s fd" using assms(2) by (cases "pos s fd = 0") auto
  moreover have "(pos s fd - 1) div 65024 = pos s fd div 65024"
    using assms(2) by (metis Suc_diff_1 calculation div_Suc)
  ultimately show ?thesis using assms by (simp add: inode_cached_def)
qed

lemma enter_inode_load:
  assumes base: "fd_base s fd ns bl" and cached: "inode_cached s fd ns"
    and k: "pos s fd div 65024 < length ns"
  obtains s1 where "fd_enter_inode fd s = Inr s1" "fd_base s1 fd ns bl"
    "holds_inode s1 fd ns (pos s fd div 65024)" "keeps_data fd s s1" "fs_step fd (set ns) s s1"
    "bitmap s1 = bitmap s" "dir s1 = dir s"
proof (cases "pos s fd mod 65024 = 0")
  case False
  then show thesis
    using that [of s] base inode_cached_inside [OF cached]
    by (simp add: fd_enter_inode_def offset_mod_capacity_0 keeps_data_def fs_step_refl)
next
  case True
  let ?k = "pos s fd div 65024" and ?d = "drop_inode fd s"
  have held: "inode_state (fd_pool s fd) \<noteq> GARBAGE \<longrightarrow> holds_inode s fd ns (?k - 1)"
    using cached inode_cachedD [OF cached True] by (cases "pos s fd = 0") (auto simp: inode_cached_def)
  note d = drop_inode_ok [OF base held]
  have posd: "pos ?d fd = pos s fd" using d(2) by (rule keeps_data_pos)
  have ns: "ns \<noteq> []" using k by auto
  have "fd_inode_state_init fd ?d = Inr (fd_load_inode fd (ns ! ?k) ?d)"
  proof (cases "pos s fd = 0")
    case zero: True
    have "hd ns \<in> set ns" using ns by simp
    then have "unat (hd ns) < 4096"
      using chain_okD(10) [OF fd_baseD(5) [OF base]] used_bound by blast
    then have "hd ns \<noteq> -1" by auto
    moreover have "inodeOffset (fd_entry fd ?d) = hd ns"
      using chain_okD(8) [OF fd_baseD(5) [OF d(1)]] ns by simp
    ultimately show ?thesis
      using zero posd ns by (simp add: fd_inode_state_init_def offset_0 offset_mod_capacity_0 hd_conv_nth)
  next
    case False
    then have h: "holds_inode s fd ns (?k - 1)" using inode_cachedD [OF cached True] by simp
    have k1: "Suc (?k - 1) = ?k" using False True by (cases ?k) auto
    have "next_inode (inode (fd_pool s fd)) = ns ! ?k"
      using holds_inode_at [OF base h] k k1 by (simp add: inode_at_def)
    moreover have "ns ! ?k \<noteq> 0"
    proof -
      have "ns ! ?k = tl ns ! (?k - 1)" using k k1 by (simp add: nth_tl)
      then have "ns ! ?k \<in> set (tl ns)" using k k1 by auto
      then show ?thesis using chain_okD(6) [OF fd_baseD(5) [OF base]] by metis
    qed
    ultimately show ?thesis
      using False True posd d(5)
      by (simp add: fd_inode_state_init_def offset_0 offset_mod_capacity_0)
  qed
  then have "fd_enter_inode fd s = Inr (fd_load_inode fd (ns ! ?k) ?d)"
    using True by (simp add: fd_enter_inode_def drop_inode_def offset_mod_capacity_0)
  moreover note l = load_inode_ok [OF d(1) d(4) k]
  moreover have "keeps_data fd s (fd_load_inode fd (ns ! ?k) ?d)"
    using d(2) l(3) by (rule keeps_data_trans)
  moreover have "fs_step fd (set ns) s (fd_load_inode fd (ns ! ?k) ?d)"
    using d(3) l(4) by (rule fs_step_trans) auto
  ultimately show thesis using that d(7,9) by simp
qed

text \<open>The first inode of an empty file is allocated and entered in the directory.\<close>

lemma used_0_of_least:
  assumes "bitmap_wf bm" "unat m < 4096" "\<And>q. unat q < unat m \<Longrightarrow> used bm q"
  shows "used (mark m bm) 0"
proof (cases "m = 0")
  case True
  with assms show ?thesis by (simp add: used_mark)
next
  case False
  then have "unat (0 :: u32) < unat m" by (simp add: unat_gt_0)
  then have "used bm 0" by (rule assms(3))
  with assms show ?thesis by (simp add: used_mark)
qed

lemma set_inode_ok:
  assumes base: "fd_base s fd [] []" and room: "0 < free_blocks (bitmap s)"
  obtains m s1 where "fd_set_inode fd s = Inr s1" "fd_base s1 fd [m] []"
    "holds_inode s1 fd [m] 0" "keeps_data fd s s1" "fs_step fd {m} s s1"
    "bitmap s1 = mark m (bitmap s)" "unat m < 4096" "\<not> used (bitmap s) m" "lowest (bitmap s) m"
proof -
  note b = fd_baseD [OF base] and so = sys_okD [OF fd_baseD(1) [OF base]]
  obtain m where m: "find_empty_inode s =
      Inr (m, s\<lparr>state_bitmap := NEED_WASHING, bitmap := mark m (bitmap s)\<rparr>)"
      "unat m < 4096" "\<not> used (bitmap s) m" "\<And>q. unat q < unat m \<Longrightarrow> used (bitmap s) q"
    using find_empty_inode_ok [OF so(1) so(4) room] by metis
  let ?i = "index (fd_pool s fd)"
  let ?a = "s\<lparr>state_bitmap := NEED_WASHING, bitmap := mark m (bitmap s)\<rparr>"
  let ?e = "(upd_entry ?i (\<lambda>e. e\<lparr>inodeOffset := m\<rparr>) (upd_fd fd (\<lambda>f. f\<lparr>inode_idx := m\<rparr>) ?a))\<lparr>state_dir := NEED_WASHING\<rparr>"
  define s1 where "s1 = upd_fd fd (\<lambda>f. f\<lparr>inode := zero_inode, inode_state := NEED_WASHING\<rparr>) ?e"
  have run: "fd_set_inode fd s = Inr s1"
    by (simp add: fd_set_inode_def m(1) s1_def upd_fd_def upd_entry_def)
  have len: "length (dir s) = 16" using so(2) by (simp add: dir_wf_length)
  have "sys_ok (upd_fd fd (\<lambda>f. f\<lparr>inode_idx := m\<rparr>) ?a)" using b(1) by (simp add: sys_ok_mark)
  then have "sys_ok ?e"
    using dir_wf_nth [OF so(2) b(2)]
    by (intro sys_ok_upd_entry) (simp_all add: dirent_wf_def)
  then have sys: "sys_ok s1" by (simp add: s1_def)
  have entry: "fd_entry fd s1 = (fd_entry fd s)\<lparr>inodeOffset := m\<rparr>"
    using b(2) len by (simp add: s1_def fd_entry_def)
  have chain: "chain_ok (bitmap s1) (view_inode s1 fd) (fd_entry fd s1) ([] @ [m]) []"
  proof (rule chain_extend_inode [OF b(5)])
    show "used (bitmap s1) 0"
      using used_0_of_least [OF so(1) m(2) m(4)] by (simp add: s1_def)
  qed (use m so(1) entry in \<open>auto simp: s1_def used_mark view_inode_def\<close>)
  show thesis
  proof (rule that [OF run])
    show "fd_base s1 fd [m] []"
      using b sys chain by (simp add: fd_base_def inode_coherent_def) (simp add: s1_def)
    show "fs_step fd {m} s s1"
      using m so(1) b(2) len by (auto simp: s1_def fs_step_def used_mark fd_entry_def)
    show "lowest (bitmap s) m" using m(2-4) by (simp add: lowest_def)
  qed (use m entry in \<open>auto simp: s1_def holds_inode_def keeps_data_def\<close>)
qed

text \<open>
  A later inode is linked into the one before it, which is written back at once; the new
  one exists in the cache only.
\<close>

lemma alloc_next_inode_ok:
  assumes base: "fd_base s fd ns bl" and none: "inode_state (fd_pool s fd) = GARBAGE"
    and full: "length bl = 127 * length ns" and ns: "ns \<noteq> []"
    and last: "inode_idx (fd_pool s fd) = last ns" "inode (fd_pool s fd) = view_inode s fd (last ns)"
    and room: "0 < free_blocks (bitmap s)"
  obtains m s1 where "fd_alloc_next_inode fd s = Inr s1" "fd_base s1 fd (ns @ [m]) bl"
    "holds_inode s1 fd (ns @ [m]) (length ns)" "keeps_data fd s s1"
    "fs_step fd (insert m (set ns)) s s1"
    "bitmap s1 = mark m (bitmap s)" "unat m < 4096" "\<not> used (bitmap s) m"
proof -
  note b = fd_baseD [OF base] and so = sys_okD [OF fd_baseD(1) [OF base]]
  let ?p = "upd_fd fd (\<lambda>f. f\<lparr>inode_state := NEED_WASHING\<rparr>) s"
  obtain m where m: "find_empty_inode ?p =
      Inr (m, ?p\<lparr>state_bitmap := NEED_WASHING, bitmap := mark m (bitmap s)\<rparr>)"
      "unat m < 4096" "\<not> used (bitmap s) m" "\<And>q. unat q < unat m \<Longrightarrow> used (bitmap s) q"
    using find_empty_inode_ok [of ?p] so room by auto
  let ?i = "(inode (fd_pool s fd))\<lparr>next_inode := m\<rparr>"
  let ?a = "s\<lparr>state_bitmap := NEED_WASHING, bitmap := mark m (bitmap s)\<rparr>"
  let ?w = "IDE_WRITE (last ns) (bytes_of_inode ?i) ?a"
  define s1 where "s1 = upd_fd fd (\<lambda>f. f\<lparr>inode_state := NEED_WASHING, inode_idx := m,
      inode := zero_inode\<rparr>) ?w"
  have run: "fd_alloc_next_inode fd s = Inr s1"
    by (simp add: fd_alloc_next_inode_def m(1) s1_def fd_inode_flush_def last(1))
      (simp add: upd_fd_def IDE_WRITE_def)
  have lastm: "last ns \<in> set ns" and lk: "last ns = ns ! (length ns - 1)"
    using ns by (simp_all add: last_conv_nth)
  have wf: "inode_wf ?i"
    using chain_okD(9) [OF b(5), of "length ns - 1"] ns last(2) lk
    by (simp add: inode_at_def inode_wf_def)
  have lu: "unat (last ns) < 4096"
    using chain_okD(10) [OF b(5) lastm] used_bound by blast
  have fresh: "m \<notin> set ns" "m \<notin> set bl"
    using m(3) chain_okD(10,11) [OF b(5)] by auto
  have sys: "sys_ok s1"
    using b(1) wf lu by (simp add: s1_def sys_ok_IDE_WRITE sys_ok_mark inode.enc_length)
  have m0: "m \<noteq> 0" using m(3) chain_okD(7) [OF b(5) ns] by auto
  have v: "view_inode s1 fd n = (if n = m then zero_inode
      else if n = last ns then ?i else view_inode s fd n)" for n
    using wf none by (auto simp: s1_def view_inode_def inode.dec_enc)
  have chain: "chain_ok (bitmap s1) (view_inode s1 fd) (fd_entry fd s1) (ns @ [m]) bl"
  proof (rule chain_extend_inode [OF b(5) full fresh])
    show "used (bitmap s1) 0"
      using used_0_of_least [OF so(1) m(2) m(4)] by (simp add: s1_def)
    show "view_inode s1 fd (last ns) = (view_inode s fd (last ns))\<lparr>next_inode := m\<rparr>"
      using fresh lastm last(2) by (auto simp: v)
    show "view_inode s1 fd n = view_inode s fd n" if "n \<in> set (butlast ns)" for n
      using fresh that chain_okD(2) [OF b(5)] ns
      by (auto simp: v dest: in_set_butlastD) (metis append_butlast_last_id distinct_append
        disjoint_insert(1) list.simps(15) empty_set)
    show "view_inode s1 fd m = zero_inode" by (simp add: v)
  qed (use m so(1) m0 ns in \<open>auto simp: s1_def used_mark fd_entry_def\<close>)
  show thesis
  proof (rule that [OF run])
    show "fd_base s1 fd (ns @ [m]) bl"
      using b sys chain by (simp add: fd_base_def inode_coherent_def) (simp add: s1_def)
    show "fs_step fd (insert m (set ns)) s s1"
      using m so(1) lastm by (auto simp: s1_def fs_step_def used_mark fd_entry_def)
  qed (use m in \<open>auto simp: s1_def holds_inode_def keeps_data_def fd_entry_def\<close>)
qed

lemma enter_inode_extend:
  assumes base: "fd_base s fd ns bl" and cached: "inode_cached s fd ns"
    and full: "length bl = 127 * length ns" and at: "pos s fd = 512 * length bl"
    and room: "0 < free_blocks (bitmap s)"
  obtains m s1 where "fd_enter_inode fd s = Inr s1" "fd_base s1 fd (ns @ [m]) bl"
    "holds_inode s1 fd (ns @ [m]) (length ns)" "keeps_data fd s s1"
    "fs_step fd (insert m (set ns)) s s1"
    "bitmap s1 = mark m (bitmap s)" "unat m < 4096" "\<not> used (bitmap s) m" "ns = [] \<longrightarrow> lowest (bitmap s) m"
proof -
  have p: "pos s fd = 65024 * length ns" using at full by simp
  then have mod0: "pos s fd mod 65024 = 0" and div: "pos s fd div 65024 = length ns" by simp_all
  let ?d = "drop_inode fd s"
  have held: "inode_state (fd_pool s fd) \<noteq> GARBAGE \<longrightarrow> holds_inode s fd ns (length ns - 1)"
    using cached inode_cachedD [OF cached mod0] div by (cases "pos s fd = 0") (auto simp: inode_cached_def)
  note d = drop_inode_ok [OF base held]
  have posd: "pos ?d fd = pos s fd" using d(2) by (rule keeps_data_pos)
  have start: "fd_enter_inode fd s = fd_inode_state_init fd ?d"
    using mod0 by (simp add: fd_enter_inode_def drop_inode_def offset_mod_capacity_0)
  show thesis
  proof (cases "ns = []")
    case True
    then have "bl = []" using full by simp
    with True d(1) have base0: "fd_base ?d fd [] []" by simp
    then have "inodeOffset (fd_entry fd ?d) = -1"
      using chain_okD(8) [OF fd_baseD(5)] by fastforce
    then have "fd_enter_inode fd s = fd_set_inode fd ?d"
      using start p True posd
      by (simp add: fd_inode_state_init_def offset_0 offset_mod_capacity_0)
    moreover obtain m s1 where "fd_set_inode fd ?d = Inr s1" "fd_base s1 fd [m] []"
      "holds_inode s1 fd [m] 0" "keeps_data fd ?d s1" "fs_step fd {m} ?d s1"
      "bitmap s1 = mark m (bitmap s)" "unat m < 4096" "\<not> used (bitmap s) m" "lowest (bitmap s) m"
      by (rule set_inode_ok [OF base0, unfolded d(7), OF room])
    ultimately show thesis
      using that [of s1 m] True \<open>bl = []\<close> keeps_data_trans [OF d(2)] fs_step_trans [OF d(3), of _ s1]
      by auto
  next
    case False
    then have h: "holds_inode s fd ns (length ns - 1)"
      using inode_cachedD [OF cached mod0] p div by simp
    then have idx: "inode_idx (fd_pool s fd) = last ns"
      and view: "inode (fd_pool s fd) = view_inode s fd (last ns)"
      using False by (simp_all add: holds_inode_def view_inode_def last_conv_nth)
    have "view_inode ?d fd (last ns) = view_inode s fd (last ns)"
      by (rule view_inode_drop) (use fd_baseD(4) [OF base] holds_inode_wf [OF base h] in auto)
    note last = idx view this
    have "next_inode (inode (fd_pool s fd)) = 0"
      using holds_inode_at [OF base h] False by (simp add: inode_at_def)
    then have "fd_enter_inode fd s = fd_alloc_next_inode fd ?d"
      using start p False posd d(5)
      by (simp add: fd_inode_state_init_def offset_0 offset_mod_capacity_0)
    moreover obtain m s1 where r: "fd_alloc_next_inode fd ?d = Inr s1" "fd_base s1 fd (ns @ [m]) bl"
      "holds_inode s1 fd (ns @ [m]) (length ns)" "keeps_data fd ?d s1"
      "fs_step fd (insert m (set ns)) ?d s1"
      "bitmap s1 = mark m (bitmap s)" "unat m < 4096" "\<not> used (bitmap s) m"
      by (rule alloc_next_inode_ok [OF d(1) d(4) full False, unfolded d(5-7) last(3),
        OF last(1,2) room])
    moreover have "keeps_data fd s s1" using d(2) r(4) by (rule keeps_data_trans)
    moreover have "fs_step fd (insert m (set ns)) s s1"
      using d(3) r(5) by (rule fs_step_trans) auto
    ultimately show thesis using that [of s1 m] r False by simp
  qed
qed

section \<open>Entering the block under the offset\<close>

lemma block_index_in_inode:
  assumes "holds_inode s fd ns (pos s fd div 65024)" "fd_base s fd ns bl"
  shows "dataBlocks (inode (fd_pool s fd)) ! unat (offset (fd_pool s fd) div 512 mod 127) =
    (if pos s fd div 512 < length bl then bl ! (pos s fd div 512) else 0)"
proof -
  let ?q = "pos s fd div 512"
  have "127 * (?q div 127) + ?q mod 127 = ?q" by simp
  moreover have "inode_at ns bl (?q div 127) (inode (fd_pool s fd))"
    using holds_inode_at [OF assms(2,1)] by (simp add: capacity_div)
  moreover have "?q mod 127 < 127" by simp
  ultimately show ?thesis
    unfolding offset_block_index inode_at_def by metis
qed

lemma enter_block_load:
  assumes base: "fd_base s fd ns bl" and held: "holds_inode s fd ns (pos s fd div 65024)"
    and none: "buffer_state (fd_pool s fd) = GARBAGE" and j: "pos s fd div 512 < length bl"
  obtains s1 where "fd_enter_block fd s = Inr s1" "fd_base s1 fd ns bl"
    "holds_inode s1 fd ns (pos s fd div 65024)" "buffer_state (fd_pool s1 fd) = USEFUL"
    "buffer_idx (fd_pool s1 fd) = bl ! (pos s fd div 512)" "buffer_coherent s1 fd"
    "fs_step fd {} s s1" "\<And>b. view_block s1 fd b = view_block s fd b"
    "pos s1 fd = pos s fd" "bitmap s1 = bitmap s" "dir s1 = dir s"
proof -
  note b = fd_baseD [OF base]
  let ?b = "bl ! (pos s fd div 512)"
  define s1 where "s1 = upd_fd fd (\<lambda>f. f\<lparr>buffer_state := USEFUL\<rparr>)
    (upd_fd fd (\<lambda>f. f\<lparr>buffer_idx := ?b, buffer := IDE_READ ?b s\<rparr>) s)"
  have "?b \<noteq> 0" using chain_okD(5) [OF b(5)] j by (metis nth_mem)
  then have run: "fd_enter_block fd s = Inr s1"
    using block_index_in_inode [OF held base] j
    by (simp add: fd_enter_block_def s1_def Let_def)
  have "length (IDE_READ ?b s) = 512"
    using sys_okD(3) [OF b(1)] by (simp add: disk_ok_def IDE_READ_def disk_read_def)
  moreover have "chain_ok (bitmap s1) (view_inode s1 fd) (fd_entry fd s1) ns bl"
    by (rule chain_cong [OF b(5)]) (auto simp: s1_def view_inode_def fd_entry_def)
  ultimately have "fd_base s1 fd ns bl"
    using b by (simp add: fd_base_def inode_coherent_def) (simp add: s1_def)
  then show thesis
    by (rule that [OF run])
      (use held none in \<open>auto simp: s1_def holds_inode_def buffer_coherent_def fs_step_def
        view_block_def pos_def fd_entry_def\<close>)
qed

lemma enter_block_extend:
  assumes base: "fd_base s fd ns bl" and held: "holds_inode s fd ns (pos s fd div 65024)"
    and none: "buffer_state (fd_pool s fd) = GARBAGE" and at: "pos s fd = 512 * length bl"
    and room: "0 < free_blocks (bitmap s)"
  obtains b s1 where "fd_enter_block fd s = Inr s1" "fd_base s1 fd ns (bl @ [b])"
    "holds_inode s1 fd ns (pos s fd div 65024)" "buffer_state (fd_pool s1 fd) = USEFUL"
    "buffer_idx (fd_pool s1 fd) = b" "fs_step fd {b} s s1"
    "\<And>b'. b' \<noteq> b \<Longrightarrow> view_block s1 fd b' = view_block s fd b'"
    "pos s1 fd = pos s fd" "fileSize (fd_entry fd s1) = fileSize (fd_entry fd s)"
    "bitmap s1 = mark b (bitmap s)" "unat b < 4096" "\<not> used (bitmap s) b" "lowest (bitmap s) b"
proof -
  note b = fd_baseD [OF base] and so = sys_okD [OF fd_baseD(1) [OF base]]
  let ?p = "upd_fd fd (\<lambda>f. f\<lparr>inode_state := NEED_WASHING\<rparr>) s"
  let ?k = "pos s fd div 65024" and ?j = "length bl mod 127"
  have k: "?k = length bl div 127" using at by (simp add: capacity_div)
  have idx: "unat (offset (fd_pool s fd) div 512 mod 127) = ?j"
    using at by (simp add: offset_block_index)
  obtain m where m: "find_empty_inode ?p =
      Inr (m, ?p\<lparr>state_bitmap := NEED_WASHING, bitmap := mark m (bitmap s)\<rparr>)"
      "unat m < 4096" "\<not> used (bitmap s) m" "\<And>q. unat q < unat m \<Longrightarrow> used (bitmap s) q"
    using find_empty_inode_ok [of ?p] so room by auto
  have low: "lowest (bitmap s) m" using m(2-4) by (simp add: lowest_def)
  define s1 where "s1 = upd_fd fd (\<lambda>f. f\<lparr>inode_state := NEED_WASHING, buffer_idx := m,
      inode := (inode f)\<lparr>dataBlocks := (dataBlocks (inode f))[?j := m]\<rparr>, buffer_state := USEFUL\<rparr>)
      (s\<lparr>state_bitmap := NEED_WASHING, bitmap := mark m (bitmap s)\<rparr>)"
  have run: "fd_enter_block fd s = Inr s1"
    using block_index_in_inode [OF held base] at idx m(1)
    by (simp add: fd_enter_block_def s1_def) (simp add: upd_fd_def)
  have kl: "?k < length ns" and hidx: "inode_idx (fd_pool s fd) = ns ! ?k"
    using held by (simp_all add: holds_inode_def)
  then have lt: "length bl < 127 * length ns"
    using k by (metis div_less_iff_less_mult mult.commute zero_less_numeral)
  have fresh: "m \<notin> set ns" "m \<notin> set bl" using m(3) chain_okD(10,11) [OF b(5)] by auto
  have "ns \<noteq> []" using kl by auto
  then have m0: "m \<noteq> 0" using m(3) chain_okD(7) [OF b(5)] by auto
  have cached: "view_inode s fd (ns ! ?k) = inode (fd_pool s fd)"
    using held by (simp add: holds_inode_def view_inode_def)
  have chain: "chain_ok (bitmap s1) (view_inode s1 fd) (fd_entry fd s1) ns (bl @ [m])"
  proof (rule chain_extend_block [OF b(5) lt fresh m0 _ _ _ k])
    show "view_inode s1 fd (ns ! ?k) = (view_inode s fd (ns ! ?k))\<lparr>dataBlocks :=
        (dataBlocks (view_inode s fd (ns ! ?k)))[?j := m]\<rparr>"
      unfolding cached using hidx by (simp add: s1_def view_inode_def)
    show "view_inode s1 fd n = view_inode s fd n" if "n \<in> set ns" "n \<noteq> ns ! ?k" for n
      using that hidx by (simp add: s1_def view_inode_def)
  qed (use m so(1) in \<open>auto simp: s1_def used_mark fd_entry_def\<close>)
  have "sys_ok s1" using b(1) by (simp add: s1_def sys_ok_mark)
  with b chain have "fd_base s1 fd ns (bl @ [m])"
    by (simp add: fd_base_def inode_coherent_def) (simp add: s1_def)
  then show thesis
    by (rule that [OF run])
      (use held none m low so(1) in \<open>auto simp: s1_def holds_inode_def fs_step_def view_block_def
        pos_def fd_entry_def used_mark\<close>)
qed

section \<open>Fetching the sector under the offset\<close>

definition cache_ok :: "fs_state \<Rightarrow> nat \<Rightarrow> u32 list \<Rightarrow> u32 list \<Rightarrow> bool" where
  "cache_ok s fd ns bl \<longleftrightarrow> pos s fd \<le> 512 * length bl
     \<and> (buffer_state (fd_pool s fd) = GARBAGE \<longleftrightarrow> pos s fd mod 512 = 0)
     \<and> (pos s fd mod 512 \<noteq> 0 \<longrightarrow> buffer_idx (fd_pool s fd) = bl ! (pos s fd div 512))
     \<and> inode_cached s fd ns \<and> buffer_coherent s fd"

definition on_block :: "fs_state \<Rightarrow> nat \<Rightarrow> u32 list \<Rightarrow> u32 list \<Rightarrow> bool" where
  "on_block s fd ns bl \<longleftrightarrow> buffer_state (fd_pool s fd) \<noteq> GARBAGE
     \<and> pos s fd div 512 < length bl \<and> buffer_idx (fd_pool s fd) = bl ! (pos s fd div 512)
     \<and> holds_inode s fd ns (pos s fd div 65024)"

definition tight :: "u32 list \<Rightarrow> u32 list \<Rightarrow> bool" where
  "tight ns bl \<longleftrightarrow> 127 * length ns < length bl + 127"

lemma fetch_existing:
  assumes base: "fd_base s fd ns bl" and cache: "cache_ok s fd ns bl"
    and inside: "pos s fd < 512 * length bl"
  obtains s1 where "fd_buffer_fetch fd s = Inr s1" "fd_base s1 fd ns bl" "on_block s1 fd ns bl"
    "buffer_coherent s1 fd" "fs_step fd (set ns) s s1"
    "\<And>b. b \<in> set bl \<Longrightarrow> view_block s1 fd b = view_block s fd b"
    "pos s1 fd = pos s fd" "bitmap s1 = bitmap s" "dir s1 = dir s"
proof -
  note b = fd_baseD [OF base]
  have q: "pos s fd div 512 < length bl" using inside by (simp add: less_mult_imp_div_less mult.commute)
  have "length bl \<le> 127 * length ns" using chain_okD(1) [OF b(5)] .
  with q have "pos s fd div 512 < length ns * 127" by linarith
  then have k: "pos s fd div 65024 < length ns"
    unfolding capacity_div by (rule less_mult_imp_div_less)
  show thesis
  proof (cases "buffer_state (fd_pool s fd) = GARBAGE")
    case False
    then have m: "pos s fd mod 512 \<noteq> 0" using cache by (simp add: cache_ok_def)
    moreover have "pos s fd mod 65024 mod 512 = pos s fd mod 512" by (rule mod_mod_cancel) simp
    ultimately have "pos s fd mod 65024 \<noteq> 0" by (metis mod_0)
    with m have "on_block s fd ns bl" "buffer_coherent s fd"
      using cache False q inode_cached_inside [of s fd ns] by (auto simp: cache_ok_def on_block_def)
    then show thesis
      using that [of s] False base by (simp add: fd_buffer_fetch_def fs_step_refl)
  next
    case True
    then have mod0: "pos s fd mod 512 = 0" and ic: "inode_cached s fd ns"
      using cache by (auto simp: cache_ok_def)
    obtain s1 where e: "fd_enter_inode fd s = Inr s1" "fd_base s1 fd ns bl"
        "holds_inode s1 fd ns (pos s fd div 65024)" "keeps_data fd s s1" "fs_step fd (set ns) s s1"
        "bitmap s1 = bitmap s" "dir s1 = dir s"
      using enter_inode_load [OF base ic k] by metis
    have p1: "pos s1 fd = pos s fd" using e(4) by (rule keeps_data_pos)
    have g1: "buffer_state (fd_pool s1 fd) = GARBAGE" using e(4) True by (simp add: keeps_data_def)
    obtain s2 where l: "fd_enter_block fd s1 = Inr s2" "fd_base s2 fd ns bl"
        "holds_inode s2 fd ns (pos s fd div 65024)" "buffer_state (fd_pool s2 fd) = USEFUL"
        "buffer_idx (fd_pool s2 fd) = bl ! (pos s fd div 512)" "buffer_coherent s2 fd"
        "fs_step fd {} s1 s2" "\<And>b. view_block s2 fd b = view_block s1 fd b"
        "pos s2 fd = pos s fd" "bitmap s2 = bitmap s1" "dir s2 = dir s1"
      using enter_block_load [OF e(2) _ g1] e(3) q p1 by metis
    have "fd_buffer_fetch fd s = Inr s2"
      using True mod0 e(1) l(1) by (simp add: fd_buffer_fetch_def offset_mod_sector_0)
    moreover have "fs_step fd (set ns) s s2" using e(5) l(7) by (rule fs_step_trans) auto
    moreover have "view_block s2 fd b = view_block s fd b" if "b \<in> set bl" for b
      using that chain_okD(4) [OF b(5)] keeps_data_view [OF e(4,5)] l(8) by auto
    moreover have "on_block s2 fd ns bl" using l q by (simp add: on_block_def)
    ultimately show thesis using that l e by simp
  qed
qed

text \<open>What growing by one block costs: a block, and an inode when the last one is full.\<close>

definition grow_cost :: "u32 list \<Rightarrow> u32 list \<Rightarrow> nat" where
  "grow_cost ns bl = (if length bl = 127 * length ns then 2 else 1)"

text \<open>
  A file only grows at its end; its first inode and its first block are the two lowest blocks that were free.
\<close>

definition extends :: "bitmap \<Rightarrow> u32 list \<Rightarrow> u32 list \<Rightarrow> u32 list \<Rightarrow> u32 list \<Rightarrow> bool" where
  "extends bm ns bl ns' bl' \<longleftrightarrow> prefix ns ns' \<and> prefix bl bl' \<and> (ns = [] \<and> bl = [] \<and> bl' \<noteq> [] \<longrightarrow>
     (\<exists>m c xs ys. ns' = m # xs \<and> bl' = c # ys \<and> lowest bm m \<and> lowest (mark m bm) c))"

lemma extends_refl [simp]: "extends bm ns bl ns bl" by (auto simp: extends_def)

lemma extends_trans:
  assumes "extends bm ns bl ns1 bl1" "extends bm' ns1 bl1 ns2 bl2" "bl1 \<noteq> [] \<or> bm' = bm \<and> ns1 = ns"
  shows "extends bm ns bl ns2 bl2"
  using assms unfolding extends_def by (auto dest: prefix_order.trans) (auto simp: prefix_def)

text \<open>The inode a new block goes to: a fresh one when the last is full, the last one otherwise.\<close>

lemma enter_inode_for_block:
  assumes base: "fd_base s fd ns bl" and ic: "inode_cached s fd ns"
    and at: "pos s fd = 512 * length bl" and room: "grow_cost ns bl \<le> free_blocks (bitmap s)"
  obtains s1 ns1 where "fd_enter_inode fd s = Inr s1" "fd_base s1 fd ns1 bl"
    "holds_inode s1 fd ns1 (pos s fd div 65024)" "keeps_data fd s s1"
    "fs_step fd (set ns1) s s1" "set ns \<subseteq> set ns1"
    "\<And>n. \<lbrakk>n \<in> set ns1; n \<notin> set ns\<rbrakk> \<Longrightarrow> \<not> used (bitmap s) n"
    "free_blocks (bitmap s1) + grow_cost ns bl = free_blocks (bitmap s) + 1"
    "length ns1 = length ns + (if length bl = 127 * length ns then 1 else 0)" "prefix ns ns1"
    "ns = [] \<and> bl = [] \<longrightarrow> (\<exists>m. ns1 = [m] \<and> lowest (bitmap s) m \<and> bitmap s1 = mark m (bitmap s))"
proof (cases "length bl = 127 * length ns")
  case True
  have k: "pos s fd div 65024 = length bl div 127" using at by (simp add: capacity_div)
  obtain m s1 where x: "fd_enter_inode fd s = Inr s1" "fd_base s1 fd (ns @ [m]) bl"
    "holds_inode s1 fd (ns @ [m]) (length ns)" "keeps_data fd s s1"
    "fs_step fd (insert m (set ns)) s s1"
    "bitmap s1 = mark m (bitmap s)" "unat m < 4096" "\<not> used (bitmap s) m" "ns = [] \<longrightarrow> lowest (bitmap s) m"
    by (rule enter_inode_extend [OF base ic True at]) (use room True in \<open>auto simp: grow_cost_def\<close>)
  moreover have "free_blocks (bitmap s1) = free_blocks (bitmap s) - 1"
    using x sys_okD(1) [OF fd_baseD(1) [OF base]] by (simp add: free_blocks_mark)
  ultimately show thesis
    using that [of s1 "ns @ [m]"] True k room by (auto simp: grow_cost_def)
next
  case False
  have k: "pos s fd div 65024 = length bl div 127" using at by (simp add: capacity_div)
  have "length bl < length ns * 127" using False chain_okD(1) [OF fd_baseD(5) [OF base]] by auto
  then have "pos s fd div 65024 < length ns" unfolding k by (rule less_mult_imp_div_less)
  then obtain s1 where "fd_enter_inode fd s = Inr s1" "fd_base s1 fd ns bl"
      "holds_inode s1 fd ns (pos s fd div 65024)" "keeps_data fd s s1" "fs_step fd (set ns) s s1"
      "bitmap s1 = bitmap s" "dir s1 = dir s"
    by (rule enter_inode_load [OF base ic])
  moreover have "\<not> (ns = [] \<and> bl = [])" using False by auto
  ultimately show thesis using that [of s1 ns] False by (simp add: grow_cost_def)
qed

lemma fetch_extend:
  assumes base: "fd_base s fd ns bl" and cache: "cache_ok s fd ns bl" and tight: "tight ns bl"
    and at: "pos s fd = 512 * length bl" and room: "grow_cost ns bl \<le> free_blocks (bitmap s)"
  obtains s1 ns1 b where "fd_buffer_fetch fd s = Inr s1" "fd_base s1 fd ns1 (bl @ [b])"
    "on_block s1 fd ns1 (bl @ [b])" "tight ns1 (bl @ [b])"
    "fs_step fd (insert b (set ns1)) s s1" "set ns \<subseteq> set ns1"
    "\<And>n. \<lbrakk>n \<in> insert b (set ns1); n \<notin> set ns\<rbrakk> \<Longrightarrow> \<not> used (bitmap s) n"
    "\<And>n. n \<in> set bl \<Longrightarrow> view_block s1 fd n = view_block s fd n"
    "pos s1 fd = pos s fd" "fileSize (fd_entry fd s1) = fileSize (fd_entry fd s)"
    "free_blocks (bitmap s1) + grow_cost ns bl = free_blocks (bitmap s)"
    "length ns1 = length ns + (if length bl = 127 * length ns then 1 else 0)" "extends (bitmap s) ns bl ns1 (bl @ [b])"
proof -
  note b = fd_baseD [OF base]
  have g: "buffer_state (fd_pool s fd) = GARBAGE" and ic: "inode_cached s fd ns"
    using cache at by (auto simp: cache_ok_def)
  have start: "fd_buffer_fetch fd s = andThen (fd_enter_inode fd s) (fd_enter_block fd)"
    using g at by (simp add: fd_buffer_fetch_def offset_mod_sector_0)
  obtain s1 ns1 where e: "fd_enter_inode fd s = Inr s1" "fd_base s1 fd ns1 bl"
      "holds_inode s1 fd ns1 (pos s fd div 65024)" "keeps_data fd s s1"
      "fs_step fd (set ns1) s s1" "set ns \<subseteq> set ns1"
      "\<And>n. \<lbrakk>n \<in> set ns1; n \<notin> set ns\<rbrakk> \<Longrightarrow> \<not> used (bitmap s) n"
      "free_blocks (bitmap s1) + grow_cost ns bl = free_blocks (bitmap s) + 1"
      "length ns1 = length ns + (if length bl = 127 * length ns then 1 else 0)" "prefix ns ns1"
      "ns = [] \<and> bl = [] \<longrightarrow> (\<exists>m. ns1 = [m] \<and> lowest (bitmap s) m \<and> bitmap s1 = mark m (bitmap s))"
    by (rule enter_inode_for_block [OF base ic at room]) blast
  have p1: "pos s1 fd = pos s fd" using e(4) by (rule keeps_data_pos)
  have g1: "buffer_state (fd_pool s1 fd) = GARBAGE" using e(4) g by (simp add: keeps_data_def)
  have r1: "0 < free_blocks (bitmap s1)" using e(8) room by (auto simp: grow_cost_def split: if_splits)
  obtain c s2 where l: "fd_enter_block fd s1 = Inr s2" "fd_base s2 fd ns1 (bl @ [c])"
    "holds_inode s2 fd ns1 (pos s fd div 65024)" "buffer_state (fd_pool s2 fd) = USEFUL"
    "buffer_idx (fd_pool s2 fd) = c" "fs_step fd {c} s1 s2"
    "\<And>b'. b' \<noteq> c \<Longrightarrow> view_block s2 fd b' = view_block s1 fd b'"
    "pos s2 fd = pos s fd" "fileSize (fd_entry fd s2) = fileSize (fd_entry fd s1)"
    "bitmap s2 = mark c (bitmap s1)" "unat c < 4096" "\<not> used (bitmap s1) c" "lowest (bitmap s1) c"
    by (rule enter_block_extend [OF e(2) _ g1 _ r1, unfolded p1, OF e(3) at]) blast
  have cbl: "c \<notin> set bl" using l(12) chain_okD(11) [OF fd_baseD(5) [OF e(2)]] by blast
  have unused: "\<not> used (bitmap s) c" using l(12) e(5) by (auto simp: fs_step_def)
  show thesis
  proof (rule that [of s2 ns1 c])
    show "fd_buffer_fetch fd s = Inr s2" using start e(1) l(1) by simp
    show "on_block s2 fd ns1 (bl @ [c])" using l at by (simp add: on_block_def)
    show "tight ns1 (bl @ [c])"
      using e(9) chain_okD(1) [OF b(5)] tight by (auto simp: tight_def split: if_splits)
    show "fs_step fd (insert c (set ns1)) s s2" using e(5) l(6) by (rule fs_step_trans) auto
    show "view_block s2 fd n = view_block s fd n" if "n \<in> set bl" for n
      using that cbl l(7) chain_okD(4) [OF fd_baseD(5) [OF e(2)]] keeps_data_view [OF e(4,5)]
      by (metis disjoint_iff)
    show "free_blocks (bitmap s2) + grow_cost ns bl = free_blocks (bitmap s)"
      using l(10-12) e(8) r1 sys_okD(1) [OF fd_baseD(1) [OF e(2)]] by (simp add: free_blocks_mark)
    show "extends (bitmap s) ns bl ns1 (bl @ [c])" using e(10,11) l(13) by (auto simp: extends_def)
  qed (use l e unused in \<open>auto simp: keeps_data_def\<close>)
qed

end
