(* ===== verification/Fs_File.thy ===== *)
theory Fs_File
  imports Fs_Fetch
begin

text \<open>
  The contents of an open file and what the operations of \<^verbatim>\<open>kernel/fs.c\<close> do to them. A
  descriptor represents the bytes of its data sectors, cut at the size its directory entry
  gives; \<open>file_rep\<close> is the invariant under which \<^verbatim>\<open>fs_read\<close> and \<^verbatim>\<open>fs_write\<close> are shown to be
  reading and overwriting a slice of that list, across sector and inode boundaries.
\<close>

section \<open>The bytes of a file\<close>

definition size_of :: "fs_state \<Rightarrow> nat \<Rightarrow> nat" where
  "size_of s fd = unat (fileSize (fd_entry fd s))"

definition blocks_of :: "fs_state \<Rightarrow> nat \<Rightarrow> u32 list \<Rightarrow> u8 list" where
  "blocks_of s fd bl = concat (map (view_block s fd) bl)"

definition file_bytes :: "fs_state \<Rightarrow> nat \<Rightarrow> u32 list \<Rightarrow> u8 list" where
  "file_bytes s fd bl = take (size_of s fd) (blocks_of s fd bl)"

definition file_rep :: "fs_state \<Rightarrow> nat \<Rightarrow> u32 list \<Rightarrow> u32 list \<Rightarrow> bool" where
  "file_rep s fd ns bl \<longleftrightarrow> fd_base s fd ns bl \<and> cache_ok s fd ns bl \<and> tight ns bl
     \<and> size_of s fd \<le> 512 * length bl \<and> 512 * length bl < size_of s fd + 512
     \<and> pos s fd \<le> size_of s fd"

lemma file_repD:
  assumes "file_rep s fd ns bl"
  shows "fd_base s fd ns bl" "cache_ok s fd ns bl" "tight ns bl"
    "size_of s fd \<le> 512 * length bl" "512 * length bl < size_of s fd + 512"
    "pos s fd \<le> size_of s fd"
  using assms by (simp_all add: file_rep_def)

lemma view_block_length:
  assumes "fd_base s fd ns bl"
  shows "length (view_block s fd b) = 512"
  using fd_baseD [OF assms] sys_okD(3) [OF fd_baseD(1) [OF assms]]
  by (simp add: view_block_def IDE_READ_def disk_read_def disk_ok_def)

lemma view_blocks_length:
  assumes "fd_base s fd ns bl" "x \<in> set (map (view_block s fd) cl)"
  shows "length x = 512"
  using assms view_block_length by auto

lemma blocks_of_length:
  assumes "fd_base s fd ns bl"
  shows "length (blocks_of s fd cl) = 512 * length cl"
  using length_concat_const [of "map (view_block s fd) cl" 512] view_block_length [OF assms]
  by (auto simp: blocks_of_def)

lemma blocks_of_cong:
  "(\<And>b. b \<in> set bl \<Longrightarrow> view_block s' fd b = view_block s fd b) \<Longrightarrow>
    blocks_of s' fd bl = blocks_of s fd bl"
  by (simp add: blocks_of_def cong: map_cong)

lemma file_bytes_length:
  assumes "file_rep s fd ns bl"
  shows "length (file_bytes s fd bl) = size_of s fd"
  using file_repD(4) [OF assms] blocks_of_length [OF file_repD(1) [OF assms]]
  by (simp add: file_bytes_def)

section \<open>Leaving a sector\<close>

text \<open>
  Both loops end an iteration the same way: when the offset has reached the end of the
  sector, the sector is flushed and forgotten. \<open>on_edge\<close> is the state before that test.
\<close>

definition on_edge :: "fs_state \<Rightarrow> nat \<Rightarrow> u32 list \<Rightarrow> u32 list \<Rightarrow> nat \<Rightarrow> bool" where
  "on_edge s fd ns bl j \<longleftrightarrow> fd_base s fd ns bl \<and> buffer_coherent s fd
     \<and> buffer_state (fd_pool s fd) \<noteq> GARBAGE \<and> j < length bl
     \<and> buffer_idx (fd_pool s fd) = bl ! j \<and> holds_inode s fd ns (j div 127)
     \<and> 512 * j < pos s fd \<and> pos s fd \<le> 512 * Suc j"

definition leave_sector :: "nat \<Rightarrow> fs_state \<Rightarrow> fs_state" where
  "leave_sector fd s = (if pos s fd mod 512 = 0 then fd_buffer_flush fd s else s)"

lemma pos_buffer_flush [simp]: "pos (fd_buffer_flush fd s) g = pos s g"
  by (simp add: pos_def)

lemma pred_div_capacity:
  assumes "512 * j < (p :: nat)" "p \<le> 512 * Suc j"
  shows "(p - 1) div 65024 = j div 127"
proof -
  have "(p - 1) div 512 = j" using assms by (intro div_nat_eqI) auto
  then show ?thesis by (simp add: capacity_div)
qed

lemma leave_sector_ok:
  assumes "on_edge s fd ns bl j"
  shows "fd_base (leave_sector fd s) fd ns bl" "cache_ok (leave_sector fd s) fd ns bl"
    "fs_step fd (set bl) s (leave_sector fd s)"
    "view_block (leave_sector fd s) fd b = view_block s fd b"
    "pos (leave_sector fd s) fd = pos s fd" "bitmap (leave_sector fd s) = bitmap s"
    "dir (leave_sector fd s) = dir s" "fd_entry fd (leave_sector fd s) = fd_entry fd s"
proof -
  note e = assms [unfolded on_edge_def]
  have base: "fd_base s fd ns bl" and bc: "buffer_coherent s fd" using e by simp_all
  note b = fd_baseD [OF base] and ch = chain_okD [OF fd_baseD(5) [OF base]]
  have inb: "buffer_idx (fd_pool s fd) \<in> set bl" using e by simp
  then have lt: "unat (buffer_idx (fd_pool s fd)) < 4096" using ch(11) used_bound by blast
  have ent: "fd_entry fd (leave_sector fd s) = fd_entry fd s"
    by (simp add: leave_sector_def fd_entry_def)
  have v: "view_block (leave_sector fd s) fd b = view_block s fd b" for b
    using bc by (cases "buffer_state (fd_pool s fd)")
      (auto simp: leave_sector_def view_block_def buffer_coherent_def)
  have vi: "view_inode (leave_sector fd s) fd n = view_inode s fd n" if "n \<in> set ns" for n
    using that inb ch(4) by (auto simp: leave_sector_def view_inode_def)
  have "sys_ok (leave_sector fd s)"
    using b(1,3) lt by (auto simp: leave_sector_def intro: sys_ok_fd_buffer_flush)
  moreover have "inode_coherent (leave_sector fd s) fd"
  proof -
    have "inode_idx (fd_pool s fd) \<in> set ns" using e by (simp add: holds_inode_def)
    with inb ch(4) have "inode_idx (fd_pool s fd) \<noteq> buffer_idx (fd_pool s fd)" by auto
    with b(4) show ?thesis by (simp add: leave_sector_def inode_coherent_def)
  qed
  moreover have "chain_ok (bitmap (leave_sector fd s)) (view_inode (leave_sector fd s) fd)
      (fd_entry fd (leave_sector fd s)) ns bl"
    by (rule chain_cong [OF b(5)]) (auto simp: vi ent, simp add: leave_sector_def split: if_splits)
  moreover have "length (buffer (fd_pool (leave_sector fd s) fd)) = 512"
      "index (fd_pool (leave_sector fd s) fd) < 16"
    using b by (simp_all add: leave_sector_def)
  ultimately show "fd_base (leave_sector fd s) fd ns bl" by (simp add: fd_base_def)
  have p: "pos (leave_sector fd s) fd = pos s fd" by (simp add: leave_sector_def pos_def)
  have "pos s fd mod 512 \<noteq> 0 \<Longrightarrow> pos s fd div 512 = j"
  proof -
    assume "pos s fd mod 512 \<noteq> 0"
    then have "pos s fd \<noteq> 512 * Suc j" by auto
    with e show ?thesis by (intro div_nat_eqI) auto
  qed
  moreover have "inode_cached (leave_sector fd s) fd ns"
    using e pred_div_capacity [of j "pos s fd"]
    by (auto simp: inode_cached_def p holds_inode_def leave_sector_def)
  moreover have "512 * Suc j \<le> 512 * length bl" using e by (simp del: mult_Suc_right)
  ultimately show "cache_ok (leave_sector fd s) fd ns bl"
    using e p by (auto simp: cache_ok_def buffer_coherent_def leave_sector_def)
  show "fs_step fd (set bl) s (leave_sector fd s)"
    using inb ent by (auto simp: leave_sector_def fs_step_def fd_entry_def)
  show "view_block (leave_sector fd s) fd b = view_block s fd b" by (rule v)
  show "pos (leave_sector fd s) fd = pos s fd" by (rule p)
  show "fd_entry fd (leave_sector fd s) = fd_entry fd s" by (rule ent)
qed (simp_all add: leave_sector_def)


lemma sector_range:
  assumes "0 < n" "(p :: nat) mod 512 + n \<le> 512"
  shows "512 * (p div 512) < p + n" "p + n \<le> 512 * Suc (p div 512)"
proof -
  define q r where "q = p div 512" and "r = p mod 512"
  then have "p = 512 * q + r" by simp
  with assms show "512 * (p div 512) < p + n" "p + n \<le> 512 * Suc (p div 512)"
    unfolding q_def [symmetric] r_def [symmetric] by simp_all
qed

section \<open>Reading\<close>

lemma on_block_bytes:
  assumes base: "fd_base s fd ns bl" and on: "on_block s fd ns bl"
    and fit: "pos s fd mod 512 + c \<le> 512"
  shows "take c (drop (pos s fd mod 512) (buffer (fd_pool s fd)))
    = take c (drop (pos s fd) (blocks_of s fd bl))"
proof -
  let ?j = "pos s fd div 512"
  have j: "?j < length bl" "buffer (fd_pool s fd) = map (view_block s fd) bl ! ?j"
    using on by (simp_all add: on_block_def view_block_def)
  have "take c (drop (512 * ?j + pos s fd mod 512) (concat (map (view_block s fd) bl)))
      = take c (drop (pos s fd mod 512) (map (view_block s fd) bl ! ?j))"
    by (rule slice_concat_const [OF view_blocks_length [OF base]]) (use j fit in auto)
  then show ?thesis unfolding blocks_of_def j(2) by simp
qed

lemma offset_advance:
  fixes c :: int
  assumes "0 \<le> c" "int (pos s fd) + c < 4294967296"
  shows "unat (offset (fd_pool s fd) + of_int c) = pos s fd + nat c"
proof -
  obtain n where "c = int n" using assms(1) by (metis nonneg_int_cases)
  moreover from this assms(2) have "pos s fd + n < 4294967296" by linarith
  ultimately show ?thesis by (simp add: pos_def unat_add_of_nat)
qed

text \<open>An iteration of the reading loop.\<close>

lemma read_loop_unfold:
  assumes "n < len" "fd_buffer_fetch fd s = Inr s1"
    and c: "min (len - n) (512 - int (pos s1 fd mod 512)) = c"
  shows "fs_read_loop fd len n buf s = fs_read_loop fd len (n + c)
      (buf @ take (nat c) (drop (pos s1 fd mod 512) (buffer (fd_pool s1 fd))))
      (leave_sector fd (upd_fd fd (\<lambda>f. f\<lparr>offset := offset f + of_int c\<rparr>) s1))"
  using assms(1,2)
  by (subst fs_read_loop.simps)
    (simp add: Let_def leave_sector_def offset_mod_sector offset_mod_sector_0 [symmetric] c)

text \<open>Moving the offset inside the cached sector, or to its end.\<close>

lemma advance_ok:
  assumes base: "fd_base s fd ns bl" and on: "on_block s fd ns bl" and coh: "buffer_coherent s fd"
    and c: "0 < c" "int (pos s fd mod 512) + c \<le> 512" "int (pos s fd) + c < 4294967296"
    and t: "t = upd_fd fd (\<lambda>f. f\<lparr>offset := offset f + of_int c\<rparr>) s"
  shows "pos t fd = pos s fd + nat c" "on_edge t fd ns bl (pos s fd div 512)"
    "fs_step fd A s t" "view_block t fd b = view_block s fd b"
proof -
  have "unat (offset (fd_pool s fd) + of_int c) = pos s fd + nat c"
    using c by (intro offset_advance) simp_all
  then show post: "pos t fd = pos s fd + nat c" unfolding t by (simp add: pos_def)
  have "view_inode t fd = view_inode s fd" by (auto simp: view_inode_def t)
  then have bt: "fd_base t fd ns bl"
    using base by (simp add: fd_base_def inode_coherent_def t)
  have "0 < nat c" "pos s fd mod 512 + nat c \<le> 512" using c(1,2) by linarith+
  then have "512 * (pos s fd div 512) < pos t fd" "pos t fd \<le> 512 * Suc (pos s fd div 512)"
    unfolding post by (rule sector_range)+
  with bt show "on_edge t fd ns bl (pos s fd div 512)"
    using on coh capacity_div [of "pos s fd"] by (auto simp: on_edge_def on_block_def buffer_coherent_def holds_inode_def t)
  show "fs_step fd A s t" unfolding t by (rule fs_step_upd_fd) simp_all
  show "view_block t fd b = view_block s fd b" by (simp add: view_block_def t)
qed

lemma read_step:
  assumes rep: "file_rep s fd ns bl" and n: "n < len"
    and fit: "int (pos s fd) + (len - n) \<le> int (size_of s fd)"
  obtains c s1 where "0 < c" "c \<le> len - n"
    "fs_read_loop fd len n buf s = fs_read_loop fd len (n + c)
       (buf @ take (nat c) (drop (pos s fd) (file_bytes s fd bl))) s1"
    "file_rep s1 fd ns bl" "file_bytes s1 fd bl = file_bytes s fd bl"
    "int (pos s1 fd) = int (pos s fd) + c" "size_of s1 fd = size_of s fd"
    "fs_step fd (set ns \<union> set bl) s s1" "bitmap s1 = bitmap s" "dir s1 = dir s"
proof -
  note r = file_repD [OF rep]
  define c where "c = min (len - n) (512 - int (pos s fd mod 512))"
  have inside: "pos s fd < 512 * length bl" using n fit r(4) by linarith
  have "pos s fd mod 512 < 512" by simp
  then have c: "0 < c" "c \<le> len - n" "int (pos s fd mod 512) + c \<le> 512"
    using n by (auto simp: c_def simp del: mod_less_divisor)
  obtain s1 where f: "fd_buffer_fetch fd s = Inr s1" "fd_base s1 fd ns bl" "on_block s1 fd ns bl"
      "buffer_coherent s1 fd" "fs_step fd (set ns) s s1"
      "\<And>b. b \<in> set bl \<Longrightarrow> view_block s1 fd b = view_block s fd b"
      "pos s1 fd = pos s fd" "bitmap s1 = bitmap s" "dir s1 = dir s"
    by (rule fetch_existing [OF r(1,2) inside]) blast
  let ?t = "upd_fd fd (\<lambda>f. f\<lparr>offset := offset f + of_int c\<rparr>) s1"
  have "size_of s fd < 4294967296" unfolding size_of_def using unsigned_less [of "fileSize (fd_entry fd s)"] by simp
  with c fit have "int (pos s1 fd) + c < 4294967296" unfolding f(7) by linarith
  note adv = advance_ok [OF f(2-4) c(1) _ this refl, unfolded f(7), OF c(3)]
  have "index (fd_pool s1 fd) = index (fd_pool s fd)" using f(5) by (simp add: fs_step_def)
  then have ent: "fd_entry fd s1 = fd_entry fd s" using f(9) by (simp add: fd_entry_def)
  note l = leave_sector_ok [OF adv(2)] and post = adv(1)
  let ?u = "leave_sector fd ?t"
  have size: "size_of ?u fd = size_of s fd" by (simp add: size_of_def l(8) ent)
  have "view_block ?u fd b = view_block s fd b" if "b \<in> set bl" for b
    using f(6) [OF that] adv(4) by (simp only: l(4))
  then have blocks: "blocks_of ?u fd bl = blocks_of s fd bl" by (rule blocks_of_cong)
  show thesis
  proof (rule that [of c ?u])
    have "take (nat c) (drop (pos s fd mod 512) (buffer (fd_pool s1 fd)))
        = take (nat c) (drop (pos s fd) (blocks_of s1 fd bl))"
      using on_block_bytes [OF f(2,3), of "nat c"] c f(7) by simp
    also have "blocks_of s1 fd bl = blocks_of s fd bl" using f(6) by (rule blocks_of_cong)
    also have "take (nat c) (drop (pos s fd) (blocks_of s fd bl))
        = take (nat c) (drop (pos s fd) (file_bytes s fd bl))"
      using c fit by (simp add: file_bytes_def drop_take min_absorb1)
    finally have data: "take (nat c) (drop (pos s fd mod 512) (buffer (fd_pool s1 fd)))
        = take (nat c) (drop (pos s fd) (file_bytes s fd bl))" .
    have "min (len - n) (512 - int (pos s1 fd mod 512)) = c" unfolding f(7) c_def ..
    from read_loop_unfold [OF n f(1) this, of buf] data
    show "fs_read_loop fd len n buf s = fs_read_loop fd len (n + c)
        (buf @ take (nat c) (drop (pos s fd) (file_bytes s fd bl))) ?u"
      by (simp only: f(7))
    show "file_rep ?u fd ns bl"
      using l(1,2,5) r(3-5) post c fit by (simp add: file_rep_def size)
    show "file_bytes ?u fd bl = file_bytes s fd bl" by (simp add: file_bytes_def size blocks)
    show "int (pos ?u fd) = int (pos s fd) + c" using l(5) post c by simp
    have "fs_step fd (set bl) s1 ?u" using adv(3) l(3) by (rule fs_step_trans) auto
    with f(5) show "fs_step fd (set ns \<union> set bl) s ?u" by (rule fs_step_trans) auto
  qed (use c size l(6,7) f(8,9) in auto)
qed

lemma read_loop_ok:
  assumes "file_rep s fd ns bl" "n \<le> len" "int (pos s fd) + (len - n) \<le> int (size_of s fd)"
  shows "\<exists>s'. fs_read_loop fd len n buf s =
      Inr (len, buf @ take (nat (len - n)) (drop (pos s fd) (file_bytes s fd bl)), s')
    \<and> file_rep s' fd ns bl \<and> file_bytes s' fd bl = file_bytes s fd bl
    \<and> int (pos s' fd) = int (pos s fd) + (len - n) \<and> size_of s' fd = size_of s fd
    \<and> fs_step fd (set ns \<union> set bl) s s' \<and> bitmap s' = bitmap s \<and> dir s' = dir s"
  using assms
proof (induction "nat (len - n)" arbitrary: n buf s rule: less_induct)
  case less
  show ?case
  proof (cases "n < len")
    case False
    with less.prems show ?thesis
      by (subst fs_read_loop.simps) (simp add: fs_step_refl)
  next
    case True
    obtain c s1 where c: "0 < c" "c \<le> len - n"
      "fs_read_loop fd len n buf s = fs_read_loop fd len (n + c)
         (buf @ take (nat c) (drop (pos s fd) (file_bytes s fd bl))) s1"
      "file_rep s1 fd ns bl" "file_bytes s1 fd bl = file_bytes s fd bl"
      "int (pos s1 fd) = int (pos s fd) + c" "size_of s1 fd = size_of s fd"
      "fs_step fd (set ns \<union> set bl) s s1" "bitmap s1 = bitmap s" "dir s1 = dir s"
      by (rule read_step [OF less.prems(1) True less.prems(3)])
    let ?b = "buf @ take (nat c) (drop (pos s fd) (file_bytes s fd bl))"
    obtain s' where i: "fs_read_loop fd len (n + c) ?b s1 =
        Inr (len, ?b @ take (nat (len - (n + c))) (drop (pos s1 fd) (file_bytes s fd bl)), s')"
      "file_rep s' fd ns bl" "file_bytes s' fd bl = file_bytes s fd bl"
      "int (pos s' fd) = int (pos s1 fd) + (len - (n + c))" "size_of s' fd = size_of s fd"
      "fs_step fd (set ns \<union> set bl) s1 s'" "bitmap s' = bitmap s" "dir s' = dir s"
      using less.hyps [of "n + c" s1 ?b] c less.prems(3) by auto
    have "nat (len - n) = nat c + nat (len - (n + c))" "pos s1 fd = nat c + pos s fd"
      using c by auto
    then have "take (nat c) (drop (pos s fd) (file_bytes s fd bl))
        @ take (nat (len - (n + c))) (drop (pos s1 fd) (file_bytes s fd bl))
      = take (nat (len - n)) (drop (pos s fd) (file_bytes s fd bl))"
      by (simp add: take_add)
    moreover have "fs_step fd (set ns \<union> set bl) s s'"
      using c(8) i(6) by (rule fs_step_trans) auto
    ultimately show ?thesis using i c by simp
  qed
qed

text \<open>The number of bytes \<^verbatim>\<open>fs_read\<close> transfers: what is left of the file, at most \<open>len\<close>.\<close>

lemma remaining_bytes:
  assumes "pos s fd \<le> size_of s fd" "size_of s fd < 2 ^ 31"
  shows "sint (fileSize (fd_entry fd s) - offset (fd_pool s fd)) = int (size_of s fd) - int (pos s fd)"
proof -
  let ?w = "fileSize (fd_entry fd s) - offset (fd_pool s fd)"
  have "unat ?w = size_of s fd - pos s fd"
    using assms(1) by (simp add: size_of_def pos_def unat_sub word_le_nat_alt)
  moreover have "uint ?w = int (unat ?w)" by simp
  ultimately have "uint ?w = int (size_of s fd - pos s fd)" by (simp only:)
  then have "sint ?w = int (size_of s fd - pos s fd)"
    using assms(2) unfolding sint_uint by (simp add: signed_take_bit_int_eq_self)
  then show ?thesis using assms(1) by simp
qed


section \<open>Counting sectors\<close>

text \<open>
  A file of \<open>n\<close> bytes occupies \<open>blocks_for n\<close> data sectors and the inodes to list them.
\<close>

definition blocks_for :: "nat \<Rightarrow> nat" where
  "blocks_for n = (n + 511) div 512"

definition inodes_for :: "nat \<Rightarrow> nat" where
  "inodes_for b = (b + 126) div 127"

definition sectors_for :: "nat \<Rightarrow> nat" where
  "sectors_for n = blocks_for n + inodes_for (blocks_for n)"

lemma sectors_for_mono: "m \<le> n \<Longrightarrow> sectors_for m \<le> sectors_for n"
  unfolding sectors_for_def blocks_for_def inodes_for_def
  by (intro add_mono div_le_mono add_right_mono)

lemma inodes_of_tight:
  assumes "tight ns bl" "length bl \<le> 127 * length ns"
  shows "length ns = inodes_for (length bl)"
  unfolding inodes_for_def
  by (rule div_nat_eqI [symmetric]) (use assms in \<open>simp_all add: tight_def\<close>)

lemma file_rep_sectors:
  assumes "file_rep s fd ns bl"
  shows "length bl = blocks_for (size_of s fd)" "length ns = inodes_for (length bl)"
    "length ns + length bl = sectors_for (size_of s fd)"
proof -
  note r = file_repD [OF assms]
  show bl: "length bl = blocks_for (size_of s fd)"
    unfolding blocks_for_def by (rule div_nat_eqI [symmetric]) (use r(4,5) in simp_all)
  show ns: "length ns = inodes_for (length bl)"
    by (rule inodes_of_tight [OF r(3) chain_okD(1) [OF fd_baseD(5) [OF r(1)]]])
  show "length ns + length bl = sectors_for (size_of s fd)"
    using bl ns by (simp add: sectors_for_def)
qed

section \<open>Writing\<close>

text \<open>The sector under the offset, for writing: it exists, or the file grows by one.\<close>

lemma fetch_for_write:
  assumes rep: "file_rep s fd ns bl"
    and room: "pos s fd = 512 * length bl \<longrightarrow> grow_cost ns bl \<le> free_blocks (bitmap s)"
  obtains s1 ns1 bl1 where "fd_buffer_fetch fd s = Inr s1" "fd_base s1 fd ns1 bl1"
    "on_block s1 fd ns1 bl1" "tight ns1 bl1" "pos s1 fd = pos s fd" "size_of s1 fd = size_of s fd"
    "fs_step fd (set ns1 \<union> set bl1) s s1" "set ns \<subseteq> set ns1" "set bl \<subseteq> set bl1"
    "\<forall>n \<in> set ns1 \<union> set bl1. n \<in> set ns \<union> set bl \<or> \<not> used (bitmap s) n"
    "take (512 * length bl) (blocks_of s1 fd bl1) = blocks_of s fd bl"
    "length bl1 = (if pos s fd = 512 * length bl then Suc (length bl) else length bl)"
    "free_blocks (bitmap s1) + (length ns1 + length bl1) = free_blocks (bitmap s) + (length ns + length bl)"
    "extends (bitmap s) ns bl ns1 bl1" "bl1 \<noteq> []"
proof -
  note r = file_repD [OF rep]
  show thesis
  proof (cases "pos s fd = 512 * length bl")
    case False
    then have inside: "pos s fd < 512 * length bl" using r(4,6) by linarith
    obtain s1 where f: "fd_buffer_fetch fd s = Inr s1" "fd_base s1 fd ns bl" "on_block s1 fd ns bl"
        "buffer_coherent s1 fd" "fs_step fd (set ns) s s1"
        "\<And>b. b \<in> set bl \<Longrightarrow> view_block s1 fd b = view_block s fd b"
        "pos s1 fd = pos s fd" "bitmap s1 = bitmap s" "dir s1 = dir s"
      by (rule fetch_existing [OF r(1,2) inside]) blast
    have "index (fd_pool s1 fd) = index (fd_pool s fd)" using f(5) by (simp add: fs_step_def)
    then have "size_of s1 fd = size_of s fd" using f(9) by (simp add: size_of_def fd_entry_def)
    moreover have "blocks_of s1 fd bl = blocks_of s fd bl" using f(6) by (rule blocks_of_cong)
    moreover have "fs_step fd (set ns \<union> set bl) s s1" using f(5) by (rule fs_step_mono) simp
    ultimately show thesis
      using that [of s1 ns bl] f False inside r(3) blocks_of_length [OF r(1), of bl] by (cases "bl = []") auto
  next
    case True
    have room': "grow_cost ns bl \<le> free_blocks (bitmap s)" using room True by simp
    obtain s1 ns1 b where f: "fd_buffer_fetch fd s = Inr s1" "fd_base s1 fd ns1 (bl @ [b])"
      "on_block s1 fd ns1 (bl @ [b])" "tight ns1 (bl @ [b])"
      "fs_step fd (insert b (set ns1)) s s1" "set ns \<subseteq> set ns1"
      "\<And>n. \<lbrakk>n \<in> insert b (set ns1); n \<notin> set ns\<rbrakk> \<Longrightarrow> \<not> used (bitmap s) n"
      "\<And>n. n \<in> set bl \<Longrightarrow> view_block s1 fd n = view_block s fd n"
      "pos s1 fd = pos s fd" "fileSize (fd_entry fd s1) = fileSize (fd_entry fd s)"
      "free_blocks (bitmap s1) + grow_cost ns bl = free_blocks (bitmap s)"
      "length ns1 = length ns + (if length bl = 127 * length ns then 1 else 0)" "extends (bitmap s) ns bl ns1 (bl @ [b])"
      by (rule fetch_extend [OF r(1-3) True room']) blast
    have "blocks_of s1 fd bl = blocks_of s fd bl" using f(8) by (rule blocks_of_cong)
    then have "take (512 * length bl) (blocks_of s1 fd (bl @ [b])) = blocks_of s fd bl"
      using blocks_of_length [OF r(1), of bl] by (simp add: blocks_of_def)
    moreover have "fs_step fd (set ns1 \<union> set (bl @ [b])) s s1"
      using f(5) by (rule fs_step_mono) auto
    moreover have "free_blocks (bitmap s1) + (length ns1 + length (bl @ [b]))
        = free_blocks (bitmap s) + (length ns + length bl)"
      using f(11,12) by (simp add: grow_cost_def split: if_splits)
    ultimately show thesis
      using that [of s1 ns1 "bl @ [b]"] f True by (auto simp: size_of_def)
  qed
qed

text \<open>Storing a chunk in the cached sector and advancing.\<close>

definition store_chunk :: "nat \<Rightarrow> u8 list \<Rightarrow> fs_state \<Rightarrow> fs_state" where
  "store_chunk fd chunk s =
     (let s2 = upd_fd fd (\<lambda>f. f\<lparr>buffer_state := NEED_WASHING,
                 offset := offset f + of_nat (length chunk)\<rparr>) s;
          t = upd_fd fd (\<lambda>f. f\<lparr>buffer := splice_at (pos s fd mod 512) chunk (buffer f)\<rparr>) s2
      in if fileSize (fd_entry fd t) < offset (fd_pool t fd)
         then (upd_entry (index (fd_pool t fd)) (\<lambda>e. e\<lparr>fileSize := offset (fd_pool t fd)\<rparr>) t)
                \<lparr>state_dir := NEED_WASHING\<rparr>
         else t)"


lemma store_chunk_fields:
  "fd_pool (store_chunk fd chunk s) fd =
     (fd_pool s fd)\<lparr>buffer_state := NEED_WASHING, offset := offset (fd_pool s fd) + of_nat (length chunk),
        buffer := splice_at (pos s fd mod 512) chunk (buffer (fd_pool s fd))\<rparr>"
  "g \<noteq> fd \<Longrightarrow> fd_pool (store_chunk fd chunk s) g = fd_pool s g"
  "bitmap (store_chunk fd chunk s) = bitmap s"
  "IDE_READ n (store_chunk fd chunk s) = IDE_READ n s"
  by (simp_all add: store_chunk_def Let_def)

lemma store_chunk_entry:
  assumes "index (fd_pool s fd) < 16" "dir_wf (dir s)" "pos s fd + length chunk < 2 ^ 32"
  shows "fd_entry fd (store_chunk fd chunk s) = (fd_entry fd s)\<lparr>fileSize :=
      max (fileSize (fd_entry fd s)) (offset (fd_pool s fd) + of_nat (length chunk))\<rparr>"
    "size_of (store_chunk fd chunk s) fd = max (size_of s fd) (pos s fd + length chunk)"
    "pos (store_chunk fd chunk s) fd = pos s fd + length chunk"
proof -
  have len: "length (dir s) = 16" using assms(2) by (rule dir_wf_length)
  show e: "fd_entry fd (store_chunk fd chunk s) = (fd_entry fd s)\<lparr>fileSize :=
      max (fileSize (fd_entry fd s)) (offset (fd_pool s fd) + of_nat (length chunk))\<rparr>"
    using assms(1) len by (auto simp: store_chunk_def Let_def fd_entry_def max_def not_less)
  have u: "unat (offset (fd_pool s fd) + of_nat (length chunk)) = pos s fd + length chunk"
    using assms(3) by (simp add: pos_def unat_add_of_nat)
  then show "size_of (store_chunk fd chunk s) fd = max (size_of s fd) (pos s fd + length chunk)"
    by (simp add: size_of_def e max_def word_le_nat_alt)
  show "pos (store_chunk fd chunk s) fd = pos s fd + length chunk"
    using u by (simp add: pos_def store_chunk_fields)
qed

lemma store_chunk_sys_ok:
  assumes "sys_ok s" "index (fd_pool s fd) < 16"
  shows "sys_ok (store_chunk fd chunk s)"
  using assms dir_wf_nth [OF sys_okD(2) [OF assms(1)] assms(2)]
  by (auto simp: store_chunk_def Let_def dirent_wf_def intro!: sys_ok_upd_entry)

lemma store_chunk_step:
  assumes "index (fd_pool s fd) < 16" "dir_wf (dir s)"
  shows "fs_step fd A s (store_chunk fd chunk s)"
  using assms dir_wf_length [OF assms(2)]
  by (auto simp: store_chunk_def Let_def fs_step_def fd_entry_def)

lemma store_chunk_ok:
  assumes base: "fd_base s fd ns bl" and on: "on_block s fd ns bl" and c: "0 < length chunk"
    and fit: "pos s fd mod 512 + length chunk \<le> 512" and bound: "pos s fd + length chunk < 2 ^ 32"
  shows "on_edge (store_chunk fd chunk s) fd ns bl (pos s fd div 512)"
    "blocks_of (store_chunk fd chunk s) fd bl = splice_at (pos s fd) chunk (blocks_of s fd bl)"
proof -
  let ?t = "store_chunk fd chunk s" and ?j = "pos s fd div 512"
  note b = fd_baseD [OF base] and ch = chain_okD [OF fd_baseD(5) [OF base]]
  note e = store_chunk_entry [OF b(2) sys_okD(2) [OF b(1)] bound]
  have o: "?j < length bl" "buffer_idx (fd_pool s fd) = bl ! ?j"
      "buffer_state (fd_pool s fd) \<noteq> GARBAGE" "holds_inode s fd ns (pos s fd div 65024)"
    using on by (simp_all add: on_block_def)
  have "chain_ok (bitmap ?t) (view_inode ?t fd) (fd_entry fd ?t) ns bl"
    by (rule chain_cong [OF b(5)]) (simp_all add: e(1) view_inode_def store_chunk_fields)
  then have "fd_base ?t fd ns bl"
    using b fit store_chunk_sys_ok [OF b(1,2)]
    by (simp add: fd_base_def inode_coherent_def store_chunk_fields)
  then show "on_edge ?t fd ns bl ?j"
    using o sector_range [OF c fit] capacity_div [of "pos s fd"]
    by (simp add: on_edge_def buffer_coherent_def holds_inode_def e(3) store_chunk_fields)
  have v: "view_block ?t fd (bl ! k) = (if k = ?j then splice_at (pos s fd mod 512) chunk
      (view_block s fd (bl ! ?j)) else view_block s fd (bl ! k))" if "k < length bl" for k
    using o that ch(3) by (auto simp: view_block_def store_chunk_fields nth_eq_iff_index_eq)
  have "map (view_block ?t fd) bl = (map (view_block s fd) bl)
      [?j := splice_at (pos s fd mod 512) chunk (map (view_block s fd) bl ! ?j)]"
    using o(1) v by (auto intro!: nth_equalityI simp: nth_list_update)
  then have "blocks_of ?t fd bl =
      splice_at (512 * ?j + pos s fd mod 512) chunk (concat (map (view_block s fd) bl))"
    unfolding blocks_of_def
    using concat_splice_block [of "map (view_block s fd) bl" 512 ?j "pos s fd mod 512" chunk]
      view_blocks_length [OF base] o(1) fit by simp
  then show "blocks_of ?t fd bl = splice_at (pos s fd) chunk (blocks_of s fd bl)"
    by (simp add: blocks_of_def)
qed

lemma sector_full: "\<lbrakk>0 < x; x \<le> 512\<rbrakk> \<Longrightarrow> x mod 512 = 0 \<longleftrightarrow> x = (512 :: nat)"
  by (cases "x = 512") (simp_all add: mod_less)

lemma unat_add_mod_sector:
  fixes w :: u32
  shows "unat (w + of_nat c) mod 512 = (unat w mod 512 + c) mod 512"
proof -
  have "unat (w + of_nat c) mod 512 = (unat w + c) mod 4294967296 mod 512"
    by (simp add: unat_word_ariths unat_of_nat take_bit_eq_mod mod_simps)
  also have "\<dots> = (unat w + c) mod 512" by (rule mod_mod_cancel) simp
  finally show ?thesis by (simp add: mod_simps)
qed

lemma write_loop_unfold:
  assumes n: "n < len" and f: "fd_buffer_fetch fd s = Inr s1" and p: "pos s1 fd = pos s fd"
    and c: "min (len - n) (512 - pos s fd mod 512) = c" and len: "len \<le> length buf"
  shows "fs_write_loop fd buf (int len) (int n) s = fs_write_loop fd buf (int len) (int (n + c))
      (leave_sector fd (store_chunk fd (take c (drop n buf)) s1))"
proof -
  have lc: "length (take c (drop n buf)) = c" using c n len by auto
  have "pos s fd mod 512 < 512" by simp
  then have cz: "min (int len - int n) (512 - int (pos s fd mod 512)) = int c"
    unfolding c [symmetric] using n by linarith
  let ?t = "store_chunk fd (take c (drop n buf)) s1"
  have "pos ?t fd mod 512 = (pos s fd mod 512 + c) mod 512"
    using unat_add_mod_sector [of "offset (fd_pool s1 fd)" c] p
    unfolding pos_def store_chunk_fields(1) lc by simp
  moreover have "pos s fd mod 512 + c \<le> 512" "0 < pos s fd mod 512 + c" using c n by auto
  ultimately have "pos ?t fd mod 512 = 0 \<longleftrightarrow> pos s fd mod 512 + c = 512"
    by (simp only: sector_full)
  then have edge: "int (pos s fd mod 512) + int c = 512 \<longleftrightarrow> pos ?t fd mod 512 = 0"
    by linarith
  have "n + c \<le> length buf" using c n len by auto
  then have room: "\<not> length buf < nat (int n + int c)" by linarith
  from n f show ?thesis
    unfolding leave_sector_def edge [symmetric] unfolding store_chunk_def lc p
    by (subst fs_write_loop.simps) (simp add: Let_def offset_mod_sector cz room)
qed


text \<open>An iteration of the writing loop, and the loop.\<close>

lemma write_room:
  assumes rep: "file_rep s fd ns bl" and n: "0 < k"
    and room: "sectors_for (max (size_of s fd) (pos s fd + k)) \<le> sectors_for (size_of s fd) + free"
  shows "pos s fd = 512 * length bl \<longrightarrow> grow_cost ns bl \<le> free"
proof
  assume at: "pos s fd = 512 * length bl"
  note g = file_rep_sectors [OF rep]
  have "512 * length bl + 1 \<le> max (size_of s fd) (pos s fd + k)" using at n by simp
  then have "sectors_for (512 * length bl + 1) \<le> length ns + length bl + free"
    using room g(3) sectors_for_mono order_trans by metis
  moreover have "blocks_for (512 * length bl + 1) = Suc (length bl)" by (simp add: blocks_for_def)
  moreover have "inodes_for (Suc (length bl)) = length ns + (grow_cost ns bl - 1)"
    using g(2) chain_okD(1) [OF fd_baseD(5) [OF file_repD(1) [OF rep]]] file_repD(3) [OF rep]
    by (auto simp: inodes_for_def grow_cost_def tight_def intro!: div_nat_eqI)
  ultimately show "grow_cost ns bl \<le> free"
    by (simp add: sectors_for_def grow_cost_def split: if_splits)
qed

lemma write_step:
  assumes rep: "file_rep s fd ns bl" and n: "n < len" and len: "len \<le> length buf"
    and bound: "pos s fd + (len - n) < 2 ^ 32"
    and room: "sectors_for (max (size_of s fd) (pos s fd + (len - n)))
      \<le> sectors_for (size_of s fd) + free_blocks (bitmap s)"
  obtains c s1 ns1 bl1 where "0 < c" "c \<le> len - n"
    "fs_write_loop fd buf (int len) (int n) s = fs_write_loop fd buf (int len) (int (n + c)) s1"
    "file_rep s1 fd ns1 bl1"
    "file_bytes s1 fd bl1 = splice_at (pos s fd) (take c (drop n buf)) (file_bytes s fd bl)"
    "pos s1 fd = pos s fd + c" "size_of s1 fd = max (size_of s fd) (pos s fd + c)"
    "fs_step fd (set ns1 \<union> set bl1) s s1" "set ns \<union> set bl \<subseteq> set ns1 \<union> set bl1"
    "\<forall>n \<in> set ns1 \<union> set bl1. n \<in> set ns \<union> set bl \<or> \<not> used (bitmap s) n"
    "free_blocks (bitmap s1) + sectors_for (size_of s1 fd)
      = free_blocks (bitmap s) + sectors_for (size_of s fd)"
    "extends (bitmap s) ns bl ns1 bl1" "bl1 \<noteq> []"
proof -
  note r = file_repD [OF rep]
  define c where "c = min (len - n) (512 - pos s fd mod 512)"
  define chunk where "chunk = take c (drop n buf)"
  have "pos s fd mod 512 < 512" by simp
  then have c: "0 < c" "c \<le> len - n" "pos s fd mod 512 + c \<le> 512" "length chunk = c"
    using n len by (auto simp: c_def chunk_def simp del: mod_less_divisor)
  have "pos s fd = 512 * length bl \<longrightarrow> grow_cost ns bl \<le> free_blocks (bitmap s)"
    by (rule write_room [OF rep _ room]) (use n in simp)
  then obtain s1 ns1 bl1 where f: "fd_buffer_fetch fd s = Inr s1" "fd_base s1 fd ns1 bl1"
    "on_block s1 fd ns1 bl1" "tight ns1 bl1" "pos s1 fd = pos s fd" "size_of s1 fd = size_of s fd"
    "fs_step fd (set ns1 \<union> set bl1) s s1" "set ns \<subseteq> set ns1" "set bl \<subseteq> set bl1"
    "\<forall>n \<in> set ns1 \<union> set bl1. n \<in> set ns \<union> set bl \<or> \<not> used (bitmap s) n"
    "take (512 * length bl) (blocks_of s1 fd bl1) = blocks_of s fd bl"
    "length bl1 = (if pos s fd = 512 * length bl then Suc (length bl) else length bl)"
    "free_blocks (bitmap s1) + (length ns1 + length bl1) = free_blocks (bitmap s) + (length ns + length bl)"
    "extends (bitmap s) ns bl ns1 bl1" "bl1 \<noteq> []"
    by (rule fetch_for_write [OF rep]) blast
  let ?t = "store_chunk fd chunk s1"
  let ?u = "leave_sector fd ?t"
  note b = fd_baseD [OF f(2)]
  have bnd: "pos s1 fd + length chunk < 2 ^ 32" using f(5) c bound by simp
  note e = store_chunk_entry [OF b(2) sys_okD(2) [OF b(1)] bnd, unfolded f(5,6) c(4)]
  note st = store_chunk_ok [OF f(2,3) _ _ bnd, unfolded f(5) c(4), OF c(1,3)]
  note l = leave_sector_ok [OF st(1)]
  have size: "size_of ?u fd = max (size_of s fd) (pos s fd + c)"
    using e(2) by (simp add: size_of_def l(8))
  have len1: "length (blocks_of s1 fd bl1) = 512 * length bl1" by (rule blocks_of_length [OF f(2)])
  have fits: "pos s fd + c \<le> 512 * length bl1"
  proof -
    have "pos s fd div 512 < length bl1" using f(3,5) by (simp add: on_block_def)
    moreover have "pos s fd + c \<le> 512 * Suc (pos s fd div 512)" using c by (intro sector_range)
    ultimately show ?thesis by (meson Suc_leI mult_le_mono2 order_trans)
  qed
  have rep1: "file_rep ?u fd ns1 bl1"
    unfolding file_rep_def size l(5) e(3)
    using l(1,2) f(4,12) fits r(4-6) c(1) by (auto simp: max_def)
  have grown: "size_of s fd \<le> 512 * length bl1" using f(12) r(4) by auto
  have "blocks_of ?u fd bl1 = blocks_of ?t fd bl1" by (rule blocks_of_cong) (rule l(4))
  then have "file_bytes ?u fd bl1 = take (max (size_of s fd) (pos s fd + c))
      (splice_at (pos s fd) chunk (blocks_of s1 fd bl1))"
    by (simp only: file_bytes_def size st(2))
  also have "\<dots> = splice_at (pos s fd) chunk (take (size_of s fd) (blocks_of s1 fd bl1))"
    using take_splice_at [of "pos s fd" "size_of s fd" "blocks_of s1 fd bl1" chunk]
      r(6) grown len1 c(4) by simp
  also have "take (size_of s fd) (blocks_of s1 fd bl1) = file_bytes s fd bl"
    unfolding file_bytes_def f(11) [symmetric] using r(4) by (simp add: min_absorb1)
  finally have data: "file_bytes ?u fd bl1 = splice_at (pos s fd) chunk (file_bytes s fd bl)" .
  have "fs_step fd (set ns1 \<union> set bl1) s1 ?t" by (rule store_chunk_step [OF b(2) sys_okD(2) [OF b(1)]])
  then have "fs_step fd (set ns1 \<union> set bl1) s1 ?u" using l(3) by (rule fs_step_trans) auto
  with f(7) have step: "fs_step fd (set ns1 \<union> set bl1) s ?u" by (rule fs_step_trans) auto
  have "free_blocks (bitmap ?u) + sectors_for (size_of ?u fd)
      = free_blocks (bitmap s) + sectors_for (size_of s fd)"
    using f(13) file_rep_sectors(3) [OF rep] file_rep_sectors(3) [OF rep1]
    by (simp add: l(6) store_chunk_fields)
  moreover have "fs_write_loop fd buf (int len) (int n) s = fs_write_loop fd buf (int len) (int (n + c)) ?u"
    unfolding chunk_def by (rule write_loop_unfold [OF n f(1) f(5) _ len]) (simp add: c_def)
  ultimately show thesis
    using that [of c ?u ns1 bl1] c(1,2) rep1 data step f(8-10,14,15) l(5) e(3) size
    by (auto simp: chunk_def)
qed

lemma write_loop_ok:
  assumes "file_rep s fd ns bl" "n \<le> len" "len \<le> length buf" "pos s fd + (len - n) < 2 ^ 32"
    "sectors_for (max (size_of s fd) (pos s fd + (len - n)))
      \<le> sectors_for (size_of s fd) + free_blocks (bitmap s)"
  shows "\<exists>s' ns' bl'. fs_write_loop fd buf (int len) (int n) s = Inr (int len, s')
    \<and> file_rep s' fd ns' bl'
    \<and> file_bytes s' fd bl' = splice_at (pos s fd) (take (len - n) (drop n buf)) (file_bytes s fd bl)
    \<and> pos s' fd = pos s fd + (len - n) \<and> size_of s' fd = max (size_of s fd) (pos s fd + (len - n))
    \<and> fs_step fd (set ns' \<union> set bl') s s' \<and> set ns \<union> set bl \<subseteq> set ns' \<union> set bl'
    \<and> (\<forall>n \<in> set ns' \<union> set bl'. n \<in> set ns \<union> set bl \<or> \<not> used (bitmap s) n)
    \<and> free_blocks (bitmap s') + sectors_for (size_of s' fd)
      = free_blocks (bitmap s) + sectors_for (size_of s fd)
    \<and> extends (bitmap s) ns bl ns' bl' \<and> (n < len \<longrightarrow> bl' \<noteq> [])"
  using assms
proof (induction "len - n" arbitrary: n s ns bl rule: less_induct)
  case less
  show ?case
  proof (cases "n < len")
    case False
    with less.prems have "fs_write_loop fd buf (int len) (int n) s = Inr (int len, s)"
      by (subst fs_write_loop.simps) simp
    with False less.prems(1) file_repD(6) [OF less.prems(1)] show ?thesis
      by (intro exI [of _ s] exI [of _ ns] exI [of _ bl]) (simp add: fs_step_refl)
  next
    case True
    obtain c s1 ns1 bl1 where c: "0 < c" "c \<le> len - n"
      "fs_write_loop fd buf (int len) (int n) s = fs_write_loop fd buf (int len) (int (n + c)) s1"
      "file_rep s1 fd ns1 bl1"
      "file_bytes s1 fd bl1 = splice_at (pos s fd) (take c (drop n buf)) (file_bytes s fd bl)"
      "pos s1 fd = pos s fd + c" "size_of s1 fd = max (size_of s fd) (pos s fd + c)"
      "fs_step fd (set ns1 \<union> set bl1) s s1" "set ns \<union> set bl \<subseteq> set ns1 \<union> set bl1"
      "\<forall>n \<in> set ns1 \<union> set bl1. n \<in> set ns \<union> set bl \<or> \<not> used (bitmap s) n"
      "free_blocks (bitmap s1) + sectors_for (size_of s1 fd)
        = free_blocks (bitmap s) + sectors_for (size_of s fd)"
      "extends (bitmap s) ns bl ns1 bl1" "bl1 \<noteq> []"
      by (rule write_step [OF less.prems(1) True less.prems(3-5)]) blast
    have total: "max (size_of s1 fd) (pos s1 fd + (len - (n + c)))
        = max (size_of s fd) (pos s fd + (len - n))"
      using c(2,6,7) by auto
    have "len - (n + c) < len - n" "n + c \<le> len" "pos s1 fd + (len - (n + c)) < 2 ^ 32"
      "sectors_for (max (size_of s1 fd) (pos s1 fd + (len - (n + c))))
        \<le> sectors_for (size_of s1 fd) + free_blocks (bitmap s1)"
      using c(1,2,6,11) True less.prems(4,5) unfolding total by auto
    then obtain s' ns' bl' where i:
      "fs_write_loop fd buf (int len) (int (n + c)) s1 = Inr (int len, s')" "file_rep s' fd ns' bl'"
      "file_bytes s' fd bl' = splice_at (pos s1 fd) (take (len - (n + c)) (drop (n + c) buf))
         (file_bytes s1 fd bl1)"
      "pos s' fd = pos s1 fd + (len - (n + c))" "size_of s' fd = max (size_of s1 fd) (pos s1 fd + (len - (n + c)))"
      "fs_step fd (set ns' \<union> set bl') s1 s'" "set ns1 \<union> set bl1 \<subseteq> set ns' \<union> set bl'"
      "\<forall>n \<in> set ns' \<union> set bl'. n \<in> set ns1 \<union> set bl1 \<or> \<not> used (bitmap s1) n"
      "free_blocks (bitmap s') + sectors_for (size_of s' fd)
        = free_blocks (bitmap s1) + sectors_for (size_of s1 fd)" "extends (bitmap s1) ns1 bl1 ns' bl'"
      using less.hyps [of "n + c" s1 ns1 bl1] c(4) less.prems(3) by blast
    have lc: "length (take c (drop n buf)) = c" using c(2) True less.prems(3) by simp
    have "take c (drop n buf) @ take (len - (n + c)) (drop (n + c) buf) = take (len - n) (drop n buf)"
      using c(2) take_add [of c "len - (n + c)" "drop n buf"] True by (simp add: add.commute)
    then have "file_bytes s' fd bl' = splice_at (pos s fd) (take (len - n) (drop n buf)) (file_bytes s fd bl)"
      using i(3) c(5,6) splice_at_splice_at [of "pos s fd" "file_bytes s fd bl" "take c (drop n buf)"]
        file_bytes_length [OF less.prems(1)] file_repD(6) [OF less.prems(1)] lc by simp
    moreover have "fs_step fd (set ns' \<union> set bl') s s'"
      using c(8) i(6) by (rule fs_step_trans) (use i(7) in auto)
    moreover have "\<forall>n \<in> set ns' \<union> set bl'. n \<in> set ns \<union> set bl \<or> \<not> used (bitmap s) n"
      using i(8) c(8,10) unfolding fs_step_def by blast
    moreover have "extends (bitmap s) ns bl ns' bl'" using extends_trans [OF c(12) i(10)] c(13) by blast
    moreover have "bl' \<noteq> []" using i(10) c(13) by (auto simp: extends_def)
    ultimately show ?thesis
      using i(1,2,4,5,7,9) c(2,3,6,9,11) True unfolding total by (intro exI [of _ s'] exI [of _ ns'] exI [of _ bl']) auto
  qed
qed

end
