(* ===== verification/Fs_Ops.thy ===== *)
theory Fs_Ops
  imports Fs_File
begin

text \<open>
  The system-call level of \<^verbatim>\<open>kernel/fs.c\<close>: \<^verbatim>\<open>fs_read\<close>, \<^verbatim>\<open>fs_write\<close>, \<^verbatim>\<open>fs_lseek\<close> and
  \<^verbatim>\<open>fs_close\<close> on an open file, as operations on its bytes; the files behind other
  descriptors; what the disk holds after \<^verbatim>\<open>fs_close\<close>; and the contract of a byte stream,
  a locale the file system is an instance of.
\<close>

section \<open>Sizes\<close>

lemma free_and_used:
  assumes "distinct xs" "\<forall>n \<in> set xs. used bm n"
  shows "length xs + free_blocks bm \<le> 4096"
proof -
  let ?F = "{n :: u32. unat n < 4096 \<and> \<not> used bm n}" and ?U = "{n :: u32. unat n < 4096}"
  have "?U \<subseteq> (of_nat :: nat \<Rightarrow> u32) ` {..<4096}"
    by (auto intro!: image_eqI [where x = "unat n" for n])
  then have "card ?U \<le> 4096"
    using card_mono [of "(of_nat :: nat \<Rightarrow> u32) ` {..<4096}" ?U]
      card_image_le [of "{..<4096 :: nat}" "of_nat :: nat \<Rightarrow> u32"] by simp
  moreover have "set xs \<union> ?F \<subseteq> ?U" using assms(2) used_bound by auto
  then have "card (set xs \<union> ?F) \<le> card ?U" by (intro card_mono) simp_all
  moreover have "set xs \<inter> ?F = {}" using assms(2) by auto
  then have "card (set xs \<union> ?F) = length xs + free_blocks bm"
    using assms(1) by (simp add: card_Un_disjoint distinct_card free_blocks_card)
  ultimately show ?thesis by linarith
qed

lemma file_rep_capacity:
  assumes "file_rep s fd ns bl"
  shows "sectors_for (size_of s fd) + free_blocks (bitmap s) \<le> 4096"
proof -
  note ch = fd_baseD(5) [OF file_repD(1) [OF assms]]
  have "length (ns @ bl) + free_blocks (bitmap s) \<le> 4096"
    by (rule free_and_used) (use ch in \<open>auto simp: chain_ok_def\<close>)
  then show ?thesis using file_rep_sectors(3) [OF assms] by simp
qed

lemma sectors_for_bound: "sectors_for n \<le> 4096 \<Longrightarrow> n \<le> 2097152"
  unfolding sectors_for_def blocks_for_def by linarith

lemma file_rep_size:
  assumes "file_rep s fd ns bl"
  shows "size_of s fd \<le> 2097152"
  using file_rep_capacity [OF assms] by (intro sectors_for_bound) simp

section \<open>Reading and writing an open file\<close>

definition may_grow :: "fs_state \<Rightarrow> nat \<Rightarrow> nat \<Rightarrow> bool" where
  "may_grow s fd n \<longleftrightarrow> sectors_for n \<le> sectors_for (size_of s fd) + free_blocks (bitmap s)"

lemma may_grow_bound:
  "\<lbrakk>file_rep s fd ns bl; may_grow s fd n\<rbrakk> \<Longrightarrow> n \<le> 2097152"
  using file_rep_capacity [of s fd ns bl] sectors_for_bound [of n] by (simp add: may_grow_def)

lemma may_grow_max:
  "may_grow s fd n \<Longrightarrow> may_grow s fd (max (size_of s fd) n)"
  by (simp add: may_grow_def max_def)

lemma fs_read_ok:
  assumes rep: "file_rep s fd ns bl" and op: "fd < 1024" "opened (fd_pool s fd)"
  shows "\<exists>s'. fs_read fd (int n) s = Inr (int (min n (size_of s fd - pos s fd)),
      take n (drop (pos s fd) (file_bytes s fd bl)), s')
    \<and> file_rep s' fd ns bl \<and> file_bytes s' fd bl = file_bytes s fd bl
    \<and> pos s' fd = min (pos s fd + n) (size_of s fd) \<and> size_of s' fd = size_of s fd
    \<and> fs_step fd (set ns \<union> set bl) s s' \<and> bitmap s' = bitmap s \<and> dir s' = dir s"
proof -
  note r = file_repD [OF rep]
  let ?k = "min n (size_of s fd - pos s fd)"
  have "sint (fileSize (fd_entry fd s) - offset (fd_pool s fd)) = int (size_of s fd) - int (pos s fd)"
    by (rule remaining_bytes [OF r(6)]) (use file_rep_size [OF rep] in simp)
  then have k: "min (int n) (sint (fileSize (fd_entry fd s) - offset (fd_pool s fd))) = int ?k"
    using r(6) by simp
  have fits: "int (pos s fd) + (int ?k - 0) \<le> int (size_of s fd)" using r(6) by simp
  obtain s' where s': "fs_read_loop fd (int ?k) 0 [] s =
      Inr (int ?k, [] @ take (nat (int ?k - 0)) (drop (pos s fd) (file_bytes s fd bl)), s')"
    "file_rep s' fd ns bl" "file_bytes s' fd bl = file_bytes s fd bl"
    "int (pos s' fd) = int (pos s fd) + (int ?k - 0)" "size_of s' fd = size_of s fd"
    "fs_step fd (set ns \<union> set bl) s s'" "bitmap s' = bitmap s" "dir s' = dir s"
    using read_loop_ok [OF rep _ fits, of "[]"] by auto
  have "take ?k (drop (pos s fd) (file_bytes s fd bl)) = take n (drop (pos s fd) (file_bytes s fd bl))"
    using file_bytes_length [OF rep] by (simp add: min_def)
  with s'(1) have "fs_read fd (int n) s =
      Inr (int ?k, take n (drop (pos s fd) (file_bytes s fd bl)), s')"
    using op by (simp add: fs_read_def fd_opened_def fd_check_def k del: of_nat_min)
  moreover have "pos s' fd = min (pos s fd + n) (size_of s fd)"
    using s'(4) r(6) by linarith
  ultimately show ?thesis using s' by auto
qed

lemma fs_write_ok:
  assumes rep: "file_rep s fd ns bl" and op: "fd < 1024" "opened (fd_pool s fd)" "writable (fd_pool s fd)"
    and len: "n \<le> length buf" and room: "may_grow s fd (pos s fd + n)"
  shows "\<exists>s' ns' bl'. fs_write fd buf (int n) s = Inr (int n, s') \<and> file_rep s' fd ns' bl'
    \<and> file_bytes s' fd bl' = splice_at (pos s fd) (take n buf) (file_bytes s fd bl)
    \<and> pos s' fd = pos s fd + n \<and> size_of s' fd = max (size_of s fd) (pos s fd + n)
    \<and> fs_step fd (set ns' \<union> set bl') s s' \<and> set ns \<union> set bl \<subseteq> set ns' \<union> set bl'
    \<and> (\<forall>n \<in> set ns' \<union> set bl'. n \<in> set ns \<union> set bl \<or> \<not> used (bitmap s) n)
    \<and> free_blocks (bitmap s') + sectors_for (size_of s' fd)
      = free_blocks (bitmap s) + sectors_for (size_of s fd)
    \<and> extends (bitmap s) ns bl ns' bl' \<and> (0 < n \<longrightarrow> bl' \<noteq> [])"
proof -
  have "pos s fd + (n - 0) < 2 ^ 32" using may_grow_bound [OF rep room] by simp
  moreover have "sectors_for (max (size_of s fd) (pos s fd + (n - 0)))
      \<le> sectors_for (size_of s fd) + free_blocks (bitmap s)"
    using may_grow_max [OF room] by (simp add: may_grow_def)
  ultimately show ?thesis
    using write_loop_ok [OF rep le0 len] op by (simp add: fs_write_def fd_opened_def fd_check_def)
qed

text \<open>\<^verbatim>\<open>SEEK_SET\<close> goes to the start of the file whatever the offset asked for.\<close>

lemma drop_buffer_ok:
  assumes "file_rep s fd ns bl"
  shows "fd_base (fd_buffer_flush fd s) fd ns bl"
    "view_block (fd_buffer_flush fd s) fd b = view_block s fd b"
    "fs_step fd (set bl) s (fd_buffer_flush fd s)"
proof -
  note r = file_repD [OF assms] and b = fd_baseD [OF file_repD(1) [OF assms]]
  note ch = chain_okD [OF b(5)]
  have held: "buffer_idx (fd_pool s fd) \<in> set bl" "inode_idx (fd_pool s fd) \<in> set ns"
    if "buffer_state (fd_pool s fd) = NEED_WASHING"
  proof -
    have p: "pos s fd mod 512 \<noteq> 0" using r(2) that by (auto simp: cache_ok_def)
    then have "pos s fd \<noteq> 512 * length bl" and "pos s fd \<noteq> 0" by auto
    then have "pos s fd div 512 < length bl" using r(4,6) by (simp add: less_mult_imp_div_less mult.commute)
    then show "buffer_idx (fd_pool s fd) \<in> set bl" using r(2) p by (simp add: cache_ok_def)
    show "inode_idx (fd_pool s fd) \<in> set ns"
      using r(2) \<open>pos s fd \<noteq> 0\<close> by (simp add: cache_ok_def inode_cached_def holds_inode_def)
  qed
  have lt: "unat (buffer_idx (fd_pool s fd)) < 4096" if "buffer_state (fd_pool s fd) = NEED_WASHING"
    using held(1) [OF that] ch(11) used_bound by blast
  have vi: "view_inode (fd_buffer_flush fd s) fd n = view_inode s fd n" if "n \<in> set ns" for n
    using that held(1) ch(4) by (auto simp: view_inode_def)
  have "chain_ok (bitmap (fd_buffer_flush fd s)) (view_inode (fd_buffer_flush fd s) fd)
      (fd_entry fd (fd_buffer_flush fd s)) ns bl"
    by (rule chain_cong [OF b(5)]) (auto simp: vi fd_entry_def)
  moreover have "inode_coherent (fd_buffer_flush fd s) fd"
    using b(4) held ch(4) by (auto simp: inode_coherent_def)
  ultimately show "fd_base (fd_buffer_flush fd s) fd ns bl"
    using b(1-3) lt by (simp add: fd_base_def sys_ok_fd_buffer_flush)
  show "view_block (fd_buffer_flush fd s) fd b = view_block s fd b"
    using r(2) by (cases "buffer_state (fd_pool s fd)")
      (auto simp: view_block_def cache_ok_def buffer_coherent_def)
  show "fs_step fd (set bl) s (fd_buffer_flush fd s)"
    using held(1) by (auto simp: fs_step_def fd_entry_def)
qed

lemma held_inode:
  assumes "file_rep s fd ns bl"
  shows "inode_state (fd_pool s fd) \<noteq> GARBAGE \<longrightarrow> holds_inode s fd ns ((pos s fd - 1) div 65024)"
  using file_repD(2) [OF assms] by (simp add: cache_ok_def inode_cached_def split: if_splits)

lemma rewind_ok:
  assumes rep: "file_rep s fd ns bl" and op: "fd < 1024" "opened (fd_pool s fd)"
  shows "\<exists>s'. fs_lseek fd off SEEK_SET s = Inr (0, s') \<and> file_rep s' fd ns bl
    \<and> file_bytes s' fd bl = file_bytes s fd bl \<and> pos s' fd = 0 \<and> size_of s' fd = size_of s fd
    \<and> fs_step fd (set ns \<union> set bl) s s' \<and> bitmap s' = bitmap s \<and> dir s' = dir s"
proof -
  let ?b = "fd_buffer_flush fd s"
  let ?d = "drop_inode fd ?b"
  let ?s' = "upd_fd fd (\<lambda>f. f\<lparr>offset := 0, inode_state := GARBAGE\<rparr>) (fd_inode_flush fd ?b)"
  note r = file_repD [OF rep] and f = drop_buffer_ok [OF rep]
  have "inode_state (fd_pool ?b fd) \<noteq> GARBAGE \<longrightarrow> holds_inode ?b fd ns ((pos s fd - 1) div 65024)"
    using held_inode [OF rep] by (simp add: holds_inode_def)
  note d = drop_inode_ok [OF f(1) this]
  have same: "fd_pool ?s' fd = (fd_pool ?d fd)\<lparr>offset := 0\<rparr>" "bitmap ?s' = bitmap ?d" "dir ?s' = dir ?d"
    "IDE_READ n ?s' = IDE_READ n ?d" for n
    by (simp_all add: drop_inode_def)
  have ent: "fd_entry fd ?s' = fd_entry fd s" by (simp add: fd_entry_def)
  then have size: "size_of ?s' fd = size_of s fd" by (simp add: size_of_def)
  have pos0: "pos ?s' fd = 0" by (simp add: pos_def)
  have g: "buffer_state (fd_pool ?s' fd) = GARBAGE" "inode_state (fd_pool ?s' fd) = GARBAGE" by simp_all
  have "chain_ok (bitmap ?s') (view_inode ?s' fd) (fd_entry fd ?s') ns bl"
    by (rule chain_cong [OF fd_baseD(5) [OF d(1)]])
      (simp_all add: view_inode_def same d(4), simp_all add: same ent drop_inode_def fd_entry_def)
  moreover have "sys_ok ?s'" using fd_baseD(1) [OF d(1)] by (simp add: drop_inode_def)
  ultimately have "fd_base ?s' fd ns bl"
    using fd_baseD(2,3) [OF r(1)] by (simp add: fd_base_def inode_coherent_def)
  moreover have "cache_ok ?s' fd ns bl"
    by (simp add: cache_ok_def pos0 inode_cached_def buffer_coherent_def)
  ultimately have rep': "file_rep ?s' fd ns bl"
    using r(3-6) by (simp add: file_rep_def size pos0)
  have "view_block ?s' fd b = view_block s fd b" if b: "b \<in> set bl" for b
  proof -
    have "b \<notin> set ns" using b chain_okD(4) [OF fd_baseD(5) [OF f(1)]] by auto
    then have "view_block ?d fd b = view_block s fd b"
      using keeps_data_view [OF d(2,3)] f(2) by simp
    moreover have "view_block ?s' fd b = view_block ?d fd b"
      by (simp add: view_block_def drop_inode_def)
    ultimately show ?thesis by (simp only:)
  qed
  then have "file_bytes ?s' fd bl = file_bytes s fd bl"
    unfolding file_bytes_def size using blocks_of_cong by metis
  moreover have "fs_step fd (set ns) ?b ?s'"
    using d(3) by (simp add: fs_step_def drop_inode_def fd_entry_def)
  then have "fs_step fd (set ns \<union> set bl) s ?s'" by (rule fs_step_trans [OF f(3)]) auto
  moreover have "fs_lseek fd off SEEK_SET s = Inr (0, ?s')"
    using op by (simp add: fs_lseek_def fd_opened_def fd_check_def)
  ultimately show ?thesis using rep' size pos0 by auto
qed


section \<open>The files behind the other descriptors\<close>

lemma held_block:
  assumes rep: "file_rep s fd ns bl" and held: "buffer_state (fd_pool s fd) \<noteq> GARBAGE"
  shows "buffer_idx (fd_pool s fd) \<in> set bl"
proof -
  note r = file_repD [OF rep]
  have p: "pos s fd mod 512 \<noteq> 0" using r(2) held by (simp add: cache_ok_def)
  then have "pos s fd \<noteq> 512 * length bl" by auto
  then have "pos s fd div 512 < length bl"
    using r(4,6) by (simp add: less_mult_imp_div_less mult.commute)
  then show ?thesis using r(2) p by (simp add: cache_ok_def)
qed

lemma other_file_kept:
  assumes rep: "file_rep s g ms cl" and step: "fs_step fd A s s'" and sys: "sys_ok s'"
    and other: "g \<noteq> fd" "index (fd_pool s g) \<noteq> index (fd_pool s fd)"
    and apart: "A \<inter> (set ms \<union> set cl) = {}"
  shows "file_rep s' g ms cl" "file_bytes s' g cl = file_bytes s g cl" "pos s' g = pos s g"
    "fd_pool s' g = fd_pool s g"
proof -
  note r = file_repD [OF rep] and b = fd_baseD [OF file_repD(1) [OF rep]]
  show pool: "fd_pool s' g = fd_pool s g" using step other by (simp add: fs_step_def)
  have disk: "IDE_READ n s' = IDE_READ n s" if "n \<in> set ms \<union> set cl" for n
    using step apart that by (auto simp: fs_step_def)
  have ent: "fd_entry g s' = fd_entry g s"
    using step other by (simp add: fs_step_def fd_entry_def)
  have ino: "inode_idx (fd_pool s g) \<in> set ms" if "inode_state (fd_pool s g) \<noteq> GARBAGE"
    using held_inode [OF rep] that by (simp add: holds_inode_def)
  have "chain_ok (bitmap s') (view_inode s' g) (fd_entry g s') ms cl"
    by (rule chain_cong [OF b(5)])
      (use step in \<open>simp_all add: ent view_inode_def pool disk fs_step_def\<close>)
  moreover have "inode_coherent s' g"
    using b(4) ino disk by (auto simp: inode_coherent_def pool)
  ultimately have base: "fd_base s' g ms cl" using b(2,3) sys by (simp add: fd_base_def pool)
  show p: "pos s' g = pos s g" by (simp add: pos_def pool)
  have size: "size_of s' g = size_of s g" by (simp add: size_of_def ent)
  have "buffer_coherent s' g"
    using r(2) held_block [OF rep] disk by (auto simp: cache_ok_def buffer_coherent_def pool)
  then have "cache_ok s' g ms cl"
    using r(2) by (auto simp: cache_ok_def p pool inode_cached_def holds_inode_def)
  with base r(3-6) show "file_rep s' g ms cl" by (simp add: file_rep_def p size)
  have "blocks_of s' g cl = blocks_of s g cl"
    by (rule blocks_of_cong) (simp add: view_block_def pool disk)
  then show "file_bytes s' g cl = file_bytes s g cl" by (simp add: file_bytes_def size)
qed

lemma write_keeps_others:
  assumes rep: "file_rep s g ms cl" and old: "file_rep s fd ns bl"
    and step: "fs_step fd (set ns' \<union> set bl') s s'" and sys: "sys_ok s'"
    and new: "\<forall>n \<in> set ns' \<union> set bl'. n \<in> set ns \<union> set bl \<or> \<not> used (bitmap s) n"
    and other: "g \<noteq> fd" "index (fd_pool s g) \<noteq> index (fd_pool s fd)"
    and apart: "(set ns \<union> set bl) \<inter> (set ms \<union> set cl) = {}"
  shows "file_rep s' g ms cl" "file_bytes s' g cl = file_bytes s g cl" "pos s' g = pos s g"
    "(set ns' \<union> set bl') \<inter> (set ms \<union> set cl) = {}"
proof -
  note ch = chain_okD(10,11) [OF fd_baseD(5) [OF file_repD(1) [OF rep]]]
  show apart': "(set ns' \<union> set bl') \<inter> (set ms \<union> set cl) = {}" using new apart ch by blast
  show "file_rep s' g ms cl" "file_bytes s' g cl = file_bytes s g cl" "pos s' g = pos s g"
    using other_file_kept [OF rep step sys other apart'] by simp_all
qed

section \<open>Closing, and what the disk holds\<close>

text \<open>
  A file at rest: entry \<open>i\<close> of the directory with its inodes and data sectors, all on the
  disk.
\<close>

definition stored :: "fs_state \<Rightarrow> nat \<Rightarrow> u32 list \<Rightarrow> u32 list \<Rightarrow> bool" where
  "stored s i ns bl \<longleftrightarrow> i < 16
     \<and> chain_ok (bitmap s) (\<lambda>n. inode_of_bytes (IDE_READ n s)) (dir s ! i) ns bl \<and> tight ns bl
     \<and> unat (fileSize (dir s ! i)) \<le> 512 * length bl
     \<and> 512 * length bl < unat (fileSize (dir s ! i)) + 512"

definition stored_bytes :: "fs_state \<Rightarrow> nat \<Rightarrow> u32 list \<Rightarrow> u8 list" where
  "stored_bytes s i bl =
     take (unat (fileSize (dir s ! i))) (concat (map (\<lambda>b. IDE_READ b s) bl))"

lemma loaded_wf:
  assumes "length bs = 512"
  shows "dir_wf (dir_of_bytes bs)" "bitmap_wf (bitmap_of_bytes bs)"
  using chunk_length [of _ 32 16 bs] assms
  by (auto simp: dir_wf_def dir_of_bytes_def dirent_wf_def dirent_of_bytes_def
    bitmap_wf_def bitmap_of_bytes_def)

lemma fs_init_fields [simp]:
  "fd_pool (fs_init s) = fd_pool s" "disk (fs_init s) = disk s"
  "dir (fs_init s) = dir_of_bytes (disk_read 2 (disk s))"
  "bitmap (fs_init s) = bitmap_of_bytes (disk_read 1 (disk s))"
  "state_bitmap (fs_init s) = USEFUL" "state_dir (fs_init s) = USEFUL"
  "IDE_READ n (fs_init s) = IDE_READ n s"
  by (simp_all add: fs_init_def IDE_READ_def)

lemma fs_init_sys_ok:
  assumes "disk_ok (disk s)"
  shows "sys_ok (fs_init s)"
  using assms loaded_wf by (simp add: sys_ok_def disk_ok_def disk_read_def)

text \<open>Closing writes the cached inode and sector and the two metadata sectors.\<close>

lemma fs_flush_meta:
  assumes "sys_ok s"
  shows "disk_read 2 (disk (fs_flush s)) = (if state_dir s = NEED_WASHING
      then bytes_of_dir (dir s) else disk_read 2 (disk s))"
    "disk_read 1 (disk (fs_flush s)) = (if state_bitmap s = NEED_WASHING
      then bytes_of_bitmap (bitmap s) else disk_read 1 (disk s))"
  by (simp_all add: fs_flush_def Let_def disk_read_def disk_write_def)

lemma fs_flush_fields [simp]:
  "fd_pool (fs_flush s) = fd_pool s" "dir (fs_flush s) = dir s" "bitmap (fs_flush s) = bitmap s"
  "state_bitmap (fs_flush s) = USEFUL" "state_dir (fs_flush s) = USEFUL"
  by (simp_all add: fs_flush_def Let_def)

lemma fs_flush_data:
  assumes "unat n < 4096"
  shows "IDE_READ n (fs_flush s) = IDE_READ n s"
  using data_sector_not_meta [OF assms]
  by (simp add: fs_flush_def Let_def IDE_READ_def disk_read_def disk_write_def)

lemma fs_flush_sys_ok:
  assumes "sys_ok s"
  shows "sys_ok (fs_flush s)" "dir_of_bytes (disk_read 2 (disk (fs_flush s))) = dir s"
    "bitmap_of_bytes (disk_read 1 (disk (fs_flush s))) = bitmap s"
proof -
  note so = sys_okD [OF assms]
  show d: "dir_of_bytes (disk_read 2 (disk (fs_flush s))) = dir s"
    using assms so by (cases "state_dir s") (auto simp: fs_flush_meta sys_ok_def dir.dec_enc)
  show b: "bitmap_of_bytes (disk_read 1 (disk (fs_flush s))) = bitmap s"
    using assms so by (cases "state_bitmap s") (auto simp: fs_flush_meta sys_ok_def bitmap.dec_enc)
  have "disk_ok (disk (fs_flush s))"
    using so(1-3) by (auto simp: fs_flush_def Let_def disk_ok_def disk_write_def dir.enc_length
      bitmap.enc_length)
  with d b so show "sys_ok (fs_flush s)" by (simp add: sys_ok_def)
qed


lemma fs_close_ok:
  assumes rep: "file_rep s fd ns bl" and op: "fd < 1024" "opened (fd_pool s fd)"
  shows "\<exists>s'. fs_close fd s = Inr (0, s') \<and> sys_ok s' \<and> state_dir s' = USEFUL \<and> state_bitmap s' = USEFUL
    \<and> stored s' (index (fd_pool s fd)) ns bl
    \<and> stored_bytes s' (index (fd_pool s fd)) bl = file_bytes s fd bl
    \<and> \<not> opened (fd_pool s' fd) \<and> dir s' = dir s \<and> bitmap s' = bitmap s
    \<and> (\<forall>g. g \<noteq> fd \<longrightarrow> fd_pool s' g = fd_pool s g)
    \<and> (\<forall>n. n \<notin> set ns \<union> set bl \<longrightarrow> unat n < 4096 \<longrightarrow> IDE_READ n s' = IDE_READ n s)"
proof -
  let ?i = "index (fd_pool s fd)"
  let ?o = "upd_fd fd (\<lambda>f. f\<lparr>opened := False\<rparr>) s"
  let ?c = "fd_inode_flush fd ?o"
  let ?b = "fd_buffer_flush fd ?c"
  let ?s' = "fs_flush ?b"
  note r = file_repD [OF rep] and b = fd_baseD [OF file_repD(1) [OF rep]]
  note ch = chain_okD [OF b(5)]
  have ino: "inode_idx (fd_pool s fd) \<in> set ns" "inode_wf (inode (fd_pool s fd))"
      "unat (inode_idx (fd_pool s fd)) < 4096"
    if "inode_state (fd_pool s fd) \<noteq> GARBAGE"
    using held_inode [OF rep] that holds_inode_wf [OF r(1)] by blast+
  have blk: "buffer_idx (fd_pool s fd) \<in> set bl" "unat (buffer_idx (fd_pool s fd)) < 4096"
    if "buffer_state (fd_pool s fd) \<noteq> GARBAGE"
    using held_block [OF rep that] ch(11) used_bound by blast+
  have "sys_ok ?c" using b(1) ino by (intro sys_ok_fd_inode_flush) auto
  then have sysb: "sys_ok ?b" using b(3) blk by (intro sys_ok_fd_buffer_flush) (auto split: if_splits)
  note fl = fs_flush_sys_ok [OF sysb]
  have small: "unat n < 4096" if "n \<in> set ns \<union> set bl" for n
    using that ch(10,11) used_bound by blast
  have data: "IDE_READ n ?s' = (if inode_state (fd_pool s fd) = NEED_WASHING \<and> n = inode_idx (fd_pool s fd)
        then bytes_of_inode (inode (fd_pool s fd))
      else if buffer_state (fd_pool s fd) = NEED_WASHING \<and> n = buffer_idx (fd_pool s fd)
        then buffer (fd_pool s fd) else IDE_READ n s)" if "unat n < 4096" for n
    using ino(1) blk(1) ch(4) by (auto simp: fs_flush_data [OF that])
  have inodes: "inode_of_bytes (IDE_READ n ?s') = view_inode s fd n" if "n \<in> set ns" for n
    using that b(4) ino blk(1) ch(4) small [of n]
    by (cases "inode_state (fd_pool s fd)") (auto simp: data view_inode_def inode_coherent_def inode.dec_enc)
  have blocks: "IDE_READ n ?s' = view_block s fd n" if "n \<in> set bl" for n
    using that r(2) ino blk(1) ch(4) small [of n]
    by (cases "buffer_state (fd_pool s fd)") (auto simp: data view_block_def cache_ok_def buffer_coherent_def)
  have "chain_ok (bitmap ?s') (\<lambda>n. inode_of_bytes (IDE_READ n ?s')) (dir ?s' ! ?i) ns bl"
    by (rule chain_cong [OF b(5)]) (simp_all add: inodes fd_entry_def)
  then have st: "stored ?s' ?i ns bl"
    using b(2) r(3-5) by (simp add: stored_def size_of_def fd_entry_def)
  have "stored_bytes ?s' ?i bl = file_bytes s fd bl"
    using blocks by (simp add: stored_bytes_def file_bytes_def size_of_def blocks_of_def fd_entry_def
      cong: map_cong)
  moreover have "IDE_READ n ?s' = IDE_READ n s" if "n \<notin> set ns \<union> set bl" "unat n < 4096" for n
    using that ino(1) blk(1) by (auto simp: data)
  moreover have "fs_close fd s = Inr (0, ?s')"
    using op by (simp add: fs_close_def fd_opened_def fd_check_def)
  ultimately show ?thesis using fl(1) st by auto
qed

text \<open>Rebooting on the same disk finds the same files.\<close>

lemma remount_stored:
  assumes "sys_ok s" "state_dir s = USEFUL" "state_bitmap s = USEFUL" "disk t = disk s"
  shows "stored (fs_init t) i ns bl = stored s i ns bl"
    "stored_bytes (fs_init t) i bl = stored_bytes s i bl"
proof -
  have "dir (fs_init t) = dir s" "bitmap (fs_init t) = bitmap s"
    using assms by (simp_all add: sys_ok_def)
  moreover have "IDE_READ n t = IDE_READ n s" for n using assms(4) by (simp add: IDE_READ_def)
  ultimately show "stored (fs_init t) i ns bl = stored s i ns bl"
    "stored_bytes (fs_init t) i bl = stored_bytes s i bl"
    by (simp_all add: stored_def stored_bytes_def)
qed

text \<open>A file at rest, opened.\<close>

lemma internal_open_fields [simp]:
  "fd_pool (internal_open j s) g = (if g = j then (fd_pool s j)\<lparr>buffer_state := GARBAGE,
     inode_state := GARBAGE, offset := 0, opened := True\<rparr> else fd_pool s g)"
  "bitmap (internal_open j s) = bitmap s" "dir (internal_open j s) = dir s"
  "state_bitmap (internal_open j s) = state_bitmap s" "state_dir (internal_open j s) = state_dir s"
  "disk (internal_open j s) = disk s" "IDE_READ n (internal_open j s) = IDE_READ n s"
  "sys_ok (internal_open j s) = sys_ok s"
  by (simp_all add: internal_open_def)

lemma open_stored:
  assumes st: "stored s i ns bl" and sys: "sys_ok s"
    and fd: "index (fd_pool s j) = i" "length (buffer (fd_pool s j)) = 512"
  shows "file_rep (internal_open j s) j ns bl"
    "file_bytes (internal_open j s) j bl = stored_bytes s i bl" "pos (internal_open j s) j = 0"
proof -
  let ?s = "internal_open j s"
  show p: "pos ?s j = 0" by (simp add: pos_def)
  have size: "size_of ?s j = unat (fileSize (dir s ! i))"
    using fd(1) by (simp add: size_of_def fd_entry_def)
  have "view_inode ?s j = (\<lambda>n. inode_of_bytes (IDE_READ n s))" by (auto simp: view_inode_def)
  then have "fd_base ?s j ns bl"
    using st sys fd by (simp add: fd_base_def stored_def inode_coherent_def fd_entry_def)
  moreover have "cache_ok ?s j ns bl"
    by (simp add: cache_ok_def p inode_cached_def buffer_coherent_def)
  ultimately show "file_rep ?s j ns bl" using st p by (simp add: file_rep_def size stored_def)
  show "file_bytes ?s j bl = stored_bytes s i bl"
    by (simp add: file_bytes_def size stored_bytes_def blocks_of_def view_block_def cong: map_cong)
qed


section \<open>The contract of a byte stream\<close>

text \<open>
  What a client of an open file relies on: the file is a byte list with a position, reads
  return the bytes under the position, writes overwrite them, and going back to the start
  changes nothing. Reading or writing in pieces is then the same as in one go.
\<close>

locale byte_stream =
  fixes rep :: "'s \<Rightarrow> u8 list \<Rightarrow> nat \<Rightarrow> bool"
    and room :: "'s \<Rightarrow> nat \<Rightarrow> bool"
    and rd :: "nat \<Rightarrow> 's \<Rightarrow> (u8 list \<times> 's) result"
    and wr :: "u8 list \<Rightarrow> 's \<Rightarrow> 's result"
    and rewind :: "'s \<Rightarrow> 's result"
  assumes rep_pos: "rep s xs p \<Longrightarrow> p \<le> length xs"
    and room_le: "\<lbrakk>room s n; m \<le> n\<rbrakk> \<Longrightarrow> room s m"
    and rd_rep: "rep s xs p \<Longrightarrow> \<exists>s'. rd n s = Inr (take n (drop p xs), s')
      \<and> rep s' xs (min (p + n) (length xs)) \<and> room s' = room s"
    and wr_rep: "\<lbrakk>rep s xs p; room s (p + length b)\<rbrakk> \<Longrightarrow> \<exists>s'. wr b s = Inr s'
      \<and> rep s' (splice_at p b xs) (p + length b) \<and> room s' = room s"
    and rewind_rep: "rep s xs p \<Longrightarrow> \<exists>s'. rewind s = Inr s' \<and> rep s' xs 0 \<and> room s' = room s"
begin

fun wr_pieces :: "u8 list list \<Rightarrow> 's \<Rightarrow> 's result" where
  "wr_pieces [] s = Inr s"
| "wr_pieces (b # bs) s = andThen (wr b s) (wr_pieces bs)"

fun rd_pieces :: "nat list \<Rightarrow> 's \<Rightarrow> (u8 list \<times> 's) result" where
  "rd_pieces [] s = Inr ([], s)"
| "rd_pieces (n # ns) s = andThen (rd n s) (\<lambda>(a, s1).
     andThen (rd_pieces ns s1) (\<lambda>(b, s2). Inr (a @ b, s2)))"

lemma wr_pieces_rep:
  assumes "rep s xs p" "room s (p + length (concat bs))"
  shows "\<exists>s'. wr_pieces bs s = Inr s' \<and> rep s' (splice_at p (concat bs) xs) (p + length (concat bs))
    \<and> room s' = room s"
  using assms
proof (induction bs arbitrary: s xs p)
  case Nil
  then show ?case by simp
next
  case (Cons b bs)
  have "room s (p + length b)" by (rule room_le [OF Cons.prems(2)]) simp
  then obtain s1 where s1: "wr b s = Inr s1" "rep s1 (splice_at p b xs) (p + length b)" "room s1 = room s"
    using wr_rep [OF Cons.prems(1)] by blast
  with Cons.IH [OF s1(2)] Cons.prems(2) splice_at_splice_at [OF rep_pos [OF Cons.prems(1)], of b "concat bs"]
  show ?case by (simp add: add.assoc)
qed

lemma rd_pieces_rep:
  assumes "rep s xs p"
  shows "\<exists>s'. rd_pieces ns s = Inr (take (sum_list ns) (drop p xs), s')
    \<and> rep s' xs (min (p + sum_list ns) (length xs)) \<and> room s' = room s"
  using assms
proof (induction ns arbitrary: s p)
  case Nil
  with rep_pos [OF Nil] show ?case by (simp add: min_absorb1)
next
  case (Cons n ns)
  obtain s1 where s1: "rd n s = Inr (take n (drop p xs), s1)"
      "rep s1 xs (min (p + n) (length xs))" "room s1 = room s"
    using rd_rep [OF Cons.prems] by blast
  obtain s2 where s2: "rd_pieces ns s1 = Inr (take (sum_list ns) (drop (min (p + n) (length xs)) xs), s2)"
      "rep s2 xs (min (min (p + n) (length xs) + sum_list ns) (length xs))" "room s2 = room s1"
    using Cons.IH [OF s1(2)] by blast
  have "take n (drop p xs) @ take (sum_list ns) (drop (min (p + n) (length xs)) xs)
      = take (n + sum_list ns) (drop p xs)"
    by (simp add: take_add min_def add.commute)
  moreover have "min (min (p + n) (length xs) + sum_list ns) (length xs)
      = min (p + (n + sum_list ns)) (length xs)" by auto
  ultimately show ?case using s1 s2 by simp
qed

text \<open>What was written in pieces is read back in pieces of any other sizes.\<close>

lemma write_read_back:
  assumes rep: "rep s [] 0" and room: "room s (length (concat bs))" and all: "sum_list ns = length (concat bs)"
  shows "\<exists>s'. andThen (wr_pieces bs s) (\<lambda>s1. andThen (rewind s1) (rd_pieces ns)) = Inr (concat bs, s')
    \<and> rep s' (concat bs) (length (concat bs))"
proof -
  have r0: "room s (0 + length (concat bs))" using room by simp
  obtain s1 where s1: "wr_pieces bs s = Inr s1" "rep s1 (splice_at 0 (concat bs) []) (0 + length (concat bs))"
    using wr_pieces_rep [OF rep r0] by blast
  obtain s2 where s2: "rewind s1 = Inr s2" "rep s2 (splice_at 0 (concat bs) []) 0"
    using rewind_rep [OF s1(2)] by blast
  show ?thesis using rd_pieces_rep [OF s2(2), of ns] s1 s2 all by (auto simp: splice_at_def)
qed

end

definition stream_rep :: "nat \<Rightarrow> fs_state \<Rightarrow> u8 list \<Rightarrow> nat \<Rightarrow> bool" where
  "stream_rep fd s xs p \<longleftrightarrow> fd < 1024 \<and> opened (fd_pool s fd) \<and> pos s fd = p
     \<and> (\<exists>ns bl. file_rep s fd ns bl \<and> file_bytes s fd bl = xs)"

definition stream_room :: "nat \<Rightarrow> fs_state \<Rightarrow> nat \<Rightarrow> bool" where
  "stream_room fd s n \<longleftrightarrow> writable (fd_pool s fd) \<and> may_grow s fd n"

definition stream_rd :: "nat \<Rightarrow> nat \<Rightarrow> fs_state \<Rightarrow> (u8 list \<times> fs_state) result" where
  "stream_rd fd n s = andThen (fs_read fd (int n) s) (\<lambda>(k, bs, s'). Inr (bs, s'))"

definition stream_wr :: "nat \<Rightarrow> u8 list \<Rightarrow> fs_state \<Rightarrow> fs_state result" where
  "stream_wr fd b s = andThen (fs_write fd b (int (length b)) s) (\<lambda>(k, s'). Inr s')"

definition stream_rewind :: "nat \<Rightarrow> fs_state \<Rightarrow> fs_state result" where
  "stream_rewind fd s = andThen (fs_lseek fd 0 SEEK_SET s) (\<lambda>(k, s'). Inr s')"

lemma fs_stepD:
  assumes "fs_step fd A s s'"
  shows "opened (fd_pool s' fd) = opened (fd_pool s fd)" "writable (fd_pool s' fd) = writable (fd_pool s fd)"
    "index (fd_pool s' fd) = index (fd_pool s fd)" "fileName (fd_entry fd s') = fileName (fd_entry fd s)"
    "\<And>g. g \<noteq> fd \<Longrightarrow> fd_pool s' g = fd_pool s g"
    "\<And>i. i \<noteq> index (fd_pool s fd) \<Longrightarrow> dir s' ! i = dir s ! i"
  using assms by (simp_all add: fs_step_def)

lemma stream_room_cong:
  assumes "fs_step fd A s s'" "free_blocks (bitmap s') + sectors_for (size_of s' fd)
      = free_blocks (bitmap s) + sectors_for (size_of s fd)"
  shows "stream_room fd s' = stream_room fd s"
  using assms by (auto simp: stream_room_def may_grow_def fs_stepD(2) add.commute)

interpretation stream: byte_stream "stream_rep fd" "stream_room fd" "stream_rd fd" "stream_wr fd"
  "stream_rewind fd" for fd
proof
  fix s xs p
  assume rep: "stream_rep fd s xs p"
  then obtain ns bl where r: "file_rep s fd ns bl" "file_bytes s fd bl = xs" "pos s fd = p"
      "fd < 1024" "opened (fd_pool s fd)"
    by (auto simp: stream_rep_def)
  show "p \<le> length xs" using file_repD(6) [OF r(1)] file_bytes_length [OF r(1)] r(2,3) by simp
  show "\<exists>s'. stream_rd fd n s = Inr (take n (drop p xs), s')
      \<and> stream_rep fd s' xs (min (p + n) (length xs)) \<and> stream_room fd s' = stream_room fd s" for n
  proof -
    obtain s' where s': "fs_read fd (int n) s = Inr (int (min n (size_of s fd - pos s fd)),
        take n (drop (pos s fd) (file_bytes s fd bl)), s')"
      "file_rep s' fd ns bl" "file_bytes s' fd bl = file_bytes s fd bl"
      "pos s' fd = min (pos s fd + n) (size_of s fd)" "size_of s' fd = size_of s fd"
      "fs_step fd (set ns \<union> set bl) s s'" "bitmap s' = bitmap s"
      using fs_read_ok [OF r(1,4,5), of n] by blast
    have "length xs = size_of s fd" using file_bytes_length [OF r(1)] r(2) by simp
    moreover have "stream_room fd s' = stream_room fd s"
      by (rule stream_room_cong [OF s'(6)]) (simp add: s'(5,7))
    ultimately show ?thesis
      using s' r fs_stepD(1) [OF s'(6)] by (auto simp: stream_rd_def stream_rep_def)
  qed
  show "\<exists>s'. stream_wr fd b s = Inr s' \<and> stream_rep fd s' (splice_at p b xs) (p + length b)
      \<and> stream_room fd s' = stream_room fd s" if "stream_room fd s (p + length b)" for b
  proof -
    have w: "writable (fd_pool s fd)" "may_grow s fd (pos s fd + length b)"
      using that r(3) by (simp_all add: stream_room_def)
    obtain s' ns' bl' where s': "fs_write fd b (int (length b)) s = Inr (int (length b), s')"
      "file_rep s' fd ns' bl'"
      "file_bytes s' fd bl' = splice_at (pos s fd) (take (length b) b) (file_bytes s fd bl)"
      "pos s' fd = pos s fd + length b" "fs_step fd (set ns' \<union> set bl') s s'"
      "free_blocks (bitmap s') + sectors_for (size_of s' fd)
        = free_blocks (bitmap s) + sectors_for (size_of s fd)"
      using fs_write_ok [OF r(1,4,5) w(1) order_refl w(2)] by blast
    then show ?thesis
      using r fs_stepD(1) [OF s'(5)] stream_room_cong [OF s'(5,6)]
      by (auto simp: stream_wr_def stream_rep_def)
  qed
  show "\<exists>s'. stream_rewind fd s = Inr s' \<and> stream_rep fd s' xs 0 \<and> stream_room fd s' = stream_room fd s"
  proof -
    obtain s' where s': "fs_lseek fd 0 SEEK_SET s = Inr (0, s')" "file_rep s' fd ns bl"
      "file_bytes s' fd bl = file_bytes s fd bl" "pos s' fd = 0" "size_of s' fd = size_of s fd"
      "fs_step fd (set ns \<union> set bl) s s'" "bitmap s' = bitmap s"
      using rewind_ok [OF r(1,4,5), of 0] by blast
    moreover have "stream_room fd s' = stream_room fd s"
      by (rule stream_room_cong [OF s'(6)]) (simp add: s'(5,7))
    ultimately show ?thesis
      using r fs_stepD(1) [OF s'(6)] by (auto simp: stream_rewind_def stream_rep_def)
  qed
next
  show "stream_room fd s m" if "stream_room fd s n" "m \<le> n" for s m n
    using that sectors_for_mono [of m n] by (auto simp: stream_room_def may_grow_def)
qed


section \<open>Properties\<close>

text \<open>
  A formatted system with descriptors 0 and 1 open for writing on the new, empty files of
  entries 1 and 2: the concrete state the properties are tried on.
\<close>

definition fresh_fs :: fs_state where
  "fresh_fs = \<lparr>bitmap = replicate 128 0,
     dir = replicate 16 \<lparr>fileName = replicate 24 0, fileSize = 0, inodeOffset = -1\<rparr>,
     state_bitmap = NEED_WASHING, state_dir = NEED_WASHING,
     fd_pool = (\<lambda>j. \<lparr>index = min (j + 1) 15, offset = 0, buffer = replicate 512 0, inode = zero_inode,
       buffer_idx = 0, inode_idx = 0, buffer_state = GARBAGE, inode_state = GARBAGE,
       opened = True, writable = True\<rparr>),
     disk = (\<lambda>n. replicate 512 0)\<rparr>"

lemma fresh_fs_fields [simp]:
  "opened (fd_pool fresh_fs j)" "writable (fd_pool fresh_fs j)" "pos fresh_fs j = 0"
  "index (fd_pool fresh_fs j) = min (j + 1) 15" "free_blocks (bitmap fresh_fs) = 4096"
  by (simp_all add: fresh_fs_def pos_def free_blocks_def used_def)

lemma fresh_fs_rep: "file_rep fresh_fs j [] []" "size_of fresh_fs j = 0" "file_bytes fresh_fs j [] = []"
proof -
  have e: "fd_entry j fresh_fs = \<lparr>fileName = replicate 24 0, fileSize = 0, inodeOffset = -1\<rparr>"
    by (simp add: fd_entry_def fresh_fs_def)
  have "sys_ok fresh_fs"
    by (simp add: sys_ok_def fresh_fs_def bitmap_wf_def dir_wf_def dirent_wf_def disk_ok_def)
  then have "fd_base fresh_fs j [] []"
    by (simp add: fd_base_def inode_coherent_def chain_ok_def e) (simp add: fresh_fs_def)
  moreover have "cache_ok fresh_fs j [] []"
    by (simp add: cache_ok_def inode_cached_def buffer_coherent_def) (simp add: fresh_fs_def)
  moreover show "size_of fresh_fs j = 0" by (simp add: size_of_def e)
  ultimately show "file_rep fresh_fs j [] []" by (simp add: file_rep_def tight_def)
  show "file_bytes fresh_fs j [] = []" by (simp add: file_bytes_def blocks_of_def)
qed

lemma fresh_fs_grow: "n \<le> 512 \<Longrightarrow> may_grow fresh_fs j n"
  using sectors_for_mono [of n 512]
  by (simp add: may_grow_def fresh_fs_rep sectors_for_def [of 512] blocks_for_def inodes_for_def)

text \<open>C2. \<^verbatim>\<open>fs_write\<close> overwrites: with room on the disk, writing \<open>n\<close> bytes at the offset
  returns \<open>n\<close>, turns the contents of the file into the old contents with that slice
  replaced (growing the file where the slice ends behind it), advances the offset by \<open>n\<close>,
  and takes exactly the sectors the growth needs from the free ones. Sector and inode
  boundaries make no difference.\<close>

theorem fs_write_overwrites:
  assumes "file_rep s fd ns bl" "fd < 1024" "opened (fd_pool s fd)" "writable (fd_pool s fd)"
    and "may_grow s fd (pos s fd + length buf)"
  shows "\<exists>s' ns' bl'. fs_write fd buf (int (length buf)) s = Inr (int (length buf), s')
    \<and> file_rep s' fd ns' bl'
    \<and> file_bytes s' fd bl' = splice_at (pos s fd) buf (file_bytes s fd bl)
    \<and> pos s' fd = pos s fd + length buf
    \<and> length (file_bytes s' fd bl') = max (length (file_bytes s fd bl)) (pos s fd + length buf)
    \<and> free_blocks (bitmap s') + sectors_for (length (file_bytes s' fd bl'))
      = free_blocks (bitmap s) + sectors_for (length (file_bytes s fd bl))"
proof -
  obtain s' ns' bl' where w: "fs_write fd buf (int (length buf)) s = Inr (int (length buf), s')"
    "file_rep s' fd ns' bl'"
    "file_bytes s' fd bl' = splice_at (pos s fd) (take (length buf) buf) (file_bytes s fd bl)"
    "pos s' fd = pos s fd + length buf" "size_of s' fd = max (size_of s fd) (pos s fd + length buf)"
    "free_blocks (bitmap s') + sectors_for (size_of s' fd)
      = free_blocks (bitmap s) + sectors_for (size_of s fd)"
    using fs_write_ok [OF assms(1-4) order_refl assms(5)] by blast
  have b: "file_bytes s' fd bl' = splice_at (pos s fd) buf (file_bytes s fd bl)" using w(3) by simp
  note len = file_bytes_length [OF assms(1)] file_bytes_length [OF w(2)]
  show ?thesis
    by (rule exI [of _ s'], rule exI [of _ ns'], rule exI [of _ bl'])
      (use w(1,2,4-6) len in \<open>simp add: b [symmetric]\<close>)
qed

theorem fs_write_overwrites_witness:
  "\<exists>s' ns' bl'. fs_write 0 [1, 2, 3] 3 fresh_fs = Inr (3, s') \<and> file_bytes s' 0 bl' = [1, 2, 3]
    \<and> file_rep s' 0 ns' bl' \<and> free_blocks (bitmap s') = 4094"
proof -
  obtain s' ns' bl' where "fs_write 0 [1, 2, 3] (int (length [1, 2, 3 :: u8])) fresh_fs
        = Inr (int (length [1, 2, 3 :: u8]), s')" "file_rep s' 0 ns' bl'"
      "file_bytes s' 0 bl' = splice_at (pos fresh_fs 0) [1, 2, 3] (file_bytes fresh_fs 0 [])"
      "free_blocks (bitmap s') + sectors_for (length (file_bytes s' 0 bl'))
        = free_blocks (bitmap fresh_fs) + sectors_for (length (file_bytes fresh_fs 0 []))"
    using fs_write_overwrites [OF fresh_fs_rep(1), of 0 "[1, 2, 3]"] fresh_fs_grow by auto
  note w = this
  have "file_bytes s' 0 bl' = [1, 2, 3]" using w(3) by (simp add: fresh_fs_rep splice_at_def)
  moreover from this have "free_blocks (bitmap s') = 4094"
    using w(4) by (simp add: fresh_fs_rep sectors_for_def blocks_for_def inodes_for_def)
  ultimately show ?thesis using w(1,2) by auto
qed

text \<open>C3. \<^verbatim>\<open>fs_read\<close> returns the bytes under the offset: asked for \<open>n\<close> it delivers the next
  \<open>n\<close> bytes of the file, or what is left of it, and returns their number; the contents stay
  as they are and the offset advances by that number.\<close>

theorem fs_read_returns:
  assumes "file_rep s fd ns bl" "fd < 1024" "opened (fd_pool s fd)"
  shows "\<exists>s' bytes. fs_read fd (int n) s = Inr (int (length bytes), bytes, s')
    \<and> bytes = take n (drop (pos s fd) (file_bytes s fd bl))
    \<and> file_rep s' fd ns bl \<and> file_bytes s' fd bl = file_bytes s fd bl
    \<and> pos s' fd = pos s fd + length bytes \<and> bitmap s' = bitmap s \<and> dir s' = dir s"
proof -
  obtain s' where r: "fs_read fd (int n) s = Inr (int (min n (size_of s fd - pos s fd)),
      take n (drop (pos s fd) (file_bytes s fd bl)), s')"
    "file_rep s' fd ns bl" "file_bytes s' fd bl = file_bytes s fd bl"
    "pos s' fd = min (pos s fd + n) (size_of s fd)" "bitmap s' = bitmap s" "dir s' = dir s"
    using fs_read_ok [OF assms, of n] by blast
  have "length (take n (drop (pos s fd) (file_bytes s fd bl))) = min n (size_of s fd - pos s fd)"
    using file_bytes_length [OF assms(1)] by simp
  moreover have "pos s' fd = pos s fd + min n (size_of s fd - pos s fd)"
    using r(4) file_repD(6) [OF assms(1)] by linarith
  ultimately show ?thesis using r by auto
qed

theorem fs_read_returns_witness:
  "\<exists>s1 s2 s3. fs_write 0 [1, 2, 3] 3 fresh_fs = Inr (3, s1) \<and> fs_lseek 0 0 SEEK_SET s1 = Inr (0, s2)
    \<and> fs_read 0 2 s2 = Inr (2, [1, 2], s3)"
proof -
  obtain s1 ns bl where w: "fs_write 0 [1, 2, 3] (int 3) fresh_fs = Inr (int 3, s1)" "file_rep s1 0 ns bl"
      "file_bytes s1 0 bl = splice_at (pos fresh_fs 0) (take 3 [1, 2, 3]) (file_bytes fresh_fs 0 [])"
      "fs_step 0 (set ns \<union> set bl) fresh_fs s1"
    using fs_write_ok [OF fresh_fs_rep(1), of 0 3 "[1, 2, 3]"] fresh_fs_grow by auto
  have op: "opened (fd_pool s1 0)" using fs_stepD(1) [OF w(4)] by simp
  obtain s2 where r: "fs_lseek 0 0 SEEK_SET s1 = Inr (0, s2)" "file_rep s2 0 ns bl"
      "file_bytes s2 0 bl = file_bytes s1 0 bl" "pos s2 0 = 0" "fs_step 0 (set ns \<union> set bl) s1 s2"
    using rewind_ok [OF w(2) _ op, of 0] by auto
  have "opened (fd_pool s2 0)" using fs_stepD(1) [OF r(5)] op by simp
  then obtain s3 bytes where "fs_read 0 (int 2) s2 = Inr (int (length bytes), bytes, s3)"
      "bytes = take 2 (drop (pos s2 0) (file_bytes s2 0 bl))"
    using fs_read_returns [OF r(2), of 2] by auto
  with w(1,3) r(1,3,4) show ?thesis by (simp add: fresh_fs_rep splice_at_def)
qed

text \<open>C8. Files do not share sectors: writing through one descriptor leaves the file another
  descriptor has open, its contents, its offset and its cached data as they were, and the
  sectors the two files occupy stay disjoint, also where the write allocated new ones.\<close>

theorem fs_write_isolated:
  assumes "file_rep s fd ns bl" "fd < 1024" "opened (fd_pool s fd)" "writable (fd_pool s fd)"
    and "may_grow s fd (pos s fd + length buf)"
    and "file_rep s g ms cl" "g \<noteq> fd" "index (fd_pool s g) \<noteq> index (fd_pool s fd)"
    and "(set ns \<union> set bl) \<inter> (set ms \<union> set cl) = {}"
  shows "\<exists>s' ns' bl'. fs_write fd buf (int (length buf)) s = Inr (int (length buf), s')
    \<and> file_rep s' fd ns' bl' \<and> file_rep s' g ms cl
    \<and> file_bytes s' g cl = file_bytes s g cl \<and> pos s' g = pos s g
    \<and> fd_pool s' g = fd_pool s g
    \<and> (set ns' \<union> set bl') \<inter> (set ms \<union> set cl) = {}"
proof -
  obtain s' ns' bl' where w: "fs_write fd buf (int (length buf)) s = Inr (int (length buf), s')"
    "file_rep s' fd ns' bl'" "fs_step fd (set ns' \<union> set bl') s s'"
    "\<forall>n \<in> set ns' \<union> set bl'. n \<in> set ns \<union> set bl \<or> \<not> used (bitmap s) n"
    using fs_write_ok [OF assms(1-4) order_refl assms(5)] by blast
  have sys: "sys_ok s'" using fd_baseD(1) [OF file_repD(1) [OF w(2)]] .
  show ?thesis
    using w(1,2) write_keeps_others [OF assms(6,1) w(3) sys w(4) assms(7-9)] fs_stepD(5) [OF w(3) assms(7)]
    by blast
qed

theorem fs_write_isolated_witness:
  "\<exists>s' ns' bl'. fs_write 0 [1, 2, 3] 3 fresh_fs = Inr (3, s') \<and> file_rep s' 0 ns' bl'
    \<and> file_rep s' 1 [] [] \<and> file_bytes s' 1 [] = []"
  using fs_write_isolated [OF fresh_fs_rep(1) _ _ _ _ fresh_fs_rep(1), of 0 "[1, 2, 3]" 1] fresh_fs_grow
  by (auto simp: fresh_fs_rep)

text \<open>What \<^verbatim>\<open>fs_close\<close> leaves on the disk: a kernel that mounts it has under the same directory entry
  the bytes of the descriptor, cached or not.\<close>

lemma close_leaves_stored:
  assumes "file_rep s fd ns bl" "fd < 1024" "opened (fd_pool s fd)"
  obtains s' where "fs_close fd s = Inr (0, s')" "\<not> opened (fd_pool s' fd)" "sys_ok s'" "dir s' = dir s"
    "\<And>t. disk t = disk s' \<Longrightarrow> dir (fs_init t) = dir s
       \<and> stored (fs_init t) (index (fd_pool s fd)) ns bl
       \<and> stored_bytes (fs_init t) (index (fd_pool s fd)) bl = file_bytes s fd bl"
proof -
  obtain s' where c: "fs_close fd s = Inr (0, s')" "sys_ok s'" "state_dir s' = USEFUL"
    "state_bitmap s' = USEFUL" "stored s' (index (fd_pool s fd)) ns bl"
    "stored_bytes s' (index (fd_pool s fd)) bl = file_bytes s fd bl" "\<not> opened (fd_pool s' fd)" "dir s' = dir s"
    using fs_close_ok [OF assms] by blast
  have "dir (fs_init t) = dir s" if "disk t = disk s'" for t
    using c(2,3,8) that by (simp add: sys_ok_def)
  with c(5,6) remount_stored [OF c(2-4)] show ?thesis by (intro that [OF c(1,7,2,8)]) simp
qed

text \<open>C4. Chunking does not matter: what is written to an empty file in pieces of any sizes
  and read back from the start in pieces of any other sizes is the same byte string.\<close>

theorem fs_pieces_round_trip:
  assumes "stream_rep fd s [] 0" "stream_room fd s (length (concat bs))" "sum_list ns = length (concat bs)"
  shows "\<exists>s'. andThen (byte_stream.wr_pieces (stream_wr fd) bs s) (\<lambda>s1. andThen (stream_rewind fd s1)
      (byte_stream.rd_pieces (stream_rd fd) ns)) = Inr (concat bs, s')
    \<and> stream_rep fd s' (concat bs) (length (concat bs))"
  by (rule stream.write_read_back [OF assms])

theorem fs_pieces_round_trip_witness:
  "\<exists>s'. andThen (byte_stream.wr_pieces (stream_wr 0) [[1, 2], [], [3]] fresh_fs)
      (\<lambda>s1. andThen (stream_rewind 0 s1) (byte_stream.rd_pieces (stream_rd 0) [1, 2])) = Inr ([1, 2, 3], s')"
proof -
  have "stream_rep 0 fresh_fs [] 0"
    unfolding stream_rep_def using fresh_fs_rep(1,3) by (simp, blast)
  moreover have "stream_room 0 fresh_fs (length (concat [[1, 2], [], [3]]))"
    unfolding stream_room_def by (simp add: fresh_fs_grow)
  moreover have "sum_list [1, 2] = length (concat [[1, 2], [], [3 :: u8]])" by simp
  ultimately have "\<exists>s'. andThen (stream.wr_pieces 0 [[1, 2], [], [3]] fresh_fs)
      (\<lambda>s1. andThen (stream_rewind 0 s1) (stream.rd_pieces 0 [1, 2])) = Inr (concat [[1, 2], [], [3]], s')
    \<and> stream_rep 0 s' (concat [[1, 2], [], [3]]) (length (concat [[1, 2], [], [3 :: u8]]))"
    by (rule fs_pieces_round_trip)
  then show ?thesis by (simp only: concat.simps append.simps) blast
qed

text \<open>\<^verbatim>\<open>SEEK_SET\<close> rewinds and ignores its offset argument: whatever position was asked
  for, the next byte read is the first of the file. Nothing cached is lost.\<close>

lemma fs_lseek_set_rewinds:
  assumes "file_rep s fd ns bl" "fd < 1024" "opened (fd_pool s fd)"
  shows "\<exists>s'. (\<forall>off. fs_lseek fd off SEEK_SET s = Inr (0, s')) \<and> file_rep s' fd ns bl
    \<and> file_bytes s' fd bl = file_bytes s fd bl \<and> pos s' fd = 0"
proof -
  have "fs_lseek fd off SEEK_SET s = fs_lseek fd 0 SEEK_SET s" for off by (simp add: fs_lseek_def)
  then show ?thesis using rewind_ok [OF assms, of 0] by metis
qed

lemma fs_lseek_set_rewinds_witness:
  "\<exists>s'. fs_lseek 0 4096 SEEK_SET fresh_fs = Inr (0, s') \<and> pos s' 0 = 0"
  using fs_lseek_set_rewinds [OF fresh_fs_rep(1), of 0] by auto

end
