(* ===== verification/Fs_Open.thy ===== *)
theory Fs_Open
  imports Fs_Ops
begin

text \<open>
  \<^verbatim>\<open>fs_open\<close> of \<^verbatim>\<open>kernel/fs.c\<close>: what the search through the directory finds, in terms of the
  names the directory holds, the result of every branch, the state of a file that was just
  created, and the write permission a descriptor ends up with.
\<close>

section \<open>The search for a descriptor and for a name\<close>

lemma first_closed_find: "first_closed j s = find (\<lambda>k. \<not> opened (fd_pool s k)) [j..<1024]"
proof (induction j s rule: first_closed.induct)
  case (1 j s)
  show ?case
  proof (cases "j < 1024")
    case True
    with 1 show ?thesis by (subst first_closed.simps) (simp add: upt_conv_Cons)
  next
    case False
    then show ?thesis by (subst first_closed.simps) simp
  qed
qed

lemma first_closedD:
  assumes "first_closed 0 s = Some j"
  shows "j < 1024" "\<not> opened (fd_pool s j)"
  using assms by (auto simp: first_closed_find find_Some_iff)

definition matches :: "u8 list \<Rightarrow> dirent \<Rightarrow> bool" where
  "matches p e \<longleftrightarrow> cstr FILENAME_LENGTH (p @ [0]) = cstr FILENAME_LENGTH (fileName e)"

definition lookup :: "u8 list \<Rightarrow> fs_state \<Rightarrow> nat option" where
  "lookup p s = find (\<lambda>i. matches p (dir s ! i)) [0..<ENTRY_COUNT]"

definition free_slot :: "fs_state \<Rightarrow> nat option" where
  "free_slot s = find (\<lambda>i. hd (fileName (dir s ! i)) = 0) [0..<ENTRY_COUNT]"

lemma strncmp_name:
  assumes "dir_wf (dir s)" "i < 16" "0 \<notin> set p"
  shows "strncmp (p @ [0]) (fileName (dir s ! i)) 24 = Inr (if matches p (dir s ! i) then 0 else 1)"
  using strncmp_spec [of 24 "fileName (dir s ! i)" p] dir_wf_nth [OF assms(1,2)] assms(3)
  by (simp add: matches_def dirent_wf_def)

lemma open_scan_spec:
  assumes wf: "dir_wf (dir s)" and p: "0 \<notin> set p"
  shows "open_scan (p @ [0]) flags i slot s = Inr
    (case first_closed 0 s of
       Some j \<Rightarrow> (case find (\<lambda>i. matches p (dir s ! i)) [i..<16] of
           Some m \<Rightarrow> Returned (open_existing m j flags s)
         | None \<Rightarrow> Slot (if slot = None then find (\<lambda>i. hd (fileName (dir s ! i)) = 0) [i..<16] else slot))
     | None \<Rightarrow> Slot (if slot = None then find (\<lambda>i. hd (fileName (dir s ! i)) = 0) [i..<16] else slot))"
proof (induction "16 - i" arbitrary: i slot)
  case 0
  then show ?case by (subst open_scan.simps) (auto split: option.splits)
next
  case (Suc d)
  then have i: "i < 16" "d = 16 - (i + 1)" by simp_all
  then have u: "[i..<16] = i # [i + 1..<16]" by (simp add: upt_conv_Cons)
  have c: "strncmp (p @ [0]) (fileName (dir s ! i)) 24 = Inr (if matches p (dir s ! i) then 0 else 1)"
    by (rule strncmp_name [OF wf i(1) p])
  let ?slot = "if slot = None \<and> hd (fileName (dir s ! i)) = 0 then Some i else slot"
  show ?case
  proof (cases "matches p (dir s ! i) \<and> first_closed 0 s \<noteq> None")
    case True
    then show ?thesis
      using i c by (subst open_scan.simps) (auto simp: u split: option.splits)
  next
    case False
    then have step: "open_scan (p @ [0]) flags i slot s = open_scan (p @ [0]) flags (i + 1) ?slot s"
      using i c by (subst open_scan.simps) (auto split: option.splits)
    show ?thesis
      unfolding step Suc.hyps(1) [OF i(2), of ?slot] using False
      by (auto simp: u split: option.splits)
  qed
qed

section \<open>The branches of fs\_open\<close>

lemma fs_open_empty:
  "fs_open None flags s = Inr (E_EMPTYPATH, s)" "fs_open (Some (0 # rest)) flags s = Inr (E_EMPTYPATH, s)"
  by (simp_all add: fs_open_def array_get_def)

lemma fs_open_cases:
  assumes "dir_wf (dir s)" "0 \<notin> set p" "p \<noteq> []"
  shows "fs_open (Some (p @ [0])) flags s =
    (case (first_closed 0 s, lookup p s) of
       (Some j, Some m) \<Rightarrow> Inr (open_existing m j flags s)
     | _ \<Rightarrow> if flags AND O_CREAT = 0 then Inr (E_NOENT, s)
            else (case free_slot s of
                    None \<Rightarrow> Inr (E_DQUOT, s)
                  | Some slot \<Rightarrow> open_create (p @ [0]) flags slot s))"
proof -
  have "array_get ''pathname'' (p @ [0]) 0 = Inr (p ! 0)" and "p ! 0 \<noteq> 0"
    using assms(2,3) by (auto simp: array_get_def nth_append in_set_conv_nth)
  then show ?thesis
    using open_scan_spec [OF assms(1,2), of flags 0 None]
    by (auto simp: fs_open_def lookup_def free_slot_def split: option.splits)
qed

text \<open>
  \<^verbatim>\<open>kernel.bin\<close> is created in slot 0 and nothing else is: the boot loader reads the kernel
  from the first entry.
\<close>

definition kernel_name :: "u8 list" where
  "kernel_name = butlast (c_string ''kernel.bin'')"

lemma kernel_name: "c_string ''kernel.bin'' = kernel_name @ [0]" "0 \<notin> set kernel_name"
  "length kernel_name = 10" "kernel_name \<noteq> []"
  by (simp_all add: kernel_name_def c_string_def)

text \<open>Opening a file that exists.\<close>

lemma open_existing_ok:
  assumes st: "stored s m ns bl" and sys: "sys_ok s" and buf: "length (buffer (fd_pool s j)) = 512"
    and ok: "m = 0 \<longrightarrow> flags AND O_RDWR = 0"
  shows "\<exists>s'. open_existing m j flags s = (int j, s') \<and> file_rep s' j ns bl
    \<and> file_bytes s' j bl = stored_bytes s m bl \<and> pos s' j = 0 \<and> opened (fd_pool s' j)
    \<and> writable (fd_pool s' j) = (m \<noteq> 0 \<and> writable (fd_pool s j)) \<and> index (fd_pool s' j) = m
    \<and> dir s' = dir s \<and> bitmap s' = bitmap s \<and> disk s' = disk s
    \<and> (\<forall>g. g \<noteq> j \<longrightarrow> fd_pool s' g = fd_pool s g)"
proof -
  let ?s1 = "upd_fd j (\<lambda>f. f\<lparr>index := m\<rparr>) s"
  let ?s2 = "if m = 0 then upd_fd j (\<lambda>f. f\<lparr>writable := False\<rparr>) ?s1 else ?s1"
  have st2: "stored ?s2 m ns bl" and sys2: "sys_ok ?s2" using st sys by (auto simp: stored_def)
  have i2: "index (fd_pool ?s2 j) = m" and b2: "length (buffer (fd_pool ?s2 j)) = 512"
    using buf by simp_all
  note o = open_stored [OF st2 sys2 i2 b2]
  have run: "open_existing m j flags s = (int j, internal_open j ?s2)"
    using ok by (auto simp: open_existing_def Let_def)
  have "stored_bytes ?s2 m bl = stored_bytes s m bl" by (simp add: stored_bytes_def)
  with run o show ?thesis by auto
qed

lemma open_existing_denied:
  assumes "flags AND O_RDWR \<noteq> 0"
  shows "fst (open_existing 0 j flags s) = E_ACCESS" "fd_pool (snd (open_existing 0 j flags s)) j =
    (fd_pool s j)\<lparr>index := 0, writable := True\<rparr>"
  using assms by (simp_all add: open_existing_def Let_def)

text \<open>Creating a file.\<close>

definition new_dirent :: "u8 list \<Rightarrow> dirent" where
  "new_dirent p = \<lparr>fileName = take FILENAME_LENGTH (p @ replicate FILENAME_LENGTH 0),
     fileSize = 0, inodeOffset = -1\<rparr>"

lemma new_dirent_wf: "dirent_wf (new_dirent p)"
  by (simp add: new_dirent_def dirent_wf_def)

lemma new_dirent_matches: "0 \<notin> set p \<Longrightarrow> matches p (new_dirent p)"
  using cstr_name [of p 24] by (simp add: matches_def new_dirent_def)

lemma new_dirent_not_free: "\<lbrakk>0 \<notin> set p; p \<noteq> []\<rbrakk> \<Longrightarrow> hd (fileName (new_dirent p)) \<noteq> 0"
  by (cases p) (auto simp: new_dirent_def)

lemma open_create_ok:
  assumes sys: "sys_ok s" and p: "0 \<notin> set p" "p \<noteq> []" and j: "first_closed 0 s = Some j"
    and slot: "slot < 16" "slot = 0 \<longleftrightarrow> p = kernel_name" and buf: "length (buffer (fd_pool s j)) = 512"
  shows "\<exists>s'. open_create (p @ [0]) flags slot s = Inr (int j, s') \<and> file_rep s' j [] []
    \<and> size_of s' j = 0 \<and> pos s' j = 0 \<and> opened (fd_pool s' j) \<and> index (fd_pool s' j) = slot
    \<and> writable (fd_pool s' j) = (writable (fd_pool s j) \<or> flags AND O_RDWR \<noteq> 0)
    \<and> dir s' = (dir s)[slot := new_dirent p] \<and> bitmap s' = bitmap s \<and> disk s' = disk s
    \<and> (\<forall>g. g \<noteq> j \<longrightarrow> fd_pool s' g = fd_pool s g)"
proof -
  note so = sys_okD [OF sys]
  let ?s1 = "(upd_fd j (\<lambda>f. f\<lparr>index := slot\<rparr>) s)\<lparr>state_dir := NEED_WASHING\<rparr>"
  let ?s2 = "if flags AND O_RDWR \<noteq> 0 then upd_fd j (\<lambda>f. f\<lparr>writable := True\<rparr>) ?s1 else ?s1"
  let ?s3 = "internal_open j ?s2"
  let ?s4 = "upd_entry slot (\<lambda>e. e\<lparr>inodeOffset := -1, fileSize := 0\<rparr>) ?s3"
  let ?s' = "upd_entry slot (\<lambda>e. e\<lparr>fileName := take 24 (p @ replicate 24 0)\<rparr>) ?s4"
  have len: "length (dir s) = 16" using so(2) by (rule dir_wf_length)
  have "length (fileName (dir s ! slot)) = 24"
    using dir_wf_nth [OF so(2) slot(1)] by (simp add: dirent_wf_def)
  then have "length (fileName (dir ?s4 ! slot)) = 24" using slot(1) len by simp
  then have cpy: "strncpy (fileName (dir ?s4 ! slot)) (p @ [0]) 24 = Inr (take 24 (p @ replicate 24 0))"
    using strncpy_spec [of 24 "fileName (dir ?s4 ! slot)" p] p(1) by simp
  have cmp: "strncmp (p @ [0]) (c_string ''kernel.bin'') 24 = Inr (if p = kernel_name then 0 else 1)"
    unfolding kernel_name(1) by (rule strncmp_literal) (use p kernel_name in auto)
  have run: "open_create (p @ [0]) flags slot s = Inr (int j, ?s')"
    unfolding open_create_def using cmp slot(2) j cpy
    by (cases "p = kernel_name"; cases "flags AND 2 = 0") (simp_all add: Let_def)
  have dir': "dir ?s' = (dir s)[slot := new_dirent p]"
    using slot(1) len by (cases "dir s ! slot") (simp add: new_dirent_def)
  have "sys_ok ?s'"
    using sys slot(1) new_dirent_wf [of p] dir' by (simp add: sys_ok_def dir_wf_update)
  then have base: "fd_base ?s' j [] []"
    using slot(1) buf len dir' by (simp add: fd_base_def inode_coherent_def chain_ok_def fd_entry_def
      new_dirent_def)
  have p0: "pos ?s' j = 0" and z: "size_of ?s' j = 0"
    using slot(1) len dir' by (simp_all add: pos_def size_of_def fd_entry_def new_dirent_def)
  have "buffer_state (fd_pool ?s' j) = GARBAGE" "inode_state (fd_pool ?s' j) = GARBAGE" by simp_all
  then have "cache_ok ?s' j [] []"
    unfolding cache_ok_def inode_cached_def buffer_coherent_def p0 by simp
  with base have rep: "file_rep ?s' j [] []" unfolding file_rep_def p0 z by (simp add: tight_def)
  show ?thesis
    by (intro exI [of _ ?s'] conjI run rep z p0 dir') simp_all
qed


text \<open>The two ways to open a file, written out.\<close>

lemma open_existing_result:
  "open_existing m j flags s =
    (if m = 0 \<and> flags AND O_RDWR \<noteq> 0
     then (E_ACCESS, s\<lparr>fd_pool := (fd_pool s)(j := (fd_pool s j)\<lparr>index := 0, writable := True\<rparr>)\<rparr>)
     else (int j, s\<lparr>fd_pool := (fd_pool s)(j := (fd_pool s j)\<lparr>index := m, offset := 0, buffer_state := GARBAGE,
       inode_state := GARBAGE, opened := True, writable := (m \<noteq> 0 \<and> writable (fd_pool s j))\<rparr>)\<rparr>))"
  by (cases "fd_pool s j") (auto simp: open_existing_def internal_open_def upd_fd_def Let_def)

lemma open_create_result:
  assumes wf: "dir_wf (dir s)" and p: "0 \<notin> set p" "p \<noteq> []" and slot: "slot < 16"
  shows "open_create (p @ [0]) flags slot s =
    (if (slot = 0) \<noteq> (p = kernel_name) then Inl (Assert_failed ''file_slot'')
     else case first_closed 0 s of
       None \<Rightarrow> Inr (E_NOENT, s)
     | Some j \<Rightarrow> Inr (int j, s\<lparr>dir := (dir s)[slot := new_dirent p], state_dir := NEED_WASHING,
         fd_pool := (fd_pool s)(j := (fd_pool s j)\<lparr>index := slot, offset := 0, buffer_state := GARBAGE,
           inode_state := GARBAGE, opened := True, writable := (writable (fd_pool s j) \<or> flags AND O_RDWR \<noteq> 0)\<rparr>)\<rparr>))"
proof -
  have cmp: "strncmp (p @ [0]) (c_string ''kernel.bin'') 24 = Inr (if p = kernel_name then 0 else 1)"
    unfolding kernel_name(1) by (rule strncmp_literal) (use p kernel_name in auto)
  have len: "length (dir s) = 16" using wf by (rule dir_wf_length)
  have "length (fileName (dir s ! slot)) = 24"
    using dir_wf_nth [OF wf slot] by (simp add: dirent_wf_def)
  then have cpy: "strncpy (fileName (dir s ! slot)) (p @ [0]) 24 = Inr (take 24 (p @ replicate 24 0))"
    using strncpy_spec [of 24 "fileName (dir s ! slot)" p] p(1) by simp
  show ?thesis
    using cmp cpy slot len
    by (cases "dir s ! slot"; cases "fd_pool s (the (first_closed 0 s))")
      (auto simp: open_create_def my_assert_def Let_def internal_open_def upd_fd_def upd_entry_def new_dirent_def split: option.splits)
qed

section \<open>Properties\<close>

lemma fresh_fs_dir: "dir_wf (dir fresh_fs)" "sys_ok fresh_fs"
  using fd_baseD(1) [OF file_repD(1) [OF fresh_fs_rep(1)]] sys_okD(2) by auto

lemma fresh_fs_full: "first_closed 0 fresh_fs = None"
  by (simp add: first_closed_find find_None_iff)

text \<open>A file that was just created is empty, open at offset 0 under the requested name,
  findable by it, and no other entry, descriptor, data sector or allocation changed. It is
  writable when \<^verbatim>\<open>O_RDWR\<close> was given, and also without it when the descriptor had been
  writable before: nothing on this path clears the flag.\<close>

lemma fs_open_creates:
  assumes "sys_ok s" "0 \<notin> set p" "p \<noteq> []" "first_closed 0 s = Some j" "lookup p s = None"
    and "free_slot s = Some slot" "slot = 0 \<longleftrightarrow> p = kernel_name"
    and "flags AND O_CREAT \<noteq> 0" "length (buffer (fd_pool s j)) = 512"
  shows "\<exists>s'. fs_open (Some (p @ [0])) flags s = Inr (int j, s') \<and> file_rep s' j [] []
    \<and> file_bytes s' j [] = [] \<and> pos s' j = 0 \<and> opened (fd_pool s' j) \<and> lookup p s' = Some slot
    \<and> index (fd_pool s' j) = slot
    \<and> writable (fd_pool s' j) = (writable (fd_pool s j) \<or> flags AND O_RDWR \<noteq> 0)
    \<and> (\<forall>i. i \<noteq> slot \<longrightarrow> dir s' ! i = dir s ! i) \<and> bitmap s' = bitmap s \<and> disk s' = disk s
    \<and> (\<forall>g. g \<noteq> j \<longrightarrow> fd_pool s' g = fd_pool s g)"
proof -
  have slot: "slot < 16" using assms(6) by (auto simp: free_slot_def find_Some_iff)
  obtain s' where c: "open_create (p @ [0]) flags slot s = Inr (int j, s')" "file_rep s' j [] []"
    "pos s' j = 0" "opened (fd_pool s' j)" "index (fd_pool s' j) = slot"
    "writable (fd_pool s' j) = (writable (fd_pool s j) \<or> flags AND O_RDWR \<noteq> 0)"
    "dir s' = (dir s)[slot := new_dirent p]" "bitmap s' = bitmap s" "disk s' = disk s"
    "\<forall>g. g \<noteq> j \<longrightarrow> fd_pool s' g = fd_pool s g"
    using open_create_ok [OF assms(1-4) slot assms(7,9), of flags] by blast
  have len: "length (dir s) = 16" using sys_okD(2) [OF assms(1)] by (rule dir_wf_length)
  have "fs_open (Some (p @ [0])) flags s = Inr (int j, s')"
    using fs_open_cases [OF sys_okD(2) [OF assms(1)] assms(2,3), of flags] assms(4-6,8) c(1) by simp
  moreover have "matches p (dir s' ! slot)" using c(7) slot len new_dirent_matches [OF assms(2)] by simp
  moreover have "\<not> matches p (dir s' ! k)" if "k < slot" for k
    using assms(5) that slot c(7) by (auto simp: lookup_def find_None_iff)
  ultimately have "lookup p s' = Some slot"
    unfolding lookup_def find_Some_iff using slot by (auto intro!: exI [of _ slot])
  moreover have "file_bytes s' j [] = []" by (simp add: file_bytes_def blocks_of_def)
  ultimately show ?thesis
    using c \<open>fs_open (Some (p @ [0])) flags s = Inr (int j, s')\<close> by auto
qed

definition fresh_closed :: fs_state where
  "fresh_closed = upd_fd 3 (\<lambda>f. f\<lparr>opened := False\<rparr>) fresh_fs"

lemma fresh_closed_first: "first_closed 0 fresh_closed = Some 3"
  by (simp add: first_closed_find find_Some_iff fresh_closed_def) (auto intro!: exI [of _ 3])

lemma fs_open_creates_witness:
  "\<exists>s'. fs_open (Some (kernel_name @ [0])) O_CREAT fresh_closed = Inr (3, s')
    \<and> file_rep s' 3 [] [] \<and> writable (fd_pool s' 3)"
proof -
  have "sys_ok fresh_closed" using fresh_fs_dir(2) by (simp add: fresh_closed_def)
  moreover have "\<not> matches kernel_name (dir fresh_closed ! i)" if "i < 16" for i
    using that by (simp add: fresh_closed_def fresh_fs_def matches_def cstr_def kernel_name_def c_string_def)
  then have "lookup kernel_name fresh_closed = None" by (auto simp: lookup_def find_None_iff)
  moreover have "free_slot fresh_closed = Some 0"
    by (simp add: free_slot_def fresh_closed_def fresh_fs_def upt_conv_Cons)
  moreover have "length (buffer (fd_pool fresh_closed 3)) = 512"
    by (simp add: fresh_closed_def fresh_fs_def)
  moreover have "writable (fd_pool fresh_closed 3)" by (simp add: fresh_closed_def)
  ultimately show ?thesis
    using fs_open_creates [of fresh_closed kernel_name 3 0 O_CREAT] kernel_name fresh_closed_first by auto
qed

text \<open>The write permission of a descriptor on an existing file: the condition in
  \<^verbatim>\<open>fs_open\<close> assigns it for the kernel's entry 0 only. For every other entry the requested
  mode is ignored and the permission is what the descriptor's last user left; and an
  \<^verbatim>\<open>O_RDWR\<close> open of entry 0, which is refused with \<^verbatim>\<open>E_ACCESS\<close>, leaves the still closed
  descriptor writable, so that the next read-only open of another file can write.\<close>

lemma fs_open_permission_stale:
  assumes "dir_wf (dir s)" "0 \<notin> set p" "p \<noteq> []" "first_closed 0 s = Some j" "lookup p s = Some m"
  shows "(m \<noteq> 0 \<longrightarrow> (\<exists>s'. fs_open (Some (p @ [0])) flags s = Inr (int j, s') \<and> opened (fd_pool s' j)
      \<and> writable (fd_pool s' j) = writable (fd_pool s j)))
    \<and> (m = 0 \<and> flags AND O_RDWR \<noteq> 0 \<longrightarrow> (\<exists>s'. fs_open (Some (p @ [0])) flags s = Inr (E_ACCESS, s')
      \<and> \<not> opened (fd_pool s' j) \<and> writable (fd_pool s' j)))
    \<and> (m = 0 \<and> flags AND O_RDWR = 0 \<longrightarrow> (\<exists>s'. fs_open (Some (p @ [0])) flags s = Inr (int j, s')
      \<and> opened (fd_pool s' j) \<and> \<not> writable (fd_pool s' j)))"
  using fs_open_cases [OF assms(1-3), of flags] assms(4,5) first_closedD [OF assms(4)]
  by (simp_all add: open_existing_def Let_def)

definition fresh_named :: fs_state where
  "fresh_named = fresh_closed\<lparr>dir := (dir fresh_closed)[2 := new_dirent [97]]\<rparr>"

lemma fresh_named_facts:
  "dir_wf (dir fresh_named)" "first_closed 0 fresh_named = Some 3" "lookup [97] fresh_named = Some 2"
  "lookup kernel_name fresh_named = None" "free_slot fresh_named = Some 0" "writable (fd_pool fresh_named 3)"
proof -
  have d: "dir fresh_named = (replicate 16 \<lparr>fileName = replicate 24 0, fileSize = 0, inodeOffset = -1\<rparr>)
      [2 := new_dirent [97]]"
    by (simp add: fresh_named_def fresh_closed_def fresh_fs_def)
  show "dir_wf (dir fresh_named)"
    unfolding d by (rule dir_wf_update) (simp_all add: dir_wf_def dirent_wf_def new_dirent_def)
  show "first_closed 0 fresh_named = Some 3"
    using fresh_closed_first by (simp add: first_closed_find fresh_named_def)
  show "lookup [97] fresh_named = Some 2"
    unfolding lookup_def find_Some_iff d
    by (auto simp: nth_list_update new_dirent_matches matches_def [of _ "\<lparr>fileName = _, fileSize = _, inodeOffset = _\<rparr>"]
      cstr_def intro!: exI [of _ 2])
  have "\<not> matches kernel_name (dir fresh_named ! i)" if "i < 16" for i
    using that unfolding d by (cases "i = 2") (simp_all add: matches_def new_dirent_def cstr_def kernel_name_def c_string_def)
  then show "lookup kernel_name fresh_named = None" by (auto simp: lookup_def find_None_iff)
  show "free_slot fresh_named = Some 0"
    unfolding free_slot_def find_Some_iff d by (auto intro!: exI [of _ 0])
  show "writable (fd_pool fresh_named 3)" by (simp add: fresh_named_def fresh_closed_def)
qed

lemma fs_open_permission_stale_witness:
  "\<exists>s'. fs_open (Some [97, 0]) O_RDONLY fresh_named = Inr (3, s') \<and> writable (fd_pool s' 3)"
  using fs_open_permission_stale [of fresh_named "[97]" 3 2 O_RDONLY] fresh_named_facts by auto

text \<open>C19. Every branch of \<^verbatim>\<open>fs_open\<close> on a non-empty name, with the state it leaves. With a closed descriptor,
  the first of them being \<open>j\<close>, and a first entry \<open>m\<close> of that name: \<^verbatim>\<open>O_RDWR\<close> on entry 0 is refused with \<^verbatim>\<open>E_ACCESS\<close>
  (and leaves the descriptor bound to it and writable); otherwise \<open>j\<close> is bound to \<open>m\<close>, at offset 0 with both caches
  empty, opened, not writable for entry 0 and as writable as before for any other. Without one of the two: \<^verbatim>\<open>E_NOENT\<close> without
  \<^verbatim>\<open>O_CREAT\<close>, \<^verbatim>\<open>E_DQUOT\<close> when the directory is full; a failed assertion if the first free entry is 0 and the name is
  not \<^verbatim>\<open>kernel.bin\<close>, or the other way round; \<^verbatim>\<open>E_NOENT\<close> if no descriptor is closed; and else the free entry gets
  the name, the size 0 and no inode, the directory is marked, and \<open>j\<close> is bound to it as above, writable if it was
  or \<^verbatim>\<open>O_RDWR\<close> is given. Nothing else changes on any branch.\<close>

theorem fs_open_branches:
  assumes "dir_wf (dir s)" "0 \<notin> set p" "p \<noteq> []"
  shows "fs_open (Some (p @ [0])) flags s =
    (case (find (\<lambda>k. \<not> opened (fd_pool s k)) [0..<1024], lookup p s) of
       (Some j, Some m) \<Rightarrow>
         if m = 0 \<and> flags AND O_RDWR \<noteq> 0
         then Inr (E_ACCESS, s\<lparr>fd_pool := (fd_pool s)(j := (fd_pool s j)\<lparr>index := 0, writable := True\<rparr>)\<rparr>)
         else Inr (int j, s\<lparr>fd_pool := (fd_pool s)(j := (fd_pool s j)\<lparr>index := m, offset := 0, buffer_state := GARBAGE,
           inode_state := GARBAGE, opened := True, writable := (m \<noteq> 0 \<and> writable (fd_pool s j))\<rparr>)\<rparr>)
     | (closed, _) \<Rightarrow> if flags AND O_CREAT = 0 then Inr (E_NOENT, s)
         else (case find (\<lambda>i. hd (fileName (dir s ! i)) = 0) [0..<16] of
           None \<Rightarrow> Inr (E_DQUOT, s)
         | Some i \<Rightarrow> if (i = 0) \<noteq> (p = kernel_name) then Inl (Assert_failed ''file_slot'')
             else (case closed of
               None \<Rightarrow> Inr (E_NOENT, s)
             | Some j \<Rightarrow> Inr (int j, s\<lparr>
                 dir := (dir s)[i := \<lparr>fileName = take 24 (p @ replicate 24 0), fileSize = 0, inodeOffset = -1\<rparr>],
                 state_dir := NEED_WASHING,
                 fd_pool := (fd_pool s)(j := (fd_pool s j)\<lparr>index := i, offset := 0, buffer_state := GARBAGE,
                   inode_state := GARBAGE, opened := True,
                   writable := (writable (fd_pool s j) \<or> flags AND O_RDWR \<noteq> 0)\<rparr>)\<rparr>))))"
proof -
  have slot: "i < 16" if "find (\<lambda>i. hd (fileName (dir s ! i)) = 0) [0..<16] = Some i" for i
    using that by (auto simp: find_Some_iff)
  show ?thesis
    using fs_open_cases [OF assms, of flags] open_create_result [OF assms, of _ flags] slot
    by (auto simp: open_existing_result free_slot_def first_closed_find new_dirent_def split: option.splits)
qed

text \<open>On one state: a file that exists, and one that is created.\<close>

theorem fs_open_branches_witness:
  "(\<exists>s'. fs_open (Some [97, 0]) O_RDONLY fresh_named = Inr (3, s') \<and> opened (fd_pool s' 3) \<and> index (fd_pool s' 3) = 2
      \<and> dir s' = dir fresh_named)
    \<and> (\<exists>s'. fs_open (Some (kernel_name @ [0])) O_CREAT fresh_named = Inr (3, s') \<and> opened (fd_pool s' 3)
      \<and> index (fd_pool s' 3) = 0 \<and> inodeOffset (dir s' ! 0) = -1 \<and> state_dir s' = NEED_WASHING)"
proof -
  note f = fresh_named_facts [unfolded first_closed_find free_slot_def]
  have len: "length (dir fresh_named) = 16" using f(1) by (rule dir_wf_length)
  show ?thesis
    using fs_open_branches [OF f(1), of "[97]" O_RDONLY] fs_open_branches [OF f(1) kernel_name(2,4), of O_CREAT] f len by simp
qed

end
