(* ===== verification/Fs_Types.thy ===== *)
theory Fs_Types
  imports Fs_Open
begin

text \<open>
  The types of C, kept: the arrays of \<^verbatim>\<open>kernel/fs.c\<close> have fixed sizes, and its indices into the directory are in
  range. In the model arrays are lists, so that this is an invariant: it holds from \<^verbatim>\<open>fs_init\<close> on, through any
  sequence of calls with any arguments, whatever the disk holds. With it every subscript of the model that has no
  check of its own, those of \<^verbatim>\<open>dataBlocks\<close>, \<^verbatim>\<open>buffer\<close> and \<^verbatim>\<open>dir.entries\<close>, is inside its array.
\<close>

definition fd_typed :: "fdesc \<Rightarrow> bool" where
  "fd_typed f \<longleftrightarrow> index f < ENTRY_COUNT \<and> length (buffer f) = SECTSIZE \<and> inode_wf (inode f)"

definition fs_typed :: "fs_state \<Rightarrow> bool" where
  "fs_typed s \<longleftrightarrow> bitmap_wf (bitmap s) \<and> dir_wf (dir s) \<and> disk_ok (disk s)
     \<and> (\<forall>g < FDPOOL_SIZE. fd_typed (fd_pool s g))"

text \<open>A call, and a sequence of calls up to the first that stops the kernel.\<close>

datatype request = Open "u8 list option" u32 | Read nat int | Write nat "u8 list" int | Lseek nat int int | Close nat

fun fs_call :: "request \<Rightarrow> fs_state \<Rightarrow> fs_state result" where
  "fs_call (Open pathname flags) s = andThen (fs_open pathname flags s) (\<lambda>(_, s1). Inr s1)"
| "fs_call (Read fd len) s = andThen (fs_read fd len s) (\<lambda>(_, _, s1). Inr s1)"
| "fs_call (Write fd buf len) s = andThen (fs_write fd buf len s) (\<lambda>(_, s1). Inr s1)"
| "fs_call (Lseek fd off whence) s = andThen (fs_lseek fd off whence s) (\<lambda>(_, s1). Inr s1)"
| "fs_call (Close fd) s = andThen (fs_close fd s) (\<lambda>(_, s1). Inr s1)"

fun fs_calls :: "request list \<Rightarrow> fs_state \<Rightarrow> fs_state result" where
  "fs_calls [] s = Inr s"
| "fs_calls (c # cs) s = andThen (fs_call c s) (fs_calls cs)"

text \<open>The static variables before \<^verbatim>\<open>fs_init\<close>, all zeros.\<close>

definition fs_statics :: "disk \<Rightarrow> fs_state" where
  "fs_statics d = \<lparr>bitmap = replicate 128 0, dir = replicate 16 \<lparr>fileName = replicate 24 0, fileSize = 0, inodeOffset = 0\<rparr>,
     state_bitmap = GARBAGE, state_dir = GARBAGE,
     fd_pool = (\<lambda>_. \<lparr>index = 0, offset = 0, buffer = replicate 512 0, inode = zero_inode, buffer_idx = 0, inode_idx = 0,
       buffer_state = GARBAGE, inode_state = GARBAGE, opened = False, writable = False\<rparr>),
     disk = d\<rparr>"

section \<open>The small updates\<close>

lemma fs_typedD:
  assumes "fs_typed s"
  shows "dir_wf (dir s)" "bitmap_wf (bitmap s)" "disk_ok (disk s)" "fd < 1024 \<Longrightarrow> index (fd_pool s fd) < 16"
    "fd < 1024 \<Longrightarrow> length (buffer (fd_pool s fd)) = 512" "fd < 1024 \<Longrightarrow> inode_wf (inode (fd_pool s fd))"
  using assms by (simp_all add: fs_typed_def fd_typed_def)

lemma zero_inode_wf [simp]: "inode_wf zero_inode" by (simp add: inode_wf_def zero_inode_def)

lemma typed_upd_fd:
  assumes "fs_typed s" "fd < 1024 \<Longrightarrow> fd_typed (fd_pool s fd) \<Longrightarrow> fd_typed (u (fd_pool s fd))"
  shows "fs_typed (upd_fd fd u s)"
  using assms by (simp add: fs_typed_def)

lemma typed_upd_entry:
  assumes "fs_typed s" "\<And>e. dirent_wf e \<Longrightarrow> dirent_wf (u e)"
  shows "fs_typed (upd_entry i u s)"
proof (cases "i < 16")
  case True
  then have "dir_wf ((dir s)[i := u (dir s ! i)])"
    using dir_wf_update dir_wf_nth fs_typedD(1) [OF assms(1)] assms(2) by blast
  then show ?thesis using assms(1) by (simp add: fs_typed_def)
next
  case False
  then have "(dir s)[i := u (dir s ! i)] = dir s" using dir_wf_length [OF fs_typedD(1) [OF assms(1)]] by (simp add: list_update_beyond)
  then show ?thesis using assms(1) by (simp add: fs_typed_def)
qed

lemma typed_IDE_WRITE: "fs_typed s \<Longrightarrow> length b = 512 \<Longrightarrow> fs_typed (IDE_WRITE n b s)"
  using disk.ok_wr [where d = "disk s" and n = "n + 3" and s = b] by (simp add: fs_typed_def IDE_WRITE_def)

lemma typed_IDE_READ: "fs_typed s \<Longrightarrow> length (IDE_READ n s) = 512"
  by (simp add: fs_typed_def IDE_READ_def disk_read_def disk_ok_def)

lemma typed_marks [simp]:
  "fs_typed (s\<lparr>state_dir := c\<rparr>) = fs_typed s" "fs_typed (s\<lparr>state_bitmap := c\<rparr>) = fs_typed s"
  by (simp_all add: fs_typed_def)

section \<open>The operations\<close>

lemma typed_find_empty_from:
  assumes "find_empty_from i s = Inr (n, s')" "fs_typed s"
  shows "fs_typed s'"
  using assms
proof (induction i s rule: find_empty_from.induct)
  case (1 i s)
  show ?case
    using 1 by (auto simp: find_empty_from.simps [of i s] andThen_eq_Inr Let_def fs_typed_def bitmap_wf_def
        split: if_splits option.splits)
qed

lemma typed_find_empty: "find_empty_inode s = Inr (n, s') \<Longrightarrow> fs_typed s \<Longrightarrow> fs_typed s'"
  using typed_find_empty_from [of 0 s n s'] by (auto simp: find_empty_inode_def andThen_eq_Inr)

lemmas typed_intros = typed_upd_fd typed_upd_entry typed_IDE_WRITE

lemma typed_inode_flush: "fs_typed s \<Longrightarrow> fd < 1024 \<Longrightarrow> fs_typed (fd_inode_flush fd s)"
  using inode.enc_length [of "inode (fd_pool s fd)"]
  by (auto simp: fd_inode_flush_def Let_def fd_typed_def fs_typedD(6) intro!: typed_intros)

lemma typed_buffer_flush: "fs_typed s \<Longrightarrow> fd < 1024 \<Longrightarrow> fs_typed (fd_buffer_flush fd s)"
  by (auto simp: fd_buffer_flush_def Let_def fd_typed_def fs_typedD(5) intro!: typed_intros)

lemma typed_load_inode: "fs_typed s \<Longrightarrow> fs_typed (fd_load_inode fd n s)"
  by (auto simp: fd_load_inode_def fd_typed_def inode_wf_def inode_of_bytes_def intro!: typed_upd_fd)

lemma typed_set_inode: "fd_set_inode fd s = Inr s' \<Longrightarrow> fs_typed s \<Longrightarrow> fs_typed s'"
  by (auto simp: fd_set_inode_def andThen_eq_Inr Let_def fd_typed_def dirent_wf_def dest: typed_find_empty intro!: typed_intros)

lemma typed_alloc_next_inode: "fd_alloc_next_inode fd s = Inr s' \<Longrightarrow> fs_typed s \<Longrightarrow> fd < 1024 \<Longrightarrow> fs_typed s'"
  by (auto simp: fd_alloc_next_inode_def andThen_eq_Inr Let_def fd_typed_def inode_wf_def zero_inode_def dest!: typed_find_empty
      intro!: typed_upd_fd typed_inode_flush)

lemma typed_enter_inode: "fd_enter_inode fd s = Inr s' \<Longrightarrow> fs_typed s \<Longrightarrow> fd < 1024 \<Longrightarrow> fs_typed s'"
proof -
  assume e: "fd_enter_inode fd s = Inr s'" and s: "fs_typed s" and fd: "fd < 1024"
  let ?s = "upd_fd fd (\<lambda>f. f\<lparr>inode_state := GARBAGE\<rparr>) (fd_inode_flush fd s)"
  have "fs_typed ?s" using typed_inode_flush [OF s fd] by (rule typed_upd_fd) (simp add: fd_typed_def)
  moreover have "s' = s \<or> fd_inode_state_init fd ?s = Inr s'" using e by (auto simp: fd_enter_inode_def Let_def split: if_splits)
  ultimately show "fs_typed s'"
    using s fd typed_set_inode [of fd ?s s'] typed_alloc_next_inode [of fd ?s s'] typed_load_inode [of ?s fd]
    by (auto simp: fd_inode_state_init_def andThen_eq_Inr split: if_splits)
qed

lemma typed_enter_block: "fd_enter_block fd s = Inr s' \<Longrightarrow> fs_typed s \<Longrightarrow> fs_typed s'"
  by (auto simp: fd_enter_block_def andThen_eq_Inr Let_def fd_typed_def inode_wf_def typed_IDE_READ split: if_splits
      dest!: typed_find_empty intro!: typed_upd_fd)

lemma typed_fetch: "fd_buffer_fetch fd s = Inr s' \<Longrightarrow> fs_typed s \<Longrightarrow> fd < 1024 \<Longrightarrow> fs_typed s'"
  by (auto simp: fd_buffer_fetch_def andThen_eq_Inr split: if_splits dest: typed_enter_inode typed_enter_block)

section \<open>The calls\<close>

lemma typed_read_loop: "fs_read_loop fd len n buf s = Inr (r, out, s') \<Longrightarrow> fs_typed s \<Longrightarrow> fd < 1024 \<Longrightarrow> fs_typed s'"
proof (induction fd len n buf s rule: fs_read_loop.induct)
  case (1 fd len n buf s)
  show ?case
  proof (cases "n < len")
    case True
    then obtain s1 where s1: "fd_buffer_fetch fd s = Inr s1"
      using "1.prems"(1) by (auto simp: fs_read_loop.simps [of fd len n buf s] andThen_eq_Inr)
    have t1: "fs_typed s1" using typed_fetch [OF s1 "1.prems"(2,3)] .
    have t: "fs_typed (upd_fd fd (\<lambda>f. f\<lparr>offset := v f\<rparr>) s1)" for v
      using t1 by (rule typed_upd_fd) (simp add: fd_typed_def)
    show ?thesis
      using "1.IH" [OF True s1 refl refl refl refl refl refl] "1.prems"(1,3) typed_buffer_flush [OF t "1.prems"(3)] t
      by (subst (asm) fs_read_loop.simps [of fd len n buf s]) (simp add: True s1 Let_def split: if_splits)
  qed (use "1.prems" in \<open>simp add: fs_read_loop.simps [of fd len n buf s]\<close>)
qed

text \<open>One round of the writing loop.\<close>

lemma typed_write_loop: "fs_write_loop fd buf len n s = Inr (r, s') \<Longrightarrow> fs_typed s \<Longrightarrow> fd < 1024 \<Longrightarrow> 0 \<le> n \<Longrightarrow> fs_typed s'"
proof (induction fd buf len n s rule: fs_write_loop.induct)
  case (1 fd buf len n s)
  show ?case
  proof (cases "n < len")
    case True
    define off where "off = unat (offset (fd_pool s fd) mod of_nat SECTSIZE)"
    define count where "count = min (len - n) (int SECTSIZE - int off)"
    obtain s1 where s1: "fd_buffer_fetch fd s = Inr s1"
      using "1.prems"(1) True by (auto simp: fs_write_loop.simps [of fd buf len n s] Let_def andThen_eq_Inr)
    have t1: "fs_typed s1" using typed_fetch [OF s1 "1.prems"(2,3)] .
    let ?s2 = "upd_fd fd (\<lambda>f. f\<lparr>buffer_state := NEED_WASHING, offset := offset f + of_int count\<rparr>) s1"
    let ?s3 = "upd_fd fd (\<lambda>f. f\<lparr>buffer := splice_at off (take (nat count) (drop (nat n) buf)) (buffer f)\<rparr>) ?s2"
    let ?s4 = "if fileSize (fd_entry fd ?s3) < offset (fd_pool ?s3 fd) then (upd_entry (index (fd_pool ?s3 fd))
      (\<lambda>e. e\<lparr>fileSize := offset (fd_pool ?s3 fd)\<rparr>) ?s3)\<lparr>state_dir := NEED_WASHING\<rparr> else ?s3"
    let ?s5 = "if int off + count = int SECTSIZE then fd_buffer_flush fd ?s4 else ?s4"
    have off: "off < 512" by (simp add: off_def unat_mod)
    have t2: "fs_typed ?s2" using t1 by (rule typed_upd_fd) (simp add: fd_typed_def)
    have "off + length (take (nat count) (drop (nat n) buf)) \<le> 512" using off by (simp add: count_def)
    then have b: "fd_typed g \<Longrightarrow> fd_typed (g\<lparr>buffer := splice_at off (take (nat count) (drop (nat n) buf)) (buffer g)\<rparr>)" for g
      by (simp add: fd_typed_def)
    have t3: "fs_typed ?s3" using t2 by (rule typed_upd_fd) (rule b)
    have t4: "fs_typed ?s4" using typed_upd_entry [OF t3] t3 by (simp add: dirent_wf_def)
    have t5: "fs_typed ?s5" using typed_buffer_flush [OF t4 "1.prems"(3)] t4 by simp
    have r: "nat (n + count) \<le> length buf" "fs_write_loop fd buf len (n + count) ?s5 = Inr (r, s')"
      using "1.prems"(1) True s1
      by (auto simp: fs_write_loop.simps [of fd buf len n s] Let_def off_def [symmetric] count_def [symmetric] simp del: SECTSIZE_def
          split: if_splits)
    have "0 \<le> n + count" using "1.prems"(4) True off by (simp add: count_def)
    then show ?thesis
      using "1.IH" [OF True off_def count_def s1 refl _ refl refl refl refl] r t5 "1.prems"(3) by simp
  qed (use "1.prems" in \<open>simp add: fs_write_loop.simps [of fd buf len n s]\<close>)
qed

lemma strncpy_loop_length: "strncpy_loop dest src n i eos = Inr out \<Longrightarrow> length out = length dest"
proof (induction dest src n i eos rule: strncpy_loop.induct)
  case (1 dest src n i eos)
  then show ?case
    by (auto simp: strncpy_loop.simps [of dest src n i eos] andThen_eq_Inr array_put_def split: if_splits)
qed

lemma strncpy_length: "strncpy dest src n = Inr out \<Longrightarrow> length out = length dest"
  unfolding strncpy_def by (rule strncpy_loop_length)

lemma typed_internal_open: "fs_typed s \<Longrightarrow> fs_typed (internal_open fd s)"
  by (auto simp: internal_open_def fd_typed_def intro: typed_upd_fd)

lemma typed_open_existing: "fs_typed s \<Longrightarrow> i < 16 \<Longrightarrow> fs_typed (snd (open_existing i j flags s))"
  by (auto simp: open_existing_def Let_def fd_typed_def intro!: typed_internal_open typed_upd_fd)

lemma typed_open_scan: "open_scan p flags i slot s = Inr (Returned (r, s')) \<Longrightarrow> fs_typed s \<Longrightarrow> fs_typed s'"
proof (induction p flags i slot s rule: open_scan.induct)
  case (1 p flags i slot s)
  show ?case
  proof (cases "i < 16 \<and> strncmp p (fileName (dir s ! i)) 24 = Inr 0 \<and> first_closed 0 s \<noteq> None")
    case True
    then obtain j where "first_closed 0 s = Some j" by blast
    with True "1.prems" have "open_existing i j flags s = (r, s')"
      by (simp add: open_scan.simps [of p flags i slot s] Let_def)
    then show ?thesis using typed_open_existing [OF "1.prems"(2), of i j flags] True by simp
  next
    case False
    then show ?thesis
      using 1 by (auto simp: open_scan.simps [of p flags i slot s] Let_def andThen_eq_Inr split: if_splits option.splits)
  qed
qed

lemma open_scan_slot: "open_scan p flags i slot s = Inr (Slot (Some k)) \<Longrightarrow> (\<And>k. slot = Some k \<Longrightarrow> k < 16) \<Longrightarrow> k < 16"
proof (induction p flags i slot s rule: open_scan.induct)
  case (1 p flags i slot s)
  then show ?case
    by (auto simp: open_scan.simps [of p flags i slot s] Let_def andThen_eq_Inr split: if_splits option.splits)
qed

lemma typed_open_create:
  assumes "open_create p flags slot s = Inr (r, s')" "fs_typed s" "slot < 16"
  shows "fs_typed s'"
proof (cases "first_closed 0 s")
  case (Some j)
  let ?s1 = "(upd_fd j (\<lambda>f. f\<lparr>index := slot\<rparr>) s)\<lparr>state_dir := NEED_WASHING\<rparr>"
  let ?s2 = "if flags AND O_RDWR \<noteq> 0 then upd_fd j (\<lambda>f. f\<lparr>writable := True\<rparr>) ?s1 else ?s1"
  let ?s4 = "upd_entry slot (\<lambda>e. e\<lparr>inodeOffset := -1, fileSize := 0\<rparr>) (internal_open j ?s2)"
  have "fs_typed (upd_fd j (\<lambda>f. f\<lparr>index := slot\<rparr>) s)"
    using assms(2) by (rule typed_upd_fd) (use assms(3) in \<open>simp add: fd_typed_def\<close>)
  then have t1: "fs_typed ?s1" by simp
  then have "fs_typed ?s2" using typed_upd_fd [OF t1, of j "\<lambda>f. f\<lparr>writable := True\<rparr>"] by (simp add: fd_typed_def)
  then have t4: "fs_typed ?s4" by (intro typed_upd_entry typed_internal_open) (simp_all add: dirent_wf_def)
  obtain nm where nm: "strncpy (fileName (dir ?s4 ! slot)) p 24 = Inr nm" "s' = upd_entry slot (\<lambda>e. e\<lparr>fileName := nm\<rparr>) ?s4"
    using assms(1) Some by (auto simp: open_create_def andThen_eq_Inr Let_def simp del: internal_open_fields)
  have "length (fileName (dir ?s4 ! slot)) = 24"
    using dir_wf_nth [OF fs_typedD(1) [OF t4] assms(3)] by (simp add: dirent_wf_def)
  then have "length nm = 24" using strncpy_length [OF nm(1)] by simp
  then show ?thesis using nm(2) t4 typed_upd_entry by (simp add: dirent_wf_def)
qed (use assms in \<open>auto simp: open_create_def andThen_eq_Inr\<close>)

lemma typed_open: "fs_open p flags s = Inr (r, s') \<Longrightarrow> fs_typed s \<Longrightarrow> fs_typed s'"
proof -
  assume o: "fs_open p flags s = Inr (r, s')" and s: "fs_typed s"
  consider "s' = s" | q where "open_scan q flags 0 None s = Inr (Returned (r, s'))"
    | q k where "open_scan q flags 0 None s = Inr (Slot (Some k))" "open_create q flags k s = Inr (r, s')"
    using o by (auto simp: fs_open_def andThen_eq_Inr split: option.splits if_splits) (auto split: scan.splits option.splits if_splits)
  then show "fs_typed s'" by cases (use s typed_open_scan typed_open_create open_scan_slot in blast)+
qed

lemma typed_flush: "fs_typed s \<Longrightarrow> fs_typed (fs_flush s)"
  using dir.enc_length [of "dir s"] bitmap.enc_length [of "bitmap s"]
  by (auto simp: fs_flush_def Let_def fs_typed_def disk_ok_def disk_write_def)

lemma typed_close: "fs_close fd s = Inr (r, s') \<Longrightarrow> fs_typed s \<Longrightarrow> fs_typed s'"
  by (auto simp: fs_close_def fd_opened_def fd_check_def andThen_eq_Inr Let_def fd_typed_def split: if_splits
      intro!: typed_flush typed_buffer_flush typed_inode_flush typed_upd_fd)

lemma typed_lseek: "fs_lseek fd off whence s = Inr (r, s') \<Longrightarrow> fs_typed s \<Longrightarrow> fs_typed s'"
  by (auto simp: fs_lseek_def fd_opened_def fd_check_def andThen_eq_Inr fd_typed_def split: if_splits
      intro!: typed_upd_fd typed_buffer_flush typed_inode_flush)

lemma typed_call: "fs_call c s = Inr s' \<Longrightarrow> fs_typed s \<Longrightarrow> fs_typed s'"
  by (cases c) (auto simp: andThen_eq_Inr fs_read_def fs_write_def fd_opened_def fd_check_def split: if_splits
      dest: typed_open typed_close typed_lseek typed_read_loop typed_write_loop)

lemma typed_calls: "fs_calls cs s = Inr s' \<Longrightarrow> fs_typed s \<Longrightarrow> fs_typed s'"
  by (induction cs arbitrary: s) (auto simp: andThen_eq_Inr dest: typed_call)

lemma typed_mounted: "disk_ok d \<Longrightarrow> fs_typed (fs_init (fs_statics d))"
  using loaded_wf by (simp add: fs_typed_def fd_typed_def fs_statics_def disk_ok_def disk_read_def)

section \<open>Property\<close>

text \<open>
  C6. The file system keeps its types: from \<^verbatim>\<open>fs_init\<close> on, on a disk with any contents, after any sequence of calls
  with any arguments, descriptors, offsets and permissions, the bitmap, the directory, its names, the cached
  sectors and inodes have their sizes, and every descriptor an index inside the directory.
\<close>

theorem fs_stays_typed:
  assumes "disk_ok d" "fs_calls cs (fs_init (fs_statics d)) = Inr s"
  shows "fs_typed s"
  using assms(2) typed_mounted [OF assms(1)] by (rule typed_calls)

lemma open_seek_close:
  assumes "fs_open p flags s = Inr (0, internal_open 0 s1)"
  shows "\<exists>s'. fs_calls [Open p flags, Lseek 0 3 SEEK_CUR, Close 0] s = Inr s' \<and> offset (fd_pool s' 0) = 3"
  using assms by (simp add: fs_lseek_def fs_close_def fd_opened_def fd_check_def my_assert_def Let_def fd_inode_flush_def fd_buffer_flush_def)

text \<open>A disk full of sevens: its first file is opened, the offset moved, the file closed.\<close>

theorem fs_stays_typed_witness:
  "\<exists>s. fs_calls [Open (Some (replicate 24 7 @ [0])) 0, Lseek 0 3 SEEK_CUR, Close 0]
       (fs_init (fs_statics (\<lambda>_. replicate 512 7))) = Inr s \<and> offset (fd_pool s 0) = 3 \<and> fs_typed s"
proof -
  let ?s = "fs_init (fs_statics (\<lambda>_. replicate 512 7))"
  have d: "disk_ok (\<lambda>_. replicate 512 7)" by (simp add: disk_ok_def)
  have wf: "dir_wf (dir ?s)" using loaded_wf(1) [of "replicate 512 7"] by (simp add: fs_statics_def disk_read_def)
  have f: "first_closed 0 ?s = Some 0" by (simp add: first_closed.simps [of 0] fs_statics_def)
  have n: "fileName (dir ?s ! 0) = replicate 24 7"
    using chunks.simps(2) [of 32 15 "replicate 512 (7 :: u8)"]
    by (simp add: fs_statics_def disk_read_def dir_of_bytes_def dirent_of_bytes_def)
  have l: "lookup (replicate 24 7) ?s = Some 0"
    using n unfolding lookup_def upt_rec [of 0 ENTRY_COUNT] by (simp add: matches_def cstr_def)
  have "fs_open (Some (replicate 24 7 @ [0])) 0 ?s = Inr (open_existing 0 0 0 ?s)"
    using fs_open_cases [OF wf, of "replicate 24 7" 0] by (simp add: f l)
  then have "fs_open (Some (replicate 24 7 @ [0])) 0 ?s = Inr (0, internal_open 0 (upd_fd 0 (\<lambda>g. g\<lparr>writable := False\<rparr>) (upd_fd 0 (\<lambda>g. g\<lparr>index := 0\<rparr>) ?s)))"
    by (simp add: open_existing_def)
  from open_seek_close [OF this] obtain s where s:
    "fs_calls [Open (Some (replicate 24 7 @ [0])) 0, Lseek 0 3 SEEK_CUR, Close 0] ?s = Inr s" "offset (fd_pool s 0) = 3" by blast
  then show ?thesis using fs_stays_typed [OF d s(1)] by blast
qed

end
