(* ===== verification/Util.thy ===== *)
theory Util
  imports Fs_Open
begin

text \<open>
  The host tools of \<^verbatim>\<open>util/\<close>: the image file behind \<^verbatim>\<open>ide_read\<close> and \<^verbatim>\<open>ide_write\<close>
  (\<^verbatim>\<open>util/common.c\<close>) as a block device, and the main loops of \<^verbatim>\<open>write_myfs\<close> and
  \<^verbatim>\<open>read_myfs\<close>, which drive \<^verbatim>\<open>kernel/fs.c\<close> in chunks of one sector.
\<close>

section \<open>The image file: util/common.c\<close>

text \<open>
  The image is the list of its bytes. \<^verbatim>\<open>lseek\<close> to \<^verbatim>\<open>secno * SECTSIZE\<close>, which is 32-bit
  arithmetic, then \<^verbatim>\<open>read\<close>: what lies behind the end of the file is not transferred and the
  destination keeps its old bytes there.
\<close>

definition image_pos :: "u32 \<Rightarrow> nat" where
  "image_pos secno = unat (secno * of_nat SECTSIZE)"

definition image_read :: "u32 \<Rightarrow> u8 list \<Rightarrow> nat \<Rightarrow> u8 list \<Rightarrow> int \<times> u8 list" where
  "image_read secno dst nsecs img =
     (let got = take (nsecs * SECTSIZE) (drop (image_pos secno) img)
      in (int (length got), splice_at 0 got dst))"

definition image_write :: "u32 \<Rightarrow> u8 list \<Rightarrow> nat \<Rightarrow> u8 list \<Rightarrow> int \<times> u8 list" where
  "image_write secno src nsecs img =
     (let p = image_pos secno; new = take (nsecs * SECTSIZE) src
      in (int (length new), splice_at p new (img @ replicate (p - length img) 0)))"

definition IMAGE_SECTORS :: nat where "IMAGE_SECTORS = 4099"

definition image_ok :: "u8 list \<Rightarrow> bool" where
  "image_ok img \<longleftrightarrow> length img = IMAGE_SECTORS * SECTSIZE"

definition on_image :: "u32 \<Rightarrow> bool" where
  "on_image n \<longleftrightarrow> unat n < IMAGE_SECTORS"

definition image_sector :: "u32 \<Rightarrow> u8 list \<Rightarrow> sector" where
  "image_sector n img = snd (image_read n (replicate SECTSIZE 0) 1 img)"

definition image_store :: "u32 \<Rightarrow> sector \<Rightarrow> u8 list \<Rightarrow> u8 list" where
  "image_store n s img = snd (image_write n s 1 img)"

lemma image_pos_small: "on_image n \<Longrightarrow> image_pos n = 512 * unat n"
  by (simp add: on_image_def IMAGE_SECTORS_def image_pos_def unat_word_ariths)

lemma image_fits: "\<lbrakk>image_ok img; on_image n\<rbrakk> \<Longrightarrow> 512 * unat n + 512 \<le> length img"
  by (simp add: image_ok_def on_image_def IMAGE_SECTORS_def)

lemma image_sector_eq:
  assumes "image_ok img" "on_image n"
  shows "image_sector n img = take 512 (drop (512 * unat n) img)"
  using assms image_fits [OF assms]
  by (simp add: image_sector_def image_read_def Let_def image_pos_small splice_at_def)

lemma image_store_eq:
  assumes "image_ok img" "on_image n" "length s = 512"
  shows "image_store n s img = splice_at (512 * unat n) s img"
  using assms image_fits [OF assms(1,2)]
  by (simp add: image_store_def image_write_def Let_def image_pos_small)

lemma take_drop_splice_other:
  assumes "a + length b \<le> length xs" "c + k \<le> a \<or> a + length b \<le> c"
  shows "take k (drop c (splice_at a b xs)) = take k (drop c xs)"
proof (rule nth_equalityI)
  show "length (take k (drop c (splice_at a b xs))) = length (take k (drop c xs))"
    using assms(1) by simp
  fix i
  assume "i < length (take k (drop c (splice_at a b xs)))"
  then have "i < k" "c + i < length xs" using assms(1) by (auto simp: less_diff_conv add.commute)
  then show "take k (drop c (splice_at a b xs)) ! i = take k (drop c xs) ! i"
    using assms by (auto simp: splice_at_def nth_append min_absorb2)
qed

interpretation image: block_device image_sector image_store image_ok on_image
proof
  fix n m :: u32 and s :: sector and img
  assume ok: "image_ok img" and n: "on_image n"
  note fit = image_fits [OF ok n]
  show "length (image_sector n img) = SECTSIZE"
    using fit by (simp add: image_sector_eq [OF ok n])
  assume s: "length s = SECTSIZE"
  then show ok': "image_ok (image_store n s img)"
    using ok fit by (simp add: image_store_eq [OF ok n] image_ok_def)
  show "image_sector n (image_store n s img) = s"
    unfolding image_sector_eq [OF ok' n] unfolding image_store_eq [OF ok n s [unfolded SECTSIZE_def]]
    using fit s by (simp add: splice_at_def)
  assume m: "on_image m" and ne: "m \<noteq> n"
  have "unat m \<noteq> unat n" using ne unat_eq_iff by blast
  then have "512 * unat m + 512 \<le> 512 * unat n \<or> 512 * unat n + 512 \<le> 512 * unat m" by linarith
  then show "image_sector m (image_store n s img) = image_sector m img"
    using take_drop_splice_other [of "512 * unat n" s img "512 * unat m" 512] s fit
    unfolding image_sector_eq [OF ok' m] image_sector_eq [OF ok m]
    unfolding image_store_eq [OF ok n s [unfolded SECTSIZE_def]] by simp
qed

text \<open>Over the sectors of the image, the tools' disk is the disk of the file system.\<close>

definition image_disk :: "u8 list \<Rightarrow> disk" where
  "image_disk img = (\<lambda>n. if on_image n then image_sector n img else replicate SECTSIZE 0)"

lemma image_disk_ok: "image_ok img \<Longrightarrow> disk_ok (image_disk img)"
  using image.rd_length by (simp add: disk_ok_def image_disk_def)

lemma image_refines_disk:
  assumes "image_ok img" "on_image n" "length s = SECTSIZE"
  shows "image_disk (image_store n s img) = disk_write n s (image_disk img)"
    "disk_read n (image_disk img) = image_sector n img"
  using assms image.rd_wr_same image.rd_wr_other
  by (auto simp: image_disk_def disk_write_def disk_read_def)

section \<open>write\_myfs and read\_myfs\<close>

text \<open>A process starts with its static data zeroed: no descriptor is open.\<close>

definition closed_fd :: fdesc where
  "closed_fd = \<lparr>index = 0, offset = 0, buffer = replicate SECTSIZE 0, inode = zero_inode,
     buffer_idx = 0, inode_idx = 0, buffer_state = GARBAGE, inode_state = GARBAGE,
     opened = False, writable = False\<rparr>"

definition start_process :: "disk \<Rightarrow> fs_state" where
  "start_process d = \<lparr>bitmap = replicate (BITMAP_SIZE div 32) 0,
     dir = replicate ENTRY_COUNT \<lparr>fileName = replicate FILENAME_LENGTH 0, fileSize = 0, inodeOffset = 0\<rparr>,
     state_bitmap = GARBAGE, state_dir = GARBAGE, fd_pool = (\<lambda>_. closed_fd), disk = d\<rparr>"

text \<open>\<^verbatim>\<open>while ((result = read(STDIN_FILENO, buffer, SECTSIZE)) > 0)\<close>: standard input is the list of
  the bytes still to come; \<^verbatim>\<open>read\<close> delivers up to a sector of them.\<close>

function write_myfs_loop :: "nat \<Rightarrow> u8 list \<Rightarrow> fs_state \<Rightarrow> fs_state result" where
  "write_myfs_loop fd stdin s =
     (if stdin = [] then Inr s
      else let chunk = take SECTSIZE stdin
           in andThen (fs_write fd chunk (int (length chunk)) s) (\<lambda>(r, s1).
              andThen (my_assert ''fs_write failed'' (r \<ge> 0 \<and> r = int (length chunk))) (\<lambda>_.
                write_myfs_loop fd (drop SECTSIZE stdin) s1)))"
  by pat_completeness auto
termination
  by (relation "measure (\<lambda>(fd, stdin, s). length stdin)") auto

declare write_myfs_loop.simps [simp del]

definition write_myfs :: "u8 list \<Rightarrow> u8 list \<Rightarrow> disk \<Rightarrow> disk result" where
  "write_myfs name stdin d =
     (let s = fs_init (start_process d)
      in andThen (fs_open (Some (name @ [0])) (O_RDWR OR O_CREAT) s) (\<lambda>(fd, s1).
         andThen (my_assert ''fs_open failed'' (fd \<ge> 0)) (\<lambda>_.
         andThen (write_myfs_loop (nat fd) stdin s1) (\<lambda>s2.
         andThen (fs_close (nat fd) s2) (\<lambda>(r, s3). Inr (disk s3))))))"

text \<open>
  \<^verbatim>\<open>while ((result = fs_read(fd, buffer, SECTSIZE)) > 0)\<close> with a bound on the number of
  iterations; \<open>None\<close> is a loop that has not ended by then.
\<close>

fun read_myfs_loop :: "nat \<Rightarrow> nat \<Rightarrow> u8 list \<Rightarrow> fs_state \<Rightarrow> (u8 list \<times> fs_state) result option" where
  "read_myfs_loop 0 fd stdout s = None"
| "read_myfs_loop (Suc fuel) fd stdout s =
     (case fs_read fd (int SECTSIZE) s of
        Inl e \<Rightarrow> Some (Inl e)
      | Inr (r, bytes, s1) \<Rightarrow>
          if r > 0 then read_myfs_loop fuel fd (stdout @ bytes) s1
          else Some (andThen (my_assert ''fs_read failed'' (r \<ge> 0)) (\<lambda>_. Inr (stdout, s1))))"

definition read_myfs :: "nat \<Rightarrow> u8 list \<Rightarrow> disk \<Rightarrow> u8 list result option" where
  "read_myfs fuel name d =
     (let s = fs_init (start_process d)
      in case andThen (fs_open (Some (name @ [0])) O_RDONLY s) (\<lambda>(fd, s1).
                andThen (my_assert ''fs_open failed'' (fd \<ge> 0)) (\<lambda>_. Inr (nat fd, s1))) of
           Inl e \<Rightarrow> Some (Inl e)
         | Inr (fd, s1) \<Rightarrow>
             (case read_myfs_loop fuel fd [] s1 of
                None \<Rightarrow> None
              | Some m \<Rightarrow> Some (andThen m (\<lambda>(stdout, s2).
                  andThen (fs_close fd s2) (\<lambda>_. Inr stdout)))))"


section \<open>What the tools do\<close>

lemma write_myfs_loop_ok:
  assumes "file_rep s fd ns bl" "fd < 1024" "opened (fd_pool s fd)" "writable (fd_pool s fd)"
    "may_grow s fd (pos s fd + length stdin)"
  shows "\<exists>s' ns' bl'. write_myfs_loop fd stdin s = Inr s' \<and> file_rep s' fd ns' bl'
    \<and> file_bytes s' fd bl' = splice_at (pos s fd) stdin (file_bytes s fd bl)
    \<and> fs_step fd (set ns' \<union> set bl') s s' \<and> set ns \<union> set bl \<subseteq> set ns' \<union> set bl'
    \<and> (\<forall>n \<in> set ns' \<union> set bl'. n \<in> set ns \<union> set bl \<or> \<not> used (bitmap s) n)
    \<and> free_blocks (bitmap s') + sectors_for (size_of s' fd)
      = free_blocks (bitmap s) + sectors_for (size_of s fd)
    \<and> extends (bitmap s) ns bl ns' bl' \<and> (stdin \<noteq> [] \<longrightarrow> bl' \<noteq> [])"
  using assms
proof (induction "length stdin" arbitrary: stdin s ns bl rule: less_induct)
  case less
  show ?case
  proof (cases "stdin = []")
    case True
    then have "write_myfs_loop fd stdin s = Inr s" by (subst write_myfs_loop.simps) simp
    with True less.prems(1) show ?thesis
      by - (rule exI [of _ s], rule exI [of _ ns], rule exI [of _ bl], simp add: fs_step_refl)
  next
    case False
    let ?c = "take 512 stdin" and ?r = "drop 512 stdin"
    have total: "pos s fd + length ?c + length ?r = pos s fd + length stdin" by simp
    have room: "may_grow s fd (pos s fd + length ?c)"
      using less.prems(5) sectors_for_mono [of "pos s fd + length ?c" "pos s fd + length stdin"]
      by (simp add: may_grow_def)
    obtain s1 ns1 bl1 where w: "fs_write fd ?c (int (length ?c)) s = Inr (int (length ?c), s1)"
      "file_rep s1 fd ns1 bl1"
      "file_bytes s1 fd bl1 = splice_at (pos s fd) (take (length ?c) ?c) (file_bytes s fd bl)"
      "pos s1 fd = pos s fd + length ?c" "size_of s1 fd = max (size_of s fd) (pos s fd + length ?c)"
      "fs_step fd (set ns1 \<union> set bl1) s s1" "set ns \<union> set bl \<subseteq> set ns1 \<union> set bl1"
      "\<forall>n \<in> set ns1 \<union> set bl1. n \<in> set ns \<union> set bl \<or> \<not> used (bitmap s) n"
      "free_blocks (bitmap s1) + sectors_for (size_of s1 fd)
        = free_blocks (bitmap s) + sectors_for (size_of s fd)"
      "extends (bitmap s) ns bl ns1 bl1" "0 < length ?c \<longrightarrow> bl1 \<noteq> []"
      using fs_write_ok [OF less.prems(1-4) order_refl room] by blast
    have "may_grow s1 fd (pos s1 fd + length ?r)"
      using less.prems(5) w(9) unfolding w(4) total may_grow_def by simp
    moreover have "length ?r < length stdin" using False by simp
    ultimately obtain s' ns' bl' where i: "write_myfs_loop fd ?r s1 = Inr s'" "file_rep s' fd ns' bl'"
      "file_bytes s' fd bl' = splice_at (pos s1 fd) ?r (file_bytes s1 fd bl1)"
      "fs_step fd (set ns' \<union> set bl') s1 s'" "set ns1 \<union> set bl1 \<subseteq> set ns' \<union> set bl'"
      "\<forall>n \<in> set ns' \<union> set bl'. n \<in> set ns1 \<union> set bl1 \<or> \<not> used (bitmap s1) n"
      "free_blocks (bitmap s') + sectors_for (size_of s' fd)
        = free_blocks (bitmap s1) + sectors_for (size_of s1 fd)" "extends (bitmap s1) ns1 bl1 ns' bl'"
      using less.hyps [OF _ w(2) less.prems(2)] fs_stepD(1,2) [OF w(6)] less.prems(3,4) by metis
    have "write_myfs_loop fd stdin s = Inr s'"
      using False w(1) i(1) by (subst write_myfs_loop.simps) (simp add: Let_def)
    moreover have "file_bytes s' fd bl' = splice_at (pos s fd) stdin (file_bytes s fd bl)"
      using splice_at_splice_at [of "pos s fd" "file_bytes s fd bl" ?c ?r]
        file_repD(6) [OF less.prems(1)] file_bytes_length [OF less.prems(1)]
      unfolding i(3) w(3,4) take_all [OF order_refl] by simp
    moreover have "fs_step fd (set ns' \<union> set bl') s s'"
      using w(6) i(4) by (rule fs_step_trans) (use i(5) in auto)
    moreover have "\<forall>n \<in> set ns' \<union> set bl'. n \<in> set ns \<union> set bl \<or> \<not> used (bitmap s) n"
      using i(6) w(6,8) unfolding fs_step_def by blast
    moreover have "free_blocks (bitmap s') + sectors_for (size_of s' fd)
        = free_blocks (bitmap s) + sectors_for (size_of s fd)" using i(7) w(9) by simp
    moreover have "bl1 \<noteq> []" using w(11) False by simp
    moreover have "extends (bitmap s) ns bl ns' bl'" using extends_trans [OF w(10) i(8)] \<open>bl1 \<noteq> []\<close> by blast
    moreover have "bl' \<noteq> []" using i(8) \<open>bl1 \<noteq> []\<close> by (auto simp: extends_def)
    ultimately show ?thesis using i(2,5) w(7) by blast
  qed
qed

lemma read_myfs_loop_ok:
  assumes "file_rep s fd ns bl" "fd < 1024" "opened (fd_pool s fd)"
    "size_of s fd - pos s fd \<le> 512 * fuel"
  shows "\<exists>s'. read_myfs_loop (Suc fuel) fd out s =
      Some (Inr (out @ drop (pos s fd) (file_bytes s fd bl), s'))
    \<and> file_rep s' fd ns bl \<and> opened (fd_pool s' fd)"
  using assms
proof (induction fuel arbitrary: s out)
  case (0 s out)
  obtain s' where s': "fs_read fd (int 512) s = Inr (int (min 512 (size_of s fd - pos s fd)),
      take 512 (drop (pos s fd) (file_bytes s fd bl)), s')" "file_rep s' fd ns bl"
    "fs_step fd (set ns \<union> set bl) s s'"
    using fs_read_ok [OF 0(1-3), of 512] by blast
  have "size_of s fd - pos s fd = 0" using 0(4) by simp
  with s' fs_stepD(1) [OF s'(3)] 0 file_bytes_length [OF 0(1)] show ?case by simp
next
  case (Suc fuel s out)
  obtain s1 where s1: "fs_read fd (int 512) s = Inr (int (min 512 (size_of s fd - pos s fd)),
      take 512 (drop (pos s fd) (file_bytes s fd bl)), s1)" "file_rep s1 fd ns bl"
    "file_bytes s1 fd bl = file_bytes s fd bl" "pos s1 fd = min (pos s fd + 512) (size_of s fd)"
    "size_of s1 fd = size_of s fd" "fs_step fd (set ns \<union> set bl) s s1"
    using fs_read_ok [OF Suc.prems(1-3), of 512] by blast
  have op: "opened (fd_pool s1 fd)" using fs_stepD(1) [OF s1(6)] Suc.prems(3) by simp
  show ?case
  proof (cases "size_of s fd - pos s fd = 0")
    case True
    with s1 op file_bytes_length [OF Suc.prems(1)] show ?thesis
      by (subst read_myfs_loop.simps) simp
  next
    case False
    have "size_of s1 fd - pos s1 fd \<le> 512 * fuel" using s1(4,5) Suc.prems(4) by simp
    then obtain s' where s': "read_myfs_loop (Suc fuel) fd (out @ take 512 (drop (pos s fd) (file_bytes s fd bl))) s1
        = Some (Inr ((out @ take 512 (drop (pos s fd) (file_bytes s fd bl)))
            @ drop (pos s1 fd) (file_bytes s fd bl), s'))"
      "file_rep s' fd ns bl" "opened (fd_pool s' fd)"
      using Suc.IH [OF s1(2) Suc.prems(2) op] unfolding s1(3) by metis
    have "drop (pos s1 fd) (file_bytes s fd bl) = drop 512 (drop (pos s fd) (file_bytes s fd bl))"
      using s1(4) file_bytes_length [OF Suc.prems(1)] by (simp add: min_def add.commute)
    then have "take 512 (drop (pos s fd) (file_bytes s fd bl)) @ drop (pos s1 fd) (file_bytes s fd bl)
        = drop (pos s fd) (file_bytes s fd bl)"
      by (simp only: append_take_drop_id)
    with s' s1(1) False show ?thesis
      by (subst read_myfs_loop.simps) simp
  qed
qed


text \<open>The first descriptor of a fresh process is 0, closed and without write permission.\<close>

lemma start_process_fields [simp]:
  "fd_pool (start_process d) j = closed_fd" "disk (start_process d) = d"
  by (simp_all add: start_process_def)

lemma start_process_closed:
  assumes "\<And>j. fd_pool s j = closed_fd"
  shows "first_closed 0 s = Some 0"
  using assms by (subst first_closed.simps) (simp add: closed_fd_def)

definition mounted :: "disk \<Rightarrow> fs_state" where
  "mounted d = fs_init (start_process d)"

lemma mounted_ok:
  assumes "disk_ok d"
  shows "sys_ok (mounted d)" "first_closed 0 (mounted d) = Some 0" "dir_wf (dir (mounted d))"
    "fd_pool (mounted d) j = closed_fd" "disk (mounted d) = d"
proof -
  show sys: "sys_ok (mounted d)" unfolding mounted_def by (rule fs_init_sys_ok) (simp add: assms)
  show "first_closed 0 (mounted d) = Some 0" by (rule start_process_closed) (simp add: mounted_def)
  show "dir_wf (dir (mounted d))" using sys by (simp add: sys_ok_def)
qed (simp_all add: mounted_def)

lemma O_RDWR_O_CREAT [simp]:
  "(66 :: u32) AND 64 \<noteq> 0" "(66 :: u32) AND 2 \<noteq> 0" "(2 :: u32) OR 64 = 66"
  by simp_all

text \<open>A stored file is kept by whatever leaves its directory entry and the used sectors as they are.\<close>

lemma stored_kept:
  assumes st: "stored s k ms cl" and ent: "dir s' ! k = dir s ! k"
    and more: "\<And>n. used (bitmap s) n \<Longrightarrow> used (bitmap s') n"
    and read: "\<And>n. used (bitmap s) n \<Longrightarrow> IDE_READ n s' = IDE_READ n s"
  shows "stored s' k ms cl" and "stored_bytes s' k cl = stored_bytes s k cl"
proof -
  have u: "used (bitmap s) n" if "n \<in> set ms \<union> set cl" for n
    using st that by (auto simp: stored_def chain_ok_def)
  have "chain_ok (bitmap s') (\<lambda>n. inode_of_bytes (IDE_READ n s')) (dir s' ! k) ms cl"
    by (rule chain_cong [where bm = "bitmap s" and I = "\<lambda>n. inode_of_bytes (IDE_READ n s)"
          and e = "dir s ! k"])
      (use st read u ent more in \<open>auto simp: stored_def\<close>)
  then show "stored s' k ms cl" using st by (simp add: stored_def ent)
  show "stored_bytes s' k cl = stored_bytes s k cl"
    using read u by (simp add: stored_bytes_def ent cong: map_cong)
qed

text \<open>Writing a file that does not exist yet: the run of the tool, up to the closed file in its memory.\<close>

lemma write_myfs_run:
  assumes d: "disk_ok d" and name: "0 \<notin> set name" "name \<noteq> []"
    and new: "lookup name (mounted d) = None" and slot: "free_slot (mounted d) = Some i"
      "i = 0 \<longleftrightarrow> name = kernel_name"
    and room: "sectors_for (length data) \<le> free_blocks (bitmap (mounted d))"
  obtains s ns bl where "write_myfs name data d = Inr (disk s)" "sys_ok s" "state_dir s = USEFUL" "state_bitmap s = USEFUL"
    "stored s i ns bl" "stored_bytes s i bl = data"
    "fileName (dir s ! i) = fileName (new_dirent name)" "\<And>k. k \<noteq> i \<Longrightarrow> dir s ! k = dir (mounted d) ! k"
    "free_blocks (bitmap s) + sectors_for (length data) = free_blocks (bitmap (mounted d))"
    "\<And>n. used (bitmap (mounted d)) n \<Longrightarrow> used (bitmap s) n"
    "\<And>n. used (bitmap (mounted d)) n \<Longrightarrow> IDE_READ n s = IDE_READ n (mounted d)"
    "extends (bitmap (mounted d)) [] [] ns bl" "data \<noteq> [] \<longrightarrow> bl \<noteq> []"
proof -
  let ?s = "mounted d"
  note m = mounted_ok [OF d]
  have i: "i < 16" using slot(1) by (auto simp: free_slot_def find_Some_iff)
  have buf: "length (buffer (fd_pool ?s 0)) = 512" using m(4) by (simp add: closed_fd_def)
  obtain s1 where c: "open_create (name @ [0]) (O_RDWR OR O_CREAT) i ?s = Inr (int 0, s1)"
    "file_rep s1 0 [] []" "size_of s1 0 = 0" "pos s1 0 = 0" "opened (fd_pool s1 0)"
    "index (fd_pool s1 0) = i" "writable (fd_pool s1 0)"
    "dir s1 = (dir ?s)[i := new_dirent name]" "bitmap s1 = bitmap ?s" "disk s1 = disk ?s"
    using open_create_ok [OF m(1) name m(2) i slot(2) buf, of "O_RDWR OR O_CREAT"] by auto
  have op: "fs_open (Some (name @ [0])) (O_RDWR OR O_CREAT) ?s = Inr (0, s1)"
    using fs_open_cases [OF m(3) name, of "O_RDWR OR O_CREAT"] new slot(1) c(1) m(2) by simp
  have "may_grow s1 0 (pos s1 0 + length data)"
    using room c(3,4,9) by (simp add: may_grow_def sectors_for_def blocks_for_def inodes_for_def)
  then obtain s2 ns bl where w: "write_myfs_loop 0 data s1 = Inr s2" "file_rep s2 0 ns bl"
    "file_bytes s2 0 bl = splice_at (pos s1 0) data (file_bytes s1 0 [])"
    "fs_step 0 (set ns \<union> set bl) s1 s2"
    "\<forall>n \<in> set ns \<union> set bl. n \<in> set [] \<union> set [] \<or> \<not> used (bitmap s1) n"
    "free_blocks (bitmap s2) + sectors_for (size_of s2 0)
      = free_blocks (bitmap s1) + sectors_for (size_of s1 0)"
    "extends (bitmap s1) [] [] ns bl" "data \<noteq> [] \<longrightarrow> bl \<noteq> []"
    using write_myfs_loop_ok [OF c(2) _ c(5,7), of data] by auto
  note st2 = fs_stepD [OF w(4)]
  have op2: "opened (fd_pool s2 0)" using st2(1) c(5) by simp
  obtain s3 where cl: "fs_close 0 s2 = Inr (0, s3)" "sys_ok s3" "state_dir s3 = USEFUL"
    "state_bitmap s3 = USEFUL" "stored s3 (index (fd_pool s2 0)) ns bl"
    "stored_bytes s3 (index (fd_pool s2 0)) bl = file_bytes s2 0 bl"
    "dir s3 = dir s2" "bitmap s3 = bitmap s2"
    "\<forall>n. n \<notin> set ns \<union> set bl \<longrightarrow> unat n < 4096 \<longrightarrow> IDE_READ n s3 = IDE_READ n s2"
    using fs_close_ok [OF w(2) _ op2] by auto
  have idx: "index (fd_pool s2 0) = i" using st2(3) c(6) by simp
  have bytes: "file_bytes s2 0 bl = data"
    using w(3) c(4) by (simp add: file_bytes_def [of s1] blocks_of_def [of s1] splice_at_def)
  show thesis
  proof (rule that [of s3 ns bl])
    show "write_myfs name data d = Inr (disk s3)"
      using op w(1) cl(1) by (simp add: write_myfs_def mounted_def [symmetric])
    show "fileName (dir s3 ! i) = fileName (new_dirent name)"
      using st2(3,4) c(6,8) i dir_wf_length [OF m(3)] cl(7) by (simp add: fd_entry_def)
    show "dir s3 ! k = dir ?s ! k" if "k \<noteq> i" for k
      using st2(6) [of k] that c(6,8) cl(7) by simp
    have "size_of s2 0 = length data" using bytes file_bytes_length [OF w(2)] by simp
    then show "free_blocks (bitmap s3) + sectors_for (length data) = free_blocks (bitmap ?s)"
      using w(6) c(3,9) cl(8) by (simp add: sectors_for_def blocks_for_def inodes_for_def)
    show "used (bitmap s3) n" if "used (bitmap ?s) n" for n
      using that w(4) c(9) cl(8) by (auto simp: fs_step_def)
    show "IDE_READ n s3 = IDE_READ n ?s" if u: "used (bitmap ?s) n" for n
    proof -
      have "n \<notin> set ns \<union> set bl" using w(5) u c(9) by auto
      moreover have "unat n < 4096" using u by (rule used_bound)
      ultimately have "IDE_READ n s3 = IDE_READ n s1" using cl(9) w(4) by (simp add: fs_step_def)
      then show ?thesis using c(10) by (simp add: IDE_READ_def)
    qed
  qed (use cl idx bytes w(7,8) c(9) in simp_all)
qed

text \<open>And what the next mount finds.\<close>

lemma write_myfs_new:
  assumes d: "disk_ok d" and name: "0 \<notin> set name" "name \<noteq> []"
    and new: "lookup name (mounted d) = None" and slot: "free_slot (mounted d) = Some i"
      "i = 0 \<longleftrightarrow> name = kernel_name"
    and room: "sectors_for (length data) \<le> free_blocks (bitmap (mounted d))"
  shows "\<exists>d' ns bl. write_myfs name data d = Inr d' \<and> disk_ok d'
    \<and> lookup name (mounted d') = Some i \<and> stored (mounted d') i ns bl
    \<and> stored_bytes (mounted d') i bl = data
    \<and> fileName (dir (mounted d') ! i) = fileName (new_dirent name)
    \<and> (\<forall>m. m \<noteq> i \<longrightarrow> dir (mounted d') ! m = dir (mounted d) ! m)
    \<and> free_blocks (bitmap (mounted d')) + sectors_for (length data) = free_blocks (bitmap (mounted d))
    \<and> (\<forall>m ms cl. m \<noteq> i \<longrightarrow> stored (mounted d) m ms cl \<longrightarrow> stored (mounted d') m ms cl
         \<and> stored_bytes (mounted d') m cl = stored_bytes (mounted d) m cl)
    \<and> extends (bitmap (mounted d)) [] [] ns bl \<and> (data \<noteq> [] \<longrightarrow> bl \<noteq> [])"
proof -
  let ?s = "mounted d"
  have i: "i < 16" using slot(1) by (auto simp: free_slot_def find_Some_iff)
  obtain s ns bl where r: "write_myfs name data d = Inr (disk s)" "sys_ok s" "state_dir s = USEFUL" "state_bitmap s = USEFUL"
    "stored s i ns bl" "stored_bytes s i bl = data"
    "fileName (dir s ! i) = fileName (new_dirent name)" "\<And>k. k \<noteq> i \<Longrightarrow> dir s ! k = dir ?s ! k"
    "free_blocks (bitmap s) + sectors_for (length data) = free_blocks (bitmap ?s)"
    "\<And>n. used (bitmap ?s) n \<Longrightarrow> used (bitmap s) n" "\<And>n. used (bitmap ?s) n \<Longrightarrow> IDE_READ n s = IDE_READ n ?s"
    "extends (bitmap ?s) [] [] ns bl" "data \<noteq> [] \<longrightarrow> bl \<noteq> []"
    by (rule write_myfs_run [OF assms]) (rule that)
  have "disk (start_process (disk s)) = disk s" by simp
  note re = remount_stored [OF r(2-4) this, folded mounted_def]
  have same: "dir (mounted (disk s)) = dir s" "bitmap (mounted (disk s)) = bitmap s"
    using r(2-4) by (simp_all add: mounted_def sys_ok_def)
  have "matches name (dir s ! i)"
    using r(7) new_dirent_matches [OF name(1)] by (simp add: matches_def)
  moreover have "\<not> matches name (dir s ! k)" if "k < i" for k
    using new that i r(8) [of k] by (auto simp: lookup_def find_None_iff)
  ultimately have look: "lookup name (mounted (disk s)) = Some i"
    unfolding lookup_def same find_Some_iff using i by (auto intro!: exI [of _ i])
  have keep: "stored (mounted (disk s)) k ms cl \<and> stored_bytes (mounted (disk s)) k cl = stored_bytes ?s k cl"
    if k: "k \<noteq> i" and s0: "stored ?s k ms cl" for k ms cl
    using stored_kept [OF s0 r(8) [OF k] r(10,11)] re same by simp
  have "disk_ok (disk s)" using r(2) by (simp add: sys_ok_def)
  with r look keep re show ?thesis
    by (intro exI [of _ "disk s"] exI [of _ ns] exI [of _ bl]) (simp add: same)
qed

lemma read_myfs_stored:
  assumes d: "disk_ok d" and name: "0 \<notin> set name" "name \<noteq> []"
    and found: "lookup name (mounted d) = Some m" and st: "stored (mounted d) m ns bl"
  shows "read_myfs 4097 name d = Some (Inr (stored_bytes (mounted d) m bl))"
proof -
  let ?s = "mounted d"
  note mo = mounted_ok [OF d]
  have buf: "length (buffer (fd_pool ?s 0)) = 512" using mo(4) by (simp add: closed_fd_def)
  obtain s1 where o: "open_existing m 0 O_RDONLY ?s = (int 0, s1)" "file_rep s1 0 ns bl"
    "file_bytes s1 0 bl = stored_bytes ?s m bl" "pos s1 0 = 0" "opened (fd_pool s1 0)"
    using open_existing_ok [OF st mo(1) buf, of O_RDONLY] by auto
  have op: "fs_open (Some (name @ [0])) O_RDONLY ?s = Inr (0, s1)"
    using fs_open_cases [OF mo(3) name, of O_RDONLY] found o(1) mo(2) by simp
  have "size_of s1 0 - pos s1 0 \<le> 512 * 4096"
    using file_rep_size [OF o(2)] by simp
  then obtain s2 where l: "read_myfs_loop (Suc 4096) 0 [] s1
      = Some (Inr ([] @ drop (pos s1 0) (file_bytes s1 0 bl), s2))"
    "file_rep s2 0 ns bl" "opened (fd_pool s2 0)"
    using read_myfs_loop_ok [OF o(2) _ o(5)] by (metis zero_less_numeral)
  obtain s3 where "fs_close 0 s2 = Inr (0, s3)"
    using fs_close_ok [OF l(2) _ l(3)] by auto
  moreover have "read_myfs_loop 4097 0 [] s1 = Some (Inr (stored_bytes ?s m bl, s2))"
    using l(1) o(3,4) by (simp del: read_myfs_loop.simps add: eval_nat_numeral(3) [of "Num.inc n" for n])
  ultimately show ?thesis
    using op by (simp add: read_myfs_def mounted_def [symmetric] Let_def del: read_myfs_loop.simps)
qed


text \<open>
  A file that exists cannot be written again: the image tool opens the kernel's entry
  without permission, and every other entry with a descriptor that is not writable.
\<close>

lemma write_myfs_existing:
  assumes d: "disk_ok d" and name: "0 \<notin> set name" "name \<noteq> []"
    and found: "lookup name (mounted d) = Some m" and data: "data \<noteq> []"
  shows "write_myfs name data d =
    Inl (Assert_failed (if m = 0 then ''fs_open failed'' else ''writable''))"
proof -
  let ?s = "mounted d"
  note mo = mounted_ok [OF d]
  let ?s1 = "snd (open_existing m 0 (O_RDWR OR O_CREAT) ?s)"
  have op: "fs_open (Some (name @ [0])) (O_RDWR OR O_CREAT) ?s
      = Inr (if m = 0 then E_ACCESS else 0, ?s1)"
    using fs_open_cases [OF mo(3) name, of "O_RDWR OR O_CREAT"] found mo(2)
    by (simp add: open_existing_def Let_def)
  have "m \<noteq> 0 \<Longrightarrow> opened (fd_pool ?s1 0) \<and> \<not> writable (fd_pool ?s1 0)"
    using mo(4) by (simp add: open_existing_def Let_def closed_fd_def)
  then have "m \<noteq> 0 \<Longrightarrow> write_myfs_loop 0 data ?s1 = Inl (Assert_failed ''writable'')"
    using data by (subst write_myfs_loop.simps)
      (simp add: Let_def fs_write_def fd_opened_def fd_check_def)
  with op show ?thesis by (simp add: write_myfs_def mounted_def [symmetric])
qed

text \<open>The image \<^verbatim>\<open>util/formatter\<close> makes: zeros.\<close>

definition blank_disk :: disk where
  "blank_disk = (\<lambda>n. replicate SECTSIZE 0)"

lemma blank_chunks: "chunks w n (replicate m (0 :: u8)) = map (\<lambda>i. replicate (min w (m - w * i)) 0) [0..<n]"
proof (induction n arbitrary: m)
  case 0
  then show ?case by simp
next
  case (Suc n)
  have "[0..<Suc n] = 0 # map Suc [0..<n]" by (simp add: upt_conv_Cons map_Suc_upt del: upt_Suc)
  then show ?case by (simp add: Suc min_def o_def diff_diff_eq del: upt_Suc)
qed

lemma u32_of_zeros: "u32_of_bytes (replicate 4 0) = 0"
  by (simp add: u32_of_bytes_def eval_nat_numeral)

text \<open>All that matters of a fresh image: the sectors of the bitmap and of the directory are zeros.\<close>

definition formatted :: "disk \<Rightarrow> bool" where
  "formatted d \<longleftrightarrow> disk_ok d \<and> disk_read 1 d = replicate SECTSIZE 0 \<and> disk_read 2 d = replicate SECTSIZE 0"

lemma blank_formatted: "formatted blank_disk"
  by (simp add: formatted_def disk_ok_def blank_disk_def disk_read_def)

lemma formatted_mounted:
  assumes "formatted d"
  shows "disk_ok d" "bitmap (mounted d) = replicate 128 0"
  "dir (mounted d) = replicate 16 \<lparr>fileName = replicate 24 0, fileSize = 0, inodeOffset = 0\<rparr>"
proof -
  show "disk_ok d" using assms by (simp add: formatted_def)
  have "chunks 4 128 (replicate 512 (0 :: u8)) = replicate 128 (replicate 4 0)"
    unfolding blank_chunks by (rule nth_equalityI) (simp_all add: min_def)
  then show "bitmap (mounted d) = replicate 128 0"
    using assms by (simp add: mounted_def bitmap_of_bytes_def formatted_def u32_of_zeros)
  have "chunks 32 16 (replicate 512 (0 :: u8)) = replicate 16 (replicate 32 0)"
    unfolding blank_chunks by (rule nth_equalityI) (simp_all add: min_def)
  then show "dir (mounted d) = replicate 16 \<lparr>fileName = replicate 24 0, fileSize = 0, inodeOffset = 0\<rparr>"
    using assms by (simp add: mounted_def dir_of_bytes_def formatted_def dirent_of_bytes_def u32_of_zeros)
qed

lemma formatted_free: "formatted d \<Longrightarrow> free_blocks (bitmap (mounted d)) = 4096"
  by (simp add: formatted_mounted free_blocks_def used_def)

lemma formatted_lookup:
  assumes d: "formatted d" and "0 \<notin> set p" "p \<noteq> []"
  shows "lookup p (mounted d) = None" "free_slot (mounted d) = Some 0"
proof -
  have "cstr 24 (p @ [0]) \<noteq> []" using assms by (cases p) (auto simp: cstr_def)
  then have "\<not> matches p (dir (mounted d) ! i)" if "i < 16" for i
    using that by (simp add: formatted_mounted [OF d] matches_def cstr_def)
  then show "lookup p (mounted d) = None" by (auto simp: lookup_def find_None_iff)
  show "free_slot (mounted d) = Some 0"
    by (simp add: free_slot_def formatted_mounted [OF d] upt_conv_Cons)
qed

lemmas blank_mounted = formatted_mounted [OF blank_formatted]
  and blank_free = formatted_free [OF blank_formatted]
  and blank_lookup = formatted_lookup [OF blank_formatted]

definition user_name :: "u8 list" where
  "user_name = butlast (c_string ''user.bin'')"

lemma user_name: "0 \<notin> set user_name" "user_name \<noteq> []" "user_name \<noteq> kernel_name"
  by (simp_all add: user_name_def kernel_name_def c_string_def)

text \<open>The image with the kernel in entry 0: the next file goes to entry 1.\<close>

lemma formatted_lowest:
  assumes "formatted d"
  shows "lowest (bitmap (mounted d)) m \<longleftrightarrow> m = 0" "lowest (mark 0 (bitmap (mounted d))) m \<longleftrightarrow> m = 1"
proof -
  note blank = formatted_mounted [OF assms]
  have z: "\<not> used (bitmap (mounted d)) n" for n by (simp add: blank used_def)
  have u: "used (mark 0 (bitmap (mounted d))) n \<longleftrightarrow> n = 0" for n
    using z [of n] by (simp add: used_mark bitmap_wf_def blank)
  have "lowest (bitmap (mounted d)) 0" using z by (simp add: lowest_def)
  then show "lowest (bitmap (mounted d)) m \<longleftrightarrow> m = 0" using lowest_unique by blast
  have "lowest (mark 0 (bitmap (mounted d))) 1"
    by (auto simp: lowest_def u unat_eq_0)
  then show "lowest (mark 0 (bitmap (mounted d))) m \<longleftrightarrow> m = 1" using lowest_unique by blast
qed

lemma kernel_on_formatted:
  assumes d: "formatted d" and "sectors_for (length data) \<le> 4096"
  obtains d1 ns bl where "write_myfs kernel_name data d = Inr d1" "disk_ok d1"
    "lookup kernel_name (mounted d1) = Some 0" "stored (mounted d1) 0 ns bl"
    "stored_bytes (mounted d1) 0 bl = data" "lookup user_name (mounted d1) = None"
    "free_slot (mounted d1) = Some 1" "free_blocks (bitmap (mounted d1)) + sectors_for (length data) = 4096"
    "data \<noteq> [] \<Longrightarrow> hd ns = 0 \<and> bl ! 0 = 1"
proof -
  let ?e = "\<lparr>fileName = replicate 24 0, fileSize = 0, inodeOffset = 0\<rparr> :: dirent"
  have "sectors_for (length data) \<le> free_blocks (bitmap (mounted d))" using assms(2) by (simp add: formatted_free [OF d])
  then obtain d1 ns bl where w: "write_myfs kernel_name data d = Inr d1" "disk_ok d1"
    "lookup kernel_name (mounted d1) = Some 0" "stored (mounted d1) 0 ns bl" "stored_bytes (mounted d1) 0 bl = data"
    "fileName (dir (mounted d1) ! 0) = fileName (new_dirent kernel_name)"
    "\<forall>m. m \<noteq> 0 \<longrightarrow> dir (mounted d1) ! m = dir (mounted d) ! m"
    "free_blocks (bitmap (mounted d1)) + sectors_for (length data) = free_blocks (bitmap (mounted d))"
    "extends (bitmap (mounted d)) [] [] ns bl" "data \<noteq> [] \<longrightarrow> bl \<noteq> []"
    using write_myfs_new [OF formatted_mounted(1) [OF d] kernel_name(2,4) formatted_lookup [OF d kernel_name(2,4)], of data] by auto
  have rest: "dir (mounted d1) ! m = ?e" if "m \<noteq> 0" "m < 16" for m
    using w(7) that by (simp add: formatted_mounted [OF d])
  have "\<not> matches user_name (dir (mounted d1) ! m)" if "m < 16" for m
    using rest [of m] that w(6)
    by (cases "m = 0") (simp_all add: matches_def new_dirent_def cstr_def user_name_def kernel_name_def c_string_def)
  then have "lookup user_name (mounted d1) = None" by (auto simp: lookup_def find_None_iff)
  moreover have "hd (fileName (dir (mounted d1) ! 0)) \<noteq> 0"
    using w(6) new_dirent_not_free [OF kernel_name(2,4)] by simp
  then have "free_slot (mounted d1) = Some 1"
    using rest [of 1] by (auto simp: free_slot_def find_Some_iff less_Suc_eq intro!: exI [of _ 1])
  moreover have "free_blocks (bitmap (mounted d1)) + sectors_for (length data) = 4096" using w(8) by (simp add: formatted_free [OF d])
  moreover have "data \<noteq> [] \<Longrightarrow> hd ns = 0 \<and> bl ! 0 = 1" using w(9,10) by (auto simp: extends_def formatted_lowest [OF d])
  ultimately show thesis using that w(1-5) by blast
qed

section \<open>Properties\<close>

text \<open>C9. The image tools round trip, the check \<^verbatim>\<open>make fs-test\<close> makes: on any well-formed
  disk with a free entry and enough free sectors, \<^verbatim>\<open>write_myfs\<close> succeeds for a new name, and
  \<^verbatim>\<open>read_myfs\<close>, a new process that mounts the resulting disk, prints exactly the bytes that
  were written. Entry 0 is for \<^verbatim>\<open>kernel.bin\<close> and only for it.\<close>

theorem myfs_round_trip:
  assumes "disk_ok d" "0 \<notin> set name" "name \<noteq> []"
    and "lookup name (mounted d) = None" "free_slot (mounted d) = Some i" "i = 0 \<longleftrightarrow> name = kernel_name"
    and "sectors_for (length data) \<le> free_blocks (bitmap (mounted d))"
  shows "\<exists>d'. write_myfs name data d = Inr d' \<and> disk_ok d' \<and> lookup name (mounted d') = Some i
    \<and> read_myfs 4097 name d' = Some (Inr data)"
proof -
  obtain d' ns bl where "write_myfs name data d = Inr d'" "disk_ok d'" "lookup name (mounted d') = Some i"
      "stored (mounted d') i ns bl" "stored_bytes (mounted d') i bl = data"
    using write_myfs_new [OF assms] by blast
  then show ?thesis using read_myfs_stored [of d' name i ns bl] assms(2,3) by auto
qed

theorem myfs_round_trip_witness:
  "\<exists>d'. write_myfs kernel_name [1, 2, 3] blank_disk = Inr d'
    \<and> read_myfs 4097 kernel_name d' = Some (Inr [1, 2, 3])"
  using myfs_round_trip [OF blank_mounted(1) kernel_name(2,4) blank_lookup [OF kernel_name(2,4)], of "[1, 2, 3]"]
  by (auto simp: blank_free sectors_for_def blocks_for_def inodes_for_def)

text \<open>C10. Writing a new file with the image tool keeps every other one: a file that was
  stored before under another name is read back unchanged afterwards, the number of free
  sectors drops by exactly the data and inode sectors of the new file, and the disk stays
  well formed: every sector keeps its 512 bytes.\<close>

theorem write_myfs_keeps_files:
  assumes "disk_ok d" "0 \<notin> set name" "name \<noteq> []"
    and "lookup name (mounted d) = None" "free_slot (mounted d) = Some i" "i = 0 \<longleftrightarrow> name = kernel_name"
    and "sectors_for (length data) \<le> free_blocks (bitmap (mounted d))"
    and "0 \<notin> set other" "other \<noteq> []" "lookup other (mounted d) = Some k" "stored (mounted d) k ms cl"
  shows "\<exists>d'. write_myfs name data d = Inr d' \<and> disk_ok d'
    \<and> read_myfs 4097 other d' = Some (Inr (stored_bytes (mounted d) k cl))
    \<and> free_blocks (bitmap (mounted d')) + sectors_for (length data) = free_blocks (bitmap (mounted d))"
proof -
  obtain d' ns bl where w: "write_myfs name data d = Inr d'" "disk_ok d'"
    "fileName (dir (mounted d') ! i) = fileName (new_dirent name)"
    "\<forall>m. m \<noteq> i \<longrightarrow> dir (mounted d') ! m = dir (mounted d) ! m"
    "free_blocks (bitmap (mounted d')) + sectors_for (length data) = free_blocks (bitmap (mounted d))"
    "\<forall>m ms cl. m \<noteq> i \<longrightarrow> stored (mounted d) m ms cl \<longrightarrow> stored (mounted d') m ms cl
       \<and> stored_bytes (mounted d') m cl = stored_bytes (mounted d) m cl"
    using write_myfs_new [OF assms(1-7)] by blast
  have k: "k < 16" "matches other (dir (mounted d) ! k)" "\<And>m. m < k \<Longrightarrow> \<not> matches other (dir (mounted d) ! m)"
    using assms(10) by (auto simp: lookup_def find_Some_iff)
  have miss: "\<not> matches name (dir (mounted d) ! k)"
    using assms(4) k(1) by (auto simp: lookup_def find_None_iff)
  have "hd (fileName (dir (mounted d) ! i)) = 0" "i < 16"
    using assms(5) by (auto simp: free_slot_def find_Some_iff)
  moreover have "length (fileName (dir (mounted d) ! i)) = 24"
    using dir_wf_nth [OF mounted_ok(3) [OF assms(1)] \<open>i < 16\<close>] by (simp add: dirent_wf_def)
  ultimately have "cstr 24 (fileName (dir (mounted d) ! i)) = []"
    by (cases "fileName (dir (mounted d) ! i)") (auto simp: cstr_def)
  then have ki: "k \<noteq> i" using k(2) assms(8,9) by (cases other) (auto simp: matches_def cstr_def)
  have "\<not> matches other (dir (mounted d') ! i)"
    using miss k(2) w(3) new_dirent_matches [OF assms(2)] by (simp add: matches_def)
  then have "\<not> matches other (dir (mounted d') ! m)" if "m < k" for m
    using that k(3) w(4) by (cases "m = i") simp_all
  moreover have "matches other (dir (mounted d') ! k)" using k(2) ki w(4) by simp
  ultimately have "lookup other (mounted d') = Some k"
    unfolding lookup_def find_Some_iff using k(1) by (auto intro!: exI [of _ k])
  moreover have "stored (mounted d') k ms cl" "stored_bytes (mounted d') k cl = stored_bytes (mounted d) k cl"
    using w(6) ki assms(11) by blast+
  ultimately show ?thesis
    using read_myfs_stored [OF w(2) assms(8,9)] w(1,2,5) by metis
qed

theorem write_myfs_keeps_files_witness:
  "\<exists>d1 d2. write_myfs kernel_name [1, 2, 3] blank_disk = Inr d1 \<and> write_myfs user_name [4, 5] d1 = Inr d2
    \<and> read_myfs 4097 kernel_name d2 = Some (Inr [1, 2, 3])"
proof -
  obtain d1 ns bl where d1: "write_myfs kernel_name [1, 2, 3] blank_disk = Inr d1" "disk_ok d1"
    "lookup kernel_name (mounted d1) = Some 0" "stored (mounted d1) 0 ns bl" "stored_bytes (mounted d1) 0 bl = [1, 2, 3]"
    "lookup user_name (mounted d1) = None" "free_slot (mounted d1) = Some 1"
    "free_blocks (bitmap (mounted d1)) + sectors_for (length [1, 2, 3 :: u8]) = 4096"
    by (rule kernel_on_formatted [OF blank_formatted, of "[1, 2, 3]"]) (simp_all add: sectors_for_def blocks_for_def inodes_for_def)
  then have "sectors_for (length [4, 5 :: u8]) \<le> free_blocks (bitmap (mounted d1))"
    by (simp add: sectors_for_def blocks_for_def inodes_for_def)
  with d1 obtain d2 where "write_myfs user_name [4, 5] d1 = Inr d2"
      "read_myfs 4097 kernel_name d2 = Some (Inr (stored_bytes (mounted d1) 0 bl))"
    using write_myfs_keeps_files [OF d1(2) user_name(1,2) _ _ _ _ kernel_name(2,4) d1(3,4), of 1 "[4, 5]"]
      user_name(3) by auto
  with d1(1,5) show ?thesis by auto
qed

text \<open>A file that exists cannot be written with the image tool: for \<^verbatim>\<open>kernel.bin\<close> in
  entry 0 the open is refused, and for every other entry the descriptor is not writable and
  the assertion of \<^verbatim>\<open>fs_write\<close> fails, because \<^verbatim>\<open>fs_open\<close> ignores the requested mode there.\<close>

lemma write_myfs_rejects_existing:
  assumes "disk_ok d" "0 \<notin> set name" "name \<noteq> []" "lookup name (mounted d) = Some m" "data \<noteq> []"
  shows "write_myfs name data d = Inl (Assert_failed (if m = 0 then ''fs_open failed'' else ''writable''))"
  by (rule write_myfs_existing [OF assms])

lemma write_myfs_rejects_existing_witness:
  "\<exists>d1. write_myfs kernel_name [1, 2, 3] blank_disk = Inr d1
    \<and> write_myfs kernel_name [7] d1 = Inl (Assert_failed ''fs_open failed'')"
proof -
  obtain d1 where "write_myfs kernel_name [1, 2, 3] blank_disk = Inr d1" "disk_ok d1"
    "lookup kernel_name (mounted d1) = Some 0"
    using write_myfs_new [OF blank_mounted(1) kernel_name(2,4) blank_lookup [OF kernel_name(2,4)], of "[1, 2, 3]"]
    by (auto simp: blank_free sectors_for_def blocks_for_def inodes_for_def)
  then show ?thesis using write_myfs_rejects_existing [of d1 kernel_name 0 "[7]"] kernel_name by auto
qed

text \<open>The image behind the host tools refines the disk of the file system: over the 4099
  sectors the formatter makes, \<^verbatim>\<open>ide_write\<close> on the image and then viewing it as a disk is
  viewing it first and replacing the sector, and both calls report a full sector.\<close>

lemma image_write_refines:
  assumes "image_ok img" "on_image n" "length s = SECTSIZE" "length dst = SECTSIZE"
  shows "fst (image_write n s 1 img) = int SECTSIZE
    \<and> image_ok (snd (image_write n s 1 img))
    \<and> image_disk (snd (image_write n s 1 img)) = disk_write n s (image_disk img)
    \<and> image_read n dst 1 img = (int SECTSIZE, disk_read n (image_disk img))"
proof -
  note ok = image.ok_wr [OF assms(1-3)] and r = image_refines_disk [OF assms(1-3)]
  have "fst (image_write n s 1 img) = int SECTSIZE" using assms(3) by (simp add: image_write_def Let_def)
  moreover have "image_read n dst 1 img = (int SECTSIZE, image_sector n img)"
    using image_fits [OF assms(1,2)] assms(4)
    by (simp add: image_sector_def image_read_def Let_def image_pos_small [OF assms(2)] splice_at_def)
  ultimately show ?thesis using ok r by (simp add: image_store_def)
qed

lemma image_write_refines_witness:
  "image_disk (snd (image_write 3 (replicate 512 9) 1 (replicate (4099 * 512) 0))) 3 = replicate 512 9"
proof -
  have "image_ok (replicate (4099 * 512) 0)" by (simp add: image_ok_def IMAGE_SECTORS_def)
  moreover have "on_image 3" by (simp add: on_image_def IMAGE_SECTORS_def)
  ultimately show ?thesis
    using image_write_refines [of "replicate (4099 * 512) 0" 3 "replicate 512 9" "replicate 512 0"]
    by (simp add: disk_write_def)
qed

end
