(* ===== verification/Fs_Meta.thy ===== *)
theory Fs_Meta
  imports Fs_Types Util
begin

text \<open>
  The flags of the directory and the bitmap, \<^verbatim>\<open>state_dir\<close> and \<^verbatim>\<open>state_bitmap\<close> of \<^verbatim>\<open>kernel/fs.c\<close>: they only
  rise between two calls of \<^verbatim>\<open>fs_close\<close>, they are raised by whatever changes the directory or the bitmap,
  and \<^verbatim>\<open>fs_close\<close> brings to the disk what they are raised for. So no change of the metadata is forgotten,
  whatever the disk holds and whatever the calls and their arguments are.
\<close>

section \<open>The order of the states\<close>

text \<open>The states are numbers in the code: \<^verbatim>\<open>GARBAGE\<close>, \<^verbatim>\<open>USEFUL\<close> and \<^verbatim>\<open>NEED_WASHING\<close> in this order.\<close>

fun cache_code :: "cache_state \<Rightarrow> int" where
  "cache_code GARBAGE = 0"
| "cache_code USEFUL = 1"
| "cache_code NEED_WASHING = 2"

lemma cache_code_inject: "cache_code a = cache_code b \<Longrightarrow> a = b"
  by (cases a; cases b) simp_all

instantiation cache_state :: linorder
begin

definition less_eq_cache_state :: "cache_state \<Rightarrow> cache_state \<Rightarrow> bool" where
  "a \<le> b \<longleftrightarrow> cache_code a \<le> cache_code b"

definition less_cache_state :: "cache_state \<Rightarrow> cache_state \<Rightarrow> bool" where
  "a < b \<longleftrightarrow> cache_code a < cache_code b"

instance
  by standard (auto simp: less_eq_cache_state_def less_cache_state_def intro: cache_code_inject)

end

lemma dirty_max [simp]: "a \<le> NEED_WASHING" "NEED_WASHING \<le> a \<longleftrightarrow> a = NEED_WASHING"
  by (cases a; simp add: less_eq_cache_state_def)+

section \<open>Changes that are noted\<close>

definition noted :: "fs_state \<Rightarrow> fs_state \<Rightarrow> bool" where
  "noted s s' \<longleftrightarrow> state_dir s \<le> state_dir s' \<and> state_bitmap s \<le> state_bitmap s'
     \<and> (dir s' \<noteq> dir s \<longrightarrow> state_dir s' = NEED_WASHING)
     \<and> (bitmap s' \<noteq> bitmap s \<longrightarrow> state_bitmap s' = NEED_WASHING)"

lemma noted_refl [simp]: "noted s s" by (simp add: noted_def)

lemma noted_trans: "noted s t \<Longrightarrow> noted t u \<Longrightarrow> noted s u"
  by (auto simp: noted_def intro: order_trans)

text \<open>A descriptor or a sector of the data is no metadata; the directory is changed with its mark.\<close>

lemma noted_aside [simp]:
  "noted s (upd_fd fd f t) = noted s t" "noted s (IDE_WRITE n b t) = noted s t"
  "noted (upd_fd fd f t) s = noted t s" "noted (IDE_WRITE n b t) s = noted t s"
  by (simp_all add: noted_def upd_fd_def IDE_WRITE_def)

lemma noted_dir:
  assumes "noted s t" "bitmap u = bitmap t" "state_bitmap u = state_bitmap t" "state_dir u = NEED_WASHING"
  shows "noted s u"
  using assms by (simp add: noted_def)

lemma noted_flushes [simp]:
  "noted s (fd_inode_flush fd t) = noted s t" "noted s (fd_buffer_flush fd t) = noted s t"
  by (simp_all add: fd_inode_flush_def fd_buffer_flush_def Let_def)

lemma noted_find_empty_from: "find_empty_from i s = Inr (n, s') \<Longrightarrow> noted s s'"
proof (induction i s rule: find_empty_from.induct)
  case (1 i s)
  then show ?case
    by (auto simp: find_empty_from.simps [of i s] andThen_eq_Inr Let_def noted_def split: if_splits option.splits)
qed

lemma noted_find_empty: "find_empty_inode s = Inr (n, s') \<Longrightarrow> noted s s'"
  using noted_find_empty_from [of 0 s n s'] by (auto simp: find_empty_inode_def andThen_eq_Inr)

lemma noted_set_inode: "fd_set_inode fd s = Inr s' \<Longrightarrow> noted s s'"
  by (auto simp: fd_set_inode_def andThen_eq_Inr Let_def dest!: noted_find_empty elim!: noted_dir)

lemma noted_alloc_next_inode: "fd_alloc_next_inode fd s = Inr s' \<Longrightarrow> noted s s'"
  by (auto simp: fd_alloc_next_inode_def andThen_eq_Inr Let_def dest!: noted_find_empty)

lemma noted_enter_inode: "fd_enter_inode fd s = Inr s' \<Longrightarrow> noted s s'"
proof -
  let ?s = "upd_fd fd (\<lambda>f. f\<lparr>inode_state := GARBAGE\<rparr>) (fd_inode_flush fd s)"
  assume e: "fd_enter_inode fd s = Inr s'"
  have "noted s ?s" by simp
  moreover have "s' = s \<or> fd_inode_state_init fd ?s = Inr s'" using e by (auto simp: fd_enter_inode_def Let_def split: if_splits)
  moreover have "noted ?s s'" if "fd_inode_state_init fd ?s = Inr s'"
    using that noted_set_inode [of fd ?s s'] noted_alloc_next_inode [of fd ?s s']
    by (auto simp: fd_inode_state_init_def andThen_eq_Inr fd_load_inode_def simp del: noted_aside(3,4) split: if_splits)
  ultimately show "noted s s'" using noted_trans noted_refl by blast
qed

lemma noted_enter_block: "fd_enter_block fd s = Inr s' \<Longrightarrow> noted s s'"
  by (auto simp: fd_enter_block_def andThen_eq_Inr Let_def split: if_splits dest!: noted_find_empty)

lemma noted_fetch: "fd_buffer_fetch fd s = Inr s' \<Longrightarrow> noted s s'"
  by (auto simp: fd_buffer_fetch_def andThen_eq_Inr split: if_splits
      dest: noted_enter_inode noted_enter_block intro: noted_trans)

section \<open>The calls\<close>

lemma noted_read_loop: "fs_read_loop fd len n buf s = Inr (r, out, s') \<Longrightarrow> noted s s'"
proof (induction fd len n buf s rule: fs_read_loop.induct)
  case (1 fd len n buf s)
  show ?case
  proof (cases "n < len")
    case True
    then obtain s1 where s1: "fd_buffer_fetch fd s = Inr s1"
      using "1.prems" by (auto simp: fs_read_loop.simps [of fd len n buf s] andThen_eq_Inr)
    show ?thesis
      using "1.IH" [OF True s1 refl refl refl refl refl refl] "1.prems" noted_fetch [OF s1]
      by (subst (asm) fs_read_loop.simps [of fd len n buf s])
        (auto simp: True s1 Let_def fd_buffer_flush_def intro: noted_trans split: if_splits)
  qed (use "1.prems" in \<open>simp add: fs_read_loop.simps [of fd len n buf s]\<close>)
qed

lemma noted_write_loop: "fs_write_loop fd buf len n s = Inr (r, s') \<Longrightarrow> noted s s'"
proof (induction fd buf len n s rule: fs_write_loop.induct)
  case (1 fd buf len n s)
  show ?case
  proof (cases "n < len")
    case True
    define off where "off = unat (offset (fd_pool s fd) mod of_nat SECTSIZE)"
    define count where "count = min (len - n) (int SECTSIZE - int off)"
    obtain s1 where s1: "fd_buffer_fetch fd s = Inr s1"
      using "1.prems" True by (auto simp: fs_write_loop.simps [of fd buf len n s] Let_def andThen_eq_Inr)
    let ?s2 = "upd_fd fd (\<lambda>f. f\<lparr>buffer_state := NEED_WASHING, offset := offset f + of_int count\<rparr>) s1"
    let ?s3 = "upd_fd fd (\<lambda>f. f\<lparr>buffer := splice_at off (take (nat count) (drop (nat n) buf)) (buffer f)\<rparr>) ?s2"
    let ?s4 = "if fileSize (fd_entry fd ?s3) < offset (fd_pool ?s3 fd) then (upd_entry (index (fd_pool ?s3 fd))
      (\<lambda>e. e\<lparr>fileSize := offset (fd_pool ?s3 fd)\<rparr>) ?s3)\<lparr>state_dir := NEED_WASHING\<rparr> else ?s3"
    let ?s5 = "if int off + count = int SECTSIZE then fd_buffer_flush fd ?s4 else ?s4"
    have r: "nat (n + count) \<le> length buf" "fs_write_loop fd buf len (n + count) ?s5 = Inr (r, s')"
      using "1.prems" True s1
      by (auto simp: fs_write_loop.simps [of fd buf len n s] Let_def off_def [symmetric] count_def [symmetric] simp del: SECTSIZE_def
          split: if_splits)
    have t3: "noted s ?s3" using noted_fetch [OF s1] by simp
    then have "noted s ?s4" by (auto elim: noted_dir)
    then have "noted s ?s5" by simp
    moreover have "noted ?s5 s'"
      using "1.IH" [OF True off_def count_def s1 refl _ refl refl refl refl] r by simp
    ultimately show ?thesis by (rule noted_trans)
  qed (use "1.prems" in \<open>simp add: fs_write_loop.simps [of fd buf len n s]\<close>)
qed

lemma noted_open_existing: "noted s (snd (open_existing i j flags s))"
  by (simp add: open_existing_def Let_def internal_open_def)

lemma noted_open_scan: "open_scan p flags i slot s = Inr (Returned (r, s')) \<Longrightarrow> noted s s'"
proof (induction p flags i slot s rule: open_scan.induct)
  case (1 p flags i slot s)
  show ?case
  proof (cases "i < 16 \<and> strncmp p (fileName (dir s ! i)) 24 = Inr 0 \<and> first_closed 0 s \<noteq> None")
    case True
    then obtain j where "first_closed 0 s = Some j" by blast
    with True "1.prems" have "open_existing i j flags s = (r, s')"
      by (simp add: open_scan.simps [of p flags i slot s] Let_def)
    then show ?thesis using noted_open_existing [of s i j flags] by simp
  next
    case False
    then show ?thesis
      using 1 by (auto simp: open_scan.simps [of p flags i slot s] Let_def andThen_eq_Inr split: if_splits option.splits)
  qed
qed

lemma noted_open_create: "open_create p flags slot s = Inr (r, s') \<Longrightarrow> noted s s'"
  by (auto simp: open_create_def andThen_eq_Inr Let_def split: option.splits if_splits intro: noted_dir [OF noted_refl])

lemma noted_open: "fs_open p flags s = Inr (r, s') \<Longrightarrow> noted s s'"
proof -
  assume o: "fs_open p flags s = Inr (r, s')"
  consider "s' = s" | q where "open_scan q flags 0 None s = Inr (Returned (r, s'))"
    | q k where "open_create q flags k s = Inr (r, s')"
    using o by (auto simp: fs_open_def andThen_eq_Inr split: option.splits if_splits) (auto split: scan.splits option.splits if_splits)
  then show "noted s s'" by cases (use noted_open_scan noted_open_create in \<open>auto simp: noted_refl\<close>)
qed

lemma noted_lseek: "fs_lseek fd off whence s = Inr (r, s') \<Longrightarrow> noted s s'"
  by (auto simp: fs_lseek_def andThen_eq_Inr split: if_splits)

text \<open>The calls other than \<^verbatim>\<open>fs_close\<close>, and sequences of them.\<close>

fun keeps_open :: "request \<Rightarrow> bool" where
  "keeps_open (Close fd) = False"
| "keeps_open _ = True"

fun_cases keeps_open_CloseE: "keeps_open (Close fd)"
fun_cases fs_calls_ConsE: "fs_calls (c # cs) s = Inr s'"

lemma noted_call: "fs_call c s = Inr s' \<Longrightarrow> keeps_open c \<Longrightarrow> noted s s'"
  by (cases c) (auto simp: andThen_eq_Inr fs_read_def fs_write_def elim: keeps_open_CloseE
      dest: noted_open noted_lseek noted_read_loop noted_write_loop)

lemma noted_calls: "fs_calls cs s = Inr s' \<Longrightarrow> list_all keeps_open cs \<Longrightarrow> noted s s'"
proof (induction cs arbitrary: s)
  case (Cons c cs)
  from Cons.prems(1) obtain t where "fs_call c s = Inr t" "fs_calls cs t = Inr s'"
    by (elim fs_calls_ConsE) (cases "fs_call c s", auto)
  with Cons show ?case by (auto dest: noted_call intro: noted_trans)
qed simp

section \<open>What fs_close brings to the disk\<close>

lemma flush_reaches_disk:
  assumes "fs_typed s"
  shows "state_dir s = NEED_WASHING \<Longrightarrow> dir_of_bytes (disk_read FSOFFSET_DIR (disk (fs_flush s))) = dir s"
    and "state_bitmap s = NEED_WASHING \<Longrightarrow> bitmap_of_bytes (disk_read FSOFFSET_BITMAP (disk (fs_flush s))) = bitmap s"
  using fs_typedD(1,2) [OF assms] dir.load_store bitmap.load_store
  by (auto simp: fs_flush_def Let_def disk_read_def disk_write_def)

lemma flush_clean: "dir (fs_flush s) = dir s" "bitmap (fs_flush s) = bitmap s" "state_dir (fs_flush s) = USEFUL" "state_bitmap (fs_flush s) = USEFUL"
  by (simp_all add: fs_flush_def Let_def)

text \<open>What \<^verbatim>\<open>fs_close\<close> flushes: the state after the descriptor has written its inode and its sector.\<close>

lemma close_flushes:
  assumes "fs_close fd s = Inr (r, s')" "fs_typed s"
  obtains t where "s' = fs_flush t" "fs_typed t" "dir t = dir s" "bitmap t = bitmap s" "state_dir t = state_dir s" "state_bitmap t = state_bitmap s"
proof -
  let ?t = "fd_buffer_flush fd (fd_inode_flush fd (upd_fd fd (\<lambda>f. f\<lparr>opened := False\<rparr>) s))"
  have c: "s' = fs_flush ?t" "fd < 1024"
    using assms(1) by (auto simp: fs_close_def fd_opened_def fd_check_def andThen_eq_Inr Let_def split: if_splits)
  have "fs_typed ?t" using assms(2) c(2) by (auto intro!: typed_buffer_flush typed_inode_flush typed_upd_fd simp: fd_typed_def)
  then show thesis
    by (rule that [OF c(1)]) (simp_all add: fd_buffer_flush_def fd_inode_flush_def Let_def upd_fd_def IDE_WRITE_def)
qed

section \<open>Closed files outlive the kernel\<close>

lemma mount_start: "fs_init (fs_statics e) = mounted e"
  by (simp add: mounted_def fs_statics_def start_process_def closed_fd_def)

lemma lookup_step:
  assumes "fs_step fd A s s'"
  shows "lookup p s' = lookup p s"
proof -
  have "fileName (dir s' ! i) = fileName (dir s ! i)" for i
    using fs_stepD(3,4) [OF assms] fs_stepD(6) [OF assms, of i] by (cases "i = index (fd_pool s fd)") (auto simp: fd_entry_def)
  then show ?thesis by (simp add: lookup_def matches_def)
qed

text \<open>A stored file found by name on a fresh mount: it opens in descriptor 0 and reads back whole or in part.\<close>

lemma mounted_reads:
  assumes d: "disk_ok d" and name: "0 \<notin> set p" "p \<noteq> []" and found: "lookup p (mounted d) = Some m"
    and st: "stored (mounted d) m ns bl"
  obtains k where "fs_open (Some (p @ [0])) O_RDONLY (mounted d) = Inr (0, k)" "file_rep k 0 ns bl"
    "file_bytes k 0 bl = stored_bytes (mounted d) m bl"
    "\<And>n. \<exists>k'. fs_read 0 (int n) k = Inr (int (length (take n (file_bytes k 0 bl))), take n (file_bytes k 0 bl), k')"
proof -
  note mo = mounted_ok [OF d]
  have "length (buffer (fd_pool (mounted d) 0)) = 512" using mo(4) by (simp add: closed_fd_def)
  then obtain k where o: "open_existing m 0 O_RDONLY (mounted d) = (int 0, k)" "file_rep k 0 ns bl"
      "file_bytes k 0 bl = stored_bytes (mounted d) m bl" "pos k 0 = 0" "opened (fd_pool k 0)"
    using open_existing_ok [OF st mo(1), of 0 O_RDONLY] by auto
  have "fs_open (Some (p @ [0])) O_RDONLY (mounted d) = Inr (0, k)"
    using fs_open_cases [OF mo(3) name, of O_RDONLY] found o(1) mo(2) by simp
  moreover have "\<exists>k'. fs_read 0 (int n) k = Inr (int (length (take n (file_bytes k 0 bl))), take n (file_bytes k 0 bl), k')"
    for n
    using fs_read_ok [OF o(2) _ o(5), of n] o(4) file_bytes_length [OF o(2)] by (auto simp: min.commute)
  ultimately show ?thesis using that o(2,3) by blast
qed

section \<open>Properties\<close>

text \<open>
  C7. No change of the metadata is forgotten. On a disk with any contents, after any calls with any arguments,
  let further calls change the directory or the bitmap, none of them \<^verbatim>\<open>fs_close\<close>: then the flag of what has
  changed is raised, a flag never falls meanwhile, and the next \<^verbatim>\<open>fs_close\<close>, of any file, leaves on the disk what
  has changed, so that \<^verbatim>\<open>fs_init\<close> loads it again.
\<close>

theorem metadata_reaches_disk:
  assumes "disk_ok d" "fs_calls before (fs_init (fs_statics d)) = Inr s"
    and "list_all keeps_open cs" "fs_calls cs s = Inr s1" "fs_close fd s1 = Inr (r, s2)"
  shows "state_dir s \<le> state_dir s1 \<and> state_bitmap s \<le> state_bitmap s1 \<and> dir s2 = dir s1 \<and> bitmap s2 = bitmap s1
    \<and> (dir s1 \<noteq> dir s \<longrightarrow> state_dir s1 = NEED_WASHING \<and> dir (fs_init (fs_statics (disk s2))) = dir s1)
    \<and> (bitmap s1 \<noteq> bitmap s \<longrightarrow> state_bitmap s1 = NEED_WASHING \<and> bitmap (fs_init (fs_statics (disk s2))) = bitmap s1)"
proof -
  have "noted s s1" using assms(4,3) by (rule noted_calls)
  then have n: "state_dir s \<le> state_dir s1" "state_bitmap s \<le> state_bitmap s1"
      "dir s1 \<noteq> dir s \<Longrightarrow> state_dir s1 = NEED_WASHING" "bitmap s1 \<noteq> bitmap s \<Longrightarrow> state_bitmap s1 = NEED_WASHING"
    by (simp_all add: noted_def)
  have "fs_typed s1" using assms(4) typed_calls [OF assms(2) typed_mounted [OF assms(1)]] by (rule typed_calls)
  then obtain t where t: "s2 = fs_flush t" "fs_typed t" "dir t = dir s1" "bitmap t = bitmap s1"
      "state_dir t = state_dir s1" "state_bitmap t = state_bitmap s1"
    using close_flushes [OF assms(5)] by blast
  have remount: "dir (fs_init (fs_statics e)) = dir_of_bytes (disk_read FSOFFSET_DIR e)"
      "bitmap (fs_init (fs_statics e)) = bitmap_of_bytes (disk_read FSOFFSET_BITMAP e)" for e
    by (simp_all add: fs_init_def fs_statics_def)
  show ?thesis unfolding remount using n t flush_clean [of t] flush_reaches_disk [OF t(2)] by auto
qed

text \<open>On a blank disk \<^verbatim>\<open>kernel.bin\<close> is created and closed: the next mount finds it.\<close>

theorem metadata_reaches_disk_witness:
  "\<exists>s1 s2. fs_calls [Open (Some (kernel_name @ [0])) O_CREAT] (fs_init (fs_statics blank_disk)) = Inr s1
    \<and> fs_close 0 s1 = Inr (0, s2) \<and> lookup kernel_name (fs_init (fs_statics blank_disk)) = None
    \<and> lookup kernel_name (fs_init (fs_statics (disk s2))) = Some 0"
proof -
  let ?s = "mounted blank_disk"
  have d: "disk_ok blank_disk" using blank_formatted by (simp add: formatted_def)
  note start = mount_start
  note m = mounted_ok [OF d]
  have none: "lookup kernel_name ?s = None" by (rule formatted_lookup [OF blank_formatted kernel_name(2,4)])
  have buf: "length (buffer (fd_pool ?s 0)) = 512" using m(4) by (simp add: closed_fd_def)
  obtain s1 where o: "fs_open (Some (kernel_name @ [0])) O_CREAT ?s = Inr (int 0, s1)" "opened (fd_pool s1 0)"
      "lookup kernel_name s1 = Some 0"
    using fs_open_creates [OF m(1) kernel_name(2,4) m(2) none _ _ _ buf, of 0 O_CREAT]
      formatted_lookup(2) [OF blank_formatted kernel_name(2,4)] by auto
  have calls: "fs_calls [Open (Some (kernel_name @ [0])) O_CREAT] (fs_init (fs_statics blank_disk)) = Inr s1"
    using o(1) by (simp add: start)
  obtain s2 where c: "fs_close 0 s1 = Inr (0, s2)"
    using o(2) by (simp add: fs_close_def fd_opened_def fd_check_def my_assert_def Let_def)
  have "dir s1 \<noteq> dir ?s" using none o(3) by (auto simp: lookup_def)
  then have "dir (mounted (disk s2)) = dir s1"
    using metadata_reaches_disk [OF d _ _ calls c, of "[]"] by (simp add: start)
  then have "lookup kernel_name (mounted (disk s2)) = Some 0" using o(3) by (simp add: lookup_def)
  then show ?thesis using calls c none start by auto
qed

text \<open>C5. \<^verbatim>\<open>fs_close\<close> makes a file durable. Let a descriptor be open on the file the directory has under a
  name. After \<^verbatim>\<open>fs_close\<close> the machine may be switched off: a kernel that starts with only the disk,
  mounts it (\<^verbatim>\<open>fs_init\<close>) and opens that name finds the file, and \<^verbatim>\<open>fs_read\<close> of any length gives the
  first bytes the descriptor had before the close, cached or not, and their number.\<close>

theorem fs_close_durable:
  assumes "file_rep s fd ns bl" "fd < 1024" "opened (fd_pool s fd)"
    and "0 \<notin> set p" "p \<noteq> []" "lookup p s = Some (index (fd_pool s fd))"
  shows "\<exists>s' k. fs_close fd s = Inr (0, s') \<and> \<not> opened (fd_pool s' fd)
    \<and> fs_open (Some (p @ [0])) O_RDONLY (fs_init (fs_statics (disk s'))) = Inr (0, k)
    \<and> (\<forall>n. \<exists>k'. fs_read 0 (int n) k
         = Inr (int (length (take n (file_bytes s fd bl))), take n (file_bytes s fd bl), k'))"
proof -
  obtain s' where c: "fs_close fd s = Inr (0, s')" "\<not> opened (fd_pool s' fd)" "sys_ok s'" "dir s' = dir s"
    "\<And>t. disk t = disk s' \<Longrightarrow> dir (fs_init t) = dir s
       \<and> stored (fs_init t) (index (fd_pool s fd)) ns bl
       \<and> stored_bytes (fs_init t) (index (fd_pool s fd)) bl = file_bytes s fd bl"
    using close_leaves_stored [OF assms(1-3)] by blast
  let ?m = "mounted (disk s')"
  have "disk (fs_statics (disk s')) = disk s'" by (simp add: fs_statics_def)
  note m = c(5) [OF this, unfolded mount_start]
  have "lookup p ?m = Some (index (fd_pool s fd))" using assms(6) m by (simp add: lookup_def)
  moreover have "disk_ok (disk s')" using c(3) by (simp add: sys_ok_def)
  ultimately show ?thesis
    using mounted_reads [OF _ assms(4,5), of "disk s'" "index (fd_pool s fd)" ns bl] m c(1,2)
    unfolding mount_start by metis
qed

text \<open>\<^verbatim>\<open>kernel.bin\<close> is created on a blank disk, three bytes are written, which stay in the descriptor's buffer,
  and it is closed: the next kernel reads them.\<close>

theorem fs_close_durable_witness:
  "\<exists>s s1 s' k k'. fs_open (Some (kernel_name @ [0])) (O_RDWR OR O_CREAT) (fs_init (fs_statics blank_disk)) = Inr (0, s)
    \<and> fs_write 0 [1, 2, 3] 3 s = Inr (3, s1) \<and> fs_close 0 s1 = Inr (0, s')
    \<and> fs_open (Some (kernel_name @ [0])) O_RDONLY (fs_init (fs_statics (disk s'))) = Inr (0, k)
    \<and> fs_read 0 2 k = Inr (2, [1, 2], k')"
proof -
  have "length (buffer (fd_pool (mounted blank_disk) 0)) = 512"
    using mounted_ok(4) [OF blank_mounted(1)] by (simp add: closed_fd_def)
  then obtain s where o: "fs_open (Some (kernel_name @ [0])) (O_RDWR OR O_CREAT) (mounted blank_disk) = Inr (int 0, s)"
      "file_rep s 0 [] []" "file_bytes s 0 [] = []" "pos s 0 = 0" "opened (fd_pool s 0)" "lookup kernel_name s = Some 0"
      "writable (fd_pool s 0)" "bitmap s = bitmap (mounted blank_disk)" "index (fd_pool s 0) = 0"
    using fs_open_creates [OF mounted_ok(1) [OF blank_mounted(1)] kernel_name(2,4)
        mounted_ok(2) [OF blank_mounted(1)] blank_lookup [OF kernel_name(2,4)], of "O_RDWR OR O_CREAT"] by auto
  have "may_grow s 0 (pos s 0 + 3)"
    using o(4,8) blank_free by (simp add: may_grow_def sectors_for_def blocks_for_def inodes_for_def)
  then obtain s1 ns bl where w: "fs_write 0 [1, 2, 3] (int 3) s = Inr (int 3, s1)" "file_rep s1 0 ns bl"
      "file_bytes s1 0 bl = splice_at (pos s 0) (take 3 [1, 2, 3]) (file_bytes s 0 [])"
      "fs_step 0 (set ns \<union> set bl) s s1"
    using fs_write_ok [OF o(2) _ o(5,7), of 3 "[1, 2, 3]"] by auto
  have "opened (fd_pool s1 0)" "lookup kernel_name s1 = Some (index (fd_pool s1 0))"
    using fs_stepD(1,3) [OF w(4)] lookup_step [OF w(4)] o(5,6,9) by simp_all
  then obtain s' k where "fs_close 0 s1 = Inr (0, s')"
      "fs_open (Some (kernel_name @ [0])) O_RDONLY (fs_init (fs_statics (disk s'))) = Inr (0, k)"
      "\<forall>n. \<exists>k'. fs_read 0 (int n) k = Inr (int (length (take n (file_bytes s1 0 bl))), take n (file_bytes s1 0 bl), k')"
    using fs_close_durable [OF w(2) _ _ kernel_name(2,4)] by auto
  moreover from this(3) [rule_format, of 2] have "\<exists>k'. fs_read 0 2 k = Inr (2, [1, 2], k')"
    using w(3) o(3,4) by (simp add: splice_at_def)
  ultimately show ?thesis using o(1) w(1) unfolding mount_start by auto
qed

end
