(* ===== verification/Mmu.thy ===== *)
theory Mmu
  imports Prelude
begin

text \<open>
  \<^verbatim>\<open>inc/mmu.h\<close>, \<^verbatim>\<open>inc/memlayout.h\<close> and the arithmetic macros of \<^verbatim>\<open>inc/types.h\<close>: splitting and
  building linear addresses, page table entries and their flags, the map of the address
  space, the segment and gate descriptors with what the processor reads out of them, and
  rounding.
\<close>

unbundle bit_operations_syntax

section \<open>Linear addresses\<close>

definition PTXSHIFT :: nat where [simp]: "PTXSHIFT = 12"
definition PDXSHIFT :: nat where [simp]: "PDXSHIFT = 22"

definition PGNUM :: "u32 \<Rightarrow> u32" where "PGNUM la = drop_bit PTXSHIFT la"
definition PDX :: "u32 \<Rightarrow> u32" where "PDX la = drop_bit PDXSHIFT la AND 0x3FF"
definition PTX :: "u32 \<Rightarrow> u32" where "PTX la = drop_bit PTXSHIFT la AND 0x3FF"
definition PGOFF :: "u32 \<Rightarrow> u32" where "PGOFF la = la AND 0xFFF"

definition PGADDR :: "u32 \<Rightarrow> u32 \<Rightarrow> u32 \<Rightarrow> u32" where
  "PGADDR d t off = push_bit PDXSHIFT d OR push_bit PTXSHIFT t OR off"

definition NPDENTRIES :: nat where [simp]: "NPDENTRIES = 1024"
definition NPTENTRIES :: nat where [simp]: "NPTENTRIES = 1024"
definition PGSIZE :: nat where [simp]: "PGSIZE = 4096"
definition PGSHIFT :: nat where [simp]: "PGSHIFT = 12"
definition PTSIZE :: nat where [simp]: "PTSIZE = PGSIZE * NPTENTRIES"
definition PTSHIFT :: nat where [simp]: "PTSHIFT = 22"

section \<open>Entries of tables and directories\<close>

definition PTE_P :: u32 where [simp]: "PTE_P = 0x001"
definition PTE_W :: u32 where [simp]: "PTE_W = 0x002"
definition PTE_U :: u32 where [simp]: "PTE_U = 0x004"
definition PTE_PWT :: u32 where [simp]: "PTE_PWT = 0x008"
definition PTE_PCD :: u32 where [simp]: "PTE_PCD = 0x010"
definition PTE_A :: u32 where [simp]: "PTE_A = 0x020"
definition PTE_D :: u32 where [simp]: "PTE_D = 0x040"
definition PTE_PS :: u32 where [simp]: "PTE_PS = 0x080"
definition PTE_G :: u32 where [simp]: "PTE_G = 0x100"
definition PTE_AVAIL :: u32 where [simp]: "PTE_AVAIL = 0xE00"
definition PTE_SYSCALL :: u32 where [simp]: "PTE_SYSCALL = PTE_AVAIL OR PTE_P OR PTE_W OR PTE_U"

definition PTE_ADDR :: "u32 \<Rightarrow> u32" where "PTE_ADDR pte = pte AND NOT 0xFFF"

definition CR0_PE :: u32 where [simp]: "CR0_PE = 0x00000001"
definition CR0_MP :: u32 where [simp]: "CR0_MP = 0x00000002"
definition CR0_EM :: u32 where [simp]: "CR0_EM = 0x00000004"
definition CR0_TS :: u32 where [simp]: "CR0_TS = 0x00000008"
definition CR0_ET :: u32 where [simp]: "CR0_ET = 0x00000010"
definition CR0_NE :: u32 where [simp]: "CR0_NE = 0x00000020"
definition CR0_WP :: u32 where [simp]: "CR0_WP = 0x00010000"
definition CR0_AM :: u32 where [simp]: "CR0_AM = 0x00040000"
definition CR0_NW :: u32 where [simp]: "CR0_NW = 0x20000000"
definition CR0_CD :: u32 where [simp]: "CR0_CD = 0x40000000"
definition CR0_PG :: u32 where [simp]: "CR0_PG = 0x80000000"
definition CR4_PCE :: u32 where [simp]: "CR4_PCE = 0x00000100"
definition CR4_MCE :: u32 where [simp]: "CR4_MCE = 0x00000040"
definition CR4_PSE :: u32 where [simp]: "CR4_PSE = 0x00000010"
definition CR4_DE :: u32 where [simp]: "CR4_DE = 0x00000008"
definition CR4_TSD :: u32 where [simp]: "CR4_TSD = 0x00000004"
definition CR4_PVI :: u32 where [simp]: "CR4_PVI = 0x00000002"
definition CR4_VME :: u32 where [simp]: "CR4_VME = 0x00000001"
definition FL_CF :: u32 where [simp]: "FL_CF = 0x00000001"
definition FL_PF :: u32 where [simp]: "FL_PF = 0x00000004"
definition FL_AF :: u32 where [simp]: "FL_AF = 0x00000010"
definition FL_ZF :: u32 where [simp]: "FL_ZF = 0x00000040"
definition FL_SF :: u32 where [simp]: "FL_SF = 0x00000080"
definition FL_TF :: u32 where [simp]: "FL_TF = 0x00000100"
definition FL_IF :: u32 where [simp]: "FL_IF = 0x00000200"
definition FL_DF :: u32 where [simp]: "FL_DF = 0x00000400"
definition FL_OF :: u32 where [simp]: "FL_OF = 0x00000800"
definition FL_IOPL_MASK :: u32 where [simp]: "FL_IOPL_MASK = 0x00003000"
definition FL_IOPL_0 :: u32 where [simp]: "FL_IOPL_0 = 0x00000000"
definition FL_IOPL_1 :: u32 where [simp]: "FL_IOPL_1 = 0x00001000"
definition FL_IOPL_2 :: u32 where [simp]: "FL_IOPL_2 = 0x00002000"
definition FL_IOPL_3 :: u32 where [simp]: "FL_IOPL_3 = 0x00003000"
definition FL_NT :: u32 where [simp]: "FL_NT = 0x00004000"
definition FL_RF :: u32 where [simp]: "FL_RF = 0x00010000"
definition FL_VM :: u32 where [simp]: "FL_VM = 0x00020000"
definition FL_AC :: u32 where [simp]: "FL_AC = 0x00040000"
definition FL_VIF :: u32 where [simp]: "FL_VIF = 0x00080000"
definition FL_VIP :: u32 where [simp]: "FL_VIP = 0x00100000"
definition FL_ID :: u32 where [simp]: "FL_ID = 0x00200000"
definition FEC_PR :: u32 where [simp]: "FEC_PR = 0x1"
definition FEC_WR :: u32 where [simp]: "FEC_WR = 0x2"
definition FEC_U :: u32 where [simp]: "FEC_U = 0x4"

section \<open>The address space: inc/memlayout.h\<close>

definition GD_KT :: u16 where [simp]: "GD_KT = 0x08"
definition GD_KD :: u16 where [simp]: "GD_KD = 0x10"
definition GD_UT :: u16 where [simp]: "GD_UT = 0x18"
definition GD_UD :: u16 where [simp]: "GD_UD = 0x20"
definition GD_TSS0 :: u16 where [simp]: "GD_TSS0 = 0x28"

definition KERNBASE :: u32 where [simp]: "KERNBASE = 0xF0000000"
definition IOPHYSMEM :: u32 where [simp]: "IOPHYSMEM = 0x0A0000"
definition EXTPHYSMEM :: u32 where [simp]: "EXTPHYSMEM = 0x100000"
definition KSTACKTOP :: u32 where [simp]: "KSTACKTOP = 0xF0400000"
definition KSTKSIZE :: u32 where [simp]: "KSTKSIZE = 8 * of_nat PGSIZE"
definition KSTKGAP :: u32 where [simp]: "KSTKGAP = 8 * of_nat PGSIZE"
definition MMIOLIM :: u32 where [simp]: "MMIOLIM = KSTACKTOP - of_nat PTSIZE"
definition MMIOBASE :: u32 where [simp]: "MMIOBASE = MMIOLIM - of_nat PTSIZE"
definition ULIM :: u32 where [simp]: "ULIM = MMIOBASE"
definition UVPT :: u32 where [simp]: "UVPT = ULIM - of_nat PTSIZE"
definition UPAGES :: u32 where [simp]: "UPAGES = UVPT - of_nat PTSIZE"
definition UENVS :: u32 where [simp]: "UENVS = UPAGES - of_nat PTSIZE"
definition UTOP :: u32 where [simp]: "UTOP = UENVS"
definition UXSTACKTOP :: u32 where [simp]: "UXSTACKTOP = UTOP"
definition USTACKTOP :: u32 where [simp]: "USTACKTOP = UTOP - 2 * of_nat PGSIZE"
definition UTEXT :: u32 where [simp]: "UTEXT = 2 * of_nat PTSIZE"
definition UTEMP :: u32 where [simp]: "UTEMP = of_nat PTSIZE"
definition PFTEMP :: u32 where [simp]: "PFTEMP = UTEMP + of_nat PTSIZE - of_nat PGSIZE"
definition USTABDATA :: u32 where [simp]: "USTABDATA = of_nat PTSIZE div 2"
definition MPENTRY_PADDR :: u32 where [simp]: "MPENTRY_PADDR = 0x7000"

section \<open>Rounding: inc/types.h\<close>

definition ROUNDDOWN :: "u32 \<Rightarrow> u32 \<Rightarrow> u32" where "ROUNDDOWN a n = a - a mod n"
definition ROUNDUP :: "u32 \<Rightarrow> u32 \<Rightarrow> u32" where "ROUNDUP a n = ROUNDDOWN (a + n - 1) n"

section \<open>Segment descriptors\<close>

record segdesc =
  sd_lim_15_0 :: "16 word"
  sd_base_15_0 :: "16 word"
  sd_base_23_16 :: "8 word"
  sd_type :: "4 word"
  sd_s :: "1 word"
  sd_dpl :: "2 word"
  sd_p :: "1 word"
  sd_lim_19_16 :: "4 word"
  sd_avl :: "1 word"
  sd_rsv1 :: "1 word"
  sd_db :: "1 word"
  sd_g :: "1 word"
  sd_base_31_24 :: "8 word"

definition SEG_NULL :: segdesc where
  "SEG_NULL = \<lparr>sd_lim_15_0 = 0, sd_base_15_0 = 0, sd_base_23_16 = 0, sd_type = 0, sd_s = 0,
     sd_dpl = 0, sd_p = 0, sd_lim_19_16 = 0, sd_avl = 0, sd_rsv1 = 0, sd_db = 0, sd_g = 0,
     sd_base_31_24 = 0\<rparr>"

definition SEG_FAULT :: segdesc where
  "SEG_FAULT = \<lparr>sd_lim_15_0 = 0, sd_base_15_0 = 0, sd_base_23_16 = 0, sd_type = 0, sd_s = 1,
     sd_dpl = 0, sd_p = 1, sd_lim_19_16 = 0, sd_avl = 0, sd_rsv1 = 0, sd_db = 1, sd_g = 0,
     sd_base_31_24 = 0\<rparr>"

definition SEG :: "4 word \<Rightarrow> u32 \<Rightarrow> u32 \<Rightarrow> 2 word \<Rightarrow> segdesc" where
  "SEG ty base lim dpl =
     \<lparr>sd_lim_15_0 = ucast (drop_bit 12 lim AND 0xffff), sd_base_15_0 = ucast (base AND 0xffff),
      sd_base_23_16 = ucast (drop_bit 16 base AND 0xff), sd_type = ty, sd_s = 1, sd_dpl = dpl,
      sd_p = 1, sd_lim_19_16 = ucast (drop_bit 28 lim), sd_avl = 0, sd_rsv1 = 0, sd_db = 1,
      sd_g = 1, sd_base_31_24 = ucast (drop_bit 24 base)\<rparr>"

definition SEG16 :: "4 word \<Rightarrow> u32 \<Rightarrow> u32 \<Rightarrow> 2 word \<Rightarrow> segdesc" where
  "SEG16 ty base lim dpl =
     \<lparr>sd_lim_15_0 = ucast (lim AND 0xffff), sd_base_15_0 = ucast (base AND 0xffff),
      sd_base_23_16 = ucast (drop_bit 16 base AND 0xff), sd_type = ty, sd_s = 1, sd_dpl = dpl,
      sd_p = 1, sd_lim_19_16 = ucast (drop_bit 16 lim), sd_avl = 0, sd_rsv1 = 0, sd_db = 1,
      sd_g = 0, sd_base_31_24 = ucast (drop_bit 24 base)\<rparr>"

definition STA_X :: "4 word" where [simp]: "STA_X = 0x8"
definition STA_E :: "4 word" where [simp]: "STA_E = 0x4"
definition STA_C :: "4 word" where [simp]: "STA_C = 0x4"
definition STA_W :: "4 word" where [simp]: "STA_W = 0x2"
definition STA_R :: "4 word" where [simp]: "STA_R = 0x2"
definition STA_A :: "4 word" where [simp]: "STA_A = 0x1"
definition STS_T16A :: "4 word" where [simp]: "STS_T16A = 0x1"
definition STS_LDT :: "4 word" where [simp]: "STS_LDT = 0x2"
definition STS_T16B :: "4 word" where [simp]: "STS_T16B = 0x3"
definition STS_CG16 :: "4 word" where [simp]: "STS_CG16 = 0x4"
definition STS_TG :: "4 word" where [simp]: "STS_TG = 0x5"
definition STS_IG16 :: "4 word" where [simp]: "STS_IG16 = 0x6"
definition STS_TG16 :: "4 word" where [simp]: "STS_TG16 = 0x7"
definition STS_T32A :: "4 word" where [simp]: "STS_T32A = 0x9"
definition STS_T32B :: "4 word" where [simp]: "STS_T32B = 0xB"
definition STS_CG32 :: "4 word" where [simp]: "STS_CG32 = 0xC"
definition STS_IG32 :: "4 word" where [simp]: "STS_IG32 = 0xE"
definition STS_TG32 :: "4 word" where [simp]: "STS_TG32 = 0xF"

text \<open>What the processor reads out of a descriptor: the base, and the last valid offset.\<close>

definition seg_base :: "segdesc \<Rightarrow> u32" where
  "seg_base d = ucast (sd_base_15_0 d) OR push_bit 16 (ucast (sd_base_23_16 d))
     OR push_bit 24 (ucast (sd_base_31_24 d))"

definition seg_raw_limit :: "segdesc \<Rightarrow> u32" where
  "seg_raw_limit d = ucast (sd_lim_15_0 d) OR push_bit 16 (ucast (sd_lim_19_16 d))"

definition seg_limit :: "segdesc \<Rightarrow> u32" where
  "seg_limit d = (if sd_g d = 1 then push_bit 12 (seg_raw_limit d) OR 0xFFF else seg_raw_limit d)"

section \<open>The task state and gates\<close>

record taskstate =
  ts_link :: u32
  ts_esp0 :: u32
  ts_ss0 :: u16
  ts_padding1 :: u16
  ts_esp1 :: u32
  ts_ss1 :: u16
  ts_padding2 :: u16
  ts_esp2 :: u32
  ts_ss2 :: u16
  ts_padding3 :: u16
  ts_cr3 :: u32
  ts_eip :: u32
  ts_eflags :: u32
  ts_eax :: u32
  ts_ecx :: u32
  ts_edx :: u32
  ts_ebx :: u32
  ts_esp :: u32
  ts_ebp :: u32
  ts_esi :: u32
  ts_edi :: u32
  ts_es :: u16
  ts_padding4 :: u16
  ts_cs :: u16
  ts_padding5 :: u16
  ts_ss :: u16
  ts_padding6 :: u16
  ts_ds :: u16
  ts_padding7 :: u16
  ts_fs :: u16
  ts_padding8 :: u16
  ts_gs :: u16
  ts_padding9 :: u16
  ts_ldt :: u16
  ts_padding10 :: u16
  ts_t :: u16
  ts_iomb :: u16

text \<open>A task state in static memory, all zero.\<close>

definition zero_taskstate :: taskstate where
  "zero_taskstate = \<lparr>ts_link = 0, ts_esp0 = 0, ts_ss0 = 0, ts_padding1 = 0, ts_esp1 = 0, ts_ss1 = 0, ts_padding2 = 0, ts_esp2 = 0, ts_ss2 = 0, ts_padding3 = 0, ts_cr3 = 0, ts_eip = 0, ts_eflags = 0, ts_eax = 0, ts_ecx = 0, ts_edx = 0, ts_ebx = 0, ts_esp = 0, ts_ebp = 0, ts_esi = 0, ts_edi = 0, ts_es = 0, ts_padding4 = 0, ts_cs = 0, ts_padding5 = 0, ts_ss = 0, ts_padding6 = 0, ts_ds = 0, ts_padding7 = 0, ts_fs = 0, ts_padding8 = 0, ts_gs = 0, ts_padding9 = 0, ts_ldt = 0, ts_padding10 = 0, ts_t = 0, ts_iomb = 0\<rparr>"

record gatedesc =
  gd_off_15_0 :: "16 word"
  gd_sel :: "16 word"
  gd_args :: "5 word"
  gd_rsv1 :: "3 word"
  gd_type :: "4 word"
  gd_s :: "1 word"
  gd_dpl :: "2 word"
  gd_p :: "1 word"
  gd_off_31_16 :: "16 word"

definition null_gate :: gatedesc where
  "null_gate = \<lparr>gd_off_15_0 = 0, gd_sel = 0, gd_args = 0, gd_rsv1 = 0, gd_type = 0, gd_s = 0,
     gd_dpl = 0, gd_p = 0, gd_off_31_16 = 0\<rparr>"

definition SETGATE :: "bool \<Rightarrow> u16 \<Rightarrow> u32 \<Rightarrow> 2 word \<Rightarrow> gatedesc \<Rightarrow> gatedesc" where
  "SETGATE istrap sel off dpl gate =
     gate\<lparr>gd_off_15_0 := ucast (off AND 0xffff), gd_sel := sel, gd_args := 0, gd_rsv1 := 0,
       gd_type := (if istrap then STS_TG32 else STS_IG32), gd_s := 0, gd_dpl := dpl, gd_p := 1,
       gd_off_31_16 := ucast (drop_bit 16 off)\<rparr>"

definition SETCALLGATE :: "u16 \<Rightarrow> u32 \<Rightarrow> 2 word \<Rightarrow> gatedesc \<Rightarrow> gatedesc" where
  "SETCALLGATE sel off dpl gate =
     gate\<lparr>gd_off_15_0 := ucast (off AND 0xffff), gd_sel := sel, gd_args := 0, gd_rsv1 := 0,
       gd_type := STS_CG32, gd_s := 0, gd_dpl := dpl, gd_p := 1, gd_off_31_16 := ucast (drop_bit 16 off)\<rparr>"

definition gate_offset :: "gatedesc \<Rightarrow> u32" where
  "gate_offset g = ucast (gd_off_15_0 g) OR push_bit 16 (ucast (gd_off_31_16 g))"

text \<open>What \<^verbatim>\<open>lgdt\<close> and \<^verbatim>\<open>lidt\<close> load.\<close>

record pseudodesc =
  pd_lim :: u16
  pd_base :: u32

section \<open>Lemmas\<close>

text \<open>The masks of the macros as bit sets.\<close>

lemma bit_masks:
  "bit (0x3FF :: u32) n \<longleftrightarrow> n < 10" "bit (0xFFF :: u32) n \<longleftrightarrow> n < 12"
  "bit (0xffff :: u32) n \<longleftrightarrow> n < 16" "bit (0xff :: u32) n \<longleftrightarrow> n < 8"
proof -
  have "(0x3FF :: u32) = mask 10" "(0xFFF :: u32) = mask 12" "(0xffff :: u32) = mask 16"
    "(0xff :: u32) = mask 8" by (simp_all add: mask_numeral)
  then show "bit (0x3FF :: u32) n \<longleftrightarrow> n < 10" "bit (0xFFF :: u32) n \<longleftrightarrow> n < 12"
    "bit (0xffff :: u32) n \<longleftrightarrow> n < 16" "bit (0xff :: u32) n \<longleftrightarrow> n < 8"
    by (simp_all only: bit_mask_iff) auto
qed

lemma small_bits:
  fixes w :: u32
  assumes "unat w < 2 ^ k" "bit w n"
  shows "n < k"
proof -
  have "bit (unat w) n" using assms(2) by (simp add: bit_unsigned_iff)
  moreover have "take_bit k (unat w) = unat w" using assms(1) by (rule take_bit_nat_eq_self)
  ultimately have "bit (take_bit k (unat w)) n" by simp
  then show ?thesis by (simp only: bit_take_bit_iff)
qed

lemmas field_bits = bit_or_iff bit_and_iff bit_push_bit_iff bit_drop_bit_eq bit_not_iff comp_def bit_masks

lemma PGADDR_split: "PGADDR (PDX la) (PTX la) (PGOFF la) = la"
proof (rule bit_word_eqI)
  fix n
  assume n: "n < LENGTH(32)"
  show "bit (PGADDR (PDX la) (PTX la) (PGOFF la)) n = bit la n"
    unfolding PGADDR_def PDX_def PTX_def PGOFF_def PDXSHIFT_def PTXSHIFT_def field_bits
    using n by (cases "n < 12"; cases "n < 22") auto
qed

lemma unat_fields:
  "unat (PDX la) = unat la div 2 ^ 22" "unat (PTX la) = unat la div 2 ^ 12 mod 1024"
  "unat (PGOFF la) = unat la mod 4096" "unat (PGNUM la) = unat la div 2 ^ 12"
proof -
  have m: "(0x3FF :: u32) = mask 10" "(0xFFF :: u32) = mask 12" by (simp_all add: mask_numeral)
  have "unat la < 4294967296" using unsigned_less [of la] by simp
  then have "unat la div 4194304 < 1024" by (simp add: less_mult_imp_div_less)
  then show "unat (PDX la) = unat la div 2 ^ 22" "unat (PTX la) = unat la div 2 ^ 12 mod 1024"
    "unat (PGOFF la) = unat la mod 4096" "unat (PGNUM la) = unat la div 2 ^ 12"
    by (simp_all add: PDX_def PTX_def PGOFF_def PGNUM_def m flip: take_bit_eq_mask)
      (simp_all add: take_bit_eq_mod drop_bit_eq_div unat_mod unat_div)
qed

lemma PGADDR_fields:
  assumes "unat d < 1024" "unat t < 1024" "unat off < 4096"
  shows "PDX (PGADDR d t off) = d" "PTX (PGADDR d t off) = t" "PGOFF (PGADDR d t off) = off"
proof -
  have d: "bit d n \<Longrightarrow> n < 10" and t: "bit t n \<Longrightarrow> n < 10" and off: "bit off n \<Longrightarrow> n < 12" for n
    using small_bits [of d 10 n] small_bits [of t 10 n] small_bits [of off 12 n] assms by simp_all
  show "PDX (PGADDR d t off) = d"
    by (rule bit_word_eqI, unfold PGADDR_def PDX_def PDXSHIFT_def PTXSHIFT_def field_bits)
      (use d t off in \<open>auto dest: d t off\<close>)
  show "PTX (PGADDR d t off) = t"
    by (rule bit_word_eqI, unfold PGADDR_def PTX_def PDXSHIFT_def PTXSHIFT_def field_bits)
      (auto dest: d t off)
  show "PGOFF (PGADDR d t off) = off"
    by (rule bit_word_eqI, unfold PGADDR_def PGOFF_def PDXSHIFT_def PTXSHIFT_def field_bits)
      (auto dest: d t off)
qed

lemma ucast_bits:
  "bit (ucast (w :: u32) :: 16 word) n \<longleftrightarrow> n < 16 \<and> bit w n"
  "bit (ucast (w :: u32) :: 8 word) n \<longleftrightarrow> n < 8 \<and> bit w n"
  "bit (ucast (w :: u32) :: 4 word) n \<longleftrightarrow> n < 4 \<and> bit w n"
  "bit (ucast (x :: 16 word) :: u32) n \<longleftrightarrow> bit x n"
  "bit (ucast (y :: 8 word) :: u32) n \<longleftrightarrow> bit y n"
  "bit (ucast (z :: 4 word) :: u32) n \<longleftrightarrow> bit z n"
  using bit_imp_le_length [of x n] bit_imp_le_length [of y n] bit_imp_le_length [of z n]
  by (auto simp: bit_ucast_iff)

lemma seg_base_SEG: "seg_base (SEG ty base lim dpl) = base" "seg_base (SEG16 ty base lim dpl) = base"
proof -
  have "seg_base (SEG16 ty base lim dpl) = base"
  proof (rule bit_word_eqI)
    fix n
    assume n: "n < LENGTH(32)"
    show "bit (seg_base (SEG16 ty base lim dpl)) n = bit base n"
      unfolding seg_base_def SEG16_def segdesc.simps field_bits ucast_bits
      using n by (cases "n < 16"; cases "n < 24") auto
  qed
  then show "seg_base (SEG16 ty base lim dpl) = base" "seg_base (SEG ty base lim dpl) = base"
    by (simp_all add: seg_base_def SEG_def SEG16_def)
qed

lemma seg_limit_SEG: "seg_limit (SEG ty base lim dpl) = lim OR 0xFFF"
proof (rule bit_word_eqI)
  fix n
  assume n: "n < LENGTH(32)"
  have g: "seg_limit (SEG ty base lim dpl) = push_bit 12 (seg_raw_limit (SEG ty base lim dpl)) OR 0xFFF"
    by (simp add: seg_limit_def SEG_def)
  show "bit (seg_limit (SEG ty base lim dpl)) n = bit (lim OR 0xFFF) n"
    unfolding g unfolding seg_raw_limit_def SEG_def segdesc.simps field_bits ucast_bits
    using n by (cases "n < 12"; cases "n < 28") auto
qed

lemma seg_limit_SEG16:
  assumes "unat lim < 2 ^ 20"
  shows "seg_limit (SEG16 ty base lim dpl) = lim"
proof (rule bit_word_eqI)
  fix n
  assume n: "n < LENGTH(32)"
  have g: "seg_limit (SEG16 ty base lim dpl) = seg_raw_limit (SEG16 ty base lim dpl)"
    by (simp add: seg_limit_def SEG16_def)
  show "bit (seg_limit (SEG16 ty base lim dpl)) n = bit lim n"
    unfolding g unfolding seg_raw_limit_def SEG16_def segdesc.simps field_bits ucast_bits
    using n small_bits [OF assms, of n] by (cases "n < 16"; cases "n < 20") auto
qed

lemma gate_offset_SETGATE:
  "gate_offset (SETGATE t sel off dpl g) = off" "gate_offset (SETCALLGATE sel off dpl g) = off"
proof -
  have "(ucast (ucast (off AND 0xffff) :: 16 word) :: u32)
      OR push_bit 16 (ucast (ucast (drop_bit 16 off) :: 16 word)) = off"
  proof (rule bit_word_eqI)
    fix n
    assume n: "n < LENGTH(32)"
    show "bit ((ucast (ucast (off AND 0xffff) :: 16 word) :: u32)
        OR push_bit 16 (ucast (ucast (drop_bit 16 off) :: 16 word))) n = bit off n"
      unfolding field_bits ucast_bits using n by (cases "n < 16") auto
  qed
  then show "gate_offset (SETGATE t sel off dpl g) = off" "gate_offset (SETCALLGATE sel off dpl g) = off"
    by (simp_all add: gate_offset_def SETGATE_def SETCALLGATE_def)
qed

section \<open>Properties\<close>

text \<open>Linear addresses split and rebuild: \<^verbatim>\<open>PGADDR(PDX(la), PTX(la), PGOFF(la))\<close> is \<open>la\<close>,
  the three macros read back the fields an address was built from, and they are the
  quotients and remainders by the sizes of a table's and a page's reach.\<close>

lemma linear_address_round_trip:
  "PGADDR (PDX la) (PTX la) (PGOFF la) = la
   \<and> (unat d < 1024 \<longrightarrow> unat t < 1024 \<longrightarrow> unat off < 4096 \<longrightarrow>
        PDX (PGADDR d t off) = d \<and> PTX (PGADDR d t off) = t \<and> PGOFF (PGADDR d t off) = off)
   \<and> unat (PDX la) = unat la div PTSIZE \<and> unat (PTX la) = unat la div PGSIZE mod NPTENTRIES
   \<and> unat (PGOFF la) = unat la mod PGSIZE"
  using PGADDR_split PGADDR_fields [of d t off] unat_fields [of la] by simp

lemma linear_address_round_trip_witness:
  "PDX (PGADDR 32 72 0) = 32 \<and> PTX (PGADDR 32 72 0) = 72 \<and> PGADDR 32 72 0 = 0x8048000"
  using linear_address_round_trip [of 0 32 72 0] by (simp add: PGADDR_def)

text \<open>The scattered fields of the descriptors hold what they were built from: the
  processor reads back the base of a segment, its limit rounded up to a page (byte-exact for
  a \<^verbatim>\<open>SEG16\<close> descriptor below 1 MB), and the handler address of an interrupt, trap or call
  gate, present and with the requested privilege.\<close>

lemma descriptors_decode:
  "seg_base (SEG ty base lim dpl) = base \<and> seg_limit (SEG ty base lim dpl) = lim OR 0xFFF
   \<and> seg_base (SEG16 ty base lim dpl) = base
   \<and> (unat lim < 2 ^ 20 \<longrightarrow> seg_limit (SEG16 ty base lim dpl) = lim)
   \<and> gate_offset (SETGATE istrap sel off dpl g) = off \<and> gd_dpl (SETGATE istrap sel off dpl g) = dpl
   \<and> gd_p (SETGATE istrap sel off dpl g) = 1 \<and> gd_sel (SETGATE istrap sel off dpl g) = sel
   \<and> gate_offset (SETCALLGATE sel off dpl g) = off"
  using seg_base_SEG seg_limit_SEG seg_limit_SEG16 [of lim ty base dpl] gate_offset_SETGATE
  by (simp add: SETGATE_def)

lemma descriptors_decode_witness:
  "seg_limit (SEG16 STS_T32A 0xF0123450 0x68 0) = 0x68 \<and> seg_base (SEG16 STS_T32A 0xF0123450 0x68 0) = 0xF0123450"
  using descriptors_decode [of STS_T32A "0xF0123450" "0x68" 0] by simp

text \<open>The address space map as the constants give it: the areas between \<^verbatim>\<open>UTOP\<close> and the
  memory-mapped I/O follow one another, one page table apart, up to \<^verbatim>\<open>KERNBASE\<close> itself,
  where the kernel stack's 4 MB begin. The drawing in \<^verbatim>\<open>inc/memlayout.h\<close> puts every one of
  them 4 MB lower, with \<^verbatim>\<open>KSTACKTOP\<close> at \<^verbatim>\<open>KERNBASE\<close>.\<close>

lemma address_space_map:
  "UTEXT < USTACKTOP \<and> USTACKTOP < UTOP \<and> UTOP = UENVS \<and> UENVS + of_nat PTSIZE = UPAGES
   \<and> UPAGES + of_nat PTSIZE = UVPT \<and> UVPT + of_nat PTSIZE = ULIM \<and> MMIOBASE + of_nat PTSIZE = MMIOLIM
   \<and> MMIOLIM = KERNBASE \<and> KSTACKTOP = KERNBASE + of_nat PTSIZE
   \<and> UVPT = 0xef400000 + of_nat PTSIZE \<and> UTOP = 0xeec00000 + of_nat PTSIZE"
  by (simp add: word_less_nat_alt)

text \<open>\<^verbatim>\<open>ROUNDDOWN\<close> gives the largest multiple below, \<^verbatim>\<open>ROUNDUP\<close> the smallest one above
  while it fits in 32 bits, and \<^verbatim>\<open>ROUNDUP\<close> of a multiple is itself; near the top of the
  address space \<^verbatim>\<open>ROUNDUP\<close> wraps to 0.\<close>

lemma rounding:
  assumes "0 < n" "unat a + unat n \<le> 2 ^ 32"
  shows "unat (ROUNDDOWN a n) = unat a div unat n * unat n
    \<and> unat (ROUNDUP a n) = (unat a + unat n - 1) div unat n * unat n
    \<and> ROUNDDOWN a n \<le> a \<and> a \<le> ROUNDUP a n"
proof -
  have pos: "0 < unat n" using assms(1) by (simp add: word_less_nat_alt)
  have down: "unat (ROUNDDOWN b n) = unat b div unat n * unat n" for b
  proof -
    have "unat (b mod n) = unat b mod unat n" by (simp add: unat_mod)
    moreover have "b mod n \<le> b" by (simp add: word_le_nat_alt unat_mod)
    ultimately have "unat (ROUNDDOWN b n) = unat b - unat b mod unat n"
      by (simp add: ROUNDDOWN_def unat_sub)
    then show ?thesis by (simp add: minus_mod_eq_div_mult)
  qed
  have up: "unat (a + n - 1) = unat a + unat n - 1"
  proof -
    have e: "a + n - 1 = a + (n - 1)" by simp
    have "unat (n - 1) = unat n - 1" using pos by (simp add: unat_sub word_le_nat_alt)
    then show ?thesis
      unfolding e using assms(2) pos unat_add_small [of a "n - 1"] by simp
  qed
  have "unat (ROUNDUP a n) = (unat a + unat n - 1) div unat n * unat n"
    by (simp add: ROUNDUP_def down up)
  moreover have "unat a \<le> (unat a + unat n - 1) div unat n * unat n"
  proof -
    let ?m = "unat a + unat n - 1"
    have "?m div unat n * unat n + ?m mod unat n = ?m" by (rule div_mult_mod_eq)
    moreover have "?m mod unat n < unat n" using pos by simp
    ultimately show ?thesis using pos by linarith
  qed
  ultimately show ?thesis by (simp add: down word_le_nat_alt)
qed

lemma ROUNDUP_wraps: "ROUNDUP 0xFFFFF001 0x1000 = 0"
  by (simp add: ROUNDUP_def ROUNDDOWN_def)

end
