(* ===== verification/Entrypgdir.thy ===== *)
theory Entrypgdir
  imports Mmu
begin

text \<open>
  The boot page directory of \<^verbatim>\<open>kernel/entrypgdir.c\<close>: the table of 1024 entries, written out as in the
  source in eight pieces, and the directory that uses it twice. Where the linker puts the table is the
  parameter \<open>pt\<close>, its kernel address. The lemmas say that no entry of the table is mistyped: entry
  \<open>i\<close> is page \<open>i\<close> of the physical memory, present and writable.
\<close>

unbundle bit_operations_syntax

section \<open>The table\<close>

definition entry_pgtable_0 :: "u32 list" where
  "entry_pgtable_0 =
    [0x000000 OR PTE_P OR PTE_W, 0x001000 OR PTE_P OR PTE_W, 0x002000 OR PTE_P OR PTE_W, 0x003000 OR PTE_P OR PTE_W,
     0x004000 OR PTE_P OR PTE_W, 0x005000 OR PTE_P OR PTE_W, 0x006000 OR PTE_P OR PTE_W, 0x007000 OR PTE_P OR PTE_W,
     0x008000 OR PTE_P OR PTE_W, 0x009000 OR PTE_P OR PTE_W, 0x00a000 OR PTE_P OR PTE_W, 0x00b000 OR PTE_P OR PTE_W,
     0x00c000 OR PTE_P OR PTE_W, 0x00d000 OR PTE_P OR PTE_W, 0x00e000 OR PTE_P OR PTE_W, 0x00f000 OR PTE_P OR PTE_W,
     0x010000 OR PTE_P OR PTE_W, 0x011000 OR PTE_P OR PTE_W, 0x012000 OR PTE_P OR PTE_W, 0x013000 OR PTE_P OR PTE_W,
     0x014000 OR PTE_P OR PTE_W, 0x015000 OR PTE_P OR PTE_W, 0x016000 OR PTE_P OR PTE_W, 0x017000 OR PTE_P OR PTE_W,
     0x018000 OR PTE_P OR PTE_W, 0x019000 OR PTE_P OR PTE_W, 0x01a000 OR PTE_P OR PTE_W, 0x01b000 OR PTE_P OR PTE_W,
     0x01c000 OR PTE_P OR PTE_W, 0x01d000 OR PTE_P OR PTE_W, 0x01e000 OR PTE_P OR PTE_W, 0x01f000 OR PTE_P OR PTE_W,
     0x020000 OR PTE_P OR PTE_W, 0x021000 OR PTE_P OR PTE_W, 0x022000 OR PTE_P OR PTE_W, 0x023000 OR PTE_P OR PTE_W,
     0x024000 OR PTE_P OR PTE_W, 0x025000 OR PTE_P OR PTE_W, 0x026000 OR PTE_P OR PTE_W, 0x027000 OR PTE_P OR PTE_W,
     0x028000 OR PTE_P OR PTE_W, 0x029000 OR PTE_P OR PTE_W, 0x02a000 OR PTE_P OR PTE_W, 0x02b000 OR PTE_P OR PTE_W,
     0x02c000 OR PTE_P OR PTE_W, 0x02d000 OR PTE_P OR PTE_W, 0x02e000 OR PTE_P OR PTE_W, 0x02f000 OR PTE_P OR PTE_W,
     0x030000 OR PTE_P OR PTE_W, 0x031000 OR PTE_P OR PTE_W, 0x032000 OR PTE_P OR PTE_W, 0x033000 OR PTE_P OR PTE_W,
     0x034000 OR PTE_P OR PTE_W, 0x035000 OR PTE_P OR PTE_W, 0x036000 OR PTE_P OR PTE_W, 0x037000 OR PTE_P OR PTE_W,
     0x038000 OR PTE_P OR PTE_W, 0x039000 OR PTE_P OR PTE_W, 0x03a000 OR PTE_P OR PTE_W, 0x03b000 OR PTE_P OR PTE_W,
     0x03c000 OR PTE_P OR PTE_W, 0x03d000 OR PTE_P OR PTE_W, 0x03e000 OR PTE_P OR PTE_W, 0x03f000 OR PTE_P OR PTE_W,
     0x040000 OR PTE_P OR PTE_W, 0x041000 OR PTE_P OR PTE_W, 0x042000 OR PTE_P OR PTE_W, 0x043000 OR PTE_P OR PTE_W,
     0x044000 OR PTE_P OR PTE_W, 0x045000 OR PTE_P OR PTE_W, 0x046000 OR PTE_P OR PTE_W, 0x047000 OR PTE_P OR PTE_W,
     0x048000 OR PTE_P OR PTE_W, 0x049000 OR PTE_P OR PTE_W, 0x04a000 OR PTE_P OR PTE_W, 0x04b000 OR PTE_P OR PTE_W,
     0x04c000 OR PTE_P OR PTE_W, 0x04d000 OR PTE_P OR PTE_W, 0x04e000 OR PTE_P OR PTE_W, 0x04f000 OR PTE_P OR PTE_W,
     0x050000 OR PTE_P OR PTE_W, 0x051000 OR PTE_P OR PTE_W, 0x052000 OR PTE_P OR PTE_W, 0x053000 OR PTE_P OR PTE_W,
     0x054000 OR PTE_P OR PTE_W, 0x055000 OR PTE_P OR PTE_W, 0x056000 OR PTE_P OR PTE_W, 0x057000 OR PTE_P OR PTE_W,
     0x058000 OR PTE_P OR PTE_W, 0x059000 OR PTE_P OR PTE_W, 0x05a000 OR PTE_P OR PTE_W, 0x05b000 OR PTE_P OR PTE_W,
     0x05c000 OR PTE_P OR PTE_W, 0x05d000 OR PTE_P OR PTE_W, 0x05e000 OR PTE_P OR PTE_W, 0x05f000 OR PTE_P OR PTE_W,
     0x060000 OR PTE_P OR PTE_W, 0x061000 OR PTE_P OR PTE_W, 0x062000 OR PTE_P OR PTE_W, 0x063000 OR PTE_P OR PTE_W,
     0x064000 OR PTE_P OR PTE_W, 0x065000 OR PTE_P OR PTE_W, 0x066000 OR PTE_P OR PTE_W, 0x067000 OR PTE_P OR PTE_W,
     0x068000 OR PTE_P OR PTE_W, 0x069000 OR PTE_P OR PTE_W, 0x06a000 OR PTE_P OR PTE_W, 0x06b000 OR PTE_P OR PTE_W,
     0x06c000 OR PTE_P OR PTE_W, 0x06d000 OR PTE_P OR PTE_W, 0x06e000 OR PTE_P OR PTE_W, 0x06f000 OR PTE_P OR PTE_W,
     0x070000 OR PTE_P OR PTE_W, 0x071000 OR PTE_P OR PTE_W, 0x072000 OR PTE_P OR PTE_W, 0x073000 OR PTE_P OR PTE_W,
     0x074000 OR PTE_P OR PTE_W, 0x075000 OR PTE_P OR PTE_W, 0x076000 OR PTE_P OR PTE_W, 0x077000 OR PTE_P OR PTE_W,
     0x078000 OR PTE_P OR PTE_W, 0x079000 OR PTE_P OR PTE_W, 0x07a000 OR PTE_P OR PTE_W, 0x07b000 OR PTE_P OR PTE_W,
     0x07c000 OR PTE_P OR PTE_W, 0x07d000 OR PTE_P OR PTE_W, 0x07e000 OR PTE_P OR PTE_W, 0x07f000 OR PTE_P OR PTE_W]"

definition entry_pgtable_1 :: "u32 list" where
  "entry_pgtable_1 =
    [0x080000 OR PTE_P OR PTE_W, 0x081000 OR PTE_P OR PTE_W, 0x082000 OR PTE_P OR PTE_W, 0x083000 OR PTE_P OR PTE_W,
     0x084000 OR PTE_P OR PTE_W, 0x085000 OR PTE_P OR PTE_W, 0x086000 OR PTE_P OR PTE_W, 0x087000 OR PTE_P OR PTE_W,
     0x088000 OR PTE_P OR PTE_W, 0x089000 OR PTE_P OR PTE_W, 0x08a000 OR PTE_P OR PTE_W, 0x08b000 OR PTE_P OR PTE_W,
     0x08c000 OR PTE_P OR PTE_W, 0x08d000 OR PTE_P OR PTE_W, 0x08e000 OR PTE_P OR PTE_W, 0x08f000 OR PTE_P OR PTE_W,
     0x090000 OR PTE_P OR PTE_W, 0x091000 OR PTE_P OR PTE_W, 0x092000 OR PTE_P OR PTE_W, 0x093000 OR PTE_P OR PTE_W,
     0x094000 OR PTE_P OR PTE_W, 0x095000 OR PTE_P OR PTE_W, 0x096000 OR PTE_P OR PTE_W, 0x097000 OR PTE_P OR PTE_W,
     0x098000 OR PTE_P OR PTE_W, 0x099000 OR PTE_P OR PTE_W, 0x09a000 OR PTE_P OR PTE_W, 0x09b000 OR PTE_P OR PTE_W,
     0x09c000 OR PTE_P OR PTE_W, 0x09d000 OR PTE_P OR PTE_W, 0x09e000 OR PTE_P OR PTE_W, 0x09f000 OR PTE_P OR PTE_W,
     0x0a0000 OR PTE_P OR PTE_W, 0x0a1000 OR PTE_P OR PTE_W, 0x0a2000 OR PTE_P OR PTE_W, 0x0a3000 OR PTE_P OR PTE_W,
     0x0a4000 OR PTE_P OR PTE_W, 0x0a5000 OR PTE_P OR PTE_W, 0x0a6000 OR PTE_P OR PTE_W, 0x0a7000 OR PTE_P OR PTE_W,
     0x0a8000 OR PTE_P OR PTE_W, 0x0a9000 OR PTE_P OR PTE_W, 0x0aa000 OR PTE_P OR PTE_W, 0x0ab000 OR PTE_P OR PTE_W,
     0x0ac000 OR PTE_P OR PTE_W, 0x0ad000 OR PTE_P OR PTE_W, 0x0ae000 OR PTE_P OR PTE_W, 0x0af000 OR PTE_P OR PTE_W,
     0x0b0000 OR PTE_P OR PTE_W, 0x0b1000 OR PTE_P OR PTE_W, 0x0b2000 OR PTE_P OR PTE_W, 0x0b3000 OR PTE_P OR PTE_W,
     0x0b4000 OR PTE_P OR PTE_W, 0x0b5000 OR PTE_P OR PTE_W, 0x0b6000 OR PTE_P OR PTE_W, 0x0b7000 OR PTE_P OR PTE_W,
     0x0b8000 OR PTE_P OR PTE_W, 0x0b9000 OR PTE_P OR PTE_W, 0x0ba000 OR PTE_P OR PTE_W, 0x0bb000 OR PTE_P OR PTE_W,
     0x0bc000 OR PTE_P OR PTE_W, 0x0bd000 OR PTE_P OR PTE_W, 0x0be000 OR PTE_P OR PTE_W, 0x0bf000 OR PTE_P OR PTE_W,
     0x0c0000 OR PTE_P OR PTE_W, 0x0c1000 OR PTE_P OR PTE_W, 0x0c2000 OR PTE_P OR PTE_W, 0x0c3000 OR PTE_P OR PTE_W,
     0x0c4000 OR PTE_P OR PTE_W, 0x0c5000 OR PTE_P OR PTE_W, 0x0c6000 OR PTE_P OR PTE_W, 0x0c7000 OR PTE_P OR PTE_W,
     0x0c8000 OR PTE_P OR PTE_W, 0x0c9000 OR PTE_P OR PTE_W, 0x0ca000 OR PTE_P OR PTE_W, 0x0cb000 OR PTE_P OR PTE_W,
     0x0cc000 OR PTE_P OR PTE_W, 0x0cd000 OR PTE_P OR PTE_W, 0x0ce000 OR PTE_P OR PTE_W, 0x0cf000 OR PTE_P OR PTE_W,
     0x0d0000 OR PTE_P OR PTE_W, 0x0d1000 OR PTE_P OR PTE_W, 0x0d2000 OR PTE_P OR PTE_W, 0x0d3000 OR PTE_P OR PTE_W,
     0x0d4000 OR PTE_P OR PTE_W, 0x0d5000 OR PTE_P OR PTE_W, 0x0d6000 OR PTE_P OR PTE_W, 0x0d7000 OR PTE_P OR PTE_W,
     0x0d8000 OR PTE_P OR PTE_W, 0x0d9000 OR PTE_P OR PTE_W, 0x0da000 OR PTE_P OR PTE_W, 0x0db000 OR PTE_P OR PTE_W,
     0x0dc000 OR PTE_P OR PTE_W, 0x0dd000 OR PTE_P OR PTE_W, 0x0de000 OR PTE_P OR PTE_W, 0x0df000 OR PTE_P OR PTE_W,
     0x0e0000 OR PTE_P OR PTE_W, 0x0e1000 OR PTE_P OR PTE_W, 0x0e2000 OR PTE_P OR PTE_W, 0x0e3000 OR PTE_P OR PTE_W,
     0x0e4000 OR PTE_P OR PTE_W, 0x0e5000 OR PTE_P OR PTE_W, 0x0e6000 OR PTE_P OR PTE_W, 0x0e7000 OR PTE_P OR PTE_W,
     0x0e8000 OR PTE_P OR PTE_W, 0x0e9000 OR PTE_P OR PTE_W, 0x0ea000 OR PTE_P OR PTE_W, 0x0eb000 OR PTE_P OR PTE_W,
     0x0ec000 OR PTE_P OR PTE_W, 0x0ed000 OR PTE_P OR PTE_W, 0x0ee000 OR PTE_P OR PTE_W, 0x0ef000 OR PTE_P OR PTE_W,
     0x0f0000 OR PTE_P OR PTE_W, 0x0f1000 OR PTE_P OR PTE_W, 0x0f2000 OR PTE_P OR PTE_W, 0x0f3000 OR PTE_P OR PTE_W,
     0x0f4000 OR PTE_P OR PTE_W, 0x0f5000 OR PTE_P OR PTE_W, 0x0f6000 OR PTE_P OR PTE_W, 0x0f7000 OR PTE_P OR PTE_W,
     0x0f8000 OR PTE_P OR PTE_W, 0x0f9000 OR PTE_P OR PTE_W, 0x0fa000 OR PTE_P OR PTE_W, 0x0fb000 OR PTE_P OR PTE_W,
     0x0fc000 OR PTE_P OR PTE_W, 0x0fd000 OR PTE_P OR PTE_W, 0x0fe000 OR PTE_P OR PTE_W, 0x0ff000 OR PTE_P OR PTE_W]"

definition entry_pgtable_2 :: "u32 list" where
  "entry_pgtable_2 =
    [0x100000 OR PTE_P OR PTE_W, 0x101000 OR PTE_P OR PTE_W, 0x102000 OR PTE_P OR PTE_W, 0x103000 OR PTE_P OR PTE_W,
     0x104000 OR PTE_P OR PTE_W, 0x105000 OR PTE_P OR PTE_W, 0x106000 OR PTE_P OR PTE_W, 0x107000 OR PTE_P OR PTE_W,
     0x108000 OR PTE_P OR PTE_W, 0x109000 OR PTE_P OR PTE_W, 0x10a000 OR PTE_P OR PTE_W, 0x10b000 OR PTE_P OR PTE_W,
     0x10c000 OR PTE_P OR PTE_W, 0x10d000 OR PTE_P OR PTE_W, 0x10e000 OR PTE_P OR PTE_W, 0x10f000 OR PTE_P OR PTE_W,
     0x110000 OR PTE_P OR PTE_W, 0x111000 OR PTE_P OR PTE_W, 0x112000 OR PTE_P OR PTE_W, 0x113000 OR PTE_P OR PTE_W,
     0x114000 OR PTE_P OR PTE_W, 0x115000 OR PTE_P OR PTE_W, 0x116000 OR PTE_P OR PTE_W, 0x117000 OR PTE_P OR PTE_W,
     0x118000 OR PTE_P OR PTE_W, 0x119000 OR PTE_P OR PTE_W, 0x11a000 OR PTE_P OR PTE_W, 0x11b000 OR PTE_P OR PTE_W,
     0x11c000 OR PTE_P OR PTE_W, 0x11d000 OR PTE_P OR PTE_W, 0x11e000 OR PTE_P OR PTE_W, 0x11f000 OR PTE_P OR PTE_W,
     0x120000 OR PTE_P OR PTE_W, 0x121000 OR PTE_P OR PTE_W, 0x122000 OR PTE_P OR PTE_W, 0x123000 OR PTE_P OR PTE_W,
     0x124000 OR PTE_P OR PTE_W, 0x125000 OR PTE_P OR PTE_W, 0x126000 OR PTE_P OR PTE_W, 0x127000 OR PTE_P OR PTE_W,
     0x128000 OR PTE_P OR PTE_W, 0x129000 OR PTE_P OR PTE_W, 0x12a000 OR PTE_P OR PTE_W, 0x12b000 OR PTE_P OR PTE_W,
     0x12c000 OR PTE_P OR PTE_W, 0x12d000 OR PTE_P OR PTE_W, 0x12e000 OR PTE_P OR PTE_W, 0x12f000 OR PTE_P OR PTE_W,
     0x130000 OR PTE_P OR PTE_W, 0x131000 OR PTE_P OR PTE_W, 0x132000 OR PTE_P OR PTE_W, 0x133000 OR PTE_P OR PTE_W,
     0x134000 OR PTE_P OR PTE_W, 0x135000 OR PTE_P OR PTE_W, 0x136000 OR PTE_P OR PTE_W, 0x137000 OR PTE_P OR PTE_W,
     0x138000 OR PTE_P OR PTE_W, 0x139000 OR PTE_P OR PTE_W, 0x13a000 OR PTE_P OR PTE_W, 0x13b000 OR PTE_P OR PTE_W,
     0x13c000 OR PTE_P OR PTE_W, 0x13d000 OR PTE_P OR PTE_W, 0x13e000 OR PTE_P OR PTE_W, 0x13f000 OR PTE_P OR PTE_W,
     0x140000 OR PTE_P OR PTE_W, 0x141000 OR PTE_P OR PTE_W, 0x142000 OR PTE_P OR PTE_W, 0x143000 OR PTE_P OR PTE_W,
     0x144000 OR PTE_P OR PTE_W, 0x145000 OR PTE_P OR PTE_W, 0x146000 OR PTE_P OR PTE_W, 0x147000 OR PTE_P OR PTE_W,
     0x148000 OR PTE_P OR PTE_W, 0x149000 OR PTE_P OR PTE_W, 0x14a000 OR PTE_P OR PTE_W, 0x14b000 OR PTE_P OR PTE_W,
     0x14c000 OR PTE_P OR PTE_W, 0x14d000 OR PTE_P OR PTE_W, 0x14e000 OR PTE_P OR PTE_W, 0x14f000 OR PTE_P OR PTE_W,
     0x150000 OR PTE_P OR PTE_W, 0x151000 OR PTE_P OR PTE_W, 0x152000 OR PTE_P OR PTE_W, 0x153000 OR PTE_P OR PTE_W,
     0x154000 OR PTE_P OR PTE_W, 0x155000 OR PTE_P OR PTE_W, 0x156000 OR PTE_P OR PTE_W, 0x157000 OR PTE_P OR PTE_W,
     0x158000 OR PTE_P OR PTE_W, 0x159000 OR PTE_P OR PTE_W, 0x15a000 OR PTE_P OR PTE_W, 0x15b000 OR PTE_P OR PTE_W,
     0x15c000 OR PTE_P OR PTE_W, 0x15d000 OR PTE_P OR PTE_W, 0x15e000 OR PTE_P OR PTE_W, 0x15f000 OR PTE_P OR PTE_W,
     0x160000 OR PTE_P OR PTE_W, 0x161000 OR PTE_P OR PTE_W, 0x162000 OR PTE_P OR PTE_W, 0x163000 OR PTE_P OR PTE_W,
     0x164000 OR PTE_P OR PTE_W, 0x165000 OR PTE_P OR PTE_W, 0x166000 OR PTE_P OR PTE_W, 0x167000 OR PTE_P OR PTE_W,
     0x168000 OR PTE_P OR PTE_W, 0x169000 OR PTE_P OR PTE_W, 0x16a000 OR PTE_P OR PTE_W, 0x16b000 OR PTE_P OR PTE_W,
     0x16c000 OR PTE_P OR PTE_W, 0x16d000 OR PTE_P OR PTE_W, 0x16e000 OR PTE_P OR PTE_W, 0x16f000 OR PTE_P OR PTE_W,
     0x170000 OR PTE_P OR PTE_W, 0x171000 OR PTE_P OR PTE_W, 0x172000 OR PTE_P OR PTE_W, 0x173000 OR PTE_P OR PTE_W,
     0x174000 OR PTE_P OR PTE_W, 0x175000 OR PTE_P OR PTE_W, 0x176000 OR PTE_P OR PTE_W, 0x177000 OR PTE_P OR PTE_W,
     0x178000 OR PTE_P OR PTE_W, 0x179000 OR PTE_P OR PTE_W, 0x17a000 OR PTE_P OR PTE_W, 0x17b000 OR PTE_P OR PTE_W,
     0x17c000 OR PTE_P OR PTE_W, 0x17d000 OR PTE_P OR PTE_W, 0x17e000 OR PTE_P OR PTE_W, 0x17f000 OR PTE_P OR PTE_W]"

definition entry_pgtable_3 :: "u32 list" where
  "entry_pgtable_3 =
    [0x180000 OR PTE_P OR PTE_W, 0x181000 OR PTE_P OR PTE_W, 0x182000 OR PTE_P OR PTE_W, 0x183000 OR PTE_P OR PTE_W,
     0x184000 OR PTE_P OR PTE_W, 0x185000 OR PTE_P OR PTE_W, 0x186000 OR PTE_P OR PTE_W, 0x187000 OR PTE_P OR PTE_W,
     0x188000 OR PTE_P OR PTE_W, 0x189000 OR PTE_P OR PTE_W, 0x18a000 OR PTE_P OR PTE_W, 0x18b000 OR PTE_P OR PTE_W,
     0x18c000 OR PTE_P OR PTE_W, 0x18d000 OR PTE_P OR PTE_W, 0x18e000 OR PTE_P OR PTE_W, 0x18f000 OR PTE_P OR PTE_W,
     0x190000 OR PTE_P OR PTE_W, 0x191000 OR PTE_P OR PTE_W, 0x192000 OR PTE_P OR PTE_W, 0x193000 OR PTE_P OR PTE_W,
     0x194000 OR PTE_P OR PTE_W, 0x195000 OR PTE_P OR PTE_W, 0x196000 OR PTE_P OR PTE_W, 0x197000 OR PTE_P OR PTE_W,
     0x198000 OR PTE_P OR PTE_W, 0x199000 OR PTE_P OR PTE_W, 0x19a000 OR PTE_P OR PTE_W, 0x19b000 OR PTE_P OR PTE_W,
     0x19c000 OR PTE_P OR PTE_W, 0x19d000 OR PTE_P OR PTE_W, 0x19e000 OR PTE_P OR PTE_W, 0x19f000 OR PTE_P OR PTE_W,
     0x1a0000 OR PTE_P OR PTE_W, 0x1a1000 OR PTE_P OR PTE_W, 0x1a2000 OR PTE_P OR PTE_W, 0x1a3000 OR PTE_P OR PTE_W,
     0x1a4000 OR PTE_P OR PTE_W, 0x1a5000 OR PTE_P OR PTE_W, 0x1a6000 OR PTE_P OR PTE_W, 0x1a7000 OR PTE_P OR PTE_W,
     0x1a8000 OR PTE_P OR PTE_W, 0x1a9000 OR PTE_P OR PTE_W, 0x1aa000 OR PTE_P OR PTE_W, 0x1ab000 OR PTE_P OR PTE_W,
     0x1ac000 OR PTE_P OR PTE_W, 0x1ad000 OR PTE_P OR PTE_W, 0x1ae000 OR PTE_P OR PTE_W, 0x1af000 OR PTE_P OR PTE_W,
     0x1b0000 OR PTE_P OR PTE_W, 0x1b1000 OR PTE_P OR PTE_W, 0x1b2000 OR PTE_P OR PTE_W, 0x1b3000 OR PTE_P OR PTE_W,
     0x1b4000 OR PTE_P OR PTE_W, 0x1b5000 OR PTE_P OR PTE_W, 0x1b6000 OR PTE_P OR PTE_W, 0x1b7000 OR PTE_P OR PTE_W,
     0x1b8000 OR PTE_P OR PTE_W, 0x1b9000 OR PTE_P OR PTE_W, 0x1ba000 OR PTE_P OR PTE_W, 0x1bb000 OR PTE_P OR PTE_W,
     0x1bc000 OR PTE_P OR PTE_W, 0x1bd000 OR PTE_P OR PTE_W, 0x1be000 OR PTE_P OR PTE_W, 0x1bf000 OR PTE_P OR PTE_W,
     0x1c0000 OR PTE_P OR PTE_W, 0x1c1000 OR PTE_P OR PTE_W, 0x1c2000 OR PTE_P OR PTE_W, 0x1c3000 OR PTE_P OR PTE_W,
     0x1c4000 OR PTE_P OR PTE_W, 0x1c5000 OR PTE_P OR PTE_W, 0x1c6000 OR PTE_P OR PTE_W, 0x1c7000 OR PTE_P OR PTE_W,
     0x1c8000 OR PTE_P OR PTE_W, 0x1c9000 OR PTE_P OR PTE_W, 0x1ca000 OR PTE_P OR PTE_W, 0x1cb000 OR PTE_P OR PTE_W,
     0x1cc000 OR PTE_P OR PTE_W, 0x1cd000 OR PTE_P OR PTE_W, 0x1ce000 OR PTE_P OR PTE_W, 0x1cf000 OR PTE_P OR PTE_W,
     0x1d0000 OR PTE_P OR PTE_W, 0x1d1000 OR PTE_P OR PTE_W, 0x1d2000 OR PTE_P OR PTE_W, 0x1d3000 OR PTE_P OR PTE_W,
     0x1d4000 OR PTE_P OR PTE_W, 0x1d5000 OR PTE_P OR PTE_W, 0x1d6000 OR PTE_P OR PTE_W, 0x1d7000 OR PTE_P OR PTE_W,
     0x1d8000 OR PTE_P OR PTE_W, 0x1d9000 OR PTE_P OR PTE_W, 0x1da000 OR PTE_P OR PTE_W, 0x1db000 OR PTE_P OR PTE_W,
     0x1dc000 OR PTE_P OR PTE_W, 0x1dd000 OR PTE_P OR PTE_W, 0x1de000 OR PTE_P OR PTE_W, 0x1df000 OR PTE_P OR PTE_W,
     0x1e0000 OR PTE_P OR PTE_W, 0x1e1000 OR PTE_P OR PTE_W, 0x1e2000 OR PTE_P OR PTE_W, 0x1e3000 OR PTE_P OR PTE_W,
     0x1e4000 OR PTE_P OR PTE_W, 0x1e5000 OR PTE_P OR PTE_W, 0x1e6000 OR PTE_P OR PTE_W, 0x1e7000 OR PTE_P OR PTE_W,
     0x1e8000 OR PTE_P OR PTE_W, 0x1e9000 OR PTE_P OR PTE_W, 0x1ea000 OR PTE_P OR PTE_W, 0x1eb000 OR PTE_P OR PTE_W,
     0x1ec000 OR PTE_P OR PTE_W, 0x1ed000 OR PTE_P OR PTE_W, 0x1ee000 OR PTE_P OR PTE_W, 0x1ef000 OR PTE_P OR PTE_W,
     0x1f0000 OR PTE_P OR PTE_W, 0x1f1000 OR PTE_P OR PTE_W, 0x1f2000 OR PTE_P OR PTE_W, 0x1f3000 OR PTE_P OR PTE_W,
     0x1f4000 OR PTE_P OR PTE_W, 0x1f5000 OR PTE_P OR PTE_W, 0x1f6000 OR PTE_P OR PTE_W, 0x1f7000 OR PTE_P OR PTE_W,
     0x1f8000 OR PTE_P OR PTE_W, 0x1f9000 OR PTE_P OR PTE_W, 0x1fa000 OR PTE_P OR PTE_W, 0x1fb000 OR PTE_P OR PTE_W,
     0x1fc000 OR PTE_P OR PTE_W, 0x1fd000 OR PTE_P OR PTE_W, 0x1fe000 OR PTE_P OR PTE_W, 0x1ff000 OR PTE_P OR PTE_W]"

definition entry_pgtable_4 :: "u32 list" where
  "entry_pgtable_4 =
    [0x200000 OR PTE_P OR PTE_W, 0x201000 OR PTE_P OR PTE_W, 0x202000 OR PTE_P OR PTE_W, 0x203000 OR PTE_P OR PTE_W,
     0x204000 OR PTE_P OR PTE_W, 0x205000 OR PTE_P OR PTE_W, 0x206000 OR PTE_P OR PTE_W, 0x207000 OR PTE_P OR PTE_W,
     0x208000 OR PTE_P OR PTE_W, 0x209000 OR PTE_P OR PTE_W, 0x20a000 OR PTE_P OR PTE_W, 0x20b000 OR PTE_P OR PTE_W,
     0x20c000 OR PTE_P OR PTE_W, 0x20d000 OR PTE_P OR PTE_W, 0x20e000 OR PTE_P OR PTE_W, 0x20f000 OR PTE_P OR PTE_W,
     0x210000 OR PTE_P OR PTE_W, 0x211000 OR PTE_P OR PTE_W, 0x212000 OR PTE_P OR PTE_W, 0x213000 OR PTE_P OR PTE_W,
     0x214000 OR PTE_P OR PTE_W, 0x215000 OR PTE_P OR PTE_W, 0x216000 OR PTE_P OR PTE_W, 0x217000 OR PTE_P OR PTE_W,
     0x218000 OR PTE_P OR PTE_W, 0x219000 OR PTE_P OR PTE_W, 0x21a000 OR PTE_P OR PTE_W, 0x21b000 OR PTE_P OR PTE_W,
     0x21c000 OR PTE_P OR PTE_W, 0x21d000 OR PTE_P OR PTE_W, 0x21e000 OR PTE_P OR PTE_W, 0x21f000 OR PTE_P OR PTE_W,
     0x220000 OR PTE_P OR PTE_W, 0x221000 OR PTE_P OR PTE_W, 0x222000 OR PTE_P OR PTE_W, 0x223000 OR PTE_P OR PTE_W,
     0x224000 OR PTE_P OR PTE_W, 0x225000 OR PTE_P OR PTE_W, 0x226000 OR PTE_P OR PTE_W, 0x227000 OR PTE_P OR PTE_W,
     0x228000 OR PTE_P OR PTE_W, 0x229000 OR PTE_P OR PTE_W, 0x22a000 OR PTE_P OR PTE_W, 0x22b000 OR PTE_P OR PTE_W,
     0x22c000 OR PTE_P OR PTE_W, 0x22d000 OR PTE_P OR PTE_W, 0x22e000 OR PTE_P OR PTE_W, 0x22f000 OR PTE_P OR PTE_W,
     0x230000 OR PTE_P OR PTE_W, 0x231000 OR PTE_P OR PTE_W, 0x232000 OR PTE_P OR PTE_W, 0x233000 OR PTE_P OR PTE_W,
     0x234000 OR PTE_P OR PTE_W, 0x235000 OR PTE_P OR PTE_W, 0x236000 OR PTE_P OR PTE_W, 0x237000 OR PTE_P OR PTE_W,
     0x238000 OR PTE_P OR PTE_W, 0x239000 OR PTE_P OR PTE_W, 0x23a000 OR PTE_P OR PTE_W, 0x23b000 OR PTE_P OR PTE_W,
     0x23c000 OR PTE_P OR PTE_W, 0x23d000 OR PTE_P OR PTE_W, 0x23e000 OR PTE_P OR PTE_W, 0x23f000 OR PTE_P OR PTE_W,
     0x240000 OR PTE_P OR PTE_W, 0x241000 OR PTE_P OR PTE_W, 0x242000 OR PTE_P OR PTE_W, 0x243000 OR PTE_P OR PTE_W,
     0x244000 OR PTE_P OR PTE_W, 0x245000 OR PTE_P OR PTE_W, 0x246000 OR PTE_P OR PTE_W, 0x247000 OR PTE_P OR PTE_W,
     0x248000 OR PTE_P OR PTE_W, 0x249000 OR PTE_P OR PTE_W, 0x24a000 OR PTE_P OR PTE_W, 0x24b000 OR PTE_P OR PTE_W,
     0x24c000 OR PTE_P OR PTE_W, 0x24d000 OR PTE_P OR PTE_W, 0x24e000 OR PTE_P OR PTE_W, 0x24f000 OR PTE_P OR PTE_W,
     0x250000 OR PTE_P OR PTE_W, 0x251000 OR PTE_P OR PTE_W, 0x252000 OR PTE_P OR PTE_W, 0x253000 OR PTE_P OR PTE_W,
     0x254000 OR PTE_P OR PTE_W, 0x255000 OR PTE_P OR PTE_W, 0x256000 OR PTE_P OR PTE_W, 0x257000 OR PTE_P OR PTE_W,
     0x258000 OR PTE_P OR PTE_W, 0x259000 OR PTE_P OR PTE_W, 0x25a000 OR PTE_P OR PTE_W, 0x25b000 OR PTE_P OR PTE_W,
     0x25c000 OR PTE_P OR PTE_W, 0x25d000 OR PTE_P OR PTE_W, 0x25e000 OR PTE_P OR PTE_W, 0x25f000 OR PTE_P OR PTE_W,
     0x260000 OR PTE_P OR PTE_W, 0x261000 OR PTE_P OR PTE_W, 0x262000 OR PTE_P OR PTE_W, 0x263000 OR PTE_P OR PTE_W,
     0x264000 OR PTE_P OR PTE_W, 0x265000 OR PTE_P OR PTE_W, 0x266000 OR PTE_P OR PTE_W, 0x267000 OR PTE_P OR PTE_W,
     0x268000 OR PTE_P OR PTE_W, 0x269000 OR PTE_P OR PTE_W, 0x26a000 OR PTE_P OR PTE_W, 0x26b000 OR PTE_P OR PTE_W,
     0x26c000 OR PTE_P OR PTE_W, 0x26d000 OR PTE_P OR PTE_W, 0x26e000 OR PTE_P OR PTE_W, 0x26f000 OR PTE_P OR PTE_W,
     0x270000 OR PTE_P OR PTE_W, 0x271000 OR PTE_P OR PTE_W, 0x272000 OR PTE_P OR PTE_W, 0x273000 OR PTE_P OR PTE_W,
     0x274000 OR PTE_P OR PTE_W, 0x275000 OR PTE_P OR PTE_W, 0x276000 OR PTE_P OR PTE_W, 0x277000 OR PTE_P OR PTE_W,
     0x278000 OR PTE_P OR PTE_W, 0x279000 OR PTE_P OR PTE_W, 0x27a000 OR PTE_P OR PTE_W, 0x27b000 OR PTE_P OR PTE_W,
     0x27c000 OR PTE_P OR PTE_W, 0x27d000 OR PTE_P OR PTE_W, 0x27e000 OR PTE_P OR PTE_W, 0x27f000 OR PTE_P OR PTE_W]"

definition entry_pgtable_5 :: "u32 list" where
  "entry_pgtable_5 =
    [0x280000 OR PTE_P OR PTE_W, 0x281000 OR PTE_P OR PTE_W, 0x282000 OR PTE_P OR PTE_W, 0x283000 OR PTE_P OR PTE_W,
     0x284000 OR PTE_P OR PTE_W, 0x285000 OR PTE_P OR PTE_W, 0x286000 OR PTE_P OR PTE_W, 0x287000 OR PTE_P OR PTE_W,
     0x288000 OR PTE_P OR PTE_W, 0x289000 OR PTE_P OR PTE_W, 0x28a000 OR PTE_P OR PTE_W, 0x28b000 OR PTE_P OR PTE_W,
     0x28c000 OR PTE_P OR PTE_W, 0x28d000 OR PTE_P OR PTE_W, 0x28e000 OR PTE_P OR PTE_W, 0x28f000 OR PTE_P OR PTE_W,
     0x290000 OR PTE_P OR PTE_W, 0x291000 OR PTE_P OR PTE_W, 0x292000 OR PTE_P OR PTE_W, 0x293000 OR PTE_P OR PTE_W,
     0x294000 OR PTE_P OR PTE_W, 0x295000 OR PTE_P OR PTE_W, 0x296000 OR PTE_P OR PTE_W, 0x297000 OR PTE_P OR PTE_W,
     0x298000 OR PTE_P OR PTE_W, 0x299000 OR PTE_P OR PTE_W, 0x29a000 OR PTE_P OR PTE_W, 0x29b000 OR PTE_P OR PTE_W,
     0x29c000 OR PTE_P OR PTE_W, 0x29d000 OR PTE_P OR PTE_W, 0x29e000 OR PTE_P OR PTE_W, 0x29f000 OR PTE_P OR PTE_W,
     0x2a0000 OR PTE_P OR PTE_W, 0x2a1000 OR PTE_P OR PTE_W, 0x2a2000 OR PTE_P OR PTE_W, 0x2a3000 OR PTE_P OR PTE_W,
     0x2a4000 OR PTE_P OR PTE_W, 0x2a5000 OR PTE_P OR PTE_W, 0x2a6000 OR PTE_P OR PTE_W, 0x2a7000 OR PTE_P OR PTE_W,
     0x2a8000 OR PTE_P OR PTE_W, 0x2a9000 OR PTE_P OR PTE_W, 0x2aa000 OR PTE_P OR PTE_W, 0x2ab000 OR PTE_P OR PTE_W,
     0x2ac000 OR PTE_P OR PTE_W, 0x2ad000 OR PTE_P OR PTE_W, 0x2ae000 OR PTE_P OR PTE_W, 0x2af000 OR PTE_P OR PTE_W,
     0x2b0000 OR PTE_P OR PTE_W, 0x2b1000 OR PTE_P OR PTE_W, 0x2b2000 OR PTE_P OR PTE_W, 0x2b3000 OR PTE_P OR PTE_W,
     0x2b4000 OR PTE_P OR PTE_W, 0x2b5000 OR PTE_P OR PTE_W, 0x2b6000 OR PTE_P OR PTE_W, 0x2b7000 OR PTE_P OR PTE_W,
     0x2b8000 OR PTE_P OR PTE_W, 0x2b9000 OR PTE_P OR PTE_W, 0x2ba000 OR PTE_P OR PTE_W, 0x2bb000 OR PTE_P OR PTE_W,
     0x2bc000 OR PTE_P OR PTE_W, 0x2bd000 OR PTE_P OR PTE_W, 0x2be000 OR PTE_P OR PTE_W, 0x2bf000 OR PTE_P OR PTE_W,
     0x2c0000 OR PTE_P OR PTE_W, 0x2c1000 OR PTE_P OR PTE_W, 0x2c2000 OR PTE_P OR PTE_W, 0x2c3000 OR PTE_P OR PTE_W,
     0x2c4000 OR PTE_P OR PTE_W, 0x2c5000 OR PTE_P OR PTE_W, 0x2c6000 OR PTE_P OR PTE_W, 0x2c7000 OR PTE_P OR PTE_W,
     0x2c8000 OR PTE_P OR PTE_W, 0x2c9000 OR PTE_P OR PTE_W, 0x2ca000 OR PTE_P OR PTE_W, 0x2cb000 OR PTE_P OR PTE_W,
     0x2cc000 OR PTE_P OR PTE_W, 0x2cd000 OR PTE_P OR PTE_W, 0x2ce000 OR PTE_P OR PTE_W, 0x2cf000 OR PTE_P OR PTE_W,
     0x2d0000 OR PTE_P OR PTE_W, 0x2d1000 OR PTE_P OR PTE_W, 0x2d2000 OR PTE_P OR PTE_W, 0x2d3000 OR PTE_P OR PTE_W,
     0x2d4000 OR PTE_P OR PTE_W, 0x2d5000 OR PTE_P OR PTE_W, 0x2d6000 OR PTE_P OR PTE_W, 0x2d7000 OR PTE_P OR PTE_W,
     0x2d8000 OR PTE_P OR PTE_W, 0x2d9000 OR PTE_P OR PTE_W, 0x2da000 OR PTE_P OR PTE_W, 0x2db000 OR PTE_P OR PTE_W,
     0x2dc000 OR PTE_P OR PTE_W, 0x2dd000 OR PTE_P OR PTE_W, 0x2de000 OR PTE_P OR PTE_W, 0x2df000 OR PTE_P OR PTE_W,
     0x2e0000 OR PTE_P OR PTE_W, 0x2e1000 OR PTE_P OR PTE_W, 0x2e2000 OR PTE_P OR PTE_W, 0x2e3000 OR PTE_P OR PTE_W,
     0x2e4000 OR PTE_P OR PTE_W, 0x2e5000 OR PTE_P OR PTE_W, 0x2e6000 OR PTE_P OR PTE_W, 0x2e7000 OR PTE_P OR PTE_W,
     0x2e8000 OR PTE_P OR PTE_W, 0x2e9000 OR PTE_P OR PTE_W, 0x2ea000 OR PTE_P OR PTE_W, 0x2eb000 OR PTE_P OR PTE_W,
     0x2ec000 OR PTE_P OR PTE_W, 0x2ed000 OR PTE_P OR PTE_W, 0x2ee000 OR PTE_P OR PTE_W, 0x2ef000 OR PTE_P OR PTE_W,
     0x2f0000 OR PTE_P OR PTE_W, 0x2f1000 OR PTE_P OR PTE_W, 0x2f2000 OR PTE_P OR PTE_W, 0x2f3000 OR PTE_P OR PTE_W,
     0x2f4000 OR PTE_P OR PTE_W, 0x2f5000 OR PTE_P OR PTE_W, 0x2f6000 OR PTE_P OR PTE_W, 0x2f7000 OR PTE_P OR PTE_W,
     0x2f8000 OR PTE_P OR PTE_W, 0x2f9000 OR PTE_P OR PTE_W, 0x2fa000 OR PTE_P OR PTE_W, 0x2fb000 OR PTE_P OR PTE_W,
     0x2fc000 OR PTE_P OR PTE_W, 0x2fd000 OR PTE_P OR PTE_W, 0x2fe000 OR PTE_P OR PTE_W, 0x2ff000 OR PTE_P OR PTE_W]"

definition entry_pgtable_6 :: "u32 list" where
  "entry_pgtable_6 =
    [0x300000 OR PTE_P OR PTE_W, 0x301000 OR PTE_P OR PTE_W, 0x302000 OR PTE_P OR PTE_W, 0x303000 OR PTE_P OR PTE_W,
     0x304000 OR PTE_P OR PTE_W, 0x305000 OR PTE_P OR PTE_W, 0x306000 OR PTE_P OR PTE_W, 0x307000 OR PTE_P OR PTE_W,
     0x308000 OR PTE_P OR PTE_W, 0x309000 OR PTE_P OR PTE_W, 0x30a000 OR PTE_P OR PTE_W, 0x30b000 OR PTE_P OR PTE_W,
     0x30c000 OR PTE_P OR PTE_W, 0x30d000 OR PTE_P OR PTE_W, 0x30e000 OR PTE_P OR PTE_W, 0x30f000 OR PTE_P OR PTE_W,
     0x310000 OR PTE_P OR PTE_W, 0x311000 OR PTE_P OR PTE_W, 0x312000 OR PTE_P OR PTE_W, 0x313000 OR PTE_P OR PTE_W,
     0x314000 OR PTE_P OR PTE_W, 0x315000 OR PTE_P OR PTE_W, 0x316000 OR PTE_P OR PTE_W, 0x317000 OR PTE_P OR PTE_W,
     0x318000 OR PTE_P OR PTE_W, 0x319000 OR PTE_P OR PTE_W, 0x31a000 OR PTE_P OR PTE_W, 0x31b000 OR PTE_P OR PTE_W,
     0x31c000 OR PTE_P OR PTE_W, 0x31d000 OR PTE_P OR PTE_W, 0x31e000 OR PTE_P OR PTE_W, 0x31f000 OR PTE_P OR PTE_W,
     0x320000 OR PTE_P OR PTE_W, 0x321000 OR PTE_P OR PTE_W, 0x322000 OR PTE_P OR PTE_W, 0x323000 OR PTE_P OR PTE_W,
     0x324000 OR PTE_P OR PTE_W, 0x325000 OR PTE_P OR PTE_W, 0x326000 OR PTE_P OR PTE_W, 0x327000 OR PTE_P OR PTE_W,
     0x328000 OR PTE_P OR PTE_W, 0x329000 OR PTE_P OR PTE_W, 0x32a000 OR PTE_P OR PTE_W, 0x32b000 OR PTE_P OR PTE_W,
     0x32c000 OR PTE_P OR PTE_W, 0x32d000 OR PTE_P OR PTE_W, 0x32e000 OR PTE_P OR PTE_W, 0x32f000 OR PTE_P OR PTE_W,
     0x330000 OR PTE_P OR PTE_W, 0x331000 OR PTE_P OR PTE_W, 0x332000 OR PTE_P OR PTE_W, 0x333000 OR PTE_P OR PTE_W,
     0x334000 OR PTE_P OR PTE_W, 0x335000 OR PTE_P OR PTE_W, 0x336000 OR PTE_P OR PTE_W, 0x337000 OR PTE_P OR PTE_W,
     0x338000 OR PTE_P OR PTE_W, 0x339000 OR PTE_P OR PTE_W, 0x33a000 OR PTE_P OR PTE_W, 0x33b000 OR PTE_P OR PTE_W,
     0x33c000 OR PTE_P OR PTE_W, 0x33d000 OR PTE_P OR PTE_W, 0x33e000 OR PTE_P OR PTE_W, 0x33f000 OR PTE_P OR PTE_W,
     0x340000 OR PTE_P OR PTE_W, 0x341000 OR PTE_P OR PTE_W, 0x342000 OR PTE_P OR PTE_W, 0x343000 OR PTE_P OR PTE_W,
     0x344000 OR PTE_P OR PTE_W, 0x345000 OR PTE_P OR PTE_W, 0x346000 OR PTE_P OR PTE_W, 0x347000 OR PTE_P OR PTE_W,
     0x348000 OR PTE_P OR PTE_W, 0x349000 OR PTE_P OR PTE_W, 0x34a000 OR PTE_P OR PTE_W, 0x34b000 OR PTE_P OR PTE_W,
     0x34c000 OR PTE_P OR PTE_W, 0x34d000 OR PTE_P OR PTE_W, 0x34e000 OR PTE_P OR PTE_W, 0x34f000 OR PTE_P OR PTE_W,
     0x350000 OR PTE_P OR PTE_W, 0x351000 OR PTE_P OR PTE_W, 0x352000 OR PTE_P OR PTE_W, 0x353000 OR PTE_P OR PTE_W,
     0x354000 OR PTE_P OR PTE_W, 0x355000 OR PTE_P OR PTE_W, 0x356000 OR PTE_P OR PTE_W, 0x357000 OR PTE_P OR PTE_W,
     0x358000 OR PTE_P OR PTE_W, 0x359000 OR PTE_P OR PTE_W, 0x35a000 OR PTE_P OR PTE_W, 0x35b000 OR PTE_P OR PTE_W,
     0x35c000 OR PTE_P OR PTE_W, 0x35d000 OR PTE_P OR PTE_W, 0x35e000 OR PTE_P OR PTE_W, 0x35f000 OR PTE_P OR PTE_W,
     0x360000 OR PTE_P OR PTE_W, 0x361000 OR PTE_P OR PTE_W, 0x362000 OR PTE_P OR PTE_W, 0x363000 OR PTE_P OR PTE_W,
     0x364000 OR PTE_P OR PTE_W, 0x365000 OR PTE_P OR PTE_W, 0x366000 OR PTE_P OR PTE_W, 0x367000 OR PTE_P OR PTE_W,
     0x368000 OR PTE_P OR PTE_W, 0x369000 OR PTE_P OR PTE_W, 0x36a000 OR PTE_P OR PTE_W, 0x36b000 OR PTE_P OR PTE_W,
     0x36c000 OR PTE_P OR PTE_W, 0x36d000 OR PTE_P OR PTE_W, 0x36e000 OR PTE_P OR PTE_W, 0x36f000 OR PTE_P OR PTE_W,
     0x370000 OR PTE_P OR PTE_W, 0x371000 OR PTE_P OR PTE_W, 0x372000 OR PTE_P OR PTE_W, 0x373000 OR PTE_P OR PTE_W,
     0x374000 OR PTE_P OR PTE_W, 0x375000 OR PTE_P OR PTE_W, 0x376000 OR PTE_P OR PTE_W, 0x377000 OR PTE_P OR PTE_W,
     0x378000 OR PTE_P OR PTE_W, 0x379000 OR PTE_P OR PTE_W, 0x37a000 OR PTE_P OR PTE_W, 0x37b000 OR PTE_P OR PTE_W,
     0x37c000 OR PTE_P OR PTE_W, 0x37d000 OR PTE_P OR PTE_W, 0x37e000 OR PTE_P OR PTE_W, 0x37f000 OR PTE_P OR PTE_W]"

definition entry_pgtable_7 :: "u32 list" where
  "entry_pgtable_7 =
    [0x380000 OR PTE_P OR PTE_W, 0x381000 OR PTE_P OR PTE_W, 0x382000 OR PTE_P OR PTE_W, 0x383000 OR PTE_P OR PTE_W,
     0x384000 OR PTE_P OR PTE_W, 0x385000 OR PTE_P OR PTE_W, 0x386000 OR PTE_P OR PTE_W, 0x387000 OR PTE_P OR PTE_W,
     0x388000 OR PTE_P OR PTE_W, 0x389000 OR PTE_P OR PTE_W, 0x38a000 OR PTE_P OR PTE_W, 0x38b000 OR PTE_P OR PTE_W,
     0x38c000 OR PTE_P OR PTE_W, 0x38d000 OR PTE_P OR PTE_W, 0x38e000 OR PTE_P OR PTE_W, 0x38f000 OR PTE_P OR PTE_W,
     0x390000 OR PTE_P OR PTE_W, 0x391000 OR PTE_P OR PTE_W, 0x392000 OR PTE_P OR PTE_W, 0x393000 OR PTE_P OR PTE_W,
     0x394000 OR PTE_P OR PTE_W, 0x395000 OR PTE_P OR PTE_W, 0x396000 OR PTE_P OR PTE_W, 0x397000 OR PTE_P OR PTE_W,
     0x398000 OR PTE_P OR PTE_W, 0x399000 OR PTE_P OR PTE_W, 0x39a000 OR PTE_P OR PTE_W, 0x39b000 OR PTE_P OR PTE_W,
     0x39c000 OR PTE_P OR PTE_W, 0x39d000 OR PTE_P OR PTE_W, 0x39e000 OR PTE_P OR PTE_W, 0x39f000 OR PTE_P OR PTE_W,
     0x3a0000 OR PTE_P OR PTE_W, 0x3a1000 OR PTE_P OR PTE_W, 0x3a2000 OR PTE_P OR PTE_W, 0x3a3000 OR PTE_P OR PTE_W,
     0x3a4000 OR PTE_P OR PTE_W, 0x3a5000 OR PTE_P OR PTE_W, 0x3a6000 OR PTE_P OR PTE_W, 0x3a7000 OR PTE_P OR PTE_W,
     0x3a8000 OR PTE_P OR PTE_W, 0x3a9000 OR PTE_P OR PTE_W, 0x3aa000 OR PTE_P OR PTE_W, 0x3ab000 OR PTE_P OR PTE_W,
     0x3ac000 OR PTE_P OR PTE_W, 0x3ad000 OR PTE_P OR PTE_W, 0x3ae000 OR PTE_P OR PTE_W, 0x3af000 OR PTE_P OR PTE_W,
     0x3b0000 OR PTE_P OR PTE_W, 0x3b1000 OR PTE_P OR PTE_W, 0x3b2000 OR PTE_P OR PTE_W, 0x3b3000 OR PTE_P OR PTE_W,
     0x3b4000 OR PTE_P OR PTE_W, 0x3b5000 OR PTE_P OR PTE_W, 0x3b6000 OR PTE_P OR PTE_W, 0x3b7000 OR PTE_P OR PTE_W,
     0x3b8000 OR PTE_P OR PTE_W, 0x3b9000 OR PTE_P OR PTE_W, 0x3ba000 OR PTE_P OR PTE_W, 0x3bb000 OR PTE_P OR PTE_W,
     0x3bc000 OR PTE_P OR PTE_W, 0x3bd000 OR PTE_P OR PTE_W, 0x3be000 OR PTE_P OR PTE_W, 0x3bf000 OR PTE_P OR PTE_W,
     0x3c0000 OR PTE_P OR PTE_W, 0x3c1000 OR PTE_P OR PTE_W, 0x3c2000 OR PTE_P OR PTE_W, 0x3c3000 OR PTE_P OR PTE_W,
     0x3c4000 OR PTE_P OR PTE_W, 0x3c5000 OR PTE_P OR PTE_W, 0x3c6000 OR PTE_P OR PTE_W, 0x3c7000 OR PTE_P OR PTE_W,
     0x3c8000 OR PTE_P OR PTE_W, 0x3c9000 OR PTE_P OR PTE_W, 0x3ca000 OR PTE_P OR PTE_W, 0x3cb000 OR PTE_P OR PTE_W,
     0x3cc000 OR PTE_P OR PTE_W, 0x3cd000 OR PTE_P OR PTE_W, 0x3ce000 OR PTE_P OR PTE_W, 0x3cf000 OR PTE_P OR PTE_W,
     0x3d0000 OR PTE_P OR PTE_W, 0x3d1000 OR PTE_P OR PTE_W, 0x3d2000 OR PTE_P OR PTE_W, 0x3d3000 OR PTE_P OR PTE_W,
     0x3d4000 OR PTE_P OR PTE_W, 0x3d5000 OR PTE_P OR PTE_W, 0x3d6000 OR PTE_P OR PTE_W, 0x3d7000 OR PTE_P OR PTE_W,
     0x3d8000 OR PTE_P OR PTE_W, 0x3d9000 OR PTE_P OR PTE_W, 0x3da000 OR PTE_P OR PTE_W, 0x3db000 OR PTE_P OR PTE_W,
     0x3dc000 OR PTE_P OR PTE_W, 0x3dd000 OR PTE_P OR PTE_W, 0x3de000 OR PTE_P OR PTE_W, 0x3df000 OR PTE_P OR PTE_W,
     0x3e0000 OR PTE_P OR PTE_W, 0x3e1000 OR PTE_P OR PTE_W, 0x3e2000 OR PTE_P OR PTE_W, 0x3e3000 OR PTE_P OR PTE_W,
     0x3e4000 OR PTE_P OR PTE_W, 0x3e5000 OR PTE_P OR PTE_W, 0x3e6000 OR PTE_P OR PTE_W, 0x3e7000 OR PTE_P OR PTE_W,
     0x3e8000 OR PTE_P OR PTE_W, 0x3e9000 OR PTE_P OR PTE_W, 0x3ea000 OR PTE_P OR PTE_W, 0x3eb000 OR PTE_P OR PTE_W,
     0x3ec000 OR PTE_P OR PTE_W, 0x3ed000 OR PTE_P OR PTE_W, 0x3ee000 OR PTE_P OR PTE_W, 0x3ef000 OR PTE_P OR PTE_W,
     0x3f0000 OR PTE_P OR PTE_W, 0x3f1000 OR PTE_P OR PTE_W, 0x3f2000 OR PTE_P OR PTE_W, 0x3f3000 OR PTE_P OR PTE_W,
     0x3f4000 OR PTE_P OR PTE_W, 0x3f5000 OR PTE_P OR PTE_W, 0x3f6000 OR PTE_P OR PTE_W, 0x3f7000 OR PTE_P OR PTE_W,
     0x3f8000 OR PTE_P OR PTE_W, 0x3f9000 OR PTE_P OR PTE_W, 0x3fa000 OR PTE_P OR PTE_W, 0x3fb000 OR PTE_P OR PTE_W,
     0x3fc000 OR PTE_P OR PTE_W, 0x3fd000 OR PTE_P OR PTE_W, 0x3fe000 OR PTE_P OR PTE_W, 0x3ff000 OR PTE_P OR PTE_W]"

definition entry_pgtable :: "u32 list" where
  "entry_pgtable = entry_pgtable_0 @ entry_pgtable_1 @ entry_pgtable_2 @ entry_pgtable_3
     @ entry_pgtable_4 @ entry_pgtable_5 @ entry_pgtable_6 @ entry_pgtable_7"

definition entry_pgdir :: "u32 \<Rightarrow> u32 list" where
  "entry_pgdir pt = (replicate NPDENTRIES 0)
     [0 := (pt - KERNBASE) + PTE_P,
      unat (drop_bit PDXSHIFT KERNBASE) := (pt - KERNBASE) + PTE_P + PTE_W]"

section \<open>Its entries\<close>

definition identity_entry :: "nat \<Rightarrow> u32" where
  "identity_entry i = of_nat i * 0x1000 OR PTE_P OR PTE_W"

lemma piece_0: "entry_pgtable_0 = map identity_entry [0..<128]"
  by (simp add: entry_pgtable_0_def identity_entry_def upt_rec [of 0] upt_rec [of "Suc 0"] numeral_2_eq_2 [symmetric])

lemma piece_1: "entry_pgtable_1 = map identity_entry [128..<256]"
  by (simp add: entry_pgtable_1_def identity_entry_def)

lemma piece_2: "entry_pgtable_2 = map identity_entry [256..<384]"
  by (simp add: entry_pgtable_2_def identity_entry_def)

lemma piece_3: "entry_pgtable_3 = map identity_entry [384..<512]"
  by (simp add: entry_pgtable_3_def identity_entry_def)

lemma piece_4: "entry_pgtable_4 = map identity_entry [512..<640]"
  by (simp add: entry_pgtable_4_def identity_entry_def)

lemma piece_5: "entry_pgtable_5 = map identity_entry [640..<768]"
  by (simp add: entry_pgtable_5_def identity_entry_def)

lemma piece_6: "entry_pgtable_6 = map identity_entry [768..<896]"
  by (simp add: entry_pgtable_6_def identity_entry_def)

lemma piece_7: "entry_pgtable_7 = map identity_entry [896..<1024]"
  by (simp add: entry_pgtable_7_def identity_entry_def)

lemma upt_join: "a \<le> b \<Longrightarrow> b \<le> c \<Longrightarrow> [a..<b] @ [b..<c] = [a..<c]"
  by (metis le_iff_add upt_add_eq_append)

lemma entry_pgtable_identity: "entry_pgtable = map identity_entry [0..<1024]"
proof -
  have "entry_pgtable = map identity_entry ([0..<128] @ [128..<256] @ [256..<384] @ [384..<512]
      @ [512..<640] @ [640..<768] @ [768..<896] @ [896..<1024])"
    unfolding entry_pgtable_def piece_0 piece_1 piece_2 piece_3 piece_4 piece_5 piece_6 piece_7 by (simp only: map_append)
  also have "[0..<128] @ [128..<256] @ [256..<384] @ [384..<512] @ [512..<640] @ [640..<768] @ [768..<896] @ [896..<1024]
      = [0..<1024]" by (simp add: upt_join del: upt_rec_numeral)
  finally show ?thesis .
qed

lemma entry_pgtable_length [simp]: "length entry_pgtable = 1024"
  by (simp add: entry_pgtable_identity)

lemma entry_pgtable_nth:
  "i < 1024 \<Longrightarrow> entry_pgtable ! i = of_nat i * 0x1000 OR PTE_P OR PTE_W"
  by (simp add: entry_pgtable_identity identity_entry_def)

end
