(* ===== verification/Paging.thy ===== *)
theory Paging
  imports Entrypgdir CString
begin

text \<open>
  \<^verbatim>\<open>kernel/pmap.c\<close> with \<^verbatim>\<open>inc/pmap.h\<close>: the page directories and tables of the processes, the
  allocation of a process's 4 MB, the copy a fork makes and the sharing of a page; and the
  walk the processor makes through the tables, which is what the theorems speak about.
  The arrays are maps from indices; writing outside them is a fault. \<open>utp\<close> and \<open>etp\<close> are the
  physical addresses the linker and the boot loader gave \<^verbatim>\<open>user_pgtable\<close> and
  \<^verbatim>\<open>entry_pgtable\<close>. Here a translation always reads the tables; \<open>Tlb\<close> adds the
  translation buffer of the processor.
\<close>

section \<open>Constants: inc/pmap.h\<close>

definition MAX_MEM :: u32 where [simp]: "MAX_MEM = 0x8000000"
definition KERN_MEM :: u32 where [simp]: "KERN_MEM = 0x1000000"
definition USER_MEMSIZE :: u32 where [simp]: "USER_MEMSIZE = MAX_MEM - KERN_MEM"
definition USER_DIR_NUM :: nat where [simp]: "USER_DIR_NUM = 28"
definition UPDIR_NUM :: nat where [simp]: "UPDIR_NUM = 64"

lemma USER_DIR_NUM_eq: "USER_DIR_NUM = unat (drop_bit 22 USER_MEMSIZE)"
  by (simp add: drop_bit_eq_div)

definition PADDR :: "u32 \<Rightarrow> u32" where "PADDR kva = kva - KERNBASE"
definition KADDR :: "u32 \<Rightarrow> u32" where "KADDR pa = pa + KERNBASE"

section \<open>The tables\<close>

record paging =
  user_pgdir :: "nat \<Rightarrow> nat \<Rightarrow> u32"
  user_pgtable :: "nat \<Rightarrow> nat \<Rightarrow> u32"
  pmem :: "u32 \<Rightarrow> u8"

definition set_pde :: "nat \<Rightarrow> nat \<Rightarrow> u32 \<Rightarrow> paging \<Rightarrow> paging" where
  "set_pde pid i v st = st\<lparr>user_pgdir := (user_pgdir st)(pid := (user_pgdir st pid)(i := v))\<rparr>"

definition set_pte :: "nat \<Rightarrow> nat \<Rightarrow> u32 \<Rightarrow> paging \<Rightarrow> paging" where
  "set_pte pid i v st = st\<lparr>user_pgtable := (user_pgtable st)(pid := (user_pgtable st pid)(i := v))\<rparr>"

definition pgdir_check :: "nat \<Rightarrow> unit result" where
  "pgdir_check pid = (if pid < UPDIR_NUM then Inr () else Inl (Out_of_bounds ''user_pgdir''))"

definition pgtable_check :: "nat \<Rightarrow> unit result" where
  "pgtable_check pid = (if pid < USER_DIR_NUM then Inr () else Inl (Out_of_bounds ''user_pgtable''))"

text \<open>The physical address of \<^verbatim>\<open>user_pgtable[pid]\<close>.\<close>

definition table_pa :: "u32 \<Rightarrow> nat \<Rightarrow> u32" where
  "table_pa utp pid = utp + of_nat (PGSIZE * pid)"

section \<open>kernel/pmap.c\<close>

definition pcb_page_init :: "u32 \<Rightarrow> nat \<Rightarrow> paging \<Rightarrow> paging result" where
  "pcb_page_init etp pid st =
     andThen (pgdir_check pid) (\<lambda>_.
       let e = entry_pgdir (KADDR etp); k = unat (drop_bit PDXSHIFT KERNBASE)
       in Inr (set_pde pid k (e ! k) (set_pde pid 0 (e ! 0) st)))"

text \<open>The loop of \<^verbatim>\<open>alloc_page\<close>, from entry \<open>i\<close> on.\<close>

function fill_table :: "nat \<Rightarrow> u32 \<Rightarrow> nat \<Rightarrow> paging \<Rightarrow> paging" where
  "fill_table pid flags i st =
     (if i < NPTENTRIES
      then fill_table pid flags (i + 1)
        (set_pte pid i ((KERN_MEM + push_bit PDXSHIFT (of_nat pid)) OR push_bit PTXSHIFT (of_nat i) OR flags) st)
      else st)"
  by pat_completeness auto
termination
  by (relation "measure (\<lambda>(pid, flags, i, st). NPTENTRIES - i)") auto

declare fill_table.simps [simp del]

definition alloc_page :: "u32 \<Rightarrow> u32 \<Rightarrow> u32 \<Rightarrow> nat \<Rightarrow> paging \<Rightarrow> (u32 \<times> paging) result" where
  "alloc_page utp va flags pid st =
     andThen (pgdir_check pid) (\<lambda>_.
       let st1 = set_pde pid (unat (PDX va)) (table_pa utp pid OR flags) st
       in andThen (pgtable_check pid) (\<lambda>_.
          Inr (KERN_MEM + push_bit PDXSHIFT (of_nat pid), fill_table pid flags 0 st1)))"

definition new_addr :: u32 where [simp]: "new_addr = 0x10000000"

section \<open>The walk of the processor\<close>

definition table_at :: "u32 \<Rightarrow> u32 \<Rightarrow> paging \<Rightarrow> u32 \<Rightarrow> (nat \<Rightarrow> u32) option" where
  "table_at etp utp st f =
     (if f = etp then Some (\<lambda>i. entry_pgtable ! i)
      else let k = unat (f - utp) div PGSIZE
           in if unat (f - utp) mod PGSIZE = 0 \<and> k < USER_DIR_NUM then Some (user_pgtable st k) else None)"

text \<open>The physical address and the access rights, or \<open>None\<close> for a page fault.\<close>

definition translate :: "u32 \<Rightarrow> u32 \<Rightarrow> paging \<Rightarrow> nat \<Rightarrow> u32 \<Rightarrow> (u32 \<times> u32) option" where
  "translate etp utp st pid va =
     (let pde = user_pgdir st pid (unat (PDX va))
      in if pde AND PTE_P = 0 then None
         else case table_at etp utp st (PTE_ADDR pde) of
           None \<Rightarrow> None
         | Some t \<Rightarrow>
             let pte = t (unat (PTX va))
             in if pte AND PTE_P = 0 then None
                else Some (PTE_ADDR pte OR PGOFF va, PGOFF (pde AND pte)))"

text \<open>A user-mode access needs the user bit in both entries.\<close>

definition user_access :: "u32 \<Rightarrow> u32 \<Rightarrow> paging \<Rightarrow> nat \<Rightarrow> u32 \<Rightarrow> u32 option" where
  "user_access etp utp st pid va =
     (case translate etp utp st pid va of
        Some (pa, rights) \<Rightarrow> if rights AND PTE_U \<noteq> 0 then Some pa else None
      | None \<Rightarrow> None)"

section \<open>Copying and sharing\<close>

text \<open>\<^verbatim>\<open>memcpy\<close> on virtual addresses, through the directory in \<^verbatim>\<open>cr3\<close>.\<close>

fun virtual_memcpy :: "(u32 \<Rightarrow> u32 option) \<Rightarrow> u32 \<Rightarrow> u32 \<Rightarrow> nat \<Rightarrow> (u32 \<Rightarrow> u8) \<Rightarrow> (u32 \<Rightarrow> u8) result" where
  "virtual_memcpy tr dest src 0 m = Inr m"
| "virtual_memcpy tr dest src (Suc n) m =
     (case (tr src, tr dest) of
        (Some ps, Some pd) \<Rightarrow> virtual_memcpy tr (dest + 1) (src + 1) n (m(pd := m ps))
      | _ \<Rightarrow> Inl (Out_of_bounds ''page fault''))"

definition pmap_init_and_copy :: "u32 \<Rightarrow> u32 \<Rightarrow> nat \<Rightarrow> nat \<Rightarrow> nat \<Rightarrow> paging \<Rightarrow> paging result" where
  "pmap_init_and_copy etp utp cr3 dest_pid src_pid st =
     andThen (pcb_page_init etp dest_pid st) (\<lambda>st1.
     andThen (alloc_page utp 0x8000000 (PTE_P OR PTE_W OR PTE_U) dest_pid st1) (\<lambda>(pa, st2).
     andThen (pgdir_check src_pid) (\<lambda>_.
       let st3 = set_pde src_pid (unat (PDX new_addr)) (table_pa utp dest_pid OR PTE_P OR PTE_W OR PTE_U) st2
       in andThen (virtual_memcpy (\<lambda>va. map_option fst (translate etp utp st3 cr3 va))
                     new_addr 0x8000000 PTSIZE (pmem st3)) (\<lambda>m.
            Inr (set_pde src_pid (unat (PDX new_addr)) 0 (st3\<lparr>pmem := m\<rparr>))))))"

definition pmap_copy_one_page :: "nat \<Rightarrow> nat \<Rightarrow> u32 \<Rightarrow> paging \<Rightarrow> paging result" where
  "pmap_copy_one_page dest_pid src_pid va st =
     andThen (my_assert ''(va & (PGSIZE - 1)) == 0'' (va AND (of_nat PGSIZE - 1) = 0)) (\<lambda>_.
     andThen (pgtable_check src_pid) (\<lambda>_.
     andThen (pgtable_check dest_pid) (\<lambda>_.
       Inr (set_pte dest_pid (unat (PTX va)) (user_pgtable st src_pid (unat (PTX va))) st))))"

section \<open>Fields\<close>

lemma set_pde_fields [simp]:
  "user_pgdir (set_pde pid i v st) q j = (if q = pid \<and> j = i then v else user_pgdir st q j)"
  "user_pgtable (set_pde pid i v st) = user_pgtable st" "pmem (set_pde pid i v st) = pmem st"
  by (simp_all add: set_pde_def)

lemma set_pte_fields [simp]:
  "user_pgtable (set_pte pid i v st) q j = (if q = pid \<and> j = i then v else user_pgtable st q j)"
  "user_pgdir (set_pte pid i v st) = user_pgdir st" "pmem (set_pte pid i v st) = pmem st"
  by (simp_all add: set_pte_def)

lemma fill_table_fields:
  "user_pgdir (fill_table pid flags i st) = user_pgdir st \<and> pmem (fill_table pid flags i st) = pmem st
   \<and> (\<forall>q j. user_pgtable (fill_table pid flags i st) q j =
        (if q = pid \<and> i \<le> j \<and> j < 1024
         then (KERN_MEM + push_bit PDXSHIFT (of_nat pid)) OR push_bit PTXSHIFT (of_nat j) OR flags
         else user_pgtable st q j))"
proof (induction "1024 - i" arbitrary: i st)
  case 0
  then have "fill_table pid flags i st = st" by (subst fill_table.simps) simp
  with 0 show ?case by auto
next
  case (Suc d)
  then have "fill_table pid flags i st = fill_table pid flags (i + 1)
      (set_pte pid i ((KERN_MEM + push_bit PDXSHIFT (of_nat pid)) OR push_bit PTXSHIFT (of_nat i) OR flags) st)"
    by (subst fill_table.simps) simp
  with Suc.hyps(1) [of "i + 1"] Suc.hyps(2) show ?case by (auto simp: le_Suc_eq Suc_le_eq)
qed


section \<open>Frames\<close>

text \<open>Frame \<open>t\<close> of the 4 MB of process \<open>pid\<close>, which start at \<open>KERN_MEM + 4 MB * pid\<close>.\<close>

lemma frame_entry:
  assumes "pid < 28"
  shows "(KERN_MEM + push_bit PDXSHIFT (of_nat pid)) OR push_bit PTXSHIFT t OR f = PGADDR (of_nat (4 + pid)) t f"
proof -
  have "KERN_MEM + push_bit PDXSHIFT (of_nat pid) = (push_bit PDXSHIFT (of_nat (4 + pid)) :: u32)"
    by (simp add: push_bit_eq_mult algebra_simps)
  then show ?thesis by (simp add: PGADDR_def)
qed

lemma frame_no: "pid < 28 \<Longrightarrow> unat (of_nat (4 + pid) :: u32) = 4 + pid"
  by (rule unat_of_nat_u32) simp

lemma unat_PGADDR:
  assumes "unat d < 1024" "unat t < 1024" "unat off < 4096"
  shows "unat (PGADDR d t off) = unat d * 4194304 + unat t * 4096 + unat off"
proof -
  let ?a = "unat (PGADDR d t off)"
  have "?a div 4194304 = unat d" "?a div 4096 mod 1024 = unat t" "?a mod 4096 = unat off"
    using PGADDR_fields [OF assms] unat_fields [of "PGADDR d t off"] by simp_all
  moreover have "?a div 4096 = ?a div 4194304 * 1024 + ?a div 4096 mod 1024"
    using div_mult_mod_eq [of "?a div 4096" 1024] by (simp add: div_mult2_eq [symmetric])
  moreover have "?a = ?a div 4096 * 4096 + ?a mod 4096" by simp
  ultimately show ?thesis by simp
qed

lemma PGOFF_small: "unat (PGOFF va) < 4096" "unat (PTX va) < 1024" "unat (PDX va) < 1024"
proof -
  have "unat va < 4294967296" using unsigned_less [of va] by simp
  then show "unat (PGOFF va) < 4096" "unat (PTX va) < 1024" "unat (PDX va) < 1024"
    by (simp_all add: unat_fields less_mult_imp_div_less)
qed

lemma PTE_ADDR_PGADDR:
  assumes "unat d < 1024" "unat t < 1024" "unat f < 4096" "unat off < 4096"
  shows "PTE_ADDR (PGADDR d t f) OR off = PGADDR d t off"
proof (rule bit_word_eqI)
  fix n
  have f: "bit f n \<Longrightarrow> n < 12" using small_bits [of f 12 n] assms(3) by simp
  show "bit (PTE_ADDR (PGADDR d t f) OR off) n = bit (PGADDR d t off) n" if "n < LENGTH(32)"
    unfolding PTE_ADDR_def PGADDR_def PDXSHIFT_def PTXSHIFT_def field_bits
    using that f by (cases "n < 12") auto
qed

lemma low_flags:
  fixes f :: u32
  assumes "unat a mod 4096 = 0" "unat f < 4096"
  shows "PTE_ADDR (a OR f) = a" "PGOFF (a OR f) = f"
proof -
  have a: "\<not> bit a n" if "n < 12" for n
  proof -
    have "take_bit 12 (unat a) = 0" using assms(1) by (simp add: take_bit_eq_mod)
    then have "\<not> bit (unat a) n" using that by (metis bit_take_bit_iff bit_0_eq bot_apply bot_bool_def)
    then show ?thesis using that by (auto simp: bit_unsigned_iff dest: bit_imp_le_length)
  qed
  have f: "bit f n \<Longrightarrow> n < 12" for n using small_bits [of f 12 n] assms(2) by simp
  show "PTE_ADDR (a OR f) = a"
  proof (rule bit_word_eqI)
    fix n
    show "bit (PTE_ADDR (a OR f)) n = bit a n" if "n < LENGTH(32)"
      unfolding PTE_ADDR_def field_bits using that a [of n] f [of n] by (cases "n < 12") auto
  qed
  show "PGOFF (a OR f) = f"
    by (rule bit_word_eqI, unfold PGOFF_def field_bits) (use a f in auto)
qed

lemma flag_P:
  fixes f :: u32
  assumes "unat d < 1024" "unat t < 1024" "unat f < 4096"
  shows "PGADDR d t f AND PTE_P = f AND PTE_P" "PGOFF (x AND PGADDR d t f) = PGOFF x AND f"
proof -
  have f: "bit f n \<Longrightarrow> n < 12" for n using small_bits [of f 12 n] assms(3) by simp
  have one: "bit (1 :: u32) n \<longleftrightarrow> n = 0" for n by (simp add: bit_1_iff)
  show "PGADDR d t f AND PTE_P = f AND PTE_P"
    by (rule bit_word_eqI, unfold PGADDR_def PDXSHIFT_def PTXSHIFT_def PTE_P_def field_bits one) auto
  show "PGOFF (x AND PGADDR d t f) = PGOFF x AND f"
    by (rule bit_word_eqI, unfold PGOFF_def PGADDR_def PDXSHIFT_def PTXSHIFT_def field_bits)
      (use f in auto)
qed

section \<open>A process's own 4 MB\<close>

text \<open>Where the linker may put the tables: page-aligned, below the frames of the processes.\<close>

definition layout_ok :: "u32 \<Rightarrow> u32 \<Rightarrow> bool" where
  "layout_ok etp utp \<longleftrightarrow> unat etp mod 4096 = 0 \<and> unat utp mod 4096 = 0
     \<and> unat etp < 0x400000 \<and> unat utp < 0x400000
     \<and> (unat etp < unat utp \<or> unat utp + 28 * 4096 \<le> unat etp)"

lemma table_pa_unat:
  assumes "layout_ok etp utp" "pid < 28"
  shows "unat (table_pa utp pid) = unat utp + 4096 * pid" "unat (table_pa utp pid) mod 4096 = 0"
    "table_pa utp pid \<noteq> etp"
proof -
  show u: "unat (table_pa utp pid) = unat utp + 4096 * pid"
    using assms unat_add_of_nat [of utp "4096 * pid"] by (simp add: table_pa_def layout_ok_def)
  show "unat (table_pa utp pid) mod 4096 = 0" using assms unfolding u by (simp add: layout_ok_def mod_simps)
  show "table_pa utp pid \<noteq> etp" using assms u by (auto simp: layout_ok_def)
qed

lemma table_at_user:
  assumes "layout_ok etp utp" "pid < 28"
  shows "table_at etp utp st (table_pa utp pid) = Some (user_pgtable st pid)"
proof -
  have "table_pa utp pid - utp = of_nat (4096 * pid)"
    unfolding table_pa_def PGSIZE_def by (rule add_diff_cancel_left')
  moreover have "unat (of_nat (4096 * pid) :: u32) = 4096 * pid"
    using assms(2) by (intro unat_of_nat_u32) simp
  ultimately have "unat (table_pa utp pid - utp) = 4096 * pid" by (simp only:)
  then show ?thesis using assms(2) table_pa_unat(3) [OF assms] by (simp add: table_at_def)
qed

lemma table_at_entry: "table_at etp utp st etp = Some (\<lambda>i. entry_pgtable ! i)"
  by (simp add: table_at_def)

text \<open>A directory entry that points to the process's own table, filled by \<^verbatim>\<open>alloc_page\<close>.\<close>

definition own_table :: "nat \<Rightarrow> u32 \<Rightarrow> paging \<Rightarrow> bool" where
  "own_table pid flags st \<longleftrightarrow>
     (\<forall>i < 1024. user_pgtable st pid i = PGADDR (of_nat (4 + pid)) (of_nat i) flags)"

lemma translate_own:
  assumes lay: "layout_ok etp utp" and pid: "pid < 28" and tab: "own_table pid flags st"
    and pde: "user_pgdir st q (unat (PDX va)) = table_pa utp pid OR f"
    and flags: "unat flags < 4096" "flags AND PTE_P \<noteq> 0" "unat f < 4096" "f AND PTE_P \<noteq> 0"
  shows "translate etp utp st q va = Some (PGADDR (of_nat (4 + pid)) (PTX va) (PGOFF va), f AND flags)"
proof -
  note low = low_flags [OF table_pa_unat(2) [OF lay pid] flags(3)]
  define D :: u32 where "D = of_nat (4 + pid)"
  have d: "unat D < 1024" unfolding D_def frame_no [OF pid] using pid by simp
  have pte: "user_pgtable st pid (unat (PTX va)) = PGADDR D (PTX va) flags"
    using tab PGOFF_small(2) by (simp add: own_table_def D_def)
  have present: "(table_pa utp pid OR f) AND PTE_P \<noteq> 0"
  proof -
    have "PGOFF (table_pa utp pid OR f) AND PTE_P = (table_pa utp pid OR f) AND PTE_P"
      unfolding PGOFF_def by (rule bit_word_eqI) (auto simp: bit_simps bit_masks)
    then show ?thesis using low(2) flags(4) by simp
  qed
  have r: "PGOFF ((table_pa utp pid OR f) AND PGADDR D (PTX va) flags) = f AND flags"
    using flag_P(2) [OF d PGOFF_small(2) flags(1)] low(2) by simp
  show ?thesis
    unfolding D_def [symmetric]
    using present flags(2) flag_P(1) [OF d PGOFF_small(2) flags(1)]
      PTE_ADDR_PGADDR [OF d PGOFF_small(2) flags(1) PGOFF_small(1)]
    by (simp add: translate_def pde Let_def low(1) table_at_user [OF lay pid] pte r)
qed


section \<open>Copying through two mappings\<close>

lemma virtual_memcpy_spec:
  assumes "\<And>i. i < n \<Longrightarrow> tr (src + of_nat i) = Some (S + of_nat i)"
    and "\<And>i. i < n \<Longrightarrow> tr (dest + of_nat i) = Some (D + of_nat i)"
    and "unat S + n < 2 ^ 32" "unat D + n < 2 ^ 32" "unat S + n \<le> unat D \<or> unat D + n \<le> unat S"
  shows "virtual_memcpy tr dest src n m = Inr (\<lambda>p. if unat D \<le> unat p \<and> unat p < unat D + n
      then m (S + (p - D)) else m p)"
  using assms
proof (induction n arbitrary: dest src D S m)
  case 0
  show ?case by (auto simp: fun_eq_iff)
next
  case (Suc n)
  have here: "tr src = Some S" "tr dest = Some D" using Suc.prems(1,2) [of 0] by simp_all
  let ?m = "m(D := m S)"
  have up: "unat (S + 1) = unat S + 1" "unat (D + 1) = unat D + 1"
    using Suc.prems(3,4) unat_add_of_nat [of S 1] unat_add_of_nat [of D 1] by simp_all
  have rest: "virtual_memcpy tr (dest + 1) (src + 1) n ?m =
      Inr (\<lambda>p. if unat (D + 1) \<le> unat p \<and> unat p < unat (D + 1) + n
        then ?m ((S + 1) + (p - (D + 1))) else ?m p)"
  proof (rule Suc.IH)
    show "tr (src + 1 + of_nat i) = Some (S + 1 + of_nat i)" if "i < n" for i
      using Suc.prems(1) [of "Suc i"] that by (simp add: ac_simps)
    show "tr (dest + 1 + of_nat i) = Some (D + 1 + of_nat i)" if "i < n" for i
      using Suc.prems(2) [of "Suc i"] that by (simp add: ac_simps)
  qed (use Suc.prems(3-5) up in auto)
  have "(if unat (D + 1) \<le> unat p \<and> unat p < unat (D + 1) + n then ?m ((S + 1) + (p - (D + 1))) else ?m p)
      = (if unat D \<le> unat p \<and> unat p < unat D + Suc n then m (S + (p - D)) else m p)" for p
  proof (cases "unat D + 1 \<le> unat p \<and> unat p < unat D + 1 + n")
    case True
    have "unat (p - D) = unat p - unat D" using True by (simp add: unat_sub word_le_nat_alt)
    moreover have "unat S + (unat p - unat D) < 2 ^ 32"
      using True order_le_less_trans [of "unat S + (unat p - unat D)" "unat S + Suc n"] Suc.prems(3)
      by auto
    ultimately have "unat (S + (p - D)) = unat S + (unat p - unat D)"
      using unat_add_small [of S "p - D"] by simp
    then have "unat (S + (p - D)) \<noteq> unat D" using Suc.prems(5) True by linarith
    then have "S + (p - D) \<noteq> D" by metis
    moreover have "(S + 1) + (p - (D + 1)) = S + (p - D)" by simp
    ultimately show ?thesis using True up by simp
  next
    case False
    then consider "unat p = unat D" | "unat p < unat D \<or> unat D + Suc n \<le> unat p" by linarith
    then show ?thesis
    proof cases
      case 1
      then have "p = D" by (simp add: unat_eq_iff)
      then show ?thesis using up by simp
    next
      case 2
      then have "p \<noteq> D" by auto
      then show ?thesis using 2 up by auto
    qed
  qed
  with rest here show ?case by simp
qed

lemma region_translation:
  assumes "unat b = k * 4194304" "k < 1024" "i < 4194304" "pid < 28"
  shows "unat (PDX (b + of_nat i)) = k"
    "PGADDR (of_nat (4 + pid)) (PTX (b + of_nat i)) (PGOFF (b + of_nat i))
      = of_nat ((4 + pid) * 4194304) + of_nat i"
proof -
  let ?v = "b + of_nat i"
  have v: "unat ?v = k * 4194304 + i" using assms unat_add_of_nat [of b i] by simp
  then show "unat (PDX ?v) = k" using assms(3) by (simp add: unat_fields)
  have d: "unat (of_nat (4 + pid) :: u32) < 1024" unfolding frame_no [OF assms(4)] using assms(4) by simp
  have "unat (PGADDR (of_nat (4 + pid)) (PTX ?v) (PGOFF ?v))
      = (4 + pid) * 4194304 + unat ?v div 4096 mod 1024 * 4096 + unat ?v mod 4096"
    unfolding unat_PGADDR [OF d PGOFF_small(2,1)] frame_no [OF assms(4)] by (simp add: unat_fields)
  moreover have "unat ?v div 4096 mod 1024 * 4096 + unat ?v mod 4096 = unat ?v mod 4194304"
    using mod_mult2_eq [of "unat ?v" 4096 1024] by simp
  moreover have "unat ?v mod 4194304 = i" using v assms(3) by simp
  ultimately have l: "unat (PGADDR (of_nat (4 + pid)) (PTX ?v) (PGOFF ?v)) = (4 + pid) * 4194304 + i"
    by linarith
  have "unat (of_nat ((4 + pid) * 4194304) + of_nat i :: u32) = (4 + pid) * 4194304 + i"
    using assms(3,4) unat_add_of_nat [of "of_nat ((4 + pid) * 4194304)" i]
      unat_of_nat_u32 [of "(4 + pid) * 4194304"] by simp
  then show "PGADDR (of_nat (4 + pid)) (PTX ?v) (PGOFF ?v) = of_nat ((4 + pid) * 4194304) + of_nat i"
    using l unat_eq_iff by metis
qed


section \<open>What the operations do\<close>

definition frames :: "nat \<Rightarrow> u32 set" where
  "frames pid = {p. (4 + pid) * 4194304 \<le> unat p \<and> unat p < (5 + pid) * 4194304}"

lemma frames_disjoint: "p \<noteq> q \<Longrightarrow> frames p \<inter> frames q = {}"
proof -
  assume "p \<noteq> q"
  then have "(5 + p) * 4194304 \<le> (4 + q) * 4194304 \<or> (5 + q) * 4194304 \<le> (4 + p) * (4194304 :: nat)"
    by (cases "p < q") simp_all
  then show ?thesis by (auto simp: frames_def)
qed

lemma unat_frame_base:
  assumes "pid < 28"
  shows "unat (of_nat ((4 + pid) * 4194304) :: u32) = (4 + pid) * 4194304"
  using assms by (intro unat_of_nat_u32) simp

lemma frame_base: "KERN_MEM + push_bit PDXSHIFT (of_nat pid) = (of_nat ((4 + pid) * 4194304) :: u32)"
  by (simp add: push_bit_eq_mult algebra_simps)

lemma alloc_page_ok:
  assumes "pid < 28"
  shows "\<exists>st'. alloc_page utp va flags pid st = Inr (of_nat ((4 + pid) * 4194304), st')
    \<and> own_table pid flags st' \<and> pmem st' = pmem st
    \<and> user_pgdir st' = (user_pgdir st)(pid := (user_pgdir st pid)(unat (PDX va) := table_pa utp pid OR flags))
    \<and> (\<forall>q. q \<noteq> pid \<longrightarrow> user_pgtable st' q = user_pgtable st q)"
proof -
  let ?s1 = "set_pde pid (unat (PDX va)) (table_pa utp pid OR flags) st"
  let ?s2 = "fill_table pid flags 0 ?s1"
  have f: "user_pgdir ?s2 = user_pgdir ?s1" "pmem ?s2 = pmem ?s1"
    "user_pgtable ?s2 q j = (if q = pid \<and> j < 1024
       then (KERN_MEM + push_bit PDXSHIFT (of_nat pid)) OR push_bit PTXSHIFT (of_nat j) OR flags
       else user_pgtable ?s1 q j)" for q j
    using fill_table_fields [of pid flags 0 ?s1] by auto
  have "own_table pid flags ?s2"
    unfolding own_table_def using f(3) frame_entry [OF assms] by simp
  moreover have "alloc_page utp va flags pid st = Inr (of_nat ((4 + pid) * 4194304), ?s2)"
    unfolding alloc_page_def Let_def frame_base using assms
    by (simp add: pgdir_check_def pgtable_check_def)
  moreover have "user_pgtable ?s2 q = user_pgtable st q" if "q \<noteq> pid" for q
    using f(3) [of q] that by (auto simp: fun_eq_iff)
  ultimately show ?thesis using f(1,2) by (auto simp: set_pde_def)
qed

lemma pcb_page_init_ok:
  assumes "pid < 64"
  shows "pcb_page_init etp pid st = Inr (set_pde pid 960 (etp + PTE_P + PTE_W) (set_pde pid 0 (etp + PTE_P) st))"
proof -
  have "unat (drop_bit 22 (0xF0000000 :: u32)) = 960" by (simp add: drop_bit_eq_div)
  then show ?thesis using assms by (simp add: pcb_page_init_def pgdir_check_def entry_pgdir_def KADDR_def Let_def)
qed

text \<open>The 4 MB at 0x8000000 of a process whose directory has its own table there.\<close>

definition own_space :: "u32 \<Rightarrow> nat \<Rightarrow> paging \<Rightarrow> bool" where
  "own_space utp pid st \<longleftrightarrow> pid < 28 \<and> own_table pid 7 st \<and> user_pgdir st pid 32 = table_pa utp pid OR 7"

lemma own_space_translate:
  assumes "layout_ok etp utp" "own_space utp pid st" "i < 4194304"
  shows "translate etp utp st pid (0x8000000 + of_nat i) = Some (of_nat ((4 + pid) * 4194304) + of_nat i, 7)"
proof -
  have pid: "pid < 28" using assms(2) by (simp add: own_space_def)
  have b: "unat (0x8000000 :: u32) = 32 * 4194304" by simp
  note r = region_translation [OF b _ assms(3) pid]
  have "unat (PDX (0x8000000 + of_nat i)) = 32" by (rule r(1)) simp
  then show ?thesis
    using translate_own [OF assms(1) pid, of 7 st pid "0x8000000 + of_nat i" 7] r(2) assms(2)
    by (simp add: own_space_def)
qed

lemma in_region:
  assumes "unat (PDX va) = 32"
  obtains i where "va = 0x8000000 + of_nat i" "i < 4194304"
proof
  have "unat va div 4194304 = 32" using assms by (simp add: unat_fields)
  then have u: "134217728 \<le> unat va" "unat va < 138412032"
    using div_mult_mod_eq [of "unat va" 4194304] mod_less_divisor [of 4194304 "unat va"] by linarith+
  then show "unat va - 134217728 < 4194304" by simp
  have "unat ((0x8000000 :: u32) + of_nat (unat va - 134217728)) = unat va"
    using u unat_add_of_nat [of "0x8000000" "unat va - 134217728"] by simp
  then show "va = 0x8000000 + of_nat (unat va - 134217728)" using unat_eq_iff by metis
qed

text \<open>The tables of a fork before the copy: the parent sees the child's frames at 0x10000000.\<close>

lemma fork_tables:
  assumes "src < 28" "dest < 28" "dest \<noteq> src"
  obtains s1 s2 where
    "pcb_page_init etp dest st = Inr s1"
    "alloc_page utp 0x8000000 7 dest s1 = Inr (of_nat ((4 + dest) * 4194304), s2)"
    "own_table dest 7 (set_pde src 64 (table_pa utp dest OR 7) s2)"
    "pmem s2 = pmem st"
    "\<And>q. q \<noteq> dest \<Longrightarrow> user_pgtable s2 q = user_pgtable st q"
    "user_pgdir s2 = (user_pgdir st)
       (dest := (user_pgdir st dest)(0 := etp + 1, 960 := etp + 3, 32 := table_pa utp dest OR 7))"
proof -
  let ?s1 = "set_pde dest 960 (etp + PTE_P + PTE_W) (set_pde dest 0 (etp + PTE_P) st)"
  have i1: "pcb_page_init etp dest st = Inr ?s1" by (rule pcb_page_init_ok) (use assms in simp)
  have pdx: "unat (PDX (0x8000000 :: u32)) = 32" by (simp add: unat_fields)
  obtain s2 where a: "alloc_page utp 0x8000000 7 dest ?s1 = Inr (of_nat ((4 + dest) * 4194304), s2)"
    "own_table dest 7 s2" "pmem s2 = pmem ?s1"
    "user_pgdir s2 = (user_pgdir ?s1)(dest := (user_pgdir ?s1 dest)(32 := table_pa utp dest OR 7))"
    "\<forall>q. q \<noteq> dest \<longrightarrow> user_pgtable s2 q = user_pgtable ?s1 q"
    using alloc_page_ok [OF assms(2), of utp "0x8000000" 7 ?s1] pdx by auto
  show thesis
    by (rule that [OF i1 a(1)]) (use a(2-5) assms(3) in \<open>auto simp: own_table_def fun_eq_iff\<close>)
qed

text \<open>The parent's translations of the two regions on those tables.\<close>

lemma fork_walks:
  assumes lay: "layout_ok etp utp" and own: "own_space utp src s3" and dest: "dest < 28"
    and tabs: "own_table dest 7 s3" "user_pgdir s3 src 64 = table_pa utp dest OR 7" and i: "i < 4194304"
  shows "translate etp utp s3 src (0x8000000 + of_nat i) = Some (of_nat ((4 + src) * 4194304) + of_nat i, 7)"
    and "translate etp utp s3 src (0x10000000 + of_nat i) = Some (of_nat ((4 + dest) * 4194304) + of_nat i, 7)"
proof -
  show "translate etp utp s3 src (0x8000000 + of_nat i) = Some (of_nat ((4 + src) * 4194304) + of_nat i, 7)"
    by (rule own_space_translate [OF lay own i])
  have b: "unat (0x10000000 :: u32) = 64 * 4194304" by simp
  note r = region_translation [OF b _ i dest]
  have "unat (PDX (0x10000000 + of_nat i)) = 64" by (rule r(1)) simp
  then show "translate etp utp s3 src (0x10000000 + of_nat i) = Some (of_nat ((4 + dest) * 4194304) + of_nat i, 7)"
    using translate_own [OF lay dest tabs(1), of src "0x10000000 + of_nat i" 7] r(2) tabs(2) by simp
qed

text \<open>The copy through those translations: the frames of the child get the bytes of the parent.\<close>

lemma fork_copies:
  assumes src: "src < 28" and dest: "dest < 28" "dest \<noteq> src"
    and trs: "\<And>i. i < 4194304 \<Longrightarrow> tr (0x8000000 + of_nat i) = Some (of_nat ((4 + src) * 4194304) + of_nat i)"
    and trd: "\<And>i. i < 4194304 \<Longrightarrow> tr (0x10000000 + of_nat i) = Some (of_nat ((4 + dest) * 4194304) + of_nat i)"
  obtains m' where "virtual_memcpy tr 0x10000000 0x8000000 4194304 m = Inr m'"
    "\<And>i. i < 4194304 \<Longrightarrow> m' (of_nat ((4 + dest) * 4194304) + of_nat i) = m (of_nat ((4 + src) * 4194304) + of_nat i)"
    "\<And>p. p \<notin> frames dest \<Longrightarrow> m' p = m p"
proof -
  let ?S = "of_nat ((4 + src) * 4194304) :: u32" and ?D = "of_nat ((4 + dest) * 4194304) :: u32"
  note ub = unat_frame_base [OF src] unat_frame_base [OF dest(1)]
  have gap: "unat ?S + 4194304 \<le> unat ?D \<or> unat ?D + 4194304 \<le> unat ?S"
    unfolding ub using dest(2) by (cases "src < dest") simp_all
  show thesis
  proof
    show "virtual_memcpy tr 0x10000000 0x8000000 4194304 m = Inr (\<lambda>p.
        if unat ?D \<le> unat p \<and> unat p < unat ?D + 4194304 then m (?S + (p - ?D)) else m p)"
      by (rule virtual_memcpy_spec [OF trs trd _ _ gap]) (use src dest(1) in \<open>simp_all only: ub, simp_all\<close>)
    show "(if unat ?D \<le> unat (?D + of_nat i) \<and> unat (?D + of_nat i) < unat ?D + 4194304
        then m (?S + (?D + of_nat i - ?D)) else m (?D + of_nat i)) = m (?S + of_nat i)" if "i < 4194304" for i
    proof -
      have "unat (?D + of_nat i) = unat ?D + i"
        using that dest(1) ub(2) unat_add_of_nat [of ?D i] by (simp only: ub) simp
      then show ?thesis using that by simp
    qed
    show "(if unat ?D \<le> unat p \<and> unat p < unat ?D + 4194304 then m (?S + (p - ?D)) else m p) = m p"
      if "p \<notin> frames dest" for p
      by (rule if_not_P) (use that in \<open>unfold ub frames_def, simp add: algebra_simps\<close>)
  qed
qed

lemma fork_copy_ok:
  assumes lay: "layout_ok etp utp" and src: "own_space utp src st" and dest: "dest < 28" "dest \<noteq> src"
  shows "\<exists>st'. pmap_init_and_copy etp utp src dest src st = Inr st' \<and> own_space utp dest st'
    \<and> (\<forall>i < 4194304. pmem st' (of_nat ((4 + dest) * 4194304) + of_nat i)
          = pmem st (of_nat ((4 + src) * 4194304) + of_nat i))
    \<and> (\<forall>p. p \<notin> frames dest \<longrightarrow> pmem st' p = pmem st p)
    \<and> (\<forall>q. q \<noteq> dest \<longrightarrow> user_pgtable st' q = user_pgtable st q)
    \<and> (\<forall>q i. q \<noteq> dest \<longrightarrow> \<not> (q = src \<and> i = 64) \<longrightarrow> user_pgdir st' q i = user_pgdir st q i)
    \<and> user_pgdir st' src 64 = 0
    \<and> user_pgdir st' dest = (user_pgdir st dest)(0 := etp + 1, 960 := etp + 3, 32 := table_pa utp dest OR 7)"
proof -
  have s28: "src < 28" using src by (simp add: own_space_def)
  obtain s1 s2 where a: "pcb_page_init etp dest st = Inr s1"
    "alloc_page utp 0x8000000 7 dest s1 = Inr (of_nat ((4 + dest) * 4194304), s2)"
    "own_table dest 7 (set_pde src 64 (table_pa utp dest OR 7) s2)" "pmem s2 = pmem st"
    "\<And>q. q \<noteq> dest \<Longrightarrow> user_pgtable s2 q = user_pgtable st q"
    "user_pgdir s2 = (user_pgdir st)
       (dest := (user_pgdir st dest)(0 := etp + 1, 960 := etp + 3, 32 := table_pa utp dest OR 7))"
    by (rule fork_tables [OF s28 dest, where etp = etp and utp = utp and st = st]) (rule that)
  let ?s3 = "set_pde src 64 (table_pa utp dest OR 7) s2"
  have own: "own_space utp src ?s3" and pd: "user_pgdir ?s3 src 64 = table_pa utp dest OR 7"
    using a(5,6) src dest(2) by (simp_all add: own_space_def own_table_def)
  note walks = fork_walks [OF lay own dest(1) a(3) pd]
  obtain m where c: "virtual_memcpy (\<lambda>va. map_option fst (translate etp utp ?s3 src va))
      0x10000000 0x8000000 4194304 (pmem st) = Inr m"
    "\<And>i. i < 4194304 \<Longrightarrow> m (of_nat ((4 + dest) * 4194304) + of_nat i)
      = pmem st (of_nat ((4 + src) * 4194304) + of_nat i)"
    "\<And>p. p \<notin> frames dest \<Longrightarrow> m p = pmem st p"
    by (rule fork_copies [OF s28 dest, of "\<lambda>va. map_option fst (translate etp utp ?s3 src va)" "pmem st"])
      (simp_all only: walks option.map fst_conv, rule that)
  let ?s' = "set_pde src 64 0 (?s3\<lparr>pmem := m\<rparr>)"
  have pdx: "unat (PDX (0x10000000 :: u32)) = 64" by (simp add: unat_fields)
  have "pmap_init_and_copy etp utp src dest src st = Inr ?s'"
    unfolding pmap_init_and_copy_def a(1) using a(2,4) c(1) s28 by (simp add: pdx pgdir_check_def Let_def)
  moreover have "own_space utp dest ?s'"
    using dest a(3,6) by (simp add: own_space_def own_table_def)
  moreover have "\<forall>q i. q \<noteq> dest \<longrightarrow> \<not> (q = src \<and> i = 64) \<longrightarrow> user_pgdir ?s' q i = user_pgdir st q i"
    using a(6) by auto
  moreover have "user_pgdir ?s' dest
      = (user_pgdir st dest)(0 := etp + 1, 960 := etp + 3, 32 := table_pa utp dest OR 7)"
    using a(6) dest(2) by (auto simp: fun_eq_iff)
  ultimately show ?thesis using c(2,3) a(5) by (intro exI [of _ ?s']) simp
qed


section \<open>Address spaces\<close>

text \<open>
  The directory of a process: the boot mappings at 0 and \<^verbatim>\<open>KERNBASE\<close>, its own table at
  0x8000000, nothing else.
\<close>

definition address_space :: "u32 \<Rightarrow> u32 \<Rightarrow> nat \<Rightarrow> paging \<Rightarrow> bool" where
  "address_space etp utp pid st \<longleftrightarrow> own_space utp pid st
     \<and> user_pgdir st pid 0 = etp + 1 \<and> user_pgdir st pid 960 = etp + 3
     \<and> (\<forall>i. i \<noteq> 0 \<and> i \<noteq> 32 \<and> i \<noteq> 960 \<longrightarrow> user_pgdir st pid i = 0)"

lemma own_space_user_access:
  assumes "layout_ok etp utp" "own_space utp pid st" "unat (PDX va) = 32"
  shows "user_access etp utp st pid va = Some (PGADDR (of_nat (4 + pid)) (PTX va) (PGOFF va))"
    "PGADDR (of_nat (4 + pid)) (PTX va) (PGOFF va) \<in> frames pid"
proof -
  have pid: "pid < 28" using assms(2) by (simp add: own_space_def)
  have "translate etp utp st pid va = Some (PGADDR (of_nat (4 + pid)) (PTX va) (PGOFF va), 7)"
    using translate_own [OF assms(1) pid, of 7 st pid va 7] assms(2,3) by (simp add: own_space_def)
  then show "user_access etp utp st pid va = Some (PGADDR (of_nat (4 + pid)) (PTX va) (PGOFF va))"
    by (simp add: user_access_def)
  have d: "unat (of_nat (4 + pid) :: u32) < 1024" unfolding frame_no [OF pid] using pid by simp
  have "unat (PTX va) < 1024" "unat (PGOFF va) < 4096" by (rule PGOFF_small)+
  then show "PGADDR (of_nat (4 + pid)) (PTX va) (PGOFF va) \<in> frames pid"
    unfolding frames_def mem_Collect_eq unat_PGADDR [OF d PGOFF_small(2,1)] frame_no [OF pid]
    by (simp add: algebra_simps)
qed

lemma entry_pgtable_PGADDR:
  assumes "i < 1024"
  shows "entry_pgtable ! i = PGADDR 0 (of_nat i) 3"
  using assms by (simp add: entry_pgtable_nth PGADDR_def push_bit_eq_mult or.assoc)

lemma boot_mapping:
  assumes lay: "layout_ok etp utp" and pde: "user_pgdir st pid (unat (PDX va)) = etp + f" and f: "f = 1 \<or> f = 3"
  shows "translate etp utp st pid va = Some (PGADDR 0 (PTX va) (PGOFF va), f)"
    "user_access etp utp st pid va = None"
proof -
  have e: "unat etp mod 4096 = 0" using lay by (simp add: layout_ok_def)
  have e0: "\<not> bit etp n" if "n < 12" for n
  proof -
    have "take_bit 12 (unat etp) = 0" using e by (simp add: take_bit_eq_mod)
    then have "\<not> bit (unat etp) n" using that by (metis bit_take_bit_iff bit_0_eq bot_apply bot_bool_def)
    then show ?thesis using that by (auto simp: bit_unsigned_iff dest: bit_imp_le_length)
  qed
  have f12: "bit f n \<Longrightarrow> n < 12" for n using small_bits [of f 12 n] f by auto
  have or: "etp + f = etp OR f"
    by (rule disjunctive_add) (use e0 f12 in auto)
  have uf: "unat f < 4096" using f by auto
  note low = low_flags [OF e uf]
  have p: "(etp OR f) AND 1 \<noteq> 0"
  proof -
    have "PGOFF (etp OR f) AND 1 = (etp OR f) AND 1"
      unfolding PGOFF_def by (rule bit_word_eqI) (auto simp: bit_simps bit_masks)
    then show ?thesis using low(2) f by auto
  qed
  have t: "entry_pgtable ! unat (PTX va) = PGADDR 0 (PTX va) 3"
    using entry_pgtable_PGADDR [OF PGOFF_small(2)] by simp
  have z: "unat (0 :: u32) < 1024" "unat (3 :: u32) < 4096" by simp_all
  have r: "PGOFF ((etp OR f) AND PGADDR 0 (PTX va) 3) = f"
    using flag_P(2) [OF z(1) PGOFF_small(2) z(2)] low(2) f by auto
  show tr: "translate etp utp st pid va = Some (PGADDR 0 (PTX va) (PGOFF va), f)"
    using p flag_P(1) [OF z(1) PGOFF_small(2) z(2)] PTE_ADDR_PGADDR [OF z(1) PGOFF_small(2) z(2) PGOFF_small(1)]
    by (simp add: translate_def pde or Let_def low(1) table_at_entry t r)
  show "user_access etp utp st pid va = None" using f by (auto simp: user_access_def tr)
qed

text \<open>The page of an address.\<close>

lemma same_page:
  assumes "PGNUM vb = PGNUM va"
  shows "PDX vb = PDX va" "PTX vb = PTX va"
proof -
  have d: "unat vb div 4096 = unat va div 4096" using assms unat_fields(4) [of vb] unat_fields(4) [of va] by simp
  have "unat vb div (4096 * 1024) = unat va div (4096 * 1024)" unfolding div_mult2_eq d ..
  then have "unat (PDX vb) = unat (PDX va)" "unat (PTX vb) = unat (PTX va)" using d by (simp_all add: unat_fields)
  then show "PDX vb = PDX va" "PTX vb = PTX va" by (simp_all only: unsigned_word_eqI)
qed

lemma page_by_indices:
  assumes "unat (PDX vb) = unat (PDX va)" "PTX vb = PTX va"
  shows "PGNUM vb = PGNUM va"
proof -
  have "unat vb div 4096 mod 1024 = unat va div 4096 mod 1024"
    using assms(2) unat_fields(2) [of vb] unat_fields(2) [of va] by simp
  moreover have "unat vb div 4096 div 1024 = unat va div 4096 div 1024"
    using assms(1) by (simp add: unat_fields div_mult2_eq [symmetric])
  ultimately have "unat vb div 4096 = unat va div 4096" by (metis div_mult_mod_eq)
  then have "unat (PGNUM vb) = unat (PGNUM va)" by (simp add: unat_fields)
  then show ?thesis by (rule unsigned_word_eqI)
qed

text \<open>The walk of a process through its own table, whatever the entry is.\<close>

lemma table_pa_flags:
  assumes "layout_ok etp utp" "pid < 28"
  shows "PGOFF ((table_pa utp pid OR 7) AND e) = PGOFF (7 AND e)" "(table_pa utp pid OR 7) AND PTE_P \<noteq> 0"
proof -
  have "\<not> bit (table_pa utp pid) n" if n: "n < 12" for n
  proof -
    have "take_bit 12 (unat (table_pa utp pid)) = 0"
      using table_pa_unat(2) [OF assms] by (simp add: take_bit_eq_mod)
    then have "\<not> bit (unat (table_pa utp pid)) n"
      using n by (metis bit_take_bit_iff bit_0_eq bot_apply bot_bool_def)
    then show ?thesis using n by (auto simp: bit_unsigned_iff dest: bit_imp_le_length)
  qed
  then show "PGOFF ((table_pa utp pid OR 7) AND e) = PGOFF (7 AND e)"
    by (intro bit_word_eqI, unfold PGOFF_def field_bits) auto
  have "bit ((table_pa utp pid OR 7) AND PTE_P) 0" by (simp add: bit_or_iff bit_and_iff)
  then show "(table_pa utp pid OR 7) AND PTE_P \<noteq> 0" by auto
qed

lemma user_access_entry:
  assumes "layout_ok etp utp" "pid < 28" "user_pgdir st pid 32 = table_pa utp pid OR 7" "unat (PDX w) = 32"
  shows "user_access etp utp st pid w = (let e = user_pgtable st pid (unat (PTX w))
      in if e AND PTE_P = 0 \<or> PGOFF (7 AND e) AND PTE_U = 0 then None else Some (PTE_ADDR e OR PGOFF w))"
proof -
  have "table_at etp utp st (PTE_ADDR (table_pa utp pid OR 7)) = Some (user_pgtable st pid)"
    using low_flags(1) [OF table_pa_unat(2) [OF assms(1,2)], of 7] table_at_user [OF assms(1,2)] by simp
  then show ?thesis
    using table_pa_flags [OF assms(1,2)] by (simp add: user_access_def translate_def assms(3,4) Let_def)
qed

text \<open>
  Sharing a page: after \<^verbatim>\<open>pmap_copy_one_page(dest, src, va)\<close> with a page-aligned address of the region, both
  processes reach the same frame through that page; all other pages of both are translated as before.
\<close>

lemma page_shared:
  assumes "layout_ok etp utp" "own_space utp dest st" "own_space utp src st" "dest \<noteq> src"
    and "unat (PDX va) = 32" "PGOFF va = 0"
  shows "\<exists>st'. pmap_copy_one_page dest src va st = Inr st' \<and> user_pgdir st' = user_pgdir st \<and> pmem st' = pmem st
    \<and> (\<forall>w. PGNUM w = PGNUM va \<longrightarrow> user_access etp utp st' dest w = user_access etp utp st src w)
    \<and> (\<forall>w q. unat (PDX w) = 32 \<longrightarrow> PGNUM w \<noteq> PGNUM va \<or> q = src \<longrightarrow> q = dest \<or> q = src \<longrightarrow>
          user_access etp utp st' q w = user_access etp utp st q w)"
proof -
  have own: "dest < 28" "src < 28" "user_pgdir st dest 32 = table_pa utp dest OR 7" "user_pgdir st src 32 = table_pa utp src OR 7"
    using assms(2,3) by (simp_all add: own_space_def)
  define st' where "st' = set_pte dest (unat (PTX va)) (user_pgtable st src (unat (PTX va))) st"
  have st': "user_pgdir st' = user_pgdir st" "pmem st' = pmem st" by (simp_all add: st'_def)
  have "of_nat PGSIZE - 1 = (0xFFF :: u32)" by simp
  then have "pmap_copy_one_page dest src va st = Inr st'"
    using assms(6) own by (simp add: pmap_copy_one_page_def pgtable_check_def st'_def PGOFF_def)
  moreover have "user_access etp utp st' dest w = user_access etp utp st src w" if "PGNUM w = PGNUM va" for w
    using user_access_entry [OF assms(1) own(1), of st' w] user_access_entry [OF assms(1) own(2), of st w]
      same_page [OF that] own assms(5) st' by (simp add: st'_def)
  moreover have "user_access etp utp st' q w = user_access etp utp st q w"
    if "unat (PDX w) = 32" "PGNUM w \<noteq> PGNUM va \<or> q = src" "q = dest \<or> q = src" for w q
  proof -
    have "q = dest \<Longrightarrow> unat (PTX w) \<noteq> unat (PTX va)"
      using page_by_indices [of w va] that assms(4,5) unsigned_word_eqI by metis
    then show ?thesis
      using user_access_entry [OF assms(1), of q st' w] user_access_entry [OF assms(1), of q st w] that own st'
      by (auto simp: st'_def)
  qed
  ultimately show ?thesis using st' by blast
qed

text \<open>The two places the low 4 MB of physical memory are mapped at.\<close>

lemma in_table:
  assumes "unat va mod 4194304 = unat pa"
  shows "PGADDR 0 (PTX va) (PGOFF va) = pa"
proof -
  have "unat (PGADDR 0 (PTX va) (PGOFF va)) = unat va div 4096 mod 1024 * 4096 + unat va mod 4096"
    using unat_PGADDR [of 0 "PTX va" "PGOFF va"] PGOFF_small by (simp add: unat_fields)
  also have "\<dots> = unat pa" using mod_mult2_eq [of "unat va" 4096 1024] assms by simp
  finally show ?thesis by (rule unsigned_word_eqI)
qed

lemma low_memory:
  assumes "unat pa < 4194304"
  shows "unat (PDX (KERNBASE + pa)) = 960" "unat (PDX pa) = 0"
    "PGADDR 0 (PTX (KERNBASE + pa)) (PGOFF (KERNBASE + pa)) = pa" "PGADDR 0 (PTX pa) (PGOFF pa) = pa"
proof -
  have u: "unat (KERNBASE + pa) = 960 * 4194304 + unat pa" using assms by (simp add: unat_add_small)
  show "unat (PDX (KERNBASE + pa)) = 960" "unat (PDX pa) = 0" using u assms by (simp_all add: unat_fields)
  show "PGADDR 0 (PTX (KERNBASE + pa)) (PGOFF (KERNBASE + pa)) = pa"
    by (rule in_table) (use assms in \<open>simp only: u mod_mult_self3 mod_less\<close>)
  show "PGADDR 0 (PTX pa) (PGOFF pa) = pa" by (rule in_table) (use assms in simp)
qed

section \<open>Properties\<close>

text \<open>What a fork makes of the memory, for the callers of \<^verbatim>\<open>pmap_init_and_copy\<close>.\<close>

lemma fork_memory:
  assumes "layout_ok etp utp" "own_space utp src st" "dest < 28" "dest \<noteq> src"
  shows "\<exists>st'. pmap_init_and_copy etp utp src dest src st = Inr st'
    \<and> (\<forall>va. unat (PDX va) = 32 \<longrightarrow> (\<exists>pd ps. user_access etp utp st' dest va = Some pd
          \<and> user_access etp utp st' src va = Some ps \<and> pd \<in> frames dest \<and> ps \<in> frames src
          \<and> pmem st' pd = pmem st ps))
    \<and> (\<forall>p. p \<notin> frames dest \<longrightarrow> pmem st' p = pmem st p)
    \<and> (\<forall>q. q \<noteq> dest \<longrightarrow> own_space utp q st \<longrightarrow> own_space utp q st')"
proof -
  obtain st' where f: "pmap_init_and_copy etp utp src dest src st = Inr st'" "own_space utp dest st'"
    "\<forall>i < 4194304. pmem st' (of_nat ((4 + dest) * 4194304) + of_nat i)
       = pmem st (of_nat ((4 + src) * 4194304) + of_nat i)"
    "\<forall>p. p \<notin> frames dest \<longrightarrow> pmem st' p = pmem st p"
    "\<forall>q. q \<noteq> dest \<longrightarrow> user_pgtable st' q = user_pgtable st q"
    "\<forall>q i. q \<noteq> dest \<longrightarrow> \<not> (q = src \<and> i = 64) \<longrightarrow> user_pgdir st' q i = user_pgdir st q i"
    using fork_copy_ok [OF assms] by blast
  have others: "own_space utp q st'" if "q \<noteq> dest" "own_space utp q st" for q
    using that f(5,6) by (simp add: own_space_def own_table_def)
  have s28: "src < 28" using assms(2) by (simp add: own_space_def)
  have "\<exists>pd ps. user_access etp utp st' dest va = Some pd \<and> user_access etp utp st' src va = Some ps
      \<and> pd \<in> frames dest \<and> ps \<in> frames src \<and> pmem st' pd = pmem st ps" if va: "unat (PDX va) = 32" for va
  proof -
    have so: "own_space utp src st'" using others assms(2,4) by auto
    obtain i where i: "va = 0x8000000 + of_nat i" "i < 4194304" using in_region [OF va] .
    have b: "unat (0x8000000 :: u32) = 32 * 4194304" by simp
    have k: "32 < (1024 :: nat)" by simp
    have "PGADDR (of_nat (4 + dest)) (PTX va) (PGOFF va) = of_nat ((4 + dest) * 4194304) + of_nat i"
      "PGADDR (of_nat (4 + src)) (PTX va) (PGOFF va) = of_nat ((4 + src) * 4194304) + of_nat i"
      unfolding i(1) by (rule region_translation(2) [OF b k i(2) assms(3)],
        rule region_translation(2) [OF b k i(2) s28])
    then show ?thesis
      using own_space_user_access [OF assms(1) f(2) va] own_space_user_access [OF assms(1) so va] f(3) i(2)
      by (simp del: of_nat_add of_nat_mult)
  qed
  then show ?thesis using f(1,4) others by blast
qed

text \<open>C11. Fork copies the address space: after \<^verbatim>\<open>pmap_init_and_copy\<close> the child reaches the
  whole 4 MB at 0x8000000 through page frames of its own, which hold what the parent's
  hold; the parent's memory is as before, and so are the tables and the memory of every
  other process.\<close>

theorem fork_copies_memory:
  assumes "layout_ok etp utp" "own_space utp src st" "dest < 28" "dest \<noteq> src"
  shows "\<exists>st'. pmap_init_and_copy etp utp src dest src st = Inr st'
    \<and> (\<forall>va. unat (PDX va) = 32 \<longrightarrow> (\<exists>pd ps. user_access etp utp st' dest va = Some pd
          \<and> user_access etp utp st' src va = Some ps \<and> pd \<in> frames dest \<and> ps \<in> frames src
          \<and> pmem st' pd = pmem st ps))
    \<and> (\<forall>p. p \<notin> frames dest \<longrightarrow> pmem st' p = pmem st p)
    \<and> (\<forall>q. q \<noteq> dest \<longrightarrow> own_space utp q st \<longrightarrow> own_space utp q st')"
  by (rule fork_memory [OF assms])

definition sample_paging :: paging where
  "sample_paging = \<lparr>user_pgdir = (\<lambda>pid i. if i = 0 then 0x102001 else if i = 960 then 0x102003
       else if i = 32 then table_pa 0x200000 pid OR 7 else 0),
     user_pgtable = (\<lambda>pid i. PGADDR (of_nat (4 + pid)) (of_nat i) 7), pmem = (\<lambda>p. ucast p)\<rparr>"

lemma sample_layout: "layout_ok 0x102000 0x200000"
  by (simp add: layout_ok_def)

lemma sample_space: "pid < 28 \<Longrightarrow> address_space 0x102000 0x200000 pid sample_paging"
  by (simp add: address_space_def own_space_def own_table_def sample_paging_def)

theorem fork_copies_memory_witness:
  "\<exists>st'. pmap_init_and_copy 0x102000 0x200000 0 1 0 sample_paging = Inr st' \<and> own_space 0x200000 0 st'"
  using fork_copies_memory [OF sample_layout, of 0 sample_paging 1] sample_space [of 0]
  by (auto simp: address_space_def)

lemma page_shared_witness:
  "\<exists>st'. pmap_copy_one_page 1 2 0x8050000 sample_paging = Inr st'
    \<and> user_access 0x102000 0x200000 st' 1 0x8050000 = user_access 0x102000 0x200000 sample_paging 2 0x8050000"
proof -
  have "unat (PDX 0x8050000) = 32" "PGOFF 0x8050000 = 0" by (simp_all add: unat_fields PGOFF_def)
  then show ?thesis
    using page_shared [OF sample_layout, of 1 sample_paging 2 "0x8050000"] sample_space [of 1] sample_space [of 2]
    by (auto simp: address_space_def)
qed

text \<open>The tables do not reach all processes: \<^verbatim>\<open>user_pgtable\<close> has 28 entries, one per 4 MB
  of memory, while pids go up to 63. Setting up a process with a pid from 28 on writes
  behind the array.\<close>

lemma page_tables_too_few:
  assumes "28 \<le> pid" "pid < 64"
  shows "alloc_page utp va flags pid st = Inl (Out_of_bounds ''user_pgtable'')
    \<and> pmap_init_and_copy etp utp cr3 pid src st = Inl (Out_of_bounds ''user_pgtable'')"
proof -
  have "alloc_page utp w f pid x = Inl (Out_of_bounds ''user_pgtable'')" for w f x
    using assms by (simp add: alloc_page_def pgdir_check_def pgtable_check_def)
  then show ?thesis using pcb_page_init_ok [OF assms(2)] by (simp add: pmap_init_and_copy_def)
qed

lemma page_tables_too_few_witness:
  "alloc_page 0x200000 0x8000000 7 40 sample_paging = Inl (Out_of_bounds ''user_pgtable'')"
  using page_tables_too_few [of 40] by simp

end
