(* ===== verification/Kernel.thy ===== *)
theory Kernel
  imports Paging
begin

text \<open>
  The processes: \<^verbatim>\<open>inc/pcb.h\<close>, \<^verbatim>\<open>kernel/pcb.c\<close>, the semaphores of \<^verbatim>\<open>kernel/sem.c\<close>, the scheduler
  \<^verbatim>\<open>kernel/sched.c\<close>, the system calls of \<^verbatim>\<open>kernel/syscall.c\<close> and the dispatch of \<^verbatim>\<open>trap\<close> in
  \<^verbatim>\<open>kernel/trap.c\<close>, on one state. A function that does not return to its caller
  (\<^verbatim>\<open>sched_process\<close>, \<^verbatim>\<open>pcb_exec\<close>) yields the state in which the processor is back in user
  mode; \<open>None\<close> is a kernel that loops forever. Messages of \<^verbatim>\<open>printk\<close> are not part of the
  state; the calls of user handlers and of the console are recorded in \<open>calls\<close>.
\<close>

section \<open>inc/trap.h\<close>

record pushregs =
  reg_edi :: u32
  reg_esi :: u32
  reg_ebp :: u32
  reg_oesp :: u32
  reg_ebx :: u32
  reg_edx :: u32
  reg_ecx :: u32
  reg_eax :: u32

record trapframe =
  tf_regs :: pushregs
  tf_es :: u16
  tf_padding1 :: u16
  tf_ds :: u16
  tf_padding2 :: u16
  tf_trapno :: u32
  tf_err :: u32
  tf_eip :: u32
  tf_cs :: u16
  tf_padding3 :: u16
  tf_eflags :: u32
  tf_esp :: u32
  tf_ss :: u16
  tf_padding4 :: u16

definition T_ILLOP :: u32 where [simp]: "T_ILLOP = 6"
definition T_GPFLT :: u32 where [simp]: "T_GPFLT = 13"
definition T_PGFLT :: u32 where [simp]: "T_PGFLT = 14"
definition T_SYSCALL :: u32 where [simp]: "T_SYSCALL = 0x80"
definition IRQ_OFFSET :: u32 where [simp]: "IRQ_OFFSET = 32"
definition IRQ_TIMER :: u32 where [simp]: "IRQ_TIMER = 0"
definition IRQ_KBD :: u32 where [simp]: "IRQ_KBD = 1"
definition IRQ_IDE :: u32 where [simp]: "IRQ_IDE = 14"
definition SCHED_TIME_FREQ :: u32 where [simp]: "SCHED_TIME_FREQ = 0x60"

section \<open>inc/pcb.h\<close>

definition KSTACK_SIZE :: nat where [simp]: "KSTACK_SIZE = 4096"
definition NPROC :: nat where [simp]: "NPROC = 64"
definition NOT_WAITING_SEM :: u32 where [simp]: "NOT_WAITING_SEM = -1"

datatype pcb_status = PCB_FREE | PCB_SLEEPING | PCB_RUNNABLE | PCB_RUNNING | PCB_NOT_RUNNABLE

record pcb =
  pid :: nat
  parent_pid :: nat
  status :: pcb_status
  runned_time :: u32
  wakeup_time :: u32
  pcb_pgdir :: u32
  wait_sem :: u32
  kstack :: "u8 list"
  tf :: trapframe

text \<open>Where \<^verbatim>\<open>pts.ts_esp0\<close> points: the boot stack, or the end of a PCB.\<close>

datatype stack_top = Boot_stack | Pcb_end nat

record kernel =
  user_pcbs :: "nat \<Rightarrow> pcb"
  curr_pid :: nat
  sem_pool :: "u32 list"
  sys_runned_time :: u32
  sys_last_time :: u32
  do_timer :: u32
  do_keyboard :: u32
  cr3 :: nat
  ts_top :: stack_top
  interrupts :: bool
  mem :: paging
  calls :: "(u32 \<times> u32 list) list"

definition upd_pcb :: "nat \<Rightarrow> (pcb \<Rightarrow> pcb) \<Rightarrow> kernel \<Rightarrow> kernel" where
  "upd_pcb i f k = k\<lparr>user_pcbs := (user_pcbs k)(i := f (user_pcbs k i))\<rparr>"

section \<open>kernel/pcb.c\<close>

definition get_pid :: "kernel \<Rightarrow> nat" where "get_pid k = curr_pid k"

definition zero_regs :: pushregs where
  "zero_regs = \<lparr>reg_edi = 0, reg_esi = 0, reg_ebp = 0, reg_oesp = 0, reg_ebx = 0, reg_edx = 0,
     reg_ecx = 0, reg_eax = 0\<rparr>"

definition zero_frame :: trapframe where
  "zero_frame = \<lparr>tf_regs = zero_regs, tf_es = 0, tf_padding1 = 0, tf_ds = 0, tf_padding2 = 0,
     tf_trapno = 0, tf_err = 0, tf_eip = 0, tf_cs = 0, tf_padding3 = 0, tf_eflags = 0, tf_esp = 0,
     tf_ss = 0, tf_padding4 = 0\<rparr>"

definition pcb_init_p0 :: "nat \<Rightarrow> u32 \<Rightarrow> u32 \<Rightarrow> u32 \<Rightarrow> kernel \<Rightarrow> kernel result" where
  "pcb_init_p0 p esp eip eflags k =
     (let k1 = k\<lparr>user_pcbs := (\<lambda>i. if i < NPROC
            then (user_pcbs k i)\<lparr>status := PCB_FREE, runned_time := 0, pid := i, wait_sem := NOT_WAITING_SEM\<rparr>
            else user_pcbs k i)\<rparr>
      in andThen (my_assert ''pcb->pid == 0'' (pid (user_pcbs k1 p) = 0)) (\<lambda>_.
         let k2 = (upd_pcb p (\<lambda>b. b\<lparr>status := PCB_RUNNING, runned_time := 0\<rparr>) k1)\<lparr>cr3 := 0\<rparr>
         in Inr (upd_pcb p (\<lambda>b. b\<lparr>tf := zero_frame\<lparr>tf_ds := GD_UD OR 3, tf_es := GD_UD OR 3,
              tf_ss := GD_UD OR 3, tf_esp := esp, tf_cs := GD_UT OR 3, tf_eip := eip,
              tf_eflags := eflags\<rparr>\<rparr>) k2)))"

text \<open>
  \<^verbatim>\<open>pcb_exec\<close> ends in \<^verbatim>\<open>iret\<close>: the processor continues in user mode with the registers of
  \<^verbatim>\<open>pcb->tf\<close>, under the page directory of the process.
\<close>

definition pcb_exec :: "nat \<Rightarrow> kernel \<Rightarrow> kernel" where
  "pcb_exec i k =
     (let k1 = k\<lparr>curr_pid := pid (user_pcbs k i)\<rparr>;
          k2 = k1\<lparr>cr3 := pid (user_pcbs k1 i)\<rparr>;
          k3 = upd_pcb i (\<lambda>b. b\<lparr>status := PCB_RUNNING\<rparr>) k2
      in k3\<lparr>ts_top := Pcb_end i\<rparr>)"

section \<open>kernel/sem.c\<close>

definition E_SUCCESS :: u32 where [simp]: "E_SUCCESS = 0"
definition E_INVALID :: u32 where [simp]: "E_INVALID = -1"
definition SEM_POOL_SIZE :: nat where [simp]: "SEM_POOL_SIZE = 3"

text \<open>
  \<^verbatim>\<open>my_assert(sem >= 0 || sem < SEM_POOL_SIZE)\<close> holds for every \<^verbatim>\<open>int\<close>; the access that follows
  is to an array of three.
\<close>

definition sem_assert :: "u32 \<Rightarrow> bool" where
  "sem_assert sem \<longleftrightarrow> sint sem \<ge> 0 \<or> sint sem < int SEM_POOL_SIZE"

definition sem_get :: "u32 \<Rightarrow> kernel \<Rightarrow> u32 result" where
  "sem_get sem k = array_get ''sem_pool'' (sem_pool k) (unat sem)"

definition sem_set :: "u32 \<Rightarrow> u32 \<Rightarrow> kernel \<Rightarrow> kernel result" where
  "sem_set sem c k = andThen (array_put ''sem_pool'' (sem_pool k) (unat sem) c) (\<lambda>p. Inr (k\<lparr>sem_pool := p\<rparr>))"

definition sys_sem_open :: "u32 \<Rightarrow> u32 \<Rightarrow> kernel \<Rightarrow> (u32 \<times> kernel) result" where
  "sys_sem_open sem v k =
     andThen (my_assert ''sem_open'' (sem_assert sem \<and> sint v > 0)) (\<lambda>_.
     andThen (sem_set sem v k) (\<lambda>k1. Inr (sem, k1)))"

definition sys_sem_destroy :: "u32 \<Rightarrow> kernel \<Rightarrow> (u32 \<times> kernel) result" where
  "sys_sem_destroy sem k =
     andThen (my_assert ''sem_destroy'' (sem_assert sem)) (\<lambda>_.
     andThen (sem_set sem 0 k) (\<lambda>k1. Inr (E_SUCCESS, k1)))"

text \<open>\<^verbatim>\<open>sys_sem_wait\<close> returns a code, or goes on in \<^verbatim>\<open>sched_process\<close> and does not return.\<close>

datatype sem_outcome = Sem_returns u32 kernel | Sem_blocks kernel

definition sys_sem_wait :: "u32 \<Rightarrow> kernel \<Rightarrow> sem_outcome result" where
  "sys_sem_wait sem k =
     andThen (my_assert ''sem_wait'' (sem_assert sem)) (\<lambda>_.
     andThen (sem_get sem k) (\<lambda>c.
       if c = 0 then
         if status (user_pcbs k (get_pid k)) = PCB_SLEEPING then Inr (Sem_returns E_INVALID k)
         else Inr (Sem_blocks (upd_pcb (get_pid k) (\<lambda>b. b\<lparr>wait_sem := sem, status := PCB_SLEEPING\<rparr>) k))
       else andThen (sem_set sem (c - 1) k) (\<lambda>k1. Inr (Sem_returns E_SUCCESS k1))))"

definition sys_sem_post :: "u32 \<Rightarrow> kernel \<Rightarrow> (u32 \<times> kernel) result" where
  "sys_sem_post sem k =
     andThen (my_assert ''sem_post'' (sem_assert sem)) (\<lambda>_.
     andThen (sem_get sem k) (\<lambda>c.
     andThen (sem_set sem (c + 1) k) (\<lambda>k1. Inr (E_SUCCESS, k1))))"

section \<open>kernel/sched.c\<close>

text \<open>
  One round over the processes after \<open>original\<close>: it ends in user mode, or inside the
  \<^verbatim>\<open>sched_process\<close> that \<^verbatim>\<open>sys_sem_wait\<close> called, or without having found a process.
\<close>

datatype round = Executed kernel | Nested kernel | Nothing_found kernel

function sched_round :: "nat \<Rightarrow> nat \<Rightarrow> kernel \<Rightarrow> round result" where
  "sched_round original rr k =
     (if rr < NPROC then
        let i = (rr + original + 1) mod NPROC; b = user_pcbs k i
        in if i = original then sched_round original (rr + 1) k
        else if status b = PCB_RUNNABLE then Inr (Executed (pcb_exec i k))
        else if status b = PCB_SLEEPING \<and> wakeup_time b \<le> sys_runned_time k then
          if wait_sem b = NOT_WAITING_SEM then Inr (Executed (pcb_exec i k))
          else (case sys_sem_wait (wait_sem b) k of
                  Inl e \<Rightarrow> Inl e
                | Inr (Sem_blocks k1) \<Rightarrow> Inr (Nested k1)
                | Inr (Sem_returns r k1) \<Rightarrow>
                    if r = E_SUCCESS
                    then Inr (Executed (pcb_exec i (upd_pcb i (\<lambda>b. b\<lparr>wait_sem := NOT_WAITING_SEM\<rparr>) k1)))
                    else sched_round original (rr + 1) k1)
        else sched_round original (rr + 1) k
      else Inr (Nothing_found k))"
  by pat_completeness auto
termination
  by (relation "measure (\<lambda>(orig, rr, k). NPROC - rr)") auto

declare sched_round.simps [simp del]

text \<open>\<^verbatim>\<open>while(true)\<close>; a nested call checks the assertion at the top of \<^verbatim>\<open>sched_process\<close> again.\<close>

partial_function (option) sched_loop :: "nat \<Rightarrow> kernel \<Rightarrow> kernel result option" where
  "sched_loop original k =
     (case sched_round original 0 (k\<lparr>sys_runned_time := sys_runned_time k + 1\<rparr>) of
        Inl e \<Rightarrow> Some (Inl e)
      | Inr (Executed k1) \<Rightarrow> Some (Inr k1)
      | Inr (Nothing_found k1) \<Rightarrow> sched_loop original k1
      | Inr (Nested k1) \<Rightarrow>
          if status (user_pcbs k1 (get_pid k1)) = PCB_RUNNING
          then Some (Inl (Assert_failed ''status != PCB_RUNNING''))
          else sched_loop (get_pid k1) k1)"

definition sched_process :: "kernel \<Rightarrow> kernel result option" where
  "sched_process k =
     (if status (user_pcbs k (get_pid k)) = PCB_RUNNING
      then Some (Inl (Assert_failed ''status != PCB_RUNNING''))
      else sched_loop (get_pid k) k)"

section \<open>kernel/syscall.c\<close>

text \<open>
  A system call returns a value, leaves in another process, or stops the machine
  (\<^verbatim>\<open>cli; hlt\<close> forever).
\<close>

datatype sys_outcome = Returns u32 kernel | Switched kernel | Halted kernel

definition switch :: "kernel result option \<Rightarrow> sys_outcome result option" where
  "switch m = map_option (\<lambda>r. andThen r (\<lambda>k. Inr (Switched k))) m"

definition sys_timer :: "u32 \<Rightarrow> kernel \<Rightarrow> kernel" where
  "sys_timer handler k = k\<lparr>do_timer := handler\<rparr>"

definition sys_keyboard :: "u32 \<Rightarrow> kernel \<Rightarrow> kernel" where
  "sys_keyboard handler k = k\<lparr>do_keyboard := handler\<rparr>"

definition VMEM_ADDR :: u32 where [simp]: "VMEM_ADDR = 0xA0000"
definition SCR_SIZE :: nat where [simp]: "SCR_SIZE = 320 * 200"

definition sys_display :: "u32 \<Rightarrow> u32 \<Rightarrow> u32 \<Rightarrow> kernel \<Rightarrow> kernel result" where
  "sys_display etp utp buffer k =
     andThen (virtual_memcpy (\<lambda>va. map_option fst (translate etp utp (mem k) (cr3 k) va))
                (KERNBASE + VMEM_ADDR) buffer SCR_SIZE (pmem (mem k)))
       (\<lambda>m. Inr (k\<lparr>mem := (mem k)\<lparr>pmem := m\<rparr>\<rparr>))"

definition sys_sleep :: "u32 \<Rightarrow> kernel \<Rightarrow> kernel result option" where
  "sys_sleep time k =
     sched_process (upd_pcb (get_pid k)
       (\<lambda>b. b\<lparr>status := PCB_SLEEPING, wakeup_time := sys_runned_time k + time\<rparr>) k)"

definition sys_exit :: "kernel \<Rightarrow> kernel result option" where
  "sys_exit k = sched_process (upd_pcb (get_pid k) (\<lambda>b. b\<lparr>status := PCB_FREE\<rparr>) k)"

text \<open>\<^verbatim>\<open>sti; hlt; cli\<close>: what happens at the interrupt is a trap of its own.\<close>

definition sys_wait_intr :: "kernel \<Rightarrow> kernel" where
  "sys_wait_intr k = k\<lparr>interrupts := False\<rparr>"

definition free_pcb :: "kernel \<Rightarrow> nat option" where
  "free_pcb k = find (\<lambda>p. p \<noteq> get_pid k \<and> status (user_pcbs k p) = PCB_FREE) [0..<NPROC]"

definition sys_fork :: "u32 \<Rightarrow> u32 \<Rightarrow> kernel \<Rightarrow> (u32 \<times> kernel) result" where
  "sys_fork etp utp k =
     (let old_pid = get_pid k
      in case free_pcb k of
        None \<Rightarrow> Inl (Panic ''No Free PCB'')
      | Some new_pid \<Rightarrow>
          let k1 = upd_pcb new_pid (\<lambda>_. user_pcbs k old_pid) k;
              k2 = upd_pcb new_pid (\<lambda>b. b\<lparr>pid := new_pid, status := PCB_RUNNABLE,
                     tf := (tf b)\<lparr>tf_regs := (tf_regs (tf b))\<lparr>reg_eax := 0\<rparr>\<rparr>\<rparr>) k1
          in andThen (pmap_init_and_copy etp utp (cr3 k2) new_pid old_pid (mem k2)) (\<lambda>m.
               Inr (of_nat new_pid, k2\<lparr>mem := m\<rparr>)))"

definition sys_mem_share :: "u32 \<Rightarrow> u32 \<Rightarrow> u32 \<Rightarrow> kernel \<Rightarrow> (u32 \<times> kernel) result" where
  "sys_mem_share dest_pid src_pid va k =
     andThen (pmap_copy_one_page (unat dest_pid) (unat src_pid) va (mem k)) (\<lambda>m.
       Inr (E_SUCCESS, k\<lparr>mem := m\<rparr>))"

definition returning :: "(u32 \<times> kernel) result \<Rightarrow> sys_outcome result option" where
  "returning m = Some (andThen m (\<lambda>(r, k). Inr (Returns r k)))"

definition waiting :: "sem_outcome result \<Rightarrow> sys_outcome result option" where
  "waiting m = (case m of
       Inl e \<Rightarrow> Some (Inl e)
     | Inr (Sem_returns r k) \<Rightarrow> Some (Inr (Returns r k))
     | Inr (Sem_blocks k) \<Rightarrow> switch (sched_process k))"

definition SYS_vprintk :: u32 where [simp]: "SYS_vprintk = 0"
definition SYS_exit :: u32 where [simp]: "SYS_exit = 1"
definition SYS_timer :: u32 where [simp]: "SYS_timer = 2"
definition SYS_keyboard :: u32 where [simp]: "SYS_keyboard = 3"
definition SYS_display :: u32 where [simp]: "SYS_display = 4"
definition SYS_crash :: u32 where [simp]: "SYS_crash = 5"
definition SYS_sleep :: u32 where [simp]: "SYS_sleep = 6"
definition SYS_wait_intr :: u32 where [simp]: "SYS_wait_intr = 7"
definition SYS_getpid :: u32 where [simp]: "SYS_getpid = 8"
definition SYS_fork :: u32 where [simp]: "SYS_fork = 9"
definition SYS_sem_open :: u32 where [simp]: "SYS_sem_open = 10"
definition SYS_sem_destroy :: u32 where [simp]: "SYS_sem_destroy = 11"
definition SYS_sem_wait :: u32 where [simp]: "SYS_sem_wait = 12"
definition SYS_sem_post :: u32 where [simp]: "SYS_sem_post = 13"
definition SYS_mem_share :: u32 where [simp]: "SYS_mem_share = 14"

definition syscall_handler :: "u32 \<Rightarrow> u32 \<Rightarrow> trapframe \<Rightarrow> kernel \<Rightarrow> sys_outcome result option" where
  "syscall_handler etp utp f k0 =
     (let k = k0\<lparr>interrupts := False\<rparr>; nr = reg_eax (tf_regs f); arg1 = reg_edx (tf_regs f);
          arg2 = reg_ecx (tf_regs f); arg3 = reg_ebx (tf_regs f)
      in if nr = SYS_vprintk then Some (Inr (Returns 0 (k\<lparr>calls := calls k @ [(SYS_vprintk, [arg1, arg2])]\<rparr>)))
      else if nr = SYS_exit then switch (sys_exit k)
      else if nr = SYS_fork then returning (sys_fork etp utp k)
      else if nr = SYS_timer then Some (Inr (Returns 0 (sys_timer arg1 k)))
      else if nr = SYS_keyboard then Some (Inr (Returns 0 (sys_keyboard arg1 k)))
      else if nr = SYS_display then returning (andThen (sys_display etp utp arg1 k) (\<lambda>k1. Inr (0, k1)))
      else if nr = SYS_sleep then switch (sys_sleep arg1 k)
      else if nr = SYS_wait_intr then Some (Inr (Returns 0 (sys_wait_intr k)))
      else if nr = SYS_crash then Some (Inr (Halted k))
      else if nr = SYS_getpid then Some (Inr (Returns (of_nat (get_pid k)) k))
      else if nr = SYS_sem_open then returning (sys_sem_open arg1 arg2 k)
      else if nr = SYS_sem_destroy then returning (sys_sem_destroy arg1 k)
      else if nr = SYS_sem_wait then waiting (sys_sem_wait arg1 k)
      else if nr = SYS_sem_post then returning (sys_sem_post arg1 k)
      else if nr = SYS_mem_share then returning (sys_mem_share arg1 arg2 arg3 k)
      else Some (Inr (Returns (-1) k)))"

section \<open>trap, kernel/trap.c\<close>

text \<open>
  A trap from user mode: the processor and \<^verbatim>\<open>kernel/trapentry.S\<close> have pushed the frame at
  \<^verbatim>\<open>ts_esp0\<close>, so that \<^verbatim>\<open>tf\<close> is the \<^verbatim>\<open>tf\<close> of the PCB there. \<open>code\<close> is what \<^verbatim>\<open>inb(0x60)\<close> reads;
  the port accesses of that case are in \<open>Entry\<close>.
\<close>

definition timer_tick :: "kernel \<Rightarrow> sys_outcome result option" where
  "timer_tick k0 =
     (let k1 = k0\<lparr>sys_runned_time := sys_runned_time k0 + 1\<rparr>;
          k = upd_pcb (get_pid k1) (\<lambda>b. b\<lparr>runned_time := runned_time b + 1\<rparr>) k1
      in if sys_runned_time k > sys_last_time k + SCHED_TIME_FREQ
         then switch (sys_sleep 1 (k\<lparr>sys_last_time := sys_runned_time k\<rparr>))
         else Some (Inr (Returns 0 (if do_timer k \<noteq> 0 then k\<lparr>calls := calls k @ [(do_timer k, [])]\<rparr> else k))))"

definition trap :: "u32 \<Rightarrow> u32 \<Rightarrow> u8 \<Rightarrow> kernel \<Rightarrow> sys_outcome result option" where
  "trap etp utp code k =
     (let p = (case ts_top k of Pcb_end i \<Rightarrow> i | Boot_stack \<Rightarrow> 0); f = tf (user_pcbs k p)
      in if interrupts k then Some (Inl (Assert_failed ''!(read_eflags() & FL_IF)''))
      else if tf_trapno f = T_ILLOP then Some (Inl (Panic ''Illegal opcode''))
      else if tf_trapno f = T_GPFLT then Some (Inl (Panic ''General protection fault''))
      else if tf_trapno f = T_PGFLT then Some (Inl (Panic ''Page fault''))
      else if tf_trapno f = T_SYSCALL then
        map_option (\<lambda>m. andThen m (\<lambda>r. case r of
            Returns v k1 \<Rightarrow> Inr (Returns v (upd_pcb p (\<lambda>b. b\<lparr>tf := (tf b)\<lparr>tf_regs :=
                (tf_regs (tf b))\<lparr>reg_eax := v\<rparr>\<rparr>\<rparr>) k1))
          | Switched k1 \<Rightarrow> Inr (Switched k1)
          | Halted k1 \<Rightarrow> Inr (Halted k1))) (syscall_handler etp utp f k)
      else if tf_trapno f = IRQ_OFFSET + IRQ_TIMER then timer_tick k
      else if tf_trapno f = IRQ_OFFSET + IRQ_KBD then
        Some (Inr (Returns 0 (if do_keyboard k \<noteq> 0
          then k\<lparr>calls := calls k @ [(do_keyboard k, [ucast code])]\<rparr> else k)))
      else if tf_trapno f = IRQ_OFFSET + IRQ_IDE then Some (Inr (Returns 0 k))
      else Some (Inl (Panic ''Unknown interrupt'')))"

text \<open>
  The processor enters the kernel with the frame \<open>f\<close> on the stack \<^verbatim>\<open>ts_esp0\<close> names, through a
  gate that clears the interrupt flag.
\<close>

definition enter :: "trapframe \<Rightarrow> kernel \<Rightarrow> kernel" where
  "enter f k = (upd_pcb (case ts_top k of Pcb_end i \<Rightarrow> i | Boot_stack \<Rightarrow> 0) (\<lambda>b. b\<lparr>tf := f\<rparr>) k)\<lparr>interrupts := False\<rparr>"

end
