(* ===== verification/Sched.thy ===== *)
theory Sched
  imports Kernel
begin

text \<open>
  The scheduler of \<^verbatim>\<open>kernel/sched.c\<close> and the semaphores of \<^verbatim>\<open>kernel/sem.c\<close>: what \<^verbatim>\<open>sched_process\<close>
  does, as a closed description (the first process after the caller, in the order of the table,
  that may run at the first tick at which one may, or the wait the caller is put to), when it never returns, that nobody
  starves, and what the semaphores promise. \<open>decide\<close> and \<open>take_turn\<close> are the reference the loop is compared
  with; \<open>next_process\<close> is the decision where no wait is adopted.
\<close>

section \<open>Fields of a state\<close>

lemma upd_pcb_fields [simp]:
  "user_pcbs (upd_pcb i f k) = (user_pcbs k)(i := f (user_pcbs k i))"
  "curr_pid (upd_pcb i f k) = curr_pid k" "sem_pool (upd_pcb i f k) = sem_pool k"
  "sys_runned_time (upd_pcb i f k) = sys_runned_time k" "sys_last_time (upd_pcb i f k) = sys_last_time k"
  "do_timer (upd_pcb i f k) = do_timer k" "do_keyboard (upd_pcb i f k) = do_keyboard k"
  "cr3 (upd_pcb i f k) = cr3 k" "ts_top (upd_pcb i f k) = ts_top k"
  "interrupts (upd_pcb i f k) = interrupts k" "mem (upd_pcb i f k) = mem k" "calls (upd_pcb i f k) = calls k"
  by (simp_all add: upd_pcb_def)

lemma pcb_exec_fields [simp]:
  "user_pcbs (pcb_exec i k) = (user_pcbs k)(i := (user_pcbs k i)\<lparr>status := PCB_RUNNING\<rparr>)"
  "curr_pid (pcb_exec i k) = pid (user_pcbs k i)" "cr3 (pcb_exec i k) = pid (user_pcbs k i)"
  "ts_top (pcb_exec i k) = Pcb_end i" "sem_pool (pcb_exec i k) = sem_pool k"
  "sys_runned_time (pcb_exec i k) = sys_runned_time k" "sys_last_time (pcb_exec i k) = sys_last_time k"
  "do_timer (pcb_exec i k) = do_timer k" "do_keyboard (pcb_exec i k) = do_keyboard k"
  "interrupts (pcb_exec i k) = interrupts k" "mem (pcb_exec i k) = mem k" "calls (pcb_exec i k) = calls k"
  by (simp_all add: pcb_exec_def Let_def)

lemma get_pid_simps [simp]:
  "get_pid (upd_pcb i f k) = get_pid k" "get_pid (pcb_exec i k) = pid (user_pcbs k i)"
  "get_pid (k\<lparr>sys_runned_time := t\<rparr>) = get_pid k" "get_pid (k\<lparr>sem_pool := p\<rparr>) = get_pid k"
  "get_pid (k\<lparr>user_pcbs := u\<rparr>) = get_pid k" "get_pid (k\<lparr>sys_last_time := t\<rparr>) = get_pid k"
  "get_pid (k\<lparr>interrupts := b\<rparr>) = get_pid k" "get_pid (k\<lparr>calls := c\<rparr>) = get_pid k"
  "get_pid (k\<lparr>mem := m\<rparr>) = get_pid k"
  by (simp_all add: get_pid_def)

section \<open>Semaphores\<close>

lemma sem_assert_true [simp]: "sem_assert s"
  by (auto simp: sem_assert_def)

text \<open>The count of a semaphore, when the index is one of the pool.\<close>

definition sem_count :: "u32 \<Rightarrow> kernel \<Rightarrow> u32" where
  "sem_count s k = sem_pool k ! unat s"

definition sem_index :: "u32 \<Rightarrow> kernel \<Rightarrow> bool" where
  "sem_index s k \<longleftrightarrow> unat s < length (sem_pool k)"

definition with_count :: "u32 \<Rightarrow> u32 \<Rightarrow> kernel \<Rightarrow> kernel" where
  "with_count s c k = k\<lparr>sem_pool := (sem_pool k)[unat s := c]\<rparr>"

lemma with_count_fields [simp]:
  "user_pcbs (with_count s c k) = user_pcbs k" "curr_pid (with_count s c k) = curr_pid k"
  "get_pid (with_count s c k) = get_pid k" "sys_runned_time (with_count s c k) = sys_runned_time k"
  "length (sem_pool (with_count s c k)) = length (sem_pool k)" "sem_index t (with_count s c k) = sem_index t k"
  "cr3 (with_count s c k) = cr3 k" "ts_top (with_count s c k) = ts_top k"
  "interrupts (with_count s c k) = interrupts k" "mem (with_count s c k) = mem k"
  by (simp_all add: with_count_def get_pid_def sem_index_def)

lemma sem_count_with [simp]:
  "sem_index s k \<Longrightarrow> sem_count t (with_count s c k) = (if t = s then c else sem_count t k)"
  by (auto simp: sem_count_def with_count_def sem_index_def nth_list_update unat_eq_iff)

lemma sem_ops:
  "sem_index s k \<Longrightarrow> sem_get s k = Inr (sem_count s k)"
  "sem_index s k \<Longrightarrow> sem_set s c k = Inr (with_count s c k)"
  "\<not> sem_index s k \<Longrightarrow> sem_get s k = Inl (Out_of_bounds ''sem_pool'')"
  "\<not> sem_index s k \<Longrightarrow> sem_set s c k = Inl (Out_of_bounds ''sem_pool'')"
  by (auto simp: sem_get_def sem_set_def sem_index_def sem_count_def with_count_def array_get_def
      array_put_def my_assert_def)

lemma sem_wait_simps:
  "\<not> sem_index s k \<Longrightarrow> sys_sem_wait s k = Inl (Out_of_bounds ''sem_pool'')"
  "sem_index s k \<Longrightarrow> 0 < sem_count s k \<Longrightarrow>
     sys_sem_wait s k = Inr (Sem_returns E_SUCCESS (with_count s (sem_count s k - 1) k))"
  "sem_index s k \<Longrightarrow> sem_count s k = 0 \<Longrightarrow> status (user_pcbs k (get_pid k)) = PCB_SLEEPING \<Longrightarrow>
     sys_sem_wait s k = Inr (Sem_returns E_INVALID k)"
  "sem_index s k \<Longrightarrow> sem_count s k = 0 \<Longrightarrow> status (user_pcbs k (get_pid k)) \<noteq> PCB_SLEEPING \<Longrightarrow>
     sys_sem_wait s k = Inr (Sem_blocks (upd_pcb (get_pid k) (\<lambda>b. b\<lparr>wait_sem := s, status := PCB_SLEEPING\<rparr>) k))"
  by (auto simp: sys_sem_wait_def sem_ops my_assert_def word_gt_0)

section \<open>The reference\<close>

text \<open>The processes after \<open>original\<close>, in the order of the loop; the last is the one before it.\<close>

definition after :: "nat \<Rightarrow> nat list" where
  "after original = map (\<lambda>rr. (rr + original + 1) mod NPROC) [0..<63]"

definition asleep :: "kernel \<Rightarrow> nat \<Rightarrow> bool" where
  "asleep k i \<longleftrightarrow> status (user_pcbs k i) = PCB_SLEEPING \<and> wakeup_time (user_pcbs k i) \<le> sys_runned_time k"

definition may_run :: "kernel \<Rightarrow> nat \<Rightarrow> bool" where
  "may_run k i \<longleftrightarrow> status (user_pcbs k i) = PCB_RUNNABLE
     \<or> asleep k i \<and> (wait_sem (user_pcbs k i) = NOT_WAITING_SEM \<or> 0 < sem_count (wait_sem (user_pcbs k i)) k)"

definition next_process :: "kernel \<Rightarrow> nat \<Rightarrow> nat option" where
  "next_process k original = find (may_run k) (after original)"

text \<open>A process that waited on a semaphore takes one from it and waits no more.\<close>

definition take_turn :: "nat \<Rightarrow> kernel \<Rightarrow> kernel" where
  "take_turn i k =
     (let s = wait_sem (user_pcbs k i)
      in pcb_exec i (if status (user_pcbs k i) = PCB_RUNNABLE \<or> s = NOT_WAITING_SEM then k
           else upd_pcb i (\<lambda>b. b\<lparr>wait_sem := NOT_WAITING_SEM\<rparr>) (with_count s (sem_count s k - 1) k)))"

text \<open>What a state must satisfy for the scheduler to stay inside the pool of semaphores.\<close>

definition waits_in_pool :: "kernel \<Rightarrow> bool" where
  "waits_in_pool k \<longleftrightarrow> (\<forall>i < NPROC. status (user_pcbs k i) = PCB_SLEEPING \<longrightarrow>
     wait_sem (user_pcbs k i) = NOT_WAITING_SEM \<or> sem_index (wait_sem (user_pcbs k i)) k)"

text \<open>
  \<^verbatim>\<open>sys_sem_wait\<close>, called by the scheduler for a sleeper, looks at the status of the caller of the
  scheduler. When the caller itself sleeps, an empty semaphore is passed over; when the caller has exited or is
  runnable, it is the caller that is put to sleep on the semaphore, and the scheduler starts again.
\<close>

definition ready :: "kernel \<Rightarrow> nat \<Rightarrow> bool" where
  "ready k i \<longleftrightarrow> status (user_pcbs k i) = PCB_RUNNABLE \<or> asleep k i"

datatype decision = Run nat | Adopt u32

definition decide_among :: "kernel \<Rightarrow> nat \<Rightarrow> nat list \<Rightarrow> decision option" where
  "decide_among k original js =
     (if status (user_pcbs k original) = PCB_SLEEPING then map_option Run (find (may_run k) js)
      else map_option (\<lambda>i. if may_run k i then Run i else Adopt (wait_sem (user_pcbs k i))) (find (ready k) js))"

definition decide :: "kernel \<Rightarrow> nat \<Rightarrow> decision option" where
  "decide k original = decide_among k original (after original)"

definition adopt :: "u32 \<Rightarrow> nat \<Rightarrow> kernel \<Rightarrow> kernel" where
  "adopt s original k = upd_pcb original (\<lambda>b. b\<lparr>wait_sem := s, status := PCB_SLEEPING\<rparr>) k"

text \<open>The states the scheduler is called in, and those where it adopts no wait.\<close>

definition schedulable :: "kernel \<Rightarrow> nat \<Rightarrow> bool" where
  "schedulable k original \<longleftrightarrow> original < NPROC \<and> get_pid k = original
     \<and> status (user_pcbs k original) \<noteq> PCB_RUNNING \<and> waits_in_pool k"

definition calm :: "kernel \<Rightarrow> nat \<Rightarrow> bool" where
  "calm k original \<longleftrightarrow> status (user_pcbs k original) = PCB_SLEEPING
     \<or> status (user_pcbs k original) \<noteq> PCB_RUNNING
       \<and> (\<forall>i < NPROC. status (user_pcbs k i) = PCB_SLEEPING \<longrightarrow>
            wait_sem (user_pcbs k i) = NOT_WAITING_SEM \<or> 0 < sem_count (wait_sem (user_pcbs k i)) k)"

lemma set_after:
  assumes o: "original < 64"
  shows "set (after original) = {i. i < 64 \<and> i \<noteq> original}"
proof (intro set_eqI iffI)
  fix i assume i: "i \<in> {i. i < 64 \<and> i \<noteq> original}"
  define rr where "rr = (if i < original then i + 63 - original else i - original - 1)"
  have rr: "rr < 63" "rr + original + 1 = i \<or> rr + original + 1 = i + 64"
    using o i by (auto simp: rr_def)
  have "(rr + original + 1) mod 64 = i" using rr(2) i by (metis mem_Collect_eq mod_add_self2 mod_less)
  with rr(1) have "rr \<in> set [0..<63]" "i = (rr + original + 1) mod NPROC" by auto
  then show "i \<in> set (after original)" unfolding after_def by (metis (no_types, lifting) image_eqI list.set_map)
next
  fix i assume i: "i \<in> set (after original)"
  then obtain rr where rr: "rr < 63" "i = (rr + original + 1) mod 64" by (auto simp: after_def)
  have "i \<noteq> original"
  proof (cases "rr + original + 1 < 64")
    case False
    then have "i = rr + original + 1 - 64" using rr o by (simp add: mod_if)
    then show ?thesis using rr False by auto
  qed (use rr in simp)
  then show "i \<in> {i. i < 64 \<and> i \<noteq> original}" using rr by simp
qed

lemma scan_step: "rr < 63 \<Longrightarrow> original < (64 :: nat) \<Longrightarrow> (rr + original + 1) mod 64 \<noteq> original"
  using set_after [of original] unfolding after_def NPROC_def set_map by fastforce

section \<open>One round\<close>

fun concluded :: "kernel \<Rightarrow> nat \<Rightarrow> decision option \<Rightarrow> round" where
  "concluded k original None = Nothing_found k"
| "concluded k original (Some (Run i)) = Executed (take_turn i k)"
| "concluded k original (Some (Adopt s)) = Nested (adopt s original k)"

lemma may_run_ready: "may_run k i \<Longrightarrow> ready k i"
  by (auto simp: may_run_def ready_def)

lemma decide_among_Cons:
  "decide_among k original (i # js) =
     (if may_run k i then Some (Run i)
      else if ready k i \<and> status (user_pcbs k original) \<noteq> PCB_SLEEPING then Some (Adopt (wait_sem (user_pcbs k i)))
      else decide_among k original js)"
  using may_run_ready [of k i] by (simp add: decide_among_def)

lemma sched_round_from:
  assumes sc: "schedulable k original" and rr: "rr \<le> 63"
  shows "sched_round original rr k =
    Inr (concluded k original (decide_among k original (map (\<lambda>rr. (rr + original + 1) mod NPROC) [rr..<63])))"
  using rr
proof (induction "63 - rr" arbitrary: rr)
  case 0
  have "(63 + original + 1) mod 64 = original" using sc by (simp add: schedulable_def mod_if)
  then have "sched_round original 63 k = sched_round original 64 k"
    by (subst sched_round.simps) (simp add: Let_def)
  also have "\<dots> = Inr (Nothing_found k)" by (subst sched_round.simps) simp
  finally show ?case using 0 by (simp add: decide_among_def)
next
  case (Suc d)
  then have lt: "rr < 63" by simp
  define i where "i = (rr + original + 1) mod 64"
  have idef: "(rr + original + 1) mod NPROC = i" "rr < NPROC" using lt by (simp_all add: i_def)
  have i: "i \<noteq> original" "i < 64" using scan_step [OF lt] sc by (simp_all add: i_def schedulable_def)
  have up: "[rr..<63] = rr # [Suc rr..<63]" using lt by (rule upt_conv_Cons)
  note IH = Suc.hyps(1) [of "rr + 1"]
  have rest: "sched_round original (rr + 1) k = Inr (concluded k original
      (decide_among k original (map (\<lambda>rr. (rr + original + 1) mod NPROC) [rr + 1..<63])))"
    using Suc.hyps(2) lt by (intro IH) auto
  let ?s = "wait_sem (user_pcbs k i)"
  have idx: "asleep k i \<Longrightarrow> ?s \<noteq> NOT_WAITING_SEM \<Longrightarrow> sem_index ?s k"
    using sc i(2) by (auto simp: schedulable_def waits_in_pool_def asleep_def)
  have cur: "get_pid k = original" using sc by (simp add: schedulable_def)
  have step: "sched_round original rr k =
        (if status (user_pcbs k i) = PCB_RUNNABLE then Inr (Executed (pcb_exec i k))
         else if asleep k i then
           if ?s = NOT_WAITING_SEM then Inr (Executed (pcb_exec i k))
           else (case sys_sem_wait ?s k of
                  Inl e \<Rightarrow> Inl e
                | Inr (Sem_blocks k1) \<Rightarrow> Inr (Nested k1)
                | Inr (Sem_returns r k1) \<Rightarrow>
                    if r = E_SUCCESS
                    then Inr (Executed (pcb_exec i (upd_pcb i (\<lambda>b. b\<lparr>wait_sem := NOT_WAITING_SEM\<rparr>) k1)))
                    else sched_round original (rr + 1) k1)
         else sched_round original (rr + 1) k)"
    using lt i(1) by (subst sched_round.simps) (simp add: Let_def idef asleep_def del: One_nat_def NPROC_def)
  have unfold: "sched_round original rr k =
    (if may_run k i then Inr (Executed (take_turn i k))
     else if ready k i \<and> status (user_pcbs k original) \<noteq> PCB_SLEEPING then Inr (Nested (adopt ?s original k))
     else sched_round original (rr + 1) k)"
  proof (cases "asleep k i \<and> ?s \<noteq> NOT_WAITING_SEM")
    case True
    then have a: "status (user_pcbs k i) = PCB_SLEEPING" and x: "sem_index ?s k" using idx by (simp_all add: asleep_def)
    show ?thesis
    proof (cases "sem_count ?s k = 0")
      case z: True
      then have m: "\<not> may_run k i" "ready k i" using True a by (simp_all add: may_run_def ready_def)
      show ?thesis
      proof (cases "status (user_pcbs k original) = PCB_SLEEPING")
        case True
        then show ?thesis using z m a x cur \<open>asleep k i \<and> _\<close> by (simp add: step sem_wait_simps(3))
      next
        case False
        then show ?thesis using z m a x cur \<open>asleep k i \<and> _\<close> by (simp add: step sem_wait_simps(4) adopt_def)
      qed
    next
      case False
      then have "0 < sem_count ?s k" by (simp add: word_gt_0)
      then show ?thesis using True a x
        by (simp add: step sem_wait_simps(2) may_run_def take_turn_def Let_def)
    qed
  next
    case False
    then show ?thesis by (auto simp: step may_run_def ready_def take_turn_def asleep_def Let_def)
  qed
  show ?case
    by (simp only: unfold up list.map decide_among_Cons idef(1)) (simp add: rest [simplified])
qed

lemma round_decides:
  "schedulable k original \<Longrightarrow> sched_round original 0 k = Inr (concluded k original (decide k original))"
  using sched_round_from [of k original 0] by (simp add: decide_def after_def)

section \<open>The loop\<close>

definition ticks :: "nat \<Rightarrow> kernel \<Rightarrow> kernel" where
  "ticks n k = k\<lparr>sys_runned_time := sys_runned_time k + of_nat n\<rparr>"

lemma ticks_fields [simp]:
  "user_pcbs (ticks n k) = user_pcbs k" "get_pid (ticks n k) = get_pid k" "sem_pool (ticks n k) = sem_pool k"
  "ticks 0 k = k" "ticks m (ticks n k) = ticks (n + m) k"
  "sys_runned_time (ticks n k) = sys_runned_time k + of_nat n" "curr_pid (ticks n k) = curr_pid k"
  by (simp_all add: ticks_def get_pid_def ac_simps)

lemma ticks_keeps [simp]:
  "calm (ticks n k) original = calm k original" "waits_in_pool (ticks n k) = waits_in_pool k"
  "sem_index s (ticks n k) = sem_index s k" "sem_count s (ticks n k) = sem_count s k"
  "schedulable (ticks n k) original = schedulable k original"
  by (simp_all add: calm_def waits_in_pool_def sem_index_def sem_count_def schedulable_def)

lemma loop_step:
  assumes "schedulable k original"
  shows "sched_loop original k = (case decide (ticks 1 k) original of
     None \<Rightarrow> sched_loop original (ticks 1 k) | Some (Run i) \<Rightarrow> Some (Inr (take_turn i (ticks 1 k)))
   | Some (Adopt s) \<Rightarrow> sched_loop original (adopt s original (ticks 1 k)))"
proof -
  have t: "k\<lparr>sys_runned_time := sys_runned_time k + 1\<rparr> = ticks 1 k" by (simp add: ticks_def)
  have "sched_round original 0 (ticks 1 k) = Inr (concluded (ticks 1 k) original (decide (ticks 1 k) original))"
    using assms by (intro round_decides) simp
  moreover have "get_pid (adopt s original (ticks 1 k)) = original"
    "status (user_pcbs (adopt s original (ticks 1 k)) original) = PCB_SLEEPING" for s
    using assms by (simp_all add: adopt_def schedulable_def)
  ultimately show ?thesis by (subst sched_loop.simps) (simp add: t split: option.split decision.split)
qed

lemma loop_until:
  assumes "schedulable k original" "\<And>m. m < n \<Longrightarrow> decide (ticks (m + 1) k) original = None"
  shows "sched_loop original k = sched_loop original (ticks n k)"
  using assms
proof (induction n arbitrary: k)
  case (Suc n)
  have "sched_loop original (ticks 1 k) = sched_loop original (ticks n (ticks 1 k))"
    using Suc.prems(1) Suc.prems(2) [of "_ + 1"] by (intro Suc.IH) simp_all
  then show ?case using loop_step [OF Suc.prems(1)] Suc.prems(2) [of 0] by simp
qed simp

lemma loop_decides:
  assumes "schedulable k original" "\<And>m. m < n \<Longrightarrow> decide (ticks (m + 1) k) original = None"
    and "decide (ticks (n + 1) k) original = Some d"
  shows "sched_loop original k = (case d of Run i \<Rightarrow> Some (Inr (take_turn i (ticks (n + 1) k)))
     | Adopt s \<Rightarrow> sched_loop original (adopt s original (ticks (n + 1) k)))"
  using loop_until [OF assms(1,2)] loop_step [of "ticks n k" original] assms(1,3)
  by (simp split: decision.split)

lemma loop_returns_only_if:
  assumes "sched_loop original k = Some y"
  shows "schedulable k original \<longrightarrow> (\<exists>n. decide (ticks (n + 1) k) original \<noteq> None)"
proof (rule sched_loop.raw_induct
    [where P = "\<lambda>original k y. schedulable k original \<longrightarrow> (\<exists>n. decide (ticks (n + 1) k) original \<noteq> None)",
     OF _ assms], goal_cases)
  case (1 loop original k y)
  have t: "k\<lparr>sys_runned_time := sys_runned_time k + 1\<rparr> = ticks 1 k" by (simp add: ticks_def)
  show ?case
  proof
    assume r: "schedulable k original"
    show "\<exists>n. decide (ticks (n + 1) k) original \<noteq> None"
    proof (cases "decide (ticks 1 k) original")
      case None
      then have "sched_round original 0 (ticks 1 k) = Inr (Nothing_found (ticks 1 k))"
        using round_decides [of "ticks 1 k" original] r by simp
      then have "loop original (ticks 1 k) = Some y" using 1(2) by (simp add: t)
      from 1(1) [OF this] r obtain n where "decide (ticks (n + 1) (ticks 1 k)) original \<noteq> None" by auto
      then have "decide (ticks ((n + 1) + 1) k) original \<noteq> None" by simp
      then show ?thesis by blast
    next
      case (Some d)
      then have "decide (ticks (0 + 1) k) original \<noteq> None" by simp
      then show ?thesis by blast
    qed
  qed
qed

lemma loop_undecided:
  "\<lbrakk>schedulable k original; \<And>n. decide (ticks (n + 1) k) original = None\<rbrakk> \<Longrightarrow> sched_loop original k = None"
  using loop_returns_only_if [of original k] by (cases "sched_loop original k") auto

text \<open>Where no wait is adopted, the decisions are those of \<open>next_process\<close>.\<close>

definition regular :: "kernel \<Rightarrow> nat \<Rightarrow> bool" where
  "regular k original \<longleftrightarrow> original < 64 \<and> get_pid k = original \<and> calm k original \<and> waits_in_pool k"

lemma regular_ticks [simp]: "regular (ticks n k) original = regular k original"
  by (simp add: regular_def)

lemma regular_schedulable: "regular k original \<Longrightarrow> schedulable k original"
  by (auto simp: regular_def schedulable_def calm_def)

lemma regular_decide:
  assumes "regular k original"
  shows "decide k original = map_option Run (next_process k original)"
proof (cases "status (user_pcbs k original) = PCB_SLEEPING")
  case False
  have "\<forall>i \<in> set (after original). ready k i = may_run k i"
    using assms False set_after [of original]
    by (auto simp: regular_def calm_def ready_def may_run_def asleep_def)
  then have "find (ready k) (after original) = find (may_run k) (after original)" by (intro find_cong) auto
  then have "decide k original = map_option (\<lambda>i. if may_run k i then Run i else Adopt (wait_sem (user_pcbs k i)))
      (next_process k original)"
    using False by (simp add: decide_def decide_among_def next_process_def)
  moreover have "may_run k i" if "next_process k original = Some i" for i
    using that by (auto simp: next_process_def find_Some_iff)
  ultimately show ?thesis by (cases "next_process k original") simp_all
qed (simp add: decide_def decide_among_def next_process_def)

lemma loop_finds:
  assumes "regular k original" "\<And>m. m < n \<Longrightarrow> next_process (ticks (m + 1) k) original = None"
    and "next_process (ticks (n + 1) k) original = Some i"
  shows "sched_loop original k = Some (Inr (take_turn i (ticks (n + 1) k)))"
  using loop_decides [OF regular_schedulable [OF assms(1)], of n "Run i"] regular_decide [of "ticks _ k" original] assms
  by simp

lemma loop_never:
  assumes "regular k original" "\<And>n. next_process (ticks (n + 1) k) original = None"
  shows "sched_loop original k = None"
  using loop_undecided [OF regular_schedulable [OF assms(1)]] regular_decide [of "ticks _ k" original] assms by simp

section \<open>Round robin\<close>

text \<open>How many processes of the table come before \<open>i\<close> when the loop starts after \<open>original\<close>.\<close>

definition distance :: "nat \<Rightarrow> nat \<Rightarrow> nat" where
  "distance original i = (i + 63 - original) mod 64"

lemma distance_nth:
  assumes "original < 64" "rr < 63"
  shows "distance original (after original ! rr) = rr"
proof -
  have e: "after original ! rr = (rr + original + 1) mod 64" using assms by (simp add: after_def)
  show ?thesis
  proof (cases "rr + original + 1 < 64")
    case True
    then show ?thesis using assms by (simp add: e distance_def)
  next
    case False
    then have "(rr + original + 1) mod 64 = rr + original + 1 - 64" using assms by (simp add: mod_if)
    then show ?thesis using assms False by (simp add: e distance_def)
  qed
qed

lemma find_after_nearest:
  assumes "original < 64" "find P (after original) = Some i"
  shows "P i" "i < 64" "i \<noteq> original"
    "\<And>j. j < 64 \<Longrightarrow> j \<noteq> original \<Longrightarrow> P j \<Longrightarrow> distance original i \<le> distance original j"
proof -
  have l: "length (after original) = 63" by (simp add: after_def)
  from assms(2) obtain m where m: "m < 63" "P (after original ! m)" "i = after original ! m"
      "\<And>r. r < m \<Longrightarrow> \<not> P (after original ! r)"
    by (auto simp: find_Some_iff l)
  show "P i" using m by simp
  have "i \<in> set (after original)" using m l by simp
  then show "i < 64" "i \<noteq> original" using set_after [OF assms(1)] by auto
  fix j assume "j < 64" "j \<noteq> original" and j: "P j"
  then have "j \<in> set (after original)" using set_after [OF assms(1)] by auto
  then obtain r where r: "r < 63" "j = after original ! r" by (auto simp: in_set_conv_nth l)
  have "\<not> r < m" using m(4) j r(2) by auto
  then show "distance original i \<le> distance original j"
    using distance_nth [OF assms(1)] m(1,3) r by simp
qed

lemmas next_process_nearest = find_after_nearest [where P = "may_run k" for k, folded next_process_def]

lemma next_process_None:
  "original < 64 \<Longrightarrow> next_process k original = None \<longleftrightarrow> (\<forall>i. i < 64 \<and> i \<noteq> original \<longrightarrow> \<not> may_run k i)"
  using set_after [of original] by (auto simp: next_process_def find_None_iff)

lemma next_process_only:
  assumes "original < 64" "i < 64" "i \<noteq> original" "\<And>j. j < 64 \<Longrightarrow> j \<noteq> original \<Longrightarrow> may_run k j \<longleftrightarrow> j = i"
  shows "next_process k original = Some i"
proof -
  have "next_process k original \<noteq> None" using assms next_process_None by blast
  then obtain j where j: "next_process k original = Some j" by blast
  show ?thesis using next_process_nearest(1-3) [OF assms(1) j] assms(4) j by blast
qed

lemma distance_eq:
  assumes "a < 64" "b < 64" "a \<noteq> b"
  shows "distance a b = (if b \<le> a then b + 63 - a else b - a - 1)"
proof (cases "b \<le> a")
  case False
  then have "b + 63 - a = (b - a - 1) + 64" by simp
  then show ?thesis using assms False unfolding distance_def by (metis mod_add_self2 mod_less less_imp_diff_less)
qed (use assms in \<open>simp add: distance_def\<close>)

text \<open>Passing over \<open>j\<close> brings it nearer.\<close>

lemma distance_decreases:
  assumes "original < 64" "i < 64" "j < 64" "j \<noteq> original" "i \<noteq> original" "i \<noteq> j"
    and "distance original i \<le> distance original j"
  shows "distance i j < distance original j"
  using assms by (auto simp: distance_eq split: if_splits)

definition idle_pcb :: pcb where
  "idle_pcb = \<lparr>pid = 0, parent_pid = 0, status = PCB_FREE, runned_time = 0, wakeup_time = 0, pcb_pgdir = 0,
     wait_sem = NOT_WAITING_SEM, kstack = [], tf = zero_frame\<rparr>"

text \<open>A kernel for the examples: process 0 runs, \<open>st\<close> gives the others.\<close>

definition sample_kernel :: "(nat \<Rightarrow> pcb) \<Rightarrow> kernel" where
  "sample_kernel st = \<lparr>user_pcbs = st(0 := idle_pcb\<lparr>status := PCB_RUNNING\<rparr>), curr_pid = 0, sem_pool = [0, 0, 0],
     sys_runned_time = 0, sys_last_time = 0, do_timer = 0, do_keyboard = 0, cr3 = 0, ts_top = Pcb_end 0,
     interrupts = False, mem = \<lparr>user_pgdir = \<lambda>_ _. 0, user_pgtable = \<lambda>_ _. 0, pmem = \<lambda>_. 0\<rparr>, calls = []\<rparr>"

lemma sample_kernel_fields [simp]:
  "user_pcbs (sample_kernel st) = st(0 := idle_pcb\<lparr>status := PCB_RUNNING\<rparr>)"
  "get_pid (sample_kernel st) = 0" "sem_pool (sample_kernel st) = [0, 0, 0]"
  "sys_runned_time (sample_kernel st) = 0" "sys_last_time (sample_kernel st) = 0"
  "status idle_pcb = PCB_FREE" "wait_sem idle_pcb = NOT_WAITING_SEM" "pid idle_pcb = 0" "wakeup_time idle_pcb = 0"
  by (simp_all add: sample_kernel_def get_pid_def idle_pcb_def)

definition all_ready :: kernel where
  "all_ready = sample_kernel (\<lambda>i. idle_pcb\<lparr>pid := i, status := PCB_RUNNABLE\<rparr>)"

section \<open>What sched\_process does\<close>

lemma regular_not_running: "regular k original \<Longrightarrow> status (user_pcbs k original) \<noteq> PCB_RUNNING"
  by (auto simp: regular_def calm_def)

lemma sched_process_loop: "regular k original \<Longrightarrow> sched_process k = sched_loop original k"
  using regular_not_running [of k original] by (simp add: sched_process_def regular_def)

lemma schedulable_loop: "schedulable k original \<Longrightarrow> sched_process k = sched_loop original k"
  by (simp add: sched_process_def schedulable_def)

lemma adopt_schedulable:
  assumes "schedulable k original" "decide k original = Some (Adopt s)"
  shows "schedulable (adopt s original k) original" "status (user_pcbs (adopt s original k) original) = PCB_SLEEPING"
proof -
  obtain i where i: "find (ready k) (after original) = Some i" "\<not> may_run k i" "s = wait_sem (user_pcbs k i)"
    using assms(2) by (auto simp: decide_def decide_among_def split: if_splits)
  have "ready k i" "i \<in> set (after original)" using i(1) by (auto simp: find_Some_iff)
  then have "sem_index s k"
    using assms(1) i(2,3) set_after [of original]
    by (auto simp: schedulable_def waits_in_pool_def may_run_def ready_def asleep_def)
  then show "schedulable (adopt s original k) original"
    using assms(1) by (auto simp: schedulable_def adopt_def waits_in_pool_def sem_index_def)
qed (simp add: adopt_def)

lemma sched_process_decides:
  assumes "schedulable k original"
  shows "\<lbrakk>decide (ticks (n + 1) k) original = Some d; \<forall>m < n. decide (ticks (m + 1) k) original = None\<rbrakk>
      \<Longrightarrow> sched_process k = (case d of Run i \<Rightarrow> Some (Inr (take_turn i (ticks (n + 1) k)))
            | Adopt s \<Rightarrow> sched_process (adopt s original (ticks (n + 1) k)))"
    and "(\<forall>n. decide (ticks (n + 1) k) original = None) \<Longrightarrow> sched_process k = None"
proof -
  show "sched_process k = (case d of Run i \<Rightarrow> Some (Inr (take_turn i (ticks (n + 1) k)))
      | Adopt s \<Rightarrow> sched_process (adopt s original (ticks (n + 1) k)))"
    if d: "decide (ticks (n + 1) k) original = Some d" "\<forall>m < n. decide (ticks (m + 1) k) original = None"
    using loop_decides [OF assms, of n d] d adopt_schedulable(1) [of "ticks (n + 1) k" original] assms
    by (auto simp: schedulable_loop split: decision.split)
  show "sched_process k = None" if "\<forall>n. decide (ticks (n + 1) k) original = None"
    using loop_undecided [OF assms] that schedulable_loop [OF assms] by simp
qed

text \<open>
  C15. \<^verbatim>\<open>sched_process\<close> is its reference, for every caller that is not running and in every state where
  the semaphores waited on are in the pool. It counts ticks; the first tick at which \<open>decide\<close> has an answer
  ends it. For a caller that sleeps the answer is the first process after the caller, in the cyclic order of the table, that
  may run: runnable, or asleep with its time come and its semaphore, if it waits on one, positive. For a caller that has
  exited or is runnable it is the first that is runnable or asleep with its time come; when that one
  waits on an empty semaphore the caller is put to sleep on the semaphore itself, and the scheduler goes on from
  there, with a caller that sleeps. When no tick has an answer \<^verbatim>\<open>sched_process\<close> never returns.
\<close>

theorem sched_process_reference:
  assumes "schedulable k original"
  shows "(\<forall>n d. decide (ticks (n + 1) k) original = Some d \<and> (\<forall>m < n. decide (ticks (m + 1) k) original = None)
          \<longrightarrow> (case d of
                 Run i \<Rightarrow> sched_process k = Some (Inr (take_turn i (ticks (n + 1) k)))
               | Adopt s \<Rightarrow> sched_process k = sched_process (adopt s original (ticks (n + 1) k))
                   \<and> schedulable (adopt s original (ticks (n + 1) k)) original
                   \<and> status (user_pcbs (adopt s original (ticks (n + 1) k)) original) = PCB_SLEEPING))
       \<and> ((\<forall>n. decide (ticks (n + 1) k) original = None) \<longrightarrow> sched_process k = None)"
  using sched_process_decides [OF assms] adopt_schedulable [of "ticks _ k" original] assms
  by (auto split: decision.splits)

definition two_sleepers :: kernel where
  "two_sleepers = (sample_kernel ((\<lambda>_. idle_pcb)(5 := idle_pcb\<lparr>pid := 5, status := PCB_SLEEPING, wakeup_time := 1\<rparr>)))"

text \<open>A sleeping caller and a sleeper; then a caller that has exited, while process 3 waits on an empty semaphore.\<close>

definition waiter :: kernel where
  "waiter = sample_kernel ((\<lambda>_. idle_pcb)(3 := idle_pcb\<lparr>pid := 3, status := PCB_SLEEPING, wait_sem := 2\<rparr>))"

theorem sched_process_reference_witness:
  "sched_process (upd_pcb 0 (\<lambda>b. b\<lparr>status := PCB_SLEEPING, wakeup_time := 9\<rparr>) two_sleepers)
     = Some (Inr (take_turn 5 (ticks 1 (upd_pcb 0 (\<lambda>b. b\<lparr>status := PCB_SLEEPING, wakeup_time := 9\<rparr>) two_sleepers))))
   \<and> sched_process (upd_pcb 0 (\<lambda>b. b\<lparr>status := PCB_FREE\<rparr>) waiter)
     = sched_process (adopt 2 0 (ticks 1 (upd_pcb 0 (\<lambda>b. b\<lparr>status := PCB_FREE\<rparr>) waiter)))"
    (is "sched_process ?k = _ \<and> sched_process ?w = _")
proof
  have "schedulable ?k 0" by (simp add: schedulable_def waits_in_pool_def two_sleepers_def)
  moreover have "decide (ticks (0 + 1) ?k) 0 = Some (Run 5)"
    by (simp add: decide_def decide_among_def after_def upt_conv_Cons may_run_def asleep_def two_sleepers_def)
  ultimately show "sched_process ?k = Some (Inr (take_turn 5 (ticks 1 ?k)))"
    using sched_process_reference [of ?k 0] by fastforce
  have "schedulable ?w 0" by (simp add: schedulable_def waits_in_pool_def waiter_def sem_index_def)
  moreover have "decide (ticks (0 + 1) ?w) 0 = Some (Adopt 2)"
    by (simp add: decide_def decide_among_def after_def upt_conv_Cons may_run_def ready_def asleep_def waiter_def sem_count_def)
  ultimately show "sched_process ?w = sched_process (adopt 2 0 (ticks 1 ?w))"
    using sched_process_reference [of ?w 0] by fastforce
qed

section \<open>Whom the scheduler chooses\<close>

lemma find_after_exists:
  "\<lbrakk>original < 64; j < 64; j \<noteq> original; P j\<rbrakk> \<Longrightarrow> \<exists>i. find P (after original) = Some i"
  using set_after [of original] by (cases "find P (after original)") (auto simp: find_None_iff)

text \<open>The process that runs when the scheduler has decided, at the tick of the clock that comes next.\<close>

lemma take_turn_runs:
  "get_pid (take_turn i k) = pid (user_pcbs k i)" "status (user_pcbs (take_turn i k) i) = PCB_RUNNING"
  by (simp_all add: take_turn_def Let_def)

lemma sleeper_decides:
  assumes sc: "schedulable k original" and sl: "status (user_pcbs k original) = PCB_SLEEPING"
    and j: "j < 64" "j \<noteq> original" "may_run (ticks 1 k) j"
  obtains i where "sched_process k = Some (Inr (take_turn i (ticks 1 k)))" "i < 64" "i \<noteq> original"
    "distance original i \<le> distance original j"
proof -
  have o: "original < 64" using sc by (simp add: schedulable_def)
  obtain i where i: "find (may_run (ticks 1 k)) (after original) = Some i" using find_after_exists [where P = "may_run (ticks 1 k)", OF o j] by blast
  have "decide (ticks (0 + 1) k) original = Some (Run i)" using sl i by (simp add: decide_def decide_among_def)
  then have "sched_process k = Some (Inr (take_turn i (ticks 1 k)))" using sched_process_decides(1) [OF sc, of 0] by simp
  then show thesis using that find_after_nearest(2-4) [OF o i] j by blast
qed

lemma decision_for_waiting:
  assumes sc: "schedulable k original" and pids: "\<forall>i < 64. pid (user_pcbs k i) = i"
    and j: "j < 64" "j \<noteq> original" "may_run (ticks 1 k) j" "may_run (ticks 2 k) j"
  shows "\<exists>k'. sched_process k = Some (Inr k') \<and> get_pid k' < 64 \<and> get_pid k' \<noteq> original
    \<and> status (user_pcbs k' (get_pid k')) = PCB_RUNNING \<and> distance original (get_pid k') \<le> distance original j"
proof (cases "status (user_pcbs k original) = PCB_SLEEPING")
  case True
  then show ?thesis using sleeper_decides [OF sc True j(1-3)] pids by (metis take_turn_runs ticks_fields(1))
next
  case False
  have o: "original < 64" using sc by (simp add: schedulable_def)
  obtain i where i: "find (ready (ticks 1 k)) (after original) = Some i"
    using find_after_exists [where P = "ready (ticks 1 k)", OF o j(1,2) may_run_ready [OF j(3)]] by blast
  note near = find_after_nearest [OF o i]
  note d = sched_process_decides(1) [OF sc, of 0]
  show ?thesis
  proof (cases "may_run (ticks 1 k) i")
    case True
    then have "sched_process k = Some (Inr (take_turn i (ticks 1 k)))"
      using d [of "Run i"] False i by (simp add: decide_def decide_among_def)
    then show ?thesis using near(2,3) near(4) [OF j(1,2) may_run_ready [OF j(3)]] pids
      by (simp add: take_turn_runs)
  next
    case nm: False
    define s where "s = wait_sem (user_pcbs (ticks 1 k) i)"
    have ad: "decide (ticks 1 k) original = Some (Adopt s)"
      using False i nm by (simp add: decide_def decide_among_def s_def)
    let ?k = "adopt s original (ticks 1 k)"
    have sp: "sched_process k = sched_process ?k" using d [of "Adopt s"] ad by simp
    have "schedulable ?k original" "status (user_pcbs ?k original) = PCB_SLEEPING"
      using adopt_schedulable [OF _ ad] sc by simp_all
    moreover have "sys_runned_time (ticks 1 ?k) = sys_runned_time (ticks 2 k)" by (simp add: adopt_def)
    then have "may_run (ticks 1 ?k) j" using j(2,4)
      by (simp add: may_run_def asleep_def del: ticks_fields(6)) (simp add: adopt_def sem_count_def)
    ultimately obtain i' where "sched_process ?k = Some (Inr (take_turn i' (ticks 1 ?k)))" "i' < 64" "i' \<noteq> original"
        "distance original i' \<le> distance original j"
      using sleeper_decides j(1,2) by metis
    moreover have "pid (user_pcbs (ticks 1 ?k) i') = i'" using pids \<open>i' < 64\<close> by (simp add: adopt_def)
    ultimately show ?thesis using sp by (simp add: take_turn_runs)
  qed
qed

text \<open>
  C16. No process starves. Take 63 calls of \<^verbatim>\<open>sched_process\<close> in a row, each made by the process the one
  before chose, with anything happening in between; let a process \<open>j\<close> that did not make the first call be able to run at each of
  them: runnable, or asleep with its time come and its semaphore positive, at the two next ticks of the clock (two, because
  a caller that exits may first be put to sleep itself). Then one of the calls returns with \<open>j\<close> running.
\<close>

theorem no_starvation:
  fixes states :: "nat \<Rightarrow> kernel"
  assumes "j < 64" "get_pid (states 0) \<noteq> j"
    and "\<forall>n < 63. schedulable (states n) (get_pid (states n)) \<and> (\<forall>i < 64. pid (user_pcbs (states n) i) = i)
      \<and> may_run (ticks 1 (states n)) j \<and> may_run (ticks 2 (states n)) j"
    and "\<forall>n < 63. \<forall>k'. sched_process (states n) = Some (Inr k') \<longrightarrow> get_pid (states (n + 1)) = get_pid k'"
  shows "\<exists>n < 63. \<exists>k'. sched_process (states n) = Some (Inr k') \<and> get_pid k' = j \<and> status (user_pcbs k' j) = PCB_RUNNING"
proof (rule ccontr)
  assume never: "\<not> ?thesis"
  let ?c = "\<lambda>n. get_pid (states n)"
  have step: "?c (n + 1) < 64 \<and> ?c (n + 1) \<noteq> j \<and> distance (?c (n + 1)) j < distance (?c n) j"
    if n: "n < 63" and c: "?c n \<noteq> j" for n
  proof -
    have c64: "?c n < 64" using assms(3) n by (simp add: schedulable_def)
    obtain k' where k': "sched_process (states n) = Some (Inr k')" "get_pid k' < 64" "get_pid k' \<noteq> ?c n"
        "status (user_pcbs k' (get_pid k')) = PCB_RUNNING" "distance (?c n) (get_pid k') \<le> distance (?c n) j"
      using decision_for_waiting [of "states n" "?c n" j] assms(1,3) n c by metis
    have "get_pid k' \<noteq> j" using never n k'(1,4) by auto
    then show ?thesis
      using distance_decreases [OF c64 k'(2) assms(1) c [symmetric] k'(3)] k'(1,2,5) assms(4) n by auto
  qed
  have "n \<le> 63 \<Longrightarrow> ?c n \<noteq> j \<and> distance (?c n) j + n \<le> 62" for n
  proof (induction n)
    case 0
    have "?c 0 < 64" using assms(3) by (simp add: schedulable_def)
    then show ?case using assms(1,2) by (auto simp: distance_eq)
  next
    case (Suc n)
    then show ?case using step [of n] by auto
  qed
  from this [of 63] show False by simp
qed

text \<open>All 64 processes are ready and each is preempted in turn: process 17 gets the processor.\<close>

definition turn :: "nat \<Rightarrow> kernel" where
  "turn n = (upd_pcb 0 (\<lambda>b. b\<lparr>status := PCB_RUNNABLE\<rparr>) all_ready)\<lparr>curr_pid := n\<rparr>"

lemma turn_next:
  assumes "n < 63"
  shows "sched_process (turn n) = Some (Inr (take_turn (n + 1) (ticks 1 (turn n))))"
proof -
  have st: "status (user_pcbs (turn n) i) = PCB_RUNNABLE" for i by (simp add: turn_def all_ready_def)
  have "schedulable (turn n) n" using assms st
    by (simp add: schedulable_def waits_in_pool_def) (simp add: turn_def get_pid_def)
  moreover have "after n = (n + 1) # map (\<lambda>rr. (rr + n + 1) mod NPROC) [1..<63]"
    using assms by (simp add: after_def upt_conv_Cons)
  then have "decide (ticks (0 + 1) (turn n)) n = Some (Run (n + 1))"
    using st by (simp add: decide_def decide_among_def ready_def may_run_def)
  ultimately show ?thesis using sched_process_decides(1) [of "turn n" n 0] by simp
qed

theorem no_starvation_witness:
  "\<exists>n < 63. \<exists>k'. sched_process (turn n) = Some (Inr k') \<and> get_pid k' = 17 \<and> status (user_pcbs k' 17) = PCB_RUNNING"
proof (rule no_starvation)
  have p: "pid (user_pcbs (turn n) i) = i" "status (user_pcbs (turn n) i) = PCB_RUNNABLE" "get_pid (turn n) = n" for n i
    by (simp_all add: turn_def all_ready_def idle_pcb_def get_pid_def)
  then show "\<forall>n < 63. schedulable (turn n) (get_pid (turn n)) \<and> (\<forall>i < 64. pid (user_pcbs (turn n) i) = i)
      \<and> may_run (ticks 1 (turn n)) 17 \<and> may_run (ticks 2 (turn n)) 17" "get_pid (turn 0) \<noteq> 17"
    by (simp_all add: schedulable_def waits_in_pool_def may_run_def)
  show "\<forall>n < 63. \<forall>k'. sched_process (turn n) = Some (Inr k') \<longrightarrow> get_pid (turn (n + 1)) = get_pid k'"
    using turn_next p by (auto simp: take_turn_runs)
qed simp

text \<open>
  C17. A process that sleeps for a time, other than the caller, is enough for the scheduler to
  return, whatever the clock shows: the caller's wait ends in user mode, with exactly the chosen
  process running.
\<close>

theorem sleeper_wakes_the_scheduler:
  assumes "regular k original" "i < 64" "i \<noteq> original" "status (user_pcbs k i) = PCB_SLEEPING"
    and "wait_sem (user_pcbs k i) = NOT_WAITING_SEM"
  shows "\<exists>j n. sched_process k = Some (Inr (take_turn j (ticks n k))) \<and> j < 64 \<and> j \<noteq> original
     \<and> status (user_pcbs (take_turn j (ticks n k)) j) = PCB_RUNNING"
proof -
  have o: "original < 64" using assms(1) by (simp add: regular_def)
  define d where "d = unat (wakeup_time (user_pcbs k i) - sys_runned_time k - 1)"
  have "sys_runned_time k + of_nat (d + 1) = wakeup_time (user_pcbs k i)" by (simp add: d_def)
  then have "may_run (ticks (d + 1) k) i" using assms by (simp add: may_run_def asleep_def)
  then have "next_process (ticks (d + 1) k) original \<noteq> None" using assms next_process_None [OF o] by blast
  then obtain n where n: "next_process (ticks (n + 1) k) original \<noteq> None"
      "\<forall>m < n. next_process (ticks (m + 1) k) original = None"
    using exists_least_iff [of "\<lambda>n. next_process (ticks (n + 1) k) original \<noteq> None"] by blast
  then obtain j where j: "next_process (ticks (n + 1) k) original = Some j" by blast
  have "sched_process k = Some (Inr (take_turn j (ticks (n + 1) k)))"
    using loop_finds [OF assms(1) _ j] n(2) sched_process_loop [OF assms(1)] by simp
  moreover have "status (user_pcbs (take_turn j (ticks (n + 1) k)) j) = PCB_RUNNING"
    by (simp add: take_turn_def Let_def)
  ultimately show ?thesis using next_process_nearest(2,3) [OF o j] by blast
qed

lemma sleeper_wakes_the_scheduler_witness:
  "sched_process (upd_pcb 0 (\<lambda>b. b\<lparr>status := PCB_SLEEPING, wakeup_time := 9\<rparr>) two_sleepers) \<noteq> None"
    (is "sched_process ?k \<noteq> _")
proof -
  have "\<exists>j n. sched_process ?k = Some (Inr (take_turn j (ticks n ?k))) \<and> j < 64 \<and> j \<noteq> 0
     \<and> status (user_pcbs (take_turn j (ticks n ?k)) j) = PCB_RUNNING"
    by (rule sleeper_wakes_the_scheduler [of ?k 0 5])
      (simp_all add: regular_def calm_def waits_in_pool_def two_sleepers_def)
  then show ?thesis by (metis option.distinct(1))
qed

lemma alone_regular:
  assumes "get_pid k < 64" "status (user_pcbs k (get_pid k)) = PCB_SLEEPING"
    and "wait_sem (user_pcbs k (get_pid k)) = NOT_WAITING_SEM"
    and "\<forall>i < 64. i \<noteq> get_pid k \<longrightarrow> status (user_pcbs k i) \<in> {PCB_FREE, PCB_NOT_RUNNABLE}"
  shows "sched_process k = None"
proof -
  have "regular k (get_pid k)" using assms by (auto simp: regular_def calm_def waits_in_pool_def)
  moreover have "next_process (ticks (n + 1) k) (get_pid k) = None" for n
    using assms by (auto simp: next_process_None may_run_def asleep_def)
  ultimately show ?thesis using loop_never sched_process_loop by metis
qed

text \<open>
  A process that is alone never comes back from the scheduler: when every other process is
  free (or not runnable), both \<^verbatim>\<open>sys_sleep\<close> and the preemption of the timer loop forever, although
  the process itself is the one to wake up, since the loop passes over the caller.
\<close>

lemma alone_never_returns:
  assumes "get_pid k < 64" "wait_sem (user_pcbs k (get_pid k)) = NOT_WAITING_SEM"
    and "\<forall>i < 64. i \<noteq> get_pid k \<longrightarrow> status (user_pcbs k i) \<in> {PCB_FREE, PCB_NOT_RUNNABLE}"
    and "sys_runned_time k + 1 > sys_last_time k + SCHED_TIME_FREQ"
  shows "sys_sleep t k = None \<and> timer_tick k = None"
proof
  show "sys_sleep t k = None"
    unfolding sys_sleep_def using assms(1-3) by (intro alone_regular) auto
  show "timer_tick k = None"
    using assms unfolding timer_tick_def sys_sleep_def switch_def
    by (auto simp: Let_def intro!: alone_regular)
qed

lemma alone_never_returns_witness:
  "timer_tick ((sample_kernel (\<lambda>_. idle_pcb))\<lparr>sys_runned_time := 0x60\<rparr>) = None"
  using alone_never_returns [of "(sample_kernel (\<lambda>_. idle_pcb))\<lparr>sys_runned_time := 0x60\<rparr>" 0] by simp

section \<open>A process that has exited\<close>

text \<open>
  A process that exits while the next process in line waits on an empty semaphore is put back
  to sleep on that semaphore in its place: the scheduler calls \<^verbatim>\<open>sys_sem_wait\<close> for the waiter, and
  it finds a current process that is not asleep. The exit goes on exactly as a wait of the exited
  process would, and a later post can run it again.
\<close>

lemma exit_becomes_wait:
  assumes "get_pid k < 64" "i \<noteq> get_pid k" "find (ready (ticks 1 k)) (after (get_pid k)) = Some i"
    and "asleep (ticks 1 k) i" "wait_sem (user_pcbs k i) = s"
    and "s \<noteq> NOT_WAITING_SEM" "sem_index s k" "sem_count s k = 0" "waits_in_pool k"
  shows "sys_exit k
    = sched_process (ticks 1 (upd_pcb (get_pid k) (\<lambda>b. b\<lparr>wait_sem := s, status := PCB_SLEEPING\<rparr>) k))"
proof -
  let ?o = "get_pid k"
  let ?f = "upd_pcb ?o (\<lambda>b. b\<lparr>status := PCB_FREE\<rparr>) k"
  have same: "ready (ticks 1 ?f) j = ready (ticks 1 k) j" if "j \<in> set (after ?o)" for j
    using that set_after [OF assms(1)] by (simp add: ready_def asleep_def)
  have "find (ready (ticks 1 ?f)) (after ?o) = find (ready (ticks 1 k)) (after ?o)"
    using same by (intro find_cong) simp_all
  moreover have "\<not> may_run (ticks 1 ?f) i"
    using assms by (simp add: may_run_def asleep_def sem_count_def)
  ultimately have "decide (ticks 1 ?f) ?o = Some (Adopt s)"
    using assms by (simp add: decide_def decide_among_def)
  moreover have "schedulable ?f ?o"
    using assms(1,9) by (auto simp: schedulable_def waits_in_pool_def sem_index_def)
  ultimately have "sched_process ?f = sched_process (adopt s ?o (ticks 1 ?f))"
    using sched_process_decides(1) [of ?f ?o 0] by simp
  also have "adopt s ?o (ticks 1 ?f) = ticks 1 (upd_pcb ?o (\<lambda>b. b\<lparr>wait_sem := s, status := PCB_SLEEPING\<rparr>) k)"
    by (rule kernel.equality) (simp_all add: adopt_def ticks_def upd_pcb_def)
  finally show ?thesis by (simp add: sys_exit_def)
qed

lemma exit_becomes_wait_witness:
  "sys_exit waiter
   = sched_process (ticks 1 (upd_pcb 0 (\<lambda>b. b\<lparr>wait_sem := 2, status := PCB_SLEEPING\<rparr>) waiter))"
proof -
  have g: "get_pid waiter = 0" by (simp add: waiter_def)
  have "find (ready (ticks 1 waiter)) (after 0) = Some 3"
    by (simp add: waiter_def ready_def asleep_def after_def upt_conv_Cons)
  then have "sys_exit waiter
    = sched_process (ticks 1 (upd_pcb (get_pid waiter) (\<lambda>b. b\<lparr>wait_sem := 2, status := PCB_SLEEPING\<rparr>) waiter))"
    by (intro exit_becomes_wait [of waiter 3])
      (simp_all add: g, simp_all add: waiter_def asleep_def sem_index_def sem_count_def waits_in_pool_def)
  then show ?thesis by (simp only: g)
qed

end
