(* ===== verification/Semaphore.thy ===== *)
theory Semaphore
  imports Sched
begin

text \<open>
  What the semaphores of \<^verbatim>\<open>kernel/sem.c\<close> promise: the outcome of each operation on every branch,
  and the contract of a counting semaphore, as a locale over the operations a program calls,
  with what follows for any sequence of posts and waits.
\<close>

section \<open>The contract of a counting semaphore\<close>

datatype sem_op = Post | Wait

fun posts :: "sem_op list \<Rightarrow> nat" where
  "posts [] = 0"
| "posts (Post # ops) = posts ops + 1"
| "posts (Wait # ops) = posts ops"

fun waits :: "sem_op list \<Rightarrow> nat" where
  "waits [] = 0"
| "waits (Post # ops) = waits ops"
| "waits (Wait # ops) = waits ops + 1"

text \<open>\<open>wait\<close> yields \<open>None\<close> when the caller blocks.\<close>

locale counting_semaphore =
  fixes post :: "'s \<Rightarrow> 's result" and wait :: "'s \<Rightarrow> 's option result"
    and level :: "'s \<Rightarrow> nat" and ok :: "'s \<Rightarrow> bool" and limit :: nat
  assumes post_law: "\<lbrakk>ok s; level s < limit\<rbrakk> \<Longrightarrow> \<exists>s'. post s = Inr s' \<and> ok s' \<and> level s' = level s + 1"
    and wait_law: "\<lbrakk>ok s; 0 < level s\<rbrakk> \<Longrightarrow> \<exists>s'. wait s = Inr (Some s') \<and> ok s' \<and> level s' + 1 = level s"
    and wait_empty: "\<lbrakk>ok s; level s = 0\<rbrakk> \<Longrightarrow> wait s = Inr None"
begin

fun perform :: "sem_op list \<Rightarrow> 's \<Rightarrow> 's option result" where
  "perform [] s = Inr (Some s)"
| "perform (Post # ops) s = andThen (post s) (perform ops)"
| "perform (Wait # ops) s = andThen (wait s) (\<lambda>r. case r of None \<Rightarrow> Inr None | Some s' \<Rightarrow> perform ops s')"

lemma perform_spec:
  assumes "ok s" "level s + posts ops \<le> limit"
  shows "(\<exists>s'. perform ops s = Inr (Some s') \<and> ok s' \<and> level s' + waits ops = level s + posts ops)
       \<and> (\<forall>n. waits (take n ops) \<le> level s + posts (take n ops))
     \<or> perform ops s = Inr None \<and> (\<exists>n. waits (take n ops) > level s + posts (take n ops))"
  using assms
proof (induction ops arbitrary: s)
  case Nil
  then show ?case by simp
next
  case (Cons x ops)
  have take: "(\<forall>n. P (take n (x # ops))) \<longleftrightarrow> P [] \<and> (\<forall>n. P (x # take n ops))" for P
    by (metis take_Suc_Cons take_0 not0_implies_Suc)
  have take': "(\<exists>n. P (take n (x # ops))) \<longleftrightarrow> P [] \<or> (\<exists>n. P (x # take n ops))" for P
    using take [of "\<lambda>xs. \<not> P xs"] by blast
  note prefixes = take [of "\<lambda>xs. waits xs \<le> level s + posts xs"] take' [of "\<lambda>xs. waits xs > level s + posts xs"]
  show ?case
  proof (cases x)
    case Post
    with Cons.prems obtain s' where s': "post s = Inr s'" "ok s'" "level s' = level s + 1"
      using post_law [of s] by fastforce
    have "level s' + posts ops \<le> limit" using Cons.prems Post s' by simp
    from Cons.IH [OF s'(2) this] show ?thesis unfolding prefixes using Post s' by simp
  next
    case Wait
    show ?thesis
    proof (cases "level s = 0")
      case True
      then have "waits [Wait] > level s + posts [Wait]" by simp
      then have "\<exists>n. waits (Wait # take n ops) > level s + posts (Wait # take n ops)"
        by (intro exI [of _ 0]) simp
      then show ?thesis unfolding prefixes using Wait wait_empty [OF Cons.prems(1) True] by simp
    next
      case False
      with Cons.prems obtain s' where s': "wait s = Inr (Some s')" "ok s'" "level s' + 1 = level s"
        using wait_law by auto
      have "level s' + posts ops \<le> limit" using Cons.prems Wait s' by simp
      moreover have "level s = Suc (level s')" using s'(3) by simp
      ultimately show ?thesis unfolding prefixes using Wait s'(1) Cons.IH [OF s'(2)] by simp
    qed
  qed
qed

end

section \<open>The operations of the kernel under it\<close>

definition sem_post_op :: "u32 \<Rightarrow> kernel \<Rightarrow> kernel result" where
  "sem_post_op s k = andThen (sys_sem_post s k) (\<lambda>(r, k1). Inr k1)"

definition sem_wait_op :: "u32 \<Rightarrow> kernel \<Rightarrow> kernel option result" where
  "sem_wait_op s k = andThen (sys_sem_wait s k) (\<lambda>w. case w of
     Sem_returns r k1 \<Rightarrow> Inr (if r = E_SUCCESS then Some k1 else None) | Sem_blocks k1 \<Rightarrow> Inr None)"

lemma sem_post_simps:
  "sem_index s k \<Longrightarrow> sys_sem_post s k = Inr (E_SUCCESS, with_count s (sem_count s k + 1) k)"
  "\<not> sem_index s k \<Longrightarrow> sys_sem_post s k = Inl (Out_of_bounds ''sem_pool'')"
  by (auto simp: sys_sem_post_def sem_ops)

lemma count_up: "unat (c :: u32) < 4294967295 \<Longrightarrow> unat (c + 1) = unat c + 1"
  using unatSuc [of c] by (cases "1 + c = 0") (auto simp: add.commute unat_eq_0 dest: arg_cong [of _ _ "\<lambda>x. x - 1"])

lemma count_down: "0 < unat (c :: u32) \<Longrightarrow> unat (c - 1) + 1 = unat c"
  using unat_minus_one [of c] by (cases "c = 0") auto

interpretation sem: counting_semaphore "sem_post_op s" "sem_wait_op s" "\<lambda>k. unat (sem_count s k)"
  "sem_index s" 4294967295 for s
proof unfold_locales
  fix k assume i: "sem_index s k"
  show "\<exists>k'. sem_post_op s k = Inr k' \<and> sem_index s k' \<and> unat (sem_count s k') = unat (sem_count s k) + 1"
    if "unat (sem_count s k) < 4294967295"
    using i that by (simp add: sem_post_op_def sem_post_simps count_up)
  show "\<exists>k'. sem_wait_op s k = Inr (Some k') \<and> sem_index s k' \<and> unat (sem_count s k') + 1 = unat (sem_count s k)"
    if "0 < unat (sem_count s k)"
    using i that count_down [OF that] by (simp add: sem_wait_op_def sem_wait_simps word_gt_0 unat_gt_0)
  show "sem_wait_op s k = Inr None" if "unat (sem_count s k) = 0"
    using i that
    by (cases "status (user_pcbs k (get_pid k)) = PCB_SLEEPING") (simp_all add: sem_wait_op_def sem_wait_simps unat_eq_0)
qed

text \<open>A program's posts and waits on semaphore \<open>s\<close>, until one blocks.\<close>

fun run_ops :: "u32 \<Rightarrow> sem_op list \<Rightarrow> kernel \<Rightarrow> kernel option result" where
  "run_ops s [] k = Inr (Some k)"
| "run_ops s (Post # ops) k = andThen (sem_post_op s k) (run_ops s ops)"
| "run_ops s (Wait # ops) k = andThen (sem_wait_op s k) (\<lambda>r. case r of None \<Rightarrow> Inr None | Some k1 \<Rightarrow> run_ops s ops k1)"

lemma run_ops_perform: "run_ops s ops k = sem.perform s ops k"
proof (induction ops arbitrary: k)
  case (Cons x ops)
  then have "run_ops s ops = sem.perform s ops" by blast
  then show ?case by (cases x) simp_all
qed simp

text \<open>
  C25. A counting semaphore: a sequence of posts and waits by one process never blocks exactly when
  every prefix of it has at most as many waits as the initial count and its posts allow, and the
  count afterwards is the initial one plus the posts minus the waits.
\<close>

theorem semaphore_counts:
  assumes "sem_index s k" "unat (sem_count s k) + posts ops < 2 ^ 32"
  shows "(\<exists>k'. run_ops s ops k = Inr (Some k') \<and> unat (sem_count s k') + waits ops = unat (sem_count s k) + posts ops)
       \<and> (\<forall>n. waits (take n ops) \<le> unat (sem_count s k) + posts (take n ops))
     \<or> run_ops s ops k = Inr None \<and> (\<exists>n. waits (take n ops) > unat (sem_count s k) + posts (take n ops))"
  using sem.perform_spec [OF assms(1), of ops] assms(2) unfolding run_ops_perform by auto

lemma semaphore_counts_witness:
  "\<exists>k'. run_ops 1 [Post, Post, Wait, Post, Wait, Wait] waiter = Inr (Some k') \<and> sem_count 1 k' = 0"
proof -
  let ?ops = "[Post, Post, Wait, Post, Wait, Wait]"
  have c: "sem_index 1 waiter" "sem_count 1 waiter = 0" by (simp_all add: waiter_def sem_index_def sem_count_def)
  have "\<not> waits (take n ?ops) > posts (take n ?ops)" for n
    by (simp add: take_Cons split: nat.split)
  with semaphore_counts [of 1 waiter ?ops] c show ?thesis
    by (auto simp: unat_eq_0)
qed

text \<open>
  Each operation on every branch, for any index and state. The assertions on the index are
  true of every number, so that an index outside the pool is not rejected but used; \<^verbatim>\<open>sem_open\<close>
  refuses a count that is not positive; a wait on an empty semaphore puts the caller to sleep on
  it, unless the caller is asleep already, as it is when the scheduler asks on behalf of another.
\<close>

lemma semaphore_branches:
  "sys_sem_open s v k = (if sint v \<le> 0 then Inl (Assert_failed ''sem_open'')
     else if sem_index s k then Inr (s, with_count s v k) else Inl (Out_of_bounds ''sem_pool''))
   \<and> sys_sem_destroy s k = (if sem_index s k then Inr (E_SUCCESS, with_count s 0 k)
     else Inl (Out_of_bounds ''sem_pool''))
   \<and> sys_sem_post s k = (if sem_index s k then Inr (E_SUCCESS, with_count s (sem_count s k + 1) k)
     else Inl (Out_of_bounds ''sem_pool''))
   \<and> sys_sem_wait s k = (if \<not> sem_index s k then Inl (Out_of_bounds ''sem_pool'')
     else if 0 < sem_count s k then Inr (Sem_returns E_SUCCESS (with_count s (sem_count s k - 1) k))
     else if status (user_pcbs k (get_pid k)) = PCB_SLEEPING then Inr (Sem_returns E_INVALID k)
     else Inr (Sem_blocks (upd_pcb (get_pid k) (\<lambda>b. b\<lparr>wait_sem := s, status := PCB_SLEEPING\<rparr>) k)))"
  using sem_wait_simps [of s k]
  by (simp add: sys_sem_open_def sys_sem_destroy_def sem_post_simps sem_ops my_assert_def not_le)
    (auto simp: word_gt_0)

end
