(* ===== verification/Kernel_Inv.thy ===== *)
theory Kernel_Inv
  imports Sched
begin

text \<open>
  The kernel as a state machine: what the processor may do between two moments in user mode, the
  invariant of the process table under it, and what the invariant gives: the scheduler never
  fails an assertion and never leaves the pool of semaphores.
\<close>

section \<open>The invariant\<close>

definition pcb_ok :: "u32 \<Rightarrow> kernel \<Rightarrow> nat \<Rightarrow> bool" where
  "pcb_ok utp k i \<longleftrightarrow> pid (user_pcbs k i) = i
     \<and> (status (user_pcbs k i) = PCB_SLEEPING \<longrightarrow>
          wait_sem (user_pcbs k i) = NOT_WAITING_SEM \<or> sem_index (wait_sem (user_pcbs k i)) k)
     \<and> (status (user_pcbs k i) \<in> {PCB_RUNNABLE, PCB_RUNNING} \<longrightarrow> wait_sem (user_pcbs k i) = NOT_WAITING_SEM)
     \<and> (status (user_pcbs k i) \<noteq> PCB_FREE \<longrightarrow> i < USER_DIR_NUM \<and> user_pgdir (mem k) i 32 = table_pa utp i OR 7)"

definition table_ok :: "u32 \<Rightarrow> kernel \<Rightarrow> bool" where
  "table_ok utp k \<longleftrightarrow> get_pid k < USER_DIR_NUM \<and> user_pgdir (mem k) (get_pid k) 32 = table_pa utp (get_pid k) OR 7
     \<and> length (sem_pool k) = SEM_POOL_SIZE \<and> \<not> interrupts k
     \<and> (\<forall>i < NPROC. pcb_ok utp k i)"

text \<open>Inside the scheduler nobody runs; in user mode exactly the current process does.\<close>

definition sched_ok :: "u32 \<Rightarrow> kernel \<Rightarrow> bool" where
  "sched_ok utp k \<longleftrightarrow> table_ok utp k \<and> (\<forall>i < NPROC. status (user_pcbs k i) \<noteq> PCB_RUNNING)"

definition kernel_ok :: "u32 \<Rightarrow> kernel \<Rightarrow> bool" where
  "kernel_ok utp k \<longleftrightarrow> table_ok utp k \<and> (\<forall>i < NPROC. status (user_pcbs k i) = PCB_RUNNING \<longleftrightarrow> i = get_pid k)
     \<and> cr3 k = get_pid k \<and> ts_top k = Pcb_end (get_pid k)"

section \<open>Operations on one process\<close>

lemma pcb_ok_other:
  "i \<noteq> j \<Longrightarrow> pcb_ok utp (upd_pcb j f k) i = pcb_ok utp k i"
  by (simp add: pcb_ok_def sem_index_def)

lemma table_ok_upd:
  assumes "table_ok utp k" "pcb_ok utp (upd_pcb i f k) i"
  shows "table_ok utp (upd_pcb i f k)"
  using assms pcb_ok_other [of _ i utp f k] unfolding table_ok_def
  by (metis get_pid_simps(1) upd_pcb_fields(3,10,11))

lemma sched_ok_ticks:
  "sched_ok utp k \<Longrightarrow> sched_ok utp (k\<lparr>sys_runned_time := t\<rparr>)"
  by (auto simp: sched_ok_def table_ok_def pcb_ok_def sem_index_def)

lemma sched_ok_count:
  "sched_ok utp k \<Longrightarrow> sched_ok utp (with_count s c k)"
  by (simp add: sched_ok_def table_ok_def pcb_ok_def)

lemma pcb_exec_ok:
  assumes "sched_ok utp k" "i < 64" "status (user_pcbs k i) \<noteq> PCB_FREE" "wait_sem (user_pcbs k i) = NOT_WAITING_SEM"
  shows "kernel_ok utp (pcb_exec i k)"
proof -
  have p: "pid (user_pcbs k j) = j" "status (user_pcbs k j) \<noteq> PCB_RUNNING" if "j < 64" for j
    using assms(1) that by (simp_all add: sched_ok_def table_ok_def pcb_ok_def)
  have "i < 28" "user_pgdir (mem k) i 32 = table_pa utp i OR 7"
    using assms(1-3) by (simp_all add: sched_ok_def table_ok_def pcb_ok_def)
  moreover  have "pcb_ok utp (pcb_exec i k) j" if "j < 64" for j
    using assms that by (cases "j = i") (auto simp: sched_ok_def table_ok_def pcb_ok_def sem_index_def)
  ultimately show ?thesis
    using assms(1,2) p by (simp add: kernel_ok_def table_ok_def sched_ok_def)
qed

section \<open>The scheduler keeps it\<close>

text \<open>The state after a process has taken the semaphore it slept on.\<close>

definition woken :: "nat \<Rightarrow> kernel \<Rightarrow> kernel" where
  "woken i k = (let s = wait_sem (user_pcbs k i)
     in upd_pcb i (\<lambda>b. b\<lparr>wait_sem := NOT_WAITING_SEM\<rparr>) (with_count s (sem_count s k - 1) k))"

text \<open>How a round ends, with the state as it was at its start.\<close>

inductive round_ends_as :: "kernel \<Rightarrow> nat \<Rightarrow> round \<Rightarrow> bool" for k original where
  runs: "\<lbrakk>i < NPROC; i \<noteq> original; status (user_pcbs k i) \<in> {PCB_RUNNABLE, PCB_SLEEPING}; wait_sem (user_pcbs k i) = NOT_WAITING_SEM\<rbrakk>
    \<Longrightarrow> round_ends_as k original (Executed (pcb_exec i k))"
| wakes: "\<lbrakk>i < NPROC; i \<noteq> original; status (user_pcbs k i) = PCB_SLEEPING; sem_index (wait_sem (user_pcbs k i)) k;
      0 < sem_count (wait_sem (user_pcbs k i)) k\<rbrakk>
    \<Longrightarrow> round_ends_as k original (Executed (pcb_exec i (woken i k)))"
| nests: "sem_index s k \<Longrightarrow> round_ends_as k original (Nested (upd_pcb original (\<lambda>b. b\<lparr>wait_sem := s, status := PCB_SLEEPING\<rparr>) k))"
| finds_nothing: "round_ends_as k original (Nothing_found k)"

inductive_simps round_ends_simps: "round_ends_as k original (Executed k')" "round_ends_as k original (Nested k')"
  "round_ends_as k original (Nothing_found k')"

lemma sched_round_step:
  assumes "sched_ok utp k" "get_pid k = original" "rr < NPROC"
  shows "sched_round original rr k = sched_round original (rr + 1) k
    \<or> (\<exists>r. sched_round original rr k = Inr r \<and> round_ends_as k original r)"
proof -
  define i where "i = (rr + original + 1) mod NPROC"
  note unfold = sched_round.simps [of original rr k, unfolded Let_def i_def [symmetric]]
  have i: "i < NPROC" by (simp add: i_def)
  have ok: "pcb_ok utp k i" using assms(1) i by (simp add: sched_ok_def table_ok_def)
  let ?s = "wait_sem (user_pcbs k i)"
  consider (skip) "i = original \<or> status (user_pcbs k i) \<noteq> PCB_RUNNABLE \<and> \<not> asleep k i"
    | (runs) "i \<noteq> original" "status (user_pcbs k i) = PCB_RUNNABLE \<or> asleep k i \<and> ?s = NOT_WAITING_SEM"
    | (waits) "i \<noteq> original" "asleep k i" "?s \<noteq> NOT_WAITING_SEM" "status (user_pcbs k i) = PCB_SLEEPING" "sem_index ?s k"
    using ok by (auto simp: asleep_def pcb_ok_def)
  then show ?thesis
  proof cases
    case skip
    then show ?thesis using assms(3) by (auto simp: unfold asleep_def)
  next
    case runs
    then have "sched_round original rr k = Inr (Executed (pcb_exec i k))" using assms(3) by (auto simp: unfold asleep_def)
    moreover have "round_ends_as k original (Executed (pcb_exec i k))"
      using runs ok i by (intro round_ends_as.runs) (auto simp: pcb_ok_def asleep_def)
    ultimately show ?thesis by blast
  next
    case waits
    have step: "sched_round original rr k = (case sys_sem_wait ?s k of
          Inl e \<Rightarrow> Inl e
        | Inr (Sem_blocks k1) \<Rightarrow> Inr (Nested k1)
        | Inr (Sem_returns r k1) \<Rightarrow>
            if r = E_SUCCESS
            then Inr (Executed (pcb_exec i (upd_pcb i (\<lambda>b. b\<lparr>wait_sem := NOT_WAITING_SEM\<rparr>) k1)))
            else sched_round original (rr + 1) k1)"
      using assms(3) waits by (simp add: unfold asleep_def)
    consider (free) "0 < sem_count ?s k" | (asleep) "sem_count ?s k = 0" "status (user_pcbs k (get_pid k)) = PCB_SLEEPING"
      | (blocks) "sem_count ?s k = 0" "status (user_pcbs k (get_pid k)) \<noteq> PCB_SLEEPING"
      by (auto simp: word_gt_0)
    then show ?thesis
    proof cases
      case free
      then have "sched_round original rr k = Inr (Executed (pcb_exec i (woken i k)))"
        using sem_wait_simps(2) [OF waits(5) free] by (simp add: step woken_def Let_def)
      then show ?thesis using round_ends_as.wakes [OF i waits(1,4,5) free] by blast
    next
      case asleep
      then show ?thesis using sem_wait_simps(3) [OF waits(5)] by (simp add: step)
    next
      case blocks
      then show ?thesis using sem_wait_simps(4) [OF waits(5)] round_ends_as.nests [OF waits(5)] assms(2) by (auto simp: step)
    qed
  qed
qed

lemma sched_round_ends:
  assumes "sched_ok utp k" "get_pid k = original"
  shows "\<exists>r. sched_round original rr k = Inr r \<and> round_ends_as k original r"
proof (induction "NPROC - rr" arbitrary: rr)
  case 0
  then show ?case using round_ends_as.finds_nothing by (auto simp: sched_round.simps [of original rr k])
next
  case (Suc d)
  have "rr < NPROC" "d = NPROC - (rr + 1)" using Suc.hyps(2) by simp_all
  then show ?case using sched_round_step [OF assms, of rr] Suc.hyps(1) [of "rr + 1"] by auto
qed

lemma sched_ok_woken:
  assumes "sched_ok utp k" "i < NPROC" "status (user_pcbs k i) = PCB_SLEEPING"
  shows "sched_ok utp (woken i k)"
  using sched_ok_count [OF assms(1), of "wait_sem (user_pcbs k i)" "sem_count (wait_sem (user_pcbs k i)) k - 1"] assms(2,3)
  unfolding sched_ok_def woken_def Let_def by (auto intro!: table_ok_upd simp: pcb_ok_def sem_index_def table_ok_def)

text \<open>A state in which a round may end keeps the invariant.\<close>

fun round_ok_state :: "u32 \<Rightarrow> nat \<Rightarrow> round \<Rightarrow> bool" where
  "round_ok_state utp original (Executed k) = kernel_ok utp k"
| "round_ok_state utp original (Nested k) = (sched_ok utp k \<and> get_pid k = original)"
| "round_ok_state utp original (Nothing_found k) = (sched_ok utp k \<and> get_pid k = original)"

lemma round_ends_ok:
  assumes "round_ends_as k original r" "sched_ok utp k" "get_pid k = original"
  shows "round_ok_state utp original r"
  using assms(1)
proof cases
  case (runs i)
  then show ?thesis using pcb_exec_ok [OF assms(2), of i] by auto
next
  case (wakes i)
  then show ?thesis using pcb_exec_ok [OF sched_ok_woken [OF assms(2) wakes(2,4)], of i] by (simp add: woken_def Let_def)
next
  case (nests s)
  then have "sched_ok utp (upd_pcb original (\<lambda>b. b\<lparr>wait_sem := s, status := PCB_SLEEPING\<rparr>) k)"
    using assms(2,3) unfolding sched_ok_def by (auto intro!: table_ok_upd simp: pcb_ok_def sem_index_def table_ok_def)
  then show ?thesis using nests(1) assms(3) by simp
qed (use assms in simp)

lemma sched_round_ok:
  assumes "sched_ok utp k" "get_pid k = original"
  shows "\<exists>r. sched_round original rr k = Inr r \<and> round_ok_state utp original r"
  using sched_round_ends [OF assms] round_ends_ok [OF _ assms] by blast

lemma sched_loop_ok:
  assumes "sched_loop original k = Some y"
  shows "sched_ok utp k \<and> get_pid k = original \<longrightarrow> (\<exists>k'. y = Inr k' \<and> kernel_ok utp k')"
proof (rule sched_loop.raw_induct
    [where P = "\<lambda>original k y. sched_ok utp k \<and> get_pid k = original \<longrightarrow> (\<exists>k'. y = Inr k' \<and> kernel_ok utp k')",
     OF _ assms], goal_cases)
  case (1 loop original k y)
  let ?k = "k\<lparr>sys_runned_time := sys_runned_time k + 1\<rparr>"
  show ?case
  proof
    assume "sched_ok utp k \<and> get_pid k = original"
    then have t: "sched_ok utp ?k" "get_pid ?k = original" by (simp_all add: sched_ok_ticks)
    from sched_round_ok [OF this, of 0] obtain r where r: "sched_round original 0 ?k = Inr r" "round_ok_state utp original r" by blast
    consider (executed) k' where "sched_round original 0 ?k = Inr (Executed k')" "kernel_ok utp k'"
      | (nested) k' where "sched_round original 0 ?k = Inr (Nested k')" "sched_ok utp k'" "get_pid k' = original"
      | (idle) k' where "sched_round original 0 ?k = Inr (Nothing_found k')" "sched_ok utp k'" "get_pid k' = original"
      using r by (cases r) auto
    then show "\<exists>k'. y = Inr k' \<and> kernel_ok utp k'"
    proof cases
      case executed
      then show ?thesis using 1(2) by auto
    next
      case nested
      have "original < 64" using nested(2,3) by (simp add: sched_ok_def table_ok_def)
      then have "status (user_pcbs k' original) \<noteq> PCB_RUNNING" using nested(2) by (simp add: sched_ok_def)
      then have "loop original k' = Some y" using 1(2) nested by simp
      then show ?thesis using 1(1) nested(2,3) by blast
    next
      case idle
      then have "loop original k' = Some y" using 1(2) by simp
      then show ?thesis using 1(1) idle(2,3) by blast
    qed
  qed
qed

text \<open>Entering the scheduler, from user mode, with the current process put aside.\<close>

lemma kernel_ok_aside:
  assumes "kernel_ok utp k" "\<And>b. pid (f b) = pid b"
    and "\<And>b. status (f b) = PCB_FREE \<or> status (f b) = PCB_SLEEPING \<and> (wait_sem (f b) = wait_sem b \<or> sem_index (wait_sem (f b)) k)"
  shows "sched_ok utp (upd_pcb (get_pid k) f k)"
proof -
  let ?b = "user_pcbs k (get_pid k)"
  have c: "get_pid k < 64" and t: "table_ok utp k" using assms(1) by (simp_all add: kernel_ok_def table_ok_def)
  then have p: "pcb_ok utp k (get_pid k)" and r: "status ?b = PCB_RUNNING"
    using assms(1) by (simp_all add: table_ok_def kernel_ok_def)
  then have "wait_sem ?b = NOT_WAITING_SEM" by (simp add: pcb_ok_def)
  then have "pcb_ok utp (upd_pcb (get_pid k) f k) (get_pid k)"
    using p r assms(2) assms(3) [of ?b] by (auto simp: pcb_ok_def sem_index_def)
  then have "table_ok utp (upd_pcb (get_pid k) f k)" using t by (rule table_ok_upd [rotated])
  then show ?thesis using assms(1) assms(3) [of ?b] by (auto simp: sched_ok_def kernel_ok_def)
qed

lemma sched_process_ok:
  assumes "sched_ok utp k" "sched_process k = Some r"
  shows "\<exists>k'. r = Inr k' \<and> kernel_ok utp k'"
proof -
  have "status (user_pcbs k (get_pid k)) \<noteq> PCB_RUNNING"
    using assms(1) by (simp add: sched_ok_def table_ok_def)
  then have "sched_loop (get_pid k) k = Some r" using assms(2) by (simp add: sched_process_def)
  from sched_loop_ok [OF this, of utp] assms(1) show ?thesis by blast
qed

section \<open>Changes the invariant does not see\<close>

lemma kernel_ok_cong:
  assumes "kernel_ok utp k" "curr_pid k' = curr_pid k" "length (sem_pool k') = length (sem_pool k)"
    "cr3 k' = cr3 k" "ts_top k' = ts_top k" "interrupts k' = interrupts k" "user_pgdir (mem k') = user_pgdir (mem k)"
    and "\<And>i. pid (user_pcbs k' i) = pid (user_pcbs k i) \<and> status (user_pcbs k' i) = status (user_pcbs k i)
      \<and> wait_sem (user_pcbs k' i) = wait_sem (user_pcbs k i)"
  shows "kernel_ok utp k'"
  using assms by (auto simp: kernel_ok_def table_ok_def pcb_ok_def get_pid_def sem_index_def)

lemma kernel_ok_fields [simp]:
  assumes "kernel_ok utp k"
  shows "kernel_ok utp (k\<lparr>calls := c\<rparr>)" "kernel_ok utp (k\<lparr>do_timer := h\<rparr>)" "kernel_ok utp (k\<lparr>do_keyboard := h\<rparr>)"
    "kernel_ok utp (k\<lparr>sys_runned_time := t\<rparr>)" "kernel_ok utp (k\<lparr>sys_last_time := t\<rparr>)"
    "kernel_ok utp (k\<lparr>mem := (mem k)\<lparr>pmem := m\<rparr>\<rparr>)"
    "kernel_ok utp (upd_pcb i (\<lambda>b. b\<lparr>runned_time := f b\<rparr>) k)" "kernel_ok utp (upd_pcb i (\<lambda>b. b\<lparr>tf := g b\<rparr>) k)"
  by (rule kernel_ok_cong [OF assms]; simp)+

text \<open>What a fork does to the page directories.\<close>

lemma pmap_init_and_copy_dirs:
  assumes "pmap_init_and_copy etp utp c dest src st = Inr st'" "src \<noteq> dest"
  shows "dest < 28" "user_pgdir st' dest 32 = table_pa utp dest OR 7"
    "q \<noteq> dest \<Longrightarrow> user_pgdir st' q 32 = user_pgdir st q 32"
proof -
  have pdx: "unat (PDX 0x8000000) = 32" "unat (PDX new_addr) = 64" by (simp_all add: unat_fields)
  have k: "unat (drop_bit PDXSHIFT KERNBASE) = 960" by (simp add: drop_bit_eq_div)
  obtain st1 st2 pa m where s: "pcb_page_init etp dest st = Inr st1"
      "alloc_page utp 0x8000000 (PTE_P OR PTE_W OR PTE_U) dest st1 = Inr (pa, st2)"
      "st' = set_pde src 64 0 ((set_pde src 64 (table_pa utp dest OR PTE_P OR PTE_W OR PTE_U) st2)\<lparr>pmem := m\<rparr>)"
    using assms(1) unfolding pmap_init_and_copy_def by (auto simp: andThen_eq_Inr Let_def pdx simp del: new_addr_def)
  then have d: "dest < 28" and st2: "user_pgdir st2 = user_pgdir (set_pde dest 32 (table_pa utp dest OR (PTE_P OR PTE_W OR PTE_U)) st1)"
    using fill_table_fields by (auto simp: alloc_page_def andThen_eq_Inr pgtable_check_def Let_def pdx split: if_splits)
  show "dest < 28" by (fact d)
  have st1: "st1 = set_pde dest 960 (entry_pgdir (KADDR etp) ! 960) (set_pde dest 0 (entry_pgdir (KADDR etp) ! 0) st)"
    using s(1) by (auto simp: pcb_page_init_def andThen_eq_Inr Let_def k)
  show "user_pgdir st' dest 32 = table_pa utp dest OR 7" using assms(2) by (simp add: s(3) st2)
  show "q \<noteq> dest \<Longrightarrow> user_pgdir st' q 32 = user_pgdir st q 32" by (simp add: s(3) st2 st1)
qed

lemma free_pcb_Some:
  "free_pcb k = Some p \<Longrightarrow> p < 64 \<and> p \<noteq> get_pid k \<and> status (user_pcbs k p) = PCB_FREE"
  unfolding free_pcb_def by (auto simp: find_Some_iff)

text \<open>A successful fork, spelled out.\<close>

definition forked :: "nat \<Rightarrow> paging \<Rightarrow> kernel \<Rightarrow> kernel" where
  "forked p m k =
     (upd_pcb p (\<lambda>_. (user_pcbs k (get_pid k))\<lparr>pid := p, status := PCB_RUNNABLE,
        tf := (tf (user_pcbs k (get_pid k)))\<lparr>tf_regs := (tf_regs (tf (user_pcbs k (get_pid k))))\<lparr>reg_eax := 0\<rparr>\<rparr>\<rparr>) k)\<lparr>mem := m\<rparr>"

lemma sys_fork_eq:
  "sys_fork etp utp k = (case free_pcb k of None \<Rightarrow> Inl (Panic ''No Free PCB'')
     | Some p \<Rightarrow> andThen (pmap_init_and_copy etp utp (cr3 k) p (get_pid k) (mem k)) (\<lambda>m. Inr (of_nat p, forked p m k)))"
  by (simp add: sys_fork_def Let_def forked_def upd_pcb_def split: option.split)

lemma forked_fields [simp]:
  "get_pid (forked p m k) = get_pid k" "sem_pool (forked p m k) = sem_pool k" "mem (forked p m k) = m"
  "cr3 (forked p m k) = cr3 k" "ts_top (forked p m k) = ts_top k" "interrupts (forked p m k) = interrupts k"
  "i \<noteq> p \<Longrightarrow> user_pcbs (forked p m k) i = user_pcbs k i"
  "pid (user_pcbs (forked p m k) p) = p" "status (user_pcbs (forked p m k) p) = PCB_RUNNABLE"
  "wait_sem (user_pcbs (forked p m k) p) = wait_sem (user_pcbs k (get_pid k))"
  by (simp_all add: forked_def)

lemma sys_fork_ok:
  assumes "kernel_ok utp k" "sys_fork etp utp k = Inr (r, k')"
  shows "kernel_ok utp k'"
proof -
  obtain p m where p: "free_pcb k = Some p" "pmap_init_and_copy etp utp (cr3 k) p (get_pid k) (mem k) = Inr m"
      "k' = forked p m k"
    using assms(2) by (auto simp: sys_fork_eq andThen_eq_Inr split: option.splits)
  have f: "p < 64" "p \<noteq> get_pid k" using free_pcb_Some [OF p(1)] by simp_all
  note d = pmap_init_and_copy_dirs [OF p(2) f(2) [symmetric]]
  have t: "table_ok utp k" using assms(1) by (simp add: kernel_ok_def)
  have cur: "get_pid k < 64" "wait_sem (user_pcbs k (get_pid k)) = NOT_WAITING_SEM"
    using assms(1) by (auto simp: kernel_ok_def table_ok_def pcb_ok_def)
  have "pcb_ok utp k' i" if "i < 64" for i
    using t that d cur(2) by (cases "i = p") (auto simp: p(3) table_ok_def pcb_ok_def sem_index_def)
  moreover have "status (user_pcbs k' i) = PCB_RUNNING \<longleftrightarrow> i = get_pid k'" if "i < 64" for i
    using assms(1) f(2) that by (cases "i = p") (auto simp: p(3) kernel_ok_def)
  ultimately show ?thesis
    using assms(1) d(3) f(2) by (simp add: kernel_ok_def table_ok_def p(3))
qed

section \<open>System calls and traps keep it\<close>

fun outcome_ok :: "u32 \<Rightarrow> sys_outcome \<Rightarrow> bool" where
  "outcome_ok utp (Returns v k) = kernel_ok utp k"
| "outcome_ok utp (Switched k) = kernel_ok utp k"
| "outcome_ok utp (Halted k) = True"

lemma switch_ok:
  assumes "sched_ok utp k" "switch (sched_process k) = Some (Inr r)"
  shows "outcome_ok utp r"
proof -
  obtain m where m: "sched_process k = Some m" "andThen m (\<lambda>k. Inr (Switched k)) = Inr r"
    using assms(2) by (auto simp: switch_def)
  with sched_process_ok [OF assms(1) m(1)] show ?thesis by auto
qed

lemma sys_sleep_ok:
  assumes "kernel_ok utp k" "switch (sys_sleep t k) = Some (Inr r)"
  shows "outcome_ok utp r"
  by (rule switch_ok [OF _ assms(2) [unfolded sys_sleep_def]], rule kernel_ok_aside [OF assms(1)]) simp_all

lemma sys_exit_ok:
  assumes "kernel_ok utp k" "switch (sys_exit k) = Some (Inr r)"
  shows "outcome_ok utp r"
  by (rule switch_ok [OF _ assms(2) [unfolded sys_exit_def]], rule kernel_ok_aside [OF assms(1)]) simp_all

lemma sem_set_ok:
  "kernel_ok utp k \<Longrightarrow> sem_set s c k = Inr k' \<Longrightarrow> kernel_ok utp k'"
  by (auto simp: sem_set_def andThen_eq_Inr array_put_def split: if_splits intro: kernel_ok_cong)

lemma sys_sem_wait_ok:
  assumes "kernel_ok utp k" "waiting (sys_sem_wait s k) = Some (Inr r)"
  shows "outcome_ok utp r"
proof -
  have "status (user_pcbs k (get_pid k)) = PCB_RUNNING"
    using assms(1) by (auto simp: kernel_ok_def table_ok_def)
  then consider "\<not> sem_index s k" | "sem_index s k" "0 < sem_count s k"
    | "sem_index s k" "sem_count s k = 0" "status (user_pcbs k (get_pid k)) \<noteq> PCB_SLEEPING"
    by (auto simp: word_gt_0)
  then show ?thesis
  proof cases
    case 1
    then show ?thesis using assms(2) by (simp add: waiting_def sem_wait_simps)
  next
    case 2
    then show ?thesis using assms sem_set_ok [OF assms(1) sem_ops(2)] by (auto simp: waiting_def sem_wait_simps)
  next
    case 3
    have "sched_ok utp (upd_pcb (get_pid k) (\<lambda>b. b\<lparr>wait_sem := s, status := PCB_SLEEPING\<rparr>) k)"
      using 3(1) by (intro kernel_ok_aside [OF assms(1)]) simp_all
    then show ?thesis using assms(2) by (auto simp: waiting_def sem_wait_simps(4) [OF 3] intro: switch_ok)
  qed
qed

lemma returning_ok:
  assumes "returning m = Some (Inr r)" "\<And>v k'. m = Inr (v, k') \<Longrightarrow> kernel_ok utp k'"
  shows "outcome_ok utp r"
  using assms by (cases m) (auto simp: returning_def)

lemma sem_calls_ok:
  assumes "kernel_ok utp k"
  shows "sys_sem_open s v k = Inr (r, k') \<Longrightarrow> kernel_ok utp k'"
    "sys_sem_destroy s k = Inr (r, k') \<Longrightarrow> kernel_ok utp k'"
    "sys_sem_post s k = Inr (r, k') \<Longrightarrow> kernel_ok utp k'"
  using sem_set_ok [OF assms]
  by (auto simp: sys_sem_open_def sys_sem_destroy_def sys_sem_post_def andThen_eq_Inr)

lemma memory_calls_ok:
  assumes "kernel_ok utp k"
  shows "sys_display etp utp b k = Inr k' \<Longrightarrow> kernel_ok utp k'"
    "sys_mem_share d s va k = Inr (r, k') \<Longrightarrow> kernel_ok utp k'"
  by (auto simp: sys_display_def sys_mem_share_def pmap_copy_one_page_def andThen_eq_Inr
      intro!: kernel_ok_cong [OF assms])

lemma syscall_handler_ok:
  assumes k: "kernel_ok utp k" and run: "syscall_handler etp utp f k = Some (Inr r)"
  shows "outcome_ok utp r"
proof -
  have off: "\<not> interrupts k" using k by (simp add: kernel_ok_def table_ok_def)
  then have same: "k\<lparr>interrupts := False\<rparr> = k" by simp
  have display: "andThen (sys_display etp utp b k) (\<lambda>k1. Inr (0, k1)) = Inr (v, k') \<Longrightarrow> kernel_ok utp k'" for b v k'
    using memory_calls_ok(1) [OF k] by (auto simp: andThen_eq_Inr)
  show ?thesis
    using run unfolding syscall_handler_def Let_def same
    by (auto split: if_splits
        intro: sys_exit_ok [OF k] sys_sleep_ok [OF k] sys_sem_wait_ok [OF k]
        dest!: returning_ok [where utp = utp]
        dest: display sys_fork_ok [OF k] sem_calls_ok [OF k] memory_calls_ok [OF k]
        simp: k same sys_timer_def sys_keyboard_def sys_wait_intr_def)
qed

lemma timer_tick_ok:
  assumes "kernel_ok utp k" "timer_tick k = Some (Inr r)"
  shows "outcome_ok utp r"
proof -
  define k1 where "k1 = upd_pcb (get_pid k) (\<lambda>b. b\<lparr>runned_time := runned_time b + 1\<rparr>)
     (k\<lparr>sys_runned_time := sys_runned_time k + 1\<rparr>)"
  have k1: "kernel_ok utp k1" by (simp add: k1_def assms(1))
  have "switch (sys_sleep 1 (k1\<lparr>sys_last_time := sys_runned_time k1\<rparr>)) = Some (Inr r)
      \<or> r = Returns 0 (if do_timer k1 \<noteq> 0 then k1\<lparr>calls := calls k1 @ [(do_timer k1, [])]\<rparr> else k1)"
    using assms(2) by (auto simp: timer_tick_def Let_def k1_def split: if_splits)
  then show ?thesis
  proof
    assume "switch (sys_sleep 1 (k1\<lparr>sys_last_time := sys_runned_time k1\<rparr>)) = Some (Inr r)"
    then show ?thesis by (rule sys_sleep_ok [rotated]) (simp add: k1)
  qed (simp add: k1)
qed

lemma enter_ok: "kernel_ok utp k \<Longrightarrow> kernel_ok utp (enter f k)"
  unfolding enter_def by (rule kernel_ok_cong) (auto simp: kernel_ok_def table_ok_def)

lemma trap_ok:
  assumes "kernel_ok utp k" "trap etp utp code k = Some (Inr r)"
  shows "outcome_ok utp r"
proof -
  define p where "p = (case ts_top k of Pcb_end i \<Rightarrow> i | Boot_stack \<Rightarrow> 0)"
  have call: "outcome_ok utp r"
    if m: "syscall_handler etp utp (tf (user_pcbs k p)) k = Some m"
      "andThen m (\<lambda>r. case r of
            Returns v k1 \<Rightarrow> Inr (Returns v (upd_pcb p (\<lambda>b. b\<lparr>tf := (tf b)\<lparr>tf_regs :=
                (tf_regs (tf b))\<lparr>reg_eax := v\<rparr>\<rparr>\<rparr>) k1))
          | Switched k1 \<Rightarrow> Inr (Switched k1)
          | Halted k1 \<Rightarrow> Inr (Halted k1)) = Inr r" for m
  proof -
    obtain x where x: "m = Inr x" using m(2) by (cases m) auto
    have "outcome_ok utp x" using syscall_handler_ok [OF assms(1)] m(1) x by blast
    then show ?thesis using m(2) x by (cases x) auto
  qed
  show ?thesis
    using assms unfolding trap_def Let_def p_def [symmetric]
    by (auto split: if_splits intro: call timer_tick_ok)
qed

section \<open>The kernel as a state machine\<close>

text \<open>
  A step from user mode to user mode: a trap with whatever registers the process has set up, after
  which it or another process continues, or a store of the process to its memory.
\<close>

inductive kernel_step :: "u32 \<Rightarrow> u32 \<Rightarrow> kernel \<Rightarrow> kernel \<Rightarrow> bool" for etp utp where
  returns: "trap etp utp code (enter f k) = Some (Inr (Returns v k')) \<Longrightarrow> kernel_step etp utp k k'"
| switched: "trap etp utp code (enter f k) = Some (Inr (Switched k')) \<Longrightarrow> kernel_step etp utp k k'"
| stores: "user_access etp utp (mem k) (cr3 k) va = Some pa \<Longrightarrow>
    kernel_step etp utp k (k\<lparr>mem := (mem k)\<lparr>pmem := (pmem (mem k))(pa := b)\<rparr>\<rparr>)"

inductive_cases kernel_stepE: "kernel_step etp utp k k'"

lemma kernel_step_ok:
  assumes "kernel_step etp utp k k'" "kernel_ok utp k"
  shows "kernel_ok utp k'"
  using assms(1) trap_ok [OF enter_ok [OF assms(2)]]
  by (elim kernel_stepE) (use assms(2) in \<open>auto dest: trap_ok [OF enter_ok]\<close>)

lemma kernel_steps_ok: "(kernel_step etp utp)\<^sup>*\<^sup>* k k' \<Longrightarrow> kernel_ok utp k \<Longrightarrow> kernel_ok utp k'"
  by (induction rule: rtranclp_induct) (auto intro: kernel_step_ok)

text \<open>
  C20. The invariant of the kernel: through any number of traps and stores exactly one process is
  marked running, it is the current one, its directory is in \<^verbatim>\<open>cr3\<close> and its PCB holds the kernel
  stack; pids are the indices of the table; whoever sleeps on a semaphore sleeps on one of the
  pool; and every process that is not free has a number below 28 and its own page table at
  0x8000000.
\<close>

theorem kernel_invariant:
  assumes "kernel_ok utp k" "(kernel_step etp utp)\<^sup>*\<^sup>* k k'"
  shows "kernel_ok utp k'"
  using assms by (rule kernel_steps_ok [rotated])

text \<open>
  C21. The scheduler never fails: from a state the kernel can be in, neither \<^verbatim>\<open>sys_sleep\<close> nor
  \<^verbatim>\<open>sys_exit\<close> fails its assertion or reaches outside the pool of semaphores, and when it returns
  the invariant holds again.
\<close>

theorem scheduler_never_fails:
  assumes "kernel_ok utp k"
  shows "(case sys_sleep t k of None \<Rightarrow> True | Some (Inl e) \<Rightarrow> False | Some (Inr k') \<Rightarrow> kernel_ok utp k')
     \<and> (case sys_exit k of None \<Rightarrow> True | Some (Inl e) \<Rightarrow> False | Some (Inr k') \<Rightarrow> kernel_ok utp k')"
proof -
  have ok: "case sched_process k' of None \<Rightarrow> True | Some (Inl e) \<Rightarrow> False | Some (Inr k2) \<Rightarrow> kernel_ok utp k2"
    if "sched_ok utp k'" for k'
    using sched_process_ok [OF that] by (cases "sched_process k'") auto
  show ?thesis unfolding sys_sleep_def sys_exit_def
    by (intro conjI; rule ok, rule kernel_ok_aside [OF assms]) simp_all
qed

text \<open>A kernel that satisfies the invariant: process 0 runs, process 1 sleeps until tick 4.\<close>

definition sample_running :: kernel where
  "sample_running = (sample_kernel (\<lambda>i. if i = 1 then idle_pcb\<lparr>pid := 1, status := PCB_SLEEPING, wakeup_time := 4\<rparr>
      else idle_pcb\<lparr>pid := i\<rparr>))\<lparr>mem := sample_paging\<rparr>"

lemma sample_running_ok: "kernel_ok 0x200000 sample_running"
proof -
  have "user_pgdir sample_paging i 32 = table_pa 0x200000 i OR 7" for i
    by (simp add: sample_paging_def)
  then show ?thesis
    by (auto simp: kernel_ok_def table_ok_def pcb_ok_def sample_running_def sample_kernel_def get_pid_def idle_pcb_def)
qed

definition sample_frame :: trapframe where
  "sample_frame = zero_frame\<lparr>tf_trapno := T_SYSCALL, tf_regs := zero_regs\<lparr>reg_eax := SYS_getpid\<rparr>\<rparr>"

lemma kernel_invariant_witness:
  "\<exists>k'. kernel_step 0x102000 0x200000 sample_running k' \<and> kernel_ok 0x200000 k'"
proof -
  have "\<exists>k'. trap 0x102000 0x200000 0 (enter sample_frame sample_running) = Some (Inr (Returns 0 k'))"
    by (simp add: trap_def enter_def sample_running_def sample_kernel_def sample_frame_def zero_frame_def
        zero_regs_def syscall_handler_def get_pid_def upd_pcb_def Let_def)
  then obtain k' where s: "kernel_step 0x102000 0x200000 sample_running k'" by (auto intro: kernel_step.returns)
  then show ?thesis using kernel_invariant [OF sample_running_ok] by blast
qed

lemma scheduler_never_fails_witness:
  "\<forall>e. sys_sleep 5 sample_running \<noteq> Some (Inl e)"
  using scheduler_never_fails [OF sample_running_ok, of 5] by auto

end
