(* ===== verification/Mutex.thy ===== *)
theory Mutex
  imports Kernel_Inv
begin

text \<open>
  Critical sections: what the semaphores of \<^verbatim>\<open>kernel/sem.c\<close>, the scheduler and the traps give together to
  programs that enclose a section in \<^verbatim>\<open>sys_sem_wait\<close> and \<^verbatim>\<open>sys_sem_post\<close>, as \<^verbatim>\<open>main\<close> of
  \<^verbatim>\<open>game/game.c\<close> does. A ghost set records who holds a permit.
\<close>

section \<open>The scheduler\<close>

text \<open>
  Between \<open>k\<close>, where the caller has given up the processor, and \<open>k'\<close>, where another process has it,
  the count of \<open>s\<close> goes down by one if that process slept on \<open>s\<close>, and does not change otherwise.
\<close>

definition dispatched :: "u32 \<Rightarrow> kernel \<Rightarrow> kernel \<Rightarrow> bool" where
  "dispatched s k k' \<longleftrightarrow> get_pid k' < NPROC \<and> get_pid k' \<noteq> get_pid k \<and>
     (if wait_sem (user_pcbs k (get_pid k')) = s then 0 < sem_count s k \<and> sem_count s k' = sem_count s k - 1
      else sem_count s k' = sem_count s k)"

lemma sem_count_simps [simp]:
  "sem_count s (upd_pcb i f k) = sem_count s k" "sem_count s (pcb_exec i k) = sem_count s k"
  "sem_count s (k\<lparr>sys_runned_time := t\<rparr>) = sem_count s k" "sem_count s (k\<lparr>sys_last_time := t\<rparr>) = sem_count s k"
  "sem_count s (k\<lparr>interrupts := b\<rparr>) = sem_count s k" "sem_count s (k\<lparr>mem := m\<rparr>) = sem_count s k"
  "sem_count s (k\<lparr>calls := c\<rparr>) = sem_count s k"
  by (simp_all add: sem_count_def)

lemma sem_index_pool: "table_ok utp k \<Longrightarrow> sem_index s k \<longleftrightarrow> unat s < 3"
  by (simp add: sem_index_def table_ok_def)

lemma round_dispatches:
  assumes "round_ends_as k original (Executed k')" "sched_ok utp k" "get_pid k = original" "unat s < 3"
  shows "dispatched s k k'"
proof -
  have p: "pid (user_pcbs k i) = i" if "i < NPROC" for i
    using assms(2) that by (simp add: sched_ok_def table_ok_def pcb_ok_def)
  have s: "s \<noteq> - 1" "sem_index s k" using assms(2,4) sem_index_pool by (auto simp: sched_ok_def)
  show ?thesis
    using assms(1) p assms(3) s by (auto simp: round_ends_simps dispatched_def woken_def Let_def)
qed

lemma loop_dispatches:
  assumes "sched_loop original k = Some y"
  shows "\<forall>k'. y = Inr k' \<and> sched_ok utp k \<and> get_pid k = original \<and> unat s < 3 \<longrightarrow> dispatched s k k'"
proof (rule sched_loop.raw_induct
    [where P = "\<lambda>original k y. \<forall>k'. y = Inr k' \<and> sched_ok utp k \<and> get_pid k = original \<and> unat s < 3 \<longrightarrow> dispatched s k k'",
     OF _ assms], goal_cases)
  case (1 loop original k y)
  let ?k = "k\<lparr>sys_runned_time := sys_runned_time k + 1\<rparr>"
  show ?case
  proof (intro allI impI)
    fix k' assume a: "y = Inr k' \<and> sched_ok utp k \<and> get_pid k = original \<and> unat s < 3"
    then have t: "sched_ok utp ?k" "get_pid ?k = original" by (simp_all add: sched_ok_ticks)
    obtain r where r: "sched_round original 0 ?k = Inr r" "round_ends_as ?k original r"
      using sched_round_ends [OF t] by blast
    note ok = round_ends_ok [OF r(2) t]
    have same: "dispatched s ?k k' \<Longrightarrow> dispatched s k k'" by (auto simp: dispatched_def split: if_splits)
    show "dispatched s k k'"
    proof (cases r)
      case (Executed k1)
      then show ?thesis using r a 1(2) round_dispatches [OF _ t, of k1 s] same by simp
    next
      case (Nested k1)
      then have k1: "sched_ok utp k1" "get_pid k1 = original" using ok by simp_all
      then have "status (user_pcbs k1 original) \<noteq> PCB_RUNNING" by (auto simp: sched_ok_def table_ok_def)
      then have "loop original k1 = Some y" using 1(2) r(1) Nested k1(2) by simp
      then have d: "dispatched s k1 k'" using 1(1) k1 a by blast
      obtain s' where "k1 = upd_pcb original (\<lambda>b. b\<lparr>wait_sem := s', status := PCB_SLEEPING\<rparr>) ?k"
        using r(2) Nested by (auto simp: round_ends_simps)
      then show ?thesis using d a k1(2) by (auto simp: dispatched_def)
    next
      case (Nothing_found k1)
      then have "k1 = ?k" using r(2) by (simp add: round_ends_simps)
      then have "loop original ?k = Some y" using 1(2) r(1) Nothing_found by simp
      then show ?thesis using 1(1) t a same by blast
    qed
  qed
qed

lemma switch_Switched: "switch m = Some (Inr r) \<Longrightarrow> \<exists>k'. r = Switched k' \<and> m = Some (Inr k')"
  by (auto simp: switch_def andThen_eq_Inr)

lemma sched_process_dispatches:
  assumes "sched_ok utp k" "unat s < 3" "switch (sched_process k) = Some (Inr (Switched k'))"
  shows "dispatched s k k'"
proof -
  have "sched_process k = Some (Inr k')" using switch_Switched [OF assms(3)] by simp
  then have "sched_loop (get_pid k) k = Some (Inr k')" by (auto simp: sched_process_def split: if_splits)
  from loop_dispatches [OF this] assms(1,2) show ?thesis by blast
qed

text \<open>The current process puts itself aside first.\<close>

lemma aside_dispatches:
  assumes "kernel_ok utp k" "unat s < 3" "switch (sched_process (upd_pcb (get_pid k) f k)) = Some (Inr (Switched k'))"
    and "\<And>b. pid (f b) = pid b"
    and "\<And>b. status (f b) = PCB_FREE \<or> status (f b) = PCB_SLEEPING \<and> (wait_sem (f b) = wait_sem b \<or> sem_index (wait_sem (f b)) k)"
  shows "dispatched s k k'"
  using sched_process_dispatches [OF kernel_ok_aside [OF assms(1,4,5)] assms(2,3)] by (auto simp: dispatched_def)

section \<open>Traps\<close>

lemma dispatched_cong:
  assumes "dispatched s k1 k'" "get_pid k1 = get_pid k" "sem_count s k1 = sem_count s k"
    "\<And>i. wait_sem (user_pcbs k1 i) = wait_sem (user_pcbs k i)"
  shows "dispatched s k k'"
  using assms by (auto simp: dispatched_def)

lemma sleep_dispatches:
  assumes "kernel_ok utp k" "unat s < 3" "switch (sys_sleep t k) = Some (Inr (Switched k'))"
  shows "dispatched s k k'"
  using assms(3) unfolding sys_sleep_def by (rule aside_dispatches [OF assms(1,2)]) simp_all

lemma exit_dispatches:
  assumes "kernel_ok utp k" "unat s < 3" "switch (sys_exit k) = Some (Inr (Switched k'))"
  shows "dispatched s k k'"
  using assms(3) unfolding sys_exit_def by (rule aside_dispatches [OF assms(1,2)]) simp_all

lemma waiting_cases:
  assumes "kernel_ok utp k" "waiting (sys_sem_wait a k) = Some (Inr r)" "unat s < 3"
  shows "sem_index a k \<and> 0 < sem_count a k \<and> r = Returns E_SUCCESS (with_count a (sem_count a k - 1) k)
    \<or> (\<exists>k'. r = Switched k' \<and> dispatched s k k')"
proof -
  have "status (user_pcbs k (get_pid k)) = PCB_RUNNING" using assms(1) by (auto simp: kernel_ok_def table_ok_def)
  then consider "\<not> sem_index a k" | "sem_index a k" "0 < sem_count a k"
    | "sem_index a k" "sem_count a k = 0" "status (user_pcbs k (get_pid k)) \<noteq> PCB_SLEEPING"
    by (auto simp: word_gt_0)
  then show ?thesis
  proof cases
    case 3
    have w: "switch (sched_process (upd_pcb (get_pid k) (\<lambda>b. b\<lparr>wait_sem := a, status := PCB_SLEEPING\<rparr>) k)) = Some (Inr r)"
      using assms(2) by (simp add: waiting_def sem_wait_simps(4) [OF 3])
    then obtain k' where k': "r = Switched k'" using switch_Switched by blast
    have "dispatched s k k'"
      using aside_dispatches [OF assms(1,3) w [unfolded k']] 3(1) by simp
    then show ?thesis using k' by blast
  qed (use assms(2) in \<open>simp_all add: waiting_def sem_wait_simps\<close>)
qed

text \<open>What a system call does to semaphore \<open>s\<close>.\<close>

definition sem_calls :: "u32 set" where
  "sem_calls = {SYS_sem_open, SYS_sem_destroy, SYS_sem_wait, SYS_sem_post}"

definition calls_sem :: "u32 \<Rightarrow> u32 \<Rightarrow> trapframe \<Rightarrow> bool" where
  "calls_sem nr s f \<longleftrightarrow> tf_trapno f = T_SYSCALL \<and> reg_eax (tf_regs f) = nr \<and> reg_edx (tf_regs f) = s"

fun sem_effect :: "u32 \<Rightarrow> trapframe \<Rightarrow> kernel \<Rightarrow> sys_outcome \<Rightarrow> bool" where
  "sem_effect s f k (Returns v k') \<longleftrightarrow> get_pid k' = get_pid k \<and>
     (if calls_sem SYS_sem_wait s f then 0 < sem_count s k \<and> sem_count s k' = sem_count s k - 1
      else if calls_sem SYS_sem_post s f then sem_count s k' = sem_count s k + 1
      else calls_sem SYS_sem_open s f \<or> calls_sem SYS_sem_destroy s f \<or> sem_count s k' = sem_count s k)"
| "sem_effect s f k (Switched k') \<longleftrightarrow> dispatched s k k'"
| "sem_effect s f k (Halted k') \<longleftrightarrow> True"

lemma count_other: "sem_index a k \<Longrightarrow> a \<noteq> s \<Longrightarrow> sem_count s (with_count a c k) = sem_count s k"
  by simp

lemma returning_Inr: "returning m = Some (Inr r) \<longleftrightarrow> (\<exists>v k'. m = Inr (v, k') \<and> r = Returns v k')"
  by (cases m) (auto simp: returning_def)

lemma other_calls:
  "sys_fork etp utp k = Inr (v, k') \<Longrightarrow> sem_count s k' = sem_count s k \<and> get_pid k' = get_pid k"
  "sys_display etp utp b k = Inr k' \<Longrightarrow> sem_count s k' = sem_count s k \<and> get_pid k' = get_pid k"
  "sys_mem_share d q va k = Inr (v, k') \<Longrightarrow> sem_count s k' = sem_count s k \<and> get_pid k' = get_pid k"
  by (auto simp: sys_fork_eq sys_display_def sys_mem_share_def andThen_eq_Inr forked_def split: option.splits)

lemma sem_op_calls:
  "sys_sem_open a v k = Inr (r, k') \<Longrightarrow> get_pid k' = get_pid k \<and> (a \<noteq> s \<longrightarrow> sem_count s k' = sem_count s k)"
  "sys_sem_destroy a k = Inr (r, k') \<Longrightarrow> get_pid k' = get_pid k \<and> (a \<noteq> s \<longrightarrow> sem_count s k' = sem_count s k)"
  "sys_sem_post a k = Inr (r, k') \<Longrightarrow> get_pid k' = get_pid k
     \<and> sem_count s k' = (if a = s then sem_count s k + 1 else sem_count s k)"
  by (cases "sem_index a k"; auto simp: sys_sem_open_def sys_sem_destroy_def sys_sem_post_def sem_ops andThen_eq_Inr)+

lemma syscall_effect:
  assumes k: "kernel_ok utp k" and s: "unat s < 3" and run: "syscall_handler etp utp f k = Some (Inr r)"
    and "tf_trapno f = T_SYSCALL"
  shows "sem_effect s f k r"
proof -
  have "\<not> interrupts k" using k by (simp add: kernel_ok_def table_ok_def)
  then have same: "k\<lparr>interrupts := False\<rparr> = k" by simp
  let ?nr = "reg_eax (tf_regs f)" and ?a = "reg_edx (tf_regs f)"
  have display: "andThen (sys_display etp utp b k) (\<lambda>k1. Inr (0, k1)) = Inr (v, k') \<Longrightarrow> sem_count s k' = sem_count s k \<and> get_pid k' = get_pid k"
    for b v k' using other_calls(2) by (auto simp: andThen_eq_Inr)
  have switches: "switch (sys_exit k) = Some (Inr r) \<Longrightarrow> sem_effect s f k r"
    "switch (sys_sleep t k) = Some (Inr r) \<Longrightarrow> sem_effect s f k r" for t
    using switch_Switched exit_dispatches [OF k s] sleep_dispatches [OF k s] by (metis sem_effect.simps(2))+
  show ?thesis
  proof (cases "?nr = SYS_sem_wait")
    case True
    then have "waiting (sys_sem_wait ?a k) = Some (Inr r)" using run by (simp add: syscall_handler_def Let_def same)
    from waiting_cases [OF k this s] show ?thesis using assms(4) True by (auto simp: calls_sem_def)
  next
    case False
    with run show ?thesis unfolding syscall_handler_def Let_def same
      by (auto split: if_splits simp: returning_Inr calls_sem_def assms(4) sys_timer_def sys_keyboard_def sys_wait_intr_def sem_count_def get_pid_def
          dest: switches other_calls(1,3) [where s = s] display sem_op_calls [where s = s])
  qed
qed

lemma timer_effect:
  assumes "kernel_ok utp k" "unat s < 3" "timer_tick k = Some (Inr r)" "tf_trapno f \<noteq> T_SYSCALL"
  shows "sem_effect s f k r"
proof -
  define k1 where "k1 = upd_pcb (get_pid k) (\<lambda>b. b\<lparr>runned_time := runned_time b + 1\<rparr>)
     (k\<lparr>sys_runned_time := sys_runned_time k + 1\<rparr>)"
  let ?k2 = "k1\<lparr>sys_last_time := sys_runned_time k1\<rparr>"
  have k1: "kernel_ok utp ?k2" "get_pid k1 = get_pid k" "sem_count s k1 = sem_count s k"
      "wait_sem (user_pcbs k1 i) = wait_sem (user_pcbs k i)" for i
    by (simp_all add: k1_def assms(1))
  have "switch (sys_sleep 1 ?k2) = Some (Inr r)
      \<or> r = Returns 0 (if do_timer k1 \<noteq> 0 then k1\<lparr>calls := calls k1 @ [(do_timer k1, [])]\<rparr> else k1)"
    using assms(3) by (auto simp: timer_tick_def Let_def k1_def split: if_splits)
  then show ?thesis
  proof
    assume w: "switch (sys_sleep 1 ?k2) = Some (Inr r)"
    then obtain k' where "r = Switched k'" using switch_Switched by blast
    moreover have "dispatched s ?k2 k'" using w calculation by (intro sleep_dispatches [OF k1(1) assms(2)]) simp
    then have "dispatched s k k'" by (rule dispatched_cong) (simp_all add: k1)
    ultimately show ?thesis by simp
  qed (use assms(4) k1 in \<open>simp add: calls_sem_def\<close>)
qed

lemma enter_fields:
  assumes "kernel_ok utp k"
  shows "tf (user_pcbs (enter f k) (get_pid k)) = f" "ts_top (enter f k) = Pcb_end (get_pid k)" "get_pid (enter f k) = get_pid k"
    "sem_count s (enter f k) = sem_count s k" "wait_sem (user_pcbs (enter f k) i) = wait_sem (user_pcbs k i)"
  using assms by (simp_all add: enter_def kernel_ok_def sem_count_def)

lemma trap_effect:
  assumes "kernel_ok utp k" "unat s < 3" "trap etp utp code (enter f k) = Some (Inr r)"
  shows "sem_effect s f k r"
proof -
  let ?e = "enter f k"
  note e = enter_fields [OF assms(1)]
  have ok: "kernel_ok utp ?e" using enter_ok [OF assms(1)] .
  have same: "sem_effect s f ?e r \<Longrightarrow> sem_effect s f k r" for r
    using dispatched_cong [of s ?e _ k] e by (cases r) auto
  have call: "sem_effect s f ?e (Returns v (upd_pcb p g k1)) = sem_effect s f ?e (Returns v' k1)" for v v' p g k1
    by simp
  have "sem_effect s f ?e r"
  proof (cases "tf_trapno f = T_SYSCALL")
    case True
    have off: "\<not> interrupts ?e" using ok by (simp add: kernel_ok_def table_ok_def)
    obtain z where z: "syscall_handler etp utp f ?e = Some z" "andThen z (\<lambda>r. case r of
            Returns v k1 \<Rightarrow> Inr (Returns v (upd_pcb (get_pid k) (\<lambda>b. b\<lparr>tf := (tf b)\<lparr>tf_regs :=
                (tf_regs (tf b))\<lparr>reg_eax := v\<rparr>\<rparr>\<rparr>) k1))
          | Switched k1 \<Rightarrow> Inr (Switched k1) | Halted k1 \<Rightarrow> Inr (Halted k1)) = Inr r"
      using assms(3) True off unfolding trap_def Let_def e(2) by (auto simp: e(1))
    then obtain x where x: "syscall_handler etp utp f ?e = Some (Inr x)"
      "r = x \<or> (\<exists>v k1. x = Returns v k1 \<and> r = Returns v (upd_pcb (get_pid k) (\<lambda>b. b\<lparr>tf := (tf b)\<lparr>tf_regs :=
                (tf_regs (tf b))\<lparr>reg_eax := v\<rparr>\<rparr>\<rparr>) k1))"
      by (cases z) (auto split: sys_outcome.splits)
    from syscall_effect [OF ok assms(2) x(1) True] x(2) call show ?thesis by auto
  next
    case False
    then show ?thesis
      using assms(3) timer_effect [OF ok assms(2) _ False] unfolding trap_def Let_def e(2)
      by (auto simp: e calls_sem_def split: if_splits)
  qed
  then show ?thesis by (rule same)
qed

section \<open>Holders of a permit\<close>

text \<open>
  Steps of the machine with the set of the processes that hold a permit of \<open>s\<close>: the discipline is that
  only a holder posts, and that nobody opens or destroys \<open>s\<close> meanwhile. A process that slept on \<open>s\<close>
  holds a permit when the scheduler runs it again.
\<close>

inductive guarded :: "u32 \<Rightarrow> u32 \<Rightarrow> u32 \<Rightarrow> kernel \<times> nat set \<Rightarrow> kernel \<times> nat set \<Rightarrow> bool" for etp utp s where
  acquire: "\<lbrakk>calls_sem SYS_sem_wait s f; trap etp utp code (enter f k) = Some (Inr (Returns v k'))\<rbrakk>
    \<Longrightarrow> guarded etp utp s (k, H) (k', insert (get_pid k) H)"
| release: "\<lbrakk>calls_sem SYS_sem_post s f; get_pid k \<in> H; trap etp utp code (enter f k) = Some (Inr (Returns v k'))\<rbrakk>
    \<Longrightarrow> guarded etp utp s (k, H) (k', H - {get_pid k})"
| other: "\<lbrakk>\<forall>nr \<in> sem_calls. \<not> calls_sem nr s f; trap etp utp code (enter f k) = Some (Inr (Returns v k'))\<rbrakk>
    \<Longrightarrow> guarded etp utp s (k, H) (k', H)"
| switches: "trap etp utp code (enter f k) = Some (Inr (Switched k'))
    \<Longrightarrow> guarded etp utp s (k, H) (k', if wait_sem (user_pcbs k (get_pid k')) = s then insert (get_pid k') H else H)"
| stores: "user_access etp utp (mem k) (cr3 k) va = Some pa \<Longrightarrow>
    guarded etp utp s (k, H) (k\<lparr>mem := (mem k)\<lparr>pmem := (pmem (mem k))(pa := b)\<rparr>\<rparr>, H)"

lemma guarded_step: "guarded etp utp s q r \<Longrightarrow> kernel_step etp utp (fst q) (fst r)"
  by (induction rule: guarded.induct) (auto intro: kernel_step.intros)

text \<open>Permits that are held and permits that are left never exceed \<open>N\<close>.\<close>

definition permits_ok :: "u32 \<Rightarrow> nat \<Rightarrow> kernel \<times> nat set \<Rightarrow> bool" where
  "permits_ok s N q \<longleftrightarrow> finite (snd q) \<and> card (snd q) + unat (sem_count s (fst q)) \<le> N"

lemma take_permit:
  assumes "permits_ok s N (k, H)" "0 < sem_count s k" "sem_count s k' = sem_count s k - 1"
  shows "permits_ok s N (k', insert p H)"
proof -
  have "unat (sem_count s k') + 1 = unat (sem_count s k)"
    using assms(2,3) unat_minus_one [of "sem_count s k"] by (cases "sem_count s k = 0") (auto simp: unat_gt_0 word_gt_0)
  moreover have "card (insert p H) \<le> card H + 1" by (simp add: card_insert_le_m1)
  ultimately show ?thesis using assms(1) by (auto simp: permits_ok_def)
qed

lemma guarded_ok:
  assumes "guarded etp utp s q r" "kernel_ok utp (fst q)" "unat s < 3" "permits_ok s N q" "N < 2 ^ 32"
  shows "permits_ok s N r"
  using assms
proof (induction rule: guarded.induct)
  case (acquire f code k v k' H)
  then show ?case using trap_effect [of utp k s etp code f] take_permit [of s N k H k'] by auto
next
  case (release f k H code v k')
  have c: "card H = card (H - {get_pid k}) + 1" using card_Suc_Diff1 [of H "get_pid k"] release by (simp add: permits_ok_def)
  have H: "finite H" "card H + unat (sem_count s k) \<le> N" using release by (simp_all add: permits_ok_def)
  then have "unat (sem_count s k) + 1 < 2 ^ 32" using c release.prems(4) by linarith
  then have "unat (sem_count s k + 1) = unat (sem_count s k) + 1" by (simp add: unat_word_ariths)
  moreover have "sem_count s k' = sem_count s k + 1"
    using trap_effect [of utp k s etp code f] release by (auto simp: calls_sem_def)
  ultimately have "card (H - {get_pid k}) + unat (sem_count s k') \<le> N" using c H(2) by simp
  then show ?case using H(1) by (simp add: permits_ok_def)
next
  case (other f code k v k' H)
  then show ?case using trap_effect [of utp k s etp code f] by (auto simp: permits_ok_def sem_calls_def)
next
  case (switches code f k k' H)
  then have d: "dispatched s k k'" using trap_effect [of utp k s etp code f "Switched k'"] by simp
  show ?case
  proof (cases "wait_sem (user_pcbs k (get_pid k')) = s")
    case True
    then show ?thesis using d switches take_permit [of s N k H k' "get_pid k'"] by (simp add: dispatched_def)
  next
    case False
    then show ?thesis using d switches by (simp add: dispatched_def permits_ok_def)
  qed
qed (simp add: permits_ok_def)

lemma guarded_run:
  assumes "(guarded etp utp s)\<^sup>*\<^sup>* q r" "kernel_ok utp (fst q)" "unat s < 3" "permits_ok s N q" "N < 2 ^ 32"
  shows "permits_ok s N r \<and> kernel_ok utp (fst r)"
  using assms(1)
proof (induction rule: rtranclp_induct)
  case (step r t)
  then show ?case using guarded_ok [OF step.hyps(2) _ assms(3) _ assms(5)] kernel_step_ok [OF guarded_step] by blast
qed (use assms in simp)

section \<open>Properties\<close>

text \<open>
  C37. Critical sections: from a state in which nobody holds semaphore \<open>s\<close>, through any interleaving of
  the processes by system calls, preemptions, sleeps, exits and forks, in which only holders post and nobody
  opens or destroys \<open>s\<close>, at most as many processes hold a permit at the same time as \<open>s\<close> counted at the
  start; one of them at most when it was opened with 1.
\<close>

theorem critical_sections:
  assumes "kernel_ok utp k" "unat s < SEM_POOL_SIZE" "(guarded etp utp s)\<^sup>*\<^sup>* (k, {}) (k', H)"
  shows "finite H \<and> card H + unat (sem_count s k') \<le> unat (sem_count s k)"
proof -
  have p: "permits_ok s (unat (sem_count s k)) (k, {})" by (simp add: permits_ok_def)
  have "unat (sem_count s k) < 2 ^ 32" using unsigned_less [of "sem_count s k"] by simp
  from guarded_run [OF assms(3) _ _ p this] show ?thesis using assms(1,2) by (simp add: permits_ok_def)
qed

text \<open>Process 0 takes the only permit of semaphore 0.\<close>

theorem critical_sections_witness:
  "\<exists>k'. (guarded 0x102000 0x200000 0)\<^sup>*\<^sup>* (sample_running\<lparr>sem_pool := [1, 0, 0]\<rparr>, {}) (k', {0}) \<and> sem_count 0 k' = 0"
proof -
  let ?k = "sample_running\<lparr>sem_pool := [1, 0, 0]\<rparr>"
  let ?f = "zero_frame\<lparr>tf_trapno := T_SYSCALL, tf_regs := zero_regs\<lparr>reg_eax := SYS_sem_wait\<rparr>\<rparr>"
  have ok: "kernel_ok 0x200000 ?k"
    by (rule kernel_ok_cong [OF sample_running_ok]) (simp_all add: sample_running_def)
  have c: "sem_count 0 ?k = 1" "get_pid ?k = 0" by (simp_all add: sem_count_def sample_running_def get_pid_def sample_kernel_def)
  have f: "calls_sem SYS_sem_wait 0 ?f" by (simp add: calls_sem_def zero_regs_def)
  have "\<exists>v k'. trap 0x102000 0x200000 0 (enter ?f ?k) = Some (Inr (Returns v k'))"
    by (simp add: trap_def enter_def sample_running_def sample_kernel_def zero_frame_def zero_regs_def syscall_handler_def
        waiting_def sys_sem_wait_def sem_get_def sem_set_def array_get_def array_put_def my_assert_def sem_assert_def upd_pcb_def Let_def)
  then obtain v k' where "trap 0x102000 0x200000 0 (enter ?f ?k) = Some (Inr (Returns v k'))" by blast
  from guarded.acquire [OF f this, of "{}"] have "(guarded 0x102000 0x200000 0)\<^sup>*\<^sup>* (?k, {}) (k', {0})"
    unfolding c(2) by (rule r_into_rtranclp)
  with critical_sections [OF ok _ this] c(1) show ?thesis by (auto simp: unat_eq_0)
qed

end
