(* ===== verification/Syscalls.thy ===== *)
theory Syscalls
  imports Kernel_Inv
begin

text \<open>
  What the system calls do for a process: \<^verbatim>\<open>sys_fork\<close> duplicates it, in the table and in memory,
  as long as the tables last; and a call that switches to another process leaves the caller's
  registers as they were at the trap.
\<close>

section \<open>fork\<close>

lemma sys_fork_run:
  assumes "layout_ok etp utp" "kernel_ok utp k" "own_space utp (get_pid k) (mem k)"
    and "free_pcb k = Some p" "p < USER_DIR_NUM"
  obtains m where "sys_fork etp utp k = Inr (of_nat p, forked p m k)"
    "\<forall>va. unat (PDX va) = 32 \<longrightarrow> (\<exists>pd ps. user_access etp utp m p va = Some pd
          \<and> user_access etp utp m (get_pid k) va = Some ps \<and> pd \<in> frames p \<and> ps \<in> frames (get_pid k)
          \<and> pmem m pd = pmem (mem k) ps)"
    "\<forall>pa. pa \<notin> frames p \<longrightarrow> pmem m pa = pmem (mem k) pa"
proof -
  have cr3: "cr3 k = get_pid k" using assms(2) by (simp add: kernel_ok_def)
  have p: "p \<noteq> get_pid k" using free_pcb_Some [OF assms(4)] by simp
  have "p < 28" using assms(5) by simp
  from fork_memory [OF assms(1,3) this p] obtain m where
    m: "pmap_init_and_copy etp utp (get_pid k) p (get_pid k) (mem k) = Inr m"
      "\<forall>va. unat (PDX va) = 32 \<longrightarrow> (\<exists>pd ps. user_access etp utp m p va = Some pd
          \<and> user_access etp utp m (get_pid k) va = Some ps \<and> pd \<in> frames p \<and> ps \<in> frames (get_pid k)
          \<and> pmem m pd = pmem (mem k) ps)"
      "\<forall>pa. pa \<notin> frames p \<longrightarrow> pmem m pa = pmem (mem k) pa" by blast
  have "sys_fork etp utp k = Inr (of_nat p, forked p m k)" using m(1) by (simp add: sys_fork_eq assms(4) cr3)
  then show thesis using m(2,3) by (rule that)
qed

text \<open>
  C22. \<^verbatim>\<open>sys_fork\<close> duplicates the process: with a free PCB whose number has a page table, the parent
  gets the child's number, the child is runnable under it with the parent's registers, except
  that it sees 0, and with the parent's kernel stack; both see the same bytes in the 4 MB at
  0x8000000, each in frames of its own; and no other process is touched.
\<close>

theorem fork_duplicates_process:
  assumes "layout_ok etp utp" "kernel_ok utp k" "own_space utp (get_pid k) (mem k)"
    and "free_pcb k = Some p" "p < USER_DIR_NUM"
  shows "\<exists>k'. sys_fork etp utp k = Inr (of_nat p, k')
    \<and> user_pcbs k' p = (user_pcbs k (get_pid k))\<lparr>pid := p, status := PCB_RUNNABLE,
        tf := (tf (user_pcbs k (get_pid k)))\<lparr>tf_regs := (tf_regs (tf (user_pcbs k (get_pid k))))\<lparr>reg_eax := 0\<rparr>\<rparr>\<rparr>
    \<and> (\<forall>i. i \<noteq> p \<longrightarrow> user_pcbs k' i = user_pcbs k i) \<and> get_pid k' = get_pid k \<and> p \<noteq> get_pid k
    \<and> (\<forall>va. unat (PDX va) = 32 \<longrightarrow> (\<exists>pd ps. user_access etp utp (mem k') p va = Some pd
          \<and> user_access etp utp (mem k') (get_pid k) va = Some ps \<and> pd \<in> frames p \<and> ps \<in> frames (get_pid k)
          \<and> pmem (mem k') pd = pmem (mem k) ps))
    \<and> (\<forall>pa. pa \<notin> frames p \<longrightarrow> pmem (mem k') pa = pmem (mem k) pa)"
proof -
  from sys_fork_run [OF assms] obtain m where m: "sys_fork etp utp k = Inr (of_nat p, forked p m k)"
    "\<forall>va. unat (PDX va) = 32 \<longrightarrow> (\<exists>pd ps. user_access etp utp m p va = Some pd
          \<and> user_access etp utp m (get_pid k) va = Some ps \<and> pd \<in> frames p \<and> ps \<in> frames (get_pid k)
          \<and> pmem m pd = pmem (mem k) ps)"
    "\<forall>pa. pa \<notin> frames p \<longrightarrow> pmem m pa = pmem (mem k) pa" .
  have "user_pcbs (forked p m k) p = (user_pcbs k (get_pid k))\<lparr>pid := p, status := PCB_RUNNABLE,
        tf := (tf (user_pcbs k (get_pid k)))\<lparr>tf_regs := (tf_regs (tf (user_pcbs k (get_pid k))))\<lparr>reg_eax := 0\<rparr>\<rparr>\<rparr>"
    by (simp add: forked_def)
  then show ?thesis using m free_pcb_Some [OF assms(4)] by (intro exI [of _ "forked p m k"]) simp
qed

lemma sample_running_fork:
  "get_pid sample_running = 0" "mem sample_running = sample_paging" "free_pcb sample_running = Some 2"
proof -
  show "get_pid sample_running = 0" "mem sample_running = sample_paging"
    by (simp_all add: sample_running_def sample_kernel_def get_pid_def)
  have "[0..<64] = [0, 1, 2] @ [3..<64]" by (simp add: upt_conv_Cons)
  then show "free_pcb sample_running = Some 2"
    by (simp add: free_pcb_def sample_running_def sample_kernel_def get_pid_def idle_pcb_def)
qed

lemma fork_duplicates_process_witness:
  "\<exists>k'. sys_fork 0x102000 0x200000 sample_running = Inr (2, k') \<and> status (user_pcbs k' 2) = PCB_RUNNABLE
     \<and> reg_eax (tf_regs (tf (user_pcbs k' 2))) = 0"
proof -
  have "own_space 0x200000 (get_pid sample_running) (mem sample_running)"
    using sample_space [of 0] by (simp add: sample_running_fork address_space_def)
  from fork_duplicates_process [OF sample_layout sample_running_ok this, of 2]
  show ?thesis by (auto simp: sample_running_fork)
qed

text \<open>
  The limits of \<^verbatim>\<open>sys_fork\<close>: without a free PCB it stops the kernel with a panic, and with a free
  PCB from number 28 on it writes behind the page tables; it never returns an error to the
  process.
\<close>

lemma fork_limits:
  assumes "free_pcb k = None \<or> (\<exists>p. free_pcb k = Some p \<and> USER_DIR_NUM \<le> p)"
  shows "sys_fork etp utp k = Inl (if free_pcb k = None then Panic ''No Free PCB'' else Out_of_bounds ''user_pgtable'')"
proof (cases "free_pcb k")
  case (Some p)
  have "p < 64" "28 \<le> p" using free_pcb_Some [OF Some] assms Some by auto
  have "alloc_page utp va f p st = Inl (Out_of_bounds ''user_pgtable'')" for va f st
    using \<open>p < 64\<close> \<open>28 \<le> p\<close> by (simp add: alloc_page_def pgdir_check_def pgtable_check_def)
  then have "pmap_init_and_copy etp utp c p src st = Inl (Out_of_bounds ''user_pgtable'')" for c src st
    using pcb_page_init_ok [OF \<open>p < 64\<close>] by (simp add: pmap_init_and_copy_def)
  then show ?thesis by (simp add: sys_fork_eq Some)
qed (simp add: sys_fork_eq)

lemma fork_limits_witness:
  "sys_fork 0x102000 0x200000 all_ready = Inl (Panic ''No Free PCB'')"
proof -
  have "free_pcb all_ready = None"
    by (simp add: free_pcb_def find_None_iff all_ready_def)
  then show ?thesis using fork_limits [of all_ready] by simp
qed

section \<open>Calls that switch\<close>

text \<open>The scheduler leaves the saved registers of every process alone.\<close>

definition same_frames :: "kernel \<Rightarrow> kernel \<Rightarrow> bool" where
  "same_frames k k' \<longleftrightarrow> (\<forall>i. tf (user_pcbs k' i) = tf (user_pcbs k i))"

lemma same_frames_trans: "same_frames a b \<Longrightarrow> same_frames b c \<Longrightarrow> same_frames a c"
  by (simp add: same_frames_def)

lemma sys_sem_wait_frames:
  "sys_sem_wait s k = Inr (Sem_blocks k') \<Longrightarrow> same_frames k k'"
  "sys_sem_wait s k = Inr (Sem_returns r k') \<Longrightarrow> same_frames k k'"
  by (auto simp: sys_sem_wait_def sem_set_def andThen_eq_Inr same_frames_def split: if_splits)

fun round_state :: "round \<Rightarrow> kernel" where
  "round_state (Executed k) = k" | "round_state (Nested k) = k" | "round_state (Nothing_found k) = k"

lemma same_frames_exec: "same_frames k k' \<Longrightarrow> same_frames k (pcb_exec i k')"
  "same_frames k k' \<Longrightarrow> same_frames k (pcb_exec i (upd_pcb i (\<lambda>b. b\<lparr>wait_sem := s\<rparr>) k'))"
  by (auto simp: same_frames_def)

lemma sched_round_frames:
  "sched_round original rr k = Inr r \<Longrightarrow> same_frames k (round_state r)"
proof (induction "NPROC - rr" arbitrary: rr k)
  case 0
  then show ?case by (auto simp: sched_round.simps [of original rr k] same_frames_def)
next
  case (Suc d rr k)
  have "d = NPROC - (rr + 1)" using Suc.hyps(2) by simp
  note rest = Suc.hyps(1) [OF this]
  define i where "i = (rr + original + 1) mod NPROC"
  have run: "sched_round original rr k = Inr r" by (rule Suc.prems)
  show ?case
  proof (cases "sched_round original (rr + 1) k = Inr r")
    case True
    then show ?thesis by (rule rest)
  next
    case False
    consider "r = Executed (pcb_exec i k)"
      | k1 where "sys_sem_wait (wait_sem (user_pcbs k i)) k = Inr (Sem_blocks k1)" "r = Nested k1"
      | c k1 where "sys_sem_wait (wait_sem (user_pcbs k i)) k = Inr (Sem_returns c k1)"
          "r = Executed (pcb_exec i (upd_pcb i (\<lambda>b. b\<lparr>wait_sem := NOT_WAITING_SEM\<rparr>) k1))
           \<or> sched_round original (rr + 1) k1 = Inr r"
      using run False Suc.hyps(2) unfolding sched_round.simps [of original rr k] Let_def i_def [symmetric]
      by (auto split: if_splits sum.splits sem_outcome.splits)
    then show ?thesis
    proof cases
      case 1
      then show ?thesis by (simp add: same_frames_exec same_frames_def)
    next
      case 2
      then show ?thesis using sys_sem_wait_frames(1) by simp
    next
      case 3
      then show ?thesis
        using sys_sem_wait_frames(2) [OF 3(1)] rest [of k1] same_frames_exec(2) same_frames_trans by auto
    qed
  qed
qed

lemma sched_loop_frames:
  assumes "sched_loop original k = Some y"
  shows "\<forall>k'. y = Inr k' \<longrightarrow> same_frames k k'"
proof (rule sched_loop.raw_induct
    [where P = "\<lambda>original k y. \<forall>k'. y = Inr k' \<longrightarrow> same_frames k k'", OF _ assms], goal_cases)
  case (1 loop original k y)
  let ?k = "k\<lparr>sys_runned_time := sys_runned_time k + 1\<rparr>"
  show ?case
  proof (cases "sched_round original 0 ?k")
    case (Inr r)
    have "same_frames k (round_state r)" using sched_round_frames [OF Inr] by (simp add: same_frames_def)
    then show ?thesis
      using 1(2) 1(1) Inr same_frames_trans by (cases r) (fastforce split: if_splits)+
  qed (use 1(2) in auto)
qed

lemma sched_process_frames: "sched_process k = Some (Inr k') \<Longrightarrow> same_frames k k'"
  using sched_loop_frames by (auto simp: sched_process_def split: if_splits)

lemma switch_frames:
  assumes "switch (sched_process k) = Some (Inr (Switched k'))"
  shows "same_frames k k'"
proof -
  obtain m where m: "sched_process k = Some m" "andThen m (\<lambda>k. Inr (Switched k)) = Inr (Switched k')"
    using assms by (auto simp: switch_def)
  then show ?thesis using sched_process_frames by (cases m) auto
qed

lemma marked_frames:
  assumes "switch (sched_process (upd_pcb i f k)) = Some (Inr (Switched k'))" "\<And>b. tf (f b) = tf b"
  shows "same_frames k k'"
  using switch_frames [OF assms(1)] assms(2) by (auto simp: same_frames_def split: if_splits)

lemma sleep_frames: "switch (sys_sleep t k) = Some (Inr (Switched k')) \<Longrightarrow> same_frames k k'"
  unfolding sys_sleep_def by (erule marked_frames) simp

lemma exit_frames: "switch (sys_exit k) = Some (Inr (Switched k')) \<Longrightarrow> same_frames k k'"
  unfolding sys_exit_def by (erule marked_frames) simp

lemma wait_frames:
  assumes "waiting (sys_sem_wait s k) = Some (Inr (Switched k'))"
  shows "same_frames k k'"
  using assms switch_frames sys_sem_wait_frames(1) same_frames_trans
  by (fastforce simp: waiting_def split: sum.splits sem_outcome.splits)

lemma returning_not_switched: "returning m \<noteq> Some (Inr (Switched k))"
  by (cases m) (auto simp: returning_def)

lemma syscall_frames:
  assumes "syscall_handler etp utp f k = Some (Inr (Switched k'))"
  shows "same_frames k k'"
proof -
  have "same_frames (k\<lparr>interrupts := False\<rparr>) k'"
    using assms unfolding syscall_handler_def Let_def
    by (auto simp: returning_not_switched split: if_splits intro: sleep_frames exit_frames wait_frames)
  then show ?thesis by (simp add: same_frames_def)
qed

lemma timer_frames:
  assumes "timer_tick k = Some (Inr (Switched k'))"
  shows "same_frames k k'"
  using assms unfolding timer_tick_def Let_def
  by (auto split: if_splits dest!: sleep_frames simp: same_frames_def fun_upd_apply)

lemma write_result_switched:
  "andThen z (\<lambda>r. case r of Returns v k1 \<Rightarrow> Inr (Returns v (g v k1)) | Switched k1 \<Rightarrow> Inr (Switched k1)
      | Halted k1 \<Rightarrow> Inr (Halted k1)) = Inr (Switched k') \<longleftrightarrow> z = Inr (Switched k')"
  by (cases z) (auto split: sys_outcome.splits)

text \<open>
  C26. A call that switches to another process never writes its result: the registers saved for the
  caller are those it entered with, so that it resumes with the number of the call in eax. A wait
  that blocks therefore returns \<^verbatim>\<open>SYS_sem_wait\<close>, 12, and not \<^verbatim>\<open>E_SUCCESS\<close>.
\<close>

theorem switch_keeps_registers:
  assumes "ts_top k = Pcb_end p" "trap etp utp code (enter f k) = Some (Inr (Switched k'))"
  shows "tf (user_pcbs k' p) = f"
proof -
  let ?k = "enter f k"
  have e: "tf (user_pcbs ?k p) = f" "ts_top ?k = Pcb_end p" using assms(1) by (simp_all add: enter_def)
  have "same_frames ?k k'"
    using assms(2) unfolding trap_def Let_def
    by (auto split: if_splits dest!: syscall_frames timer_frames simp: write_result_switched)
  then show ?thesis using e(1) by (simp add: same_frames_def)
qed

definition wait_frame :: trapframe where
  "wait_frame = zero_frame\<lparr>tf_trapno := T_SYSCALL, tf_regs := zero_regs\<lparr>reg_eax := SYS_sem_wait\<rparr>\<rparr>"

lemma switch_keeps_registers_witness:
  "\<exists>k'. trap 0x102000 0x200000 0 (enter wait_frame two_sleepers) = Some (Inr (Switched k'))
     \<and> reg_eax (tf_regs (tf (user_pcbs k' 0))) = 12"
proof -
  let ?e = "enter wait_frame two_sleepers"
  let ?w = "upd_pcb 0 (\<lambda>b. b\<lparr>wait_sem := 0, status := PCB_SLEEPING\<rparr>) ?e"
  have t: "ts_top two_sleepers = Pcb_end 0" by (simp add: two_sleepers_def sample_kernel_def)
  have e: "get_pid ?e = 0" "tf (user_pcbs ?e 0) = wait_frame" "ts_top ?e = Pcb_end 0" "\<not> interrupts ?e"
      "sem_pool ?e = [0, 0, 0]" "status (user_pcbs ?e 0) = PCB_RUNNING" "?e\<lparr>interrupts := False\<rparr> = ?e"
    by (simp_all add: enter_def t get_pid_def) (simp_all add: two_sleepers_def get_pid_def sample_kernel_def idle_pcb_def)
  have w: "sys_sem_wait 0 ?e = Inr (Sem_blocks ?w)"
    using e by (simp add: sem_wait_simps(4) sem_index_def sem_count_def)
  have "regular ?w 0"
    using e by (simp add: regular_def calm_def waits_in_pool_def sem_index_def)
      (simp add: enter_def t two_sleepers_def sample_kernel_def idle_pcb_def)
  moreover have "may_run (ticks (0 + 1) ?w) j \<longleftrightarrow> j = 5" if "j \<noteq> 0" for j
    using that by (simp add: may_run_def asleep_def enter_def t)
      (simp add: two_sleepers_def sample_kernel_def idle_pcb_def)
  then have "next_process (ticks (0 + 1) ?w) 0 = Some 5" by (intro next_process_only) simp_all
  ultimately have "sched_process ?w = Some (Inr (take_turn 5 (ticks (0 + 1) ?w)))"
    using sched_process_loop loop_finds [of ?w 0 0 5] by simp
  then have s: "switch (sched_process ?w) = Some (Inr (Switched (take_turn 5 (ticks (0 + 1) ?w))))"
    by (simp add: switch_def)
  have f: "tf_trapno wait_frame = 0x80" "reg_eax (tf_regs wait_frame) = 12" "reg_edx (tf_regs wait_frame) = 0"
    by (simp_all add: wait_frame_def zero_regs_def)
  have "syscall_handler 0x102000 0x200000 wait_frame ?e = waiting (sys_sem_wait 0 ?e)"
    unfolding syscall_handler_def Let_def e(7) f by simp
  then have "trap 0x102000 0x200000 0 ?e = Some (Inr (Switched (take_turn 5 (ticks (0 + 1) ?w))))"
    using e(2-4) w s f(1) by (simp add: trap_def waiting_def)
  with f(2) show ?thesis using switch_keeps_registers [OF t] by metis
qed

end
