(* ===== verification/X86.thy ===== *)
theory X86
  imports Disk Mmu CString
begin

text \<open>
  \<^verbatim>\<open>inc/x86.h\<close> and \<^verbatim>\<open>inc/cpu.h\<close>: each inline function is the instruction it wraps. The port
  instructions are parameters, gathered in the record \<open>ports\<close>: what a port does is the business of
  the device behind it; the string instructions repeat them. The other functions act on the record
  \<open>cpu\<close> of the registers they read or write, with the translation buffer and the memory, as
  the manual of the processor describes them. \<^verbatim>\<open>breakpoint\<close> is in the theory \<open>User\<close>, as the trap it raises.
\<close>

unbundle bit_operations_syntax

section \<open>Bytes in memory\<close>

fun store_at :: "u32 \<Rightarrow> u8 list \<Rightarrow> memory \<Rightarrow> memory" where
  "store_at a [] m = m"
| "store_at a (b # bs) m = store_at (a + 1) bs (m(a := b))"

fun load_at :: "u32 \<Rightarrow> nat \<Rightarrow> memory \<Rightarrow> u8 list" where
  "load_at a 0 m = []"
| "load_at a (Suc n) m = m a # load_at (a + 1) n m"

section \<open>Ports\<close>

text \<open>The instructions themselves, for the device behind the ports: the port is the 16 bits in \<^verbatim>\<open>dx\<close>.\<close>

record 'd ports =
  in8 :: "u16 \<Rightarrow> 'd \<Rightarrow> u8 \<times> 'd"
  in16 :: "u16 \<Rightarrow> 'd \<Rightarrow> u16 \<times> 'd"
  in32 :: "u16 \<Rightarrow> 'd \<Rightarrow> u32 \<times> 'd"
  out8 :: "u16 \<Rightarrow> u8 \<Rightarrow> 'd \<Rightarrow> 'd"
  out16 :: "u16 \<Rightarrow> u16 \<Rightarrow> 'd \<Rightarrow> 'd"
  out32 :: "u16 \<Rightarrow> u32 \<Rightarrow> 'd \<Rightarrow> 'd"

text \<open>The functions of \<^verbatim>\<open>inc/x86.h\<close>: their port is an \<^verbatim>\<open>int\<close>, of which \<^verbatim>\<open>%w1\<close> is the low half.\<close>

definition inb :: "'d ports \<Rightarrow> u32 \<Rightarrow> 'd \<Rightarrow> u8 \<times> 'd" where "inb P port = in8 P (ucast port)"
definition inw :: "'d ports \<Rightarrow> u32 \<Rightarrow> 'd \<Rightarrow> u16 \<times> 'd" where "inw P port = in16 P (ucast port)"
definition inl :: "'d ports \<Rightarrow> u32 \<Rightarrow> 'd \<Rightarrow> u32 \<times> 'd" where "inl P port = in32 P (ucast port)"
definition outb :: "'d ports \<Rightarrow> u32 \<Rightarrow> u8 \<Rightarrow> 'd \<Rightarrow> 'd" where "outb P port = out8 P (ucast port)"
definition outw :: "'d ports \<Rightarrow> u32 \<Rightarrow> u16 \<Rightarrow> 'd \<Rightarrow> 'd" where "outw P port = out16 P (ucast port)"
definition outl :: "'d ports \<Rightarrow> u32 \<Rightarrow> u32 \<Rightarrow> 'd \<Rightarrow> 'd" where "outl P port = out32 P (ucast port)"

lemmas port_defs = inb_def inw_def inl_def outb_def outw_def outl_def

text \<open>A repeated string instruction with the direction flag clear, \<open>n\<close> being the count in \<^verbatim>\<open>ecx\<close>.\<close>

fun rep_ins :: "('w \<Rightarrow> u8 list) \<Rightarrow> ('d \<Rightarrow> 'w \<times> 'd) \<Rightarrow> nat \<Rightarrow> 'd \<Rightarrow> u8 list \<times> 'd" where
  "rep_ins enc rd 0 d = ([], d)"
| "rep_ins enc rd (Suc n) d =
     (let (w, d1) = rd d; (bs, d2) = rep_ins enc rd n d1 in (enc w @ bs, d2))"

fun rep_outs :: "(u8 list \<Rightarrow> 'w) \<Rightarrow> nat \<Rightarrow> ('w \<Rightarrow> 'd \<Rightarrow> 'd) \<Rightarrow> u8 list \<Rightarrow> nat \<Rightarrow> 'd \<Rightarrow> 'd" where
  "rep_outs dec w wr src 0 d = d"
| "rep_outs dec w wr src (Suc n) d = rep_outs dec w wr (drop w src) n (wr (dec (take w src)) d)"

text \<open>The bytes the instruction stores from \<open>addr\<close> on, or those it finds there.\<close>

definition insb :: "'d ports \<Rightarrow> u32 \<Rightarrow> nat \<Rightarrow> 'd \<Rightarrow> u8 list \<times> 'd" where
  "insb P port cnt = rep_ins (\<lambda>b. [b]) (inb P port) cnt"

definition insw :: "'d ports \<Rightarrow> u32 \<Rightarrow> nat \<Rightarrow> 'd \<Rightarrow> u8 list \<times> 'd" where
  "insw P port cnt = rep_ins bytes_of_u16 (inw P port) cnt"

definition insl :: "'d ports \<Rightarrow> u32 \<Rightarrow> nat \<Rightarrow> 'd \<Rightarrow> u8 list \<times> 'd" where
  "insl P port cnt = rep_ins bytes_of_u32 (inl P port) cnt"

definition outsb :: "'d ports \<Rightarrow> u32 \<Rightarrow> u8 list \<Rightarrow> nat \<Rightarrow> 'd \<Rightarrow> 'd" where
  "outsb P port = rep_outs hd 1 (outb P port)"

definition outsw :: "'d ports \<Rightarrow> u32 \<Rightarrow> u8 list \<Rightarrow> nat \<Rightarrow> 'd \<Rightarrow> 'd" where
  "outsw P port = rep_outs u16_of_bytes 2 (outw P port)"

definition outsl :: "'d ports \<Rightarrow> u32 \<Rightarrow> u8 list \<Rightarrow> nat \<Rightarrow> 'd \<Rightarrow> 'd" where
  "outsl P port = rep_outs u32_of_bytes 4 (outl P port)"

section \<open>The processor\<close>

text \<open>The translation buffer: for the number of a page its frame and the access rights.\<close>

type_synonym tlb = "u32 \<rightharpoonup> u32 \<times> u32"

record cpu =
  cpu_cr0 :: u32
  cpu_cr2 :: u32
  cpu_cr3 :: u32
  cpu_cr4 :: u32
  cpu_eflags :: u32
  cpu_esp :: u32
  cpu_ebp :: u32
  cpu_gdtr :: pseudodesc
  cpu_idtr :: pseudodesc
  cpu_ldtr :: u16
  cpu_tr :: u16
  cpu_tsc :: "64 word"
  cpu_tlb :: tlb
  cpu_halted :: bool
  ram :: memory

text \<open>The six bytes of a pseudo-descriptor.\<close>

definition pseudodesc_at :: "u32 \<Rightarrow> memory \<Rightarrow> pseudodesc" where
  "pseudodesc_at p m = \<lparr>pd_lim = u16_of_bytes (load_at p 2 m), pd_base = u32_of_bytes (load_at (p + 2) 4 m)\<rparr>"

definition bytes_of_pseudodesc :: "pseudodesc \<Rightarrow> u8 list" where
  "bytes_of_pseudodesc d = bytes_of_u16 (pd_lim d) @ bytes_of_u32 (pd_base d)"

definition lidt :: "u32 \<Rightarrow> cpu \<Rightarrow> cpu" where "lidt p c = c\<lparr>cpu_idtr := pseudodesc_at p (ram c)\<rparr>"
definition lgdt :: "u32 \<Rightarrow> cpu \<Rightarrow> cpu" where "lgdt p c = c\<lparr>cpu_gdtr := pseudodesc_at p (ram c)\<rparr>"
definition lldt :: "u16 \<Rightarrow> cpu \<Rightarrow> cpu" where "lldt sel c = c\<lparr>cpu_ldtr := sel\<rparr>"
definition ltr :: "u16 \<Rightarrow> cpu \<Rightarrow> cpu" where "ltr sel c = c\<lparr>cpu_tr := sel\<rparr>"

text \<open>
  The control registers. A write of \<^verbatim>\<open>cr3\<close> empties the translation buffer (no entry of this system is
  global); so does switching paging off, and a change of the paging modes in \<^verbatim>\<open>cr4\<close>.
\<close>

definition lcr0 :: "u32 \<Rightarrow> cpu \<Rightarrow> cpu" where
  "lcr0 val c = c\<lparr>cpu_cr0 := val,
     cpu_tlb := (if cpu_cr0 c AND CR0_PG \<noteq> 0 \<and> val AND CR0_PG = 0 then Map.empty else cpu_tlb c)\<rparr>"

definition rcr0 :: "cpu \<Rightarrow> u32" where "rcr0 c = cpu_cr0 c"
definition rcr2 :: "cpu \<Rightarrow> u32" where "rcr2 c = cpu_cr2 c"

definition lcr3 :: "u32 \<Rightarrow> cpu \<Rightarrow> cpu" where "lcr3 val c = c\<lparr>cpu_cr3 := val, cpu_tlb := Map.empty\<rparr>"
definition rcr3 :: "cpu \<Rightarrow> u32" where "rcr3 c = cpu_cr3 c"

definition lcr4 :: "u32 \<Rightarrow> cpu \<Rightarrow> cpu" where
  "lcr4 val c = c\<lparr>cpu_cr4 := val,
     cpu_tlb := (if (cpu_cr4 c XOR val) AND 0xB0 \<noteq> 0 then Map.empty else cpu_tlb c)\<rparr>"

definition rcr4 :: "cpu \<Rightarrow> u32" where "rcr4 c = cpu_cr4 c"

definition invlpg :: "u32 \<Rightarrow> cpu \<Rightarrow> cpu" where
  "invlpg addr c = c\<lparr>cpu_tlb := (cpu_tlb c)(PGNUM addr := None)\<rparr>"

definition tlbflush :: "cpu \<Rightarrow> cpu" where "tlbflush c = lcr3 (rcr3 c) c"

text \<open>The flags, through the stack; \<^verbatim>\<open>popfl\<close> in the kernel sets all but the reserved and virtual-mode bits.\<close>

definition pushl :: "u32 \<Rightarrow> cpu \<Rightarrow> cpu" where
  "pushl v c = c\<lparr>cpu_esp := cpu_esp c - 4, ram := store_at (cpu_esp c - 4) (bytes_of_u32 v) (ram c)\<rparr>"

definition popl :: "cpu \<Rightarrow> u32 \<times> cpu" where
  "popl c = (u32_of_bytes (load_at (cpu_esp c) 4 (ram c)), c\<lparr>cpu_esp := cpu_esp c + 4\<rparr>)"

definition pushfl :: "cpu \<Rightarrow> cpu" where "pushfl c = pushl (cpu_eflags c AND 0x00FCFFFF) c"

definition popfl :: "cpu \<Rightarrow> cpu" where
  "popfl c = (let (v, c1) = popl c in c1\<lparr>cpu_eflags := (v AND 0x00247FD5) OR (cpu_eflags c AND FL_VM) OR 2\<rparr>)"

definition read_eflags :: "cpu \<Rightarrow> u32 \<times> cpu" where "read_eflags c = popl (pushfl c)"
definition write_eflags :: "u32 \<Rightarrow> cpu \<Rightarrow> cpu" where "write_eflags eflags c = popfl (pushl eflags c)"

definition read_ebp :: "cpu \<Rightarrow> u32" where "read_ebp c = cpu_ebp c"
definition read_esp :: "cpu \<Rightarrow> u32" where "read_esp c = cpu_esp c"
definition read_tsc :: "cpu \<Rightarrow> 64 word" where "read_tsc c = cpu_tsc c"

text \<open>\<^verbatim>\<open>cpuid\<close>: what the processor answers is the parameter \<open>ident\<close>; a null pointer takes no answer.\<close>

definition answer :: "u32 \<Rightarrow> u32 \<Rightarrow> memory \<Rightarrow> memory" where
  "answer p v m = (if p = 0 then m else store_at p (bytes_of_u32 v) m)"

definition cpuid :: "(u32 \<Rightarrow> u32 \<times> u32 \<times> u32 \<times> u32) \<Rightarrow> u32 \<Rightarrow> u32 \<Rightarrow> u32 \<Rightarrow> u32 \<Rightarrow> u32 \<Rightarrow> cpu \<Rightarrow> cpu" where
  "cpuid ident info eaxp ebxp ecxp edxp c =
     (let (eax, ebx, ecx, edx) = ident info;
          m1 = answer eaxp eax (ram c);
          m2 = answer ebxp ebx m1;
          m3 = answer ecxp ecx m2
      in c\<lparr>ram := answer edxp edx m3\<rparr>)"

definition xchg :: "u32 \<Rightarrow> u32 \<Rightarrow> cpu \<Rightarrow> u32 \<times> cpu" where
  "xchg addr newval c =
     (u32_of_bytes (load_at addr 4 (ram c)), c\<lparr>ram := store_at addr (bytes_of_u32 newval) (ram c)\<rparr>)"

section \<open>inc/cpu.h\<close>

definition wait_for_interrupt :: "cpu \<Rightarrow> cpu" where "wait_for_interrupt c = c\<lparr>cpu_halted := True\<rparr>"
definition enable_interrupt :: "cpu \<Rightarrow> cpu" where "enable_interrupt c = c\<lparr>cpu_eflags := cpu_eflags c OR FL_IF\<rparr>"
definition disable_interrupt :: "cpu \<Rightarrow> cpu" where
  "disable_interrupt c = c\<lparr>cpu_eflags := cpu_eflags c AND NOT FL_IF\<rparr>"

text \<open>\<open>data\<close> is where the static array of three half words lies.\<close>

definition save_idt :: "u32 \<Rightarrow> u32 \<Rightarrow> u32 \<Rightarrow> cpu \<Rightarrow> cpu" where
  "save_idt data addr sz c =
     (let m1 = store_at data (bytes_of_u16 (ucast (sz - 1))) (ram c);
          m2 = store_at (data + 2) (bytes_of_u16 (ucast addr)) m1;
          m3 = store_at (data + 4) (bytes_of_u16 (ucast (drop_bit 16 addr))) m2
      in lidt data (c\<lparr>ram := m3\<rparr>))"

definition NR_IRQ :: nat where [simp]: "NR_IRQ = 256"

text \<open>An external interrupt is taken, and a halted processor wakes, only with the flag set.\<close>

definition can_interrupt :: "cpu \<Rightarrow> bool" where "can_interrupt c \<longleftrightarrow> cpu_eflags c AND FL_IF \<noteq> 0"

section \<open>Lemmas\<close>

lemma unat_sub_Suc:
  fixes a p :: u32
  shows "p \<noteq> a \<Longrightarrow> unat (p - a) = Suc (unat (p - (a + 1)))" "p = a \<Longrightarrow> unat (p - (a + 1)) = 4294967295"
proof -
  have "p - a = (p - (a + 1)) + 1" by simp
  moreover assume "p \<noteq> a"
  ultimately show "unat (p - a) = Suc (unat (p - (a + 1)))"
    by (metis add.commute diff_0 diff_eq_diff_eq diff_self eq_iff_diff_eq_0 unatSuc)
qed simp

lemma store_at_eq:
  assumes "length bs < 2 ^ 32"
  shows "store_at a bs m p = (let j = unat (p - a) in if j < length bs then bs ! j else m p)"
  using assms
proof (induction bs arbitrary: a m)
  case (Cons b bs a m)
  then show ?case using unat_sub_Suc [of p a] by (cases "p = a") (simp_all add: Let_def)
qed simp

lemma load_at_map: "load_at a n m = map (\<lambda>i. m (a + of_nat i)) [0..<n]"
proof (induction n arbitrary: a)
  case (Suc n)
  have "map (\<lambda>i. m (a + 1 + of_nat i)) [0..<n] = map (\<lambda>i. m (a + of_nat i)) [1..<Suc n]"
    by (simp add: map_Suc_upt [symmetric] add.assoc del: upt_Suc)
  then show ?case using Suc by (simp add: upt_conv_Cons del: upt_Suc)
qed simp

lemma length_load_at [simp]: "length (load_at a n m) = n"
  by (simp add: load_at_map)

lemma load_at_append: "load_at a (k + n) m = load_at a k m @ load_at (a + of_nat k) n m"
  by (induction k arbitrary: a) (simp_all add: add.assoc add.commute [of 1])

lemma store_at_append: "store_at a (bs @ cs) m = store_at (a + of_nat (length bs)) cs (store_at a bs m)"
  by (induction bs arbitrary: a m) (simp_all add: add.assoc add.commute [of 1])

text \<open>What was stored is found again, and nothing beside it has changed.\<close>

lemma load_stored:
  assumes "length bs < 2 ^ 32"
  shows "load_at a (length bs) (store_at a bs m) = bs"
  using assms by (intro nth_equalityI) (auto simp: load_at_map store_at_eq unat_of_nat)

lemma load_store_beside:
  assumes "length bs < 2 ^ 32" "\<And>i. i < n \<Longrightarrow> length bs \<le> unat (b + of_nat i - a)"
  shows "load_at b n (store_at a bs m) = load_at b n m"
proof -
  have "store_at a bs m (b + of_nat i) = m (b + of_nat i)" if "i < n" for i
    using store_at_eq [OF assms(1), of a m "b + of_nat i"] assms(2) [OF that] by (simp add: Let_def not_less)
  then show ?thesis by (simp add: load_at_map)
qed

lemma load_store_word [simp]: "u32_of_bytes (load_at a 4 (store_at a (bytes_of_u32 v) m)) = v"
  using load_stored [of "bytes_of_u32 v" a m] by (simp add: length_bytes_of_u32 u32_of_bytes_of_u32)

text \<open>String instructions: so many single transfers, in order; two of them in a row are one.\<close>

lemma rep_ins_add:
  "rep_ins enc rd (k + n) d = (let (bs, d1) = rep_ins enc rd k d; (cs, d2) = rep_ins enc rd n d1 in (bs @ cs, d2))"
  by (induction k arbitrary: d) (simp_all add: Let_def split_beta)

lemma rep_outs_add:
  "rep_outs dec w wr src (k + n) d = rep_outs dec w wr (drop (w * k) src) n (rep_outs dec w wr src k d)"
  by (induction k arbitrary: src d) (simp_all add: add.commute)

lemma pseudodesc_stored: "pseudodesc_at p (store_at p (bytes_of_pseudodesc d) m) = d"
proof -
  have "load_at p (2 + 4) (store_at p (bytes_of_pseudodesc d) m) = bytes_of_u16 (pd_lim d) @ bytes_of_u32 (pd_base d)"
    using load_stored [of "bytes_of_pseudodesc d" p m]
    by (simp add: bytes_of_pseudodesc_def length_bytes_of_u16 length_bytes_of_u32)
  then have "load_at p 2 (store_at p (bytes_of_pseudodesc d) m) = bytes_of_u16 (pd_lim d)"
      "load_at (p + 2) 4 (store_at p (bytes_of_pseudodesc d) m) = bytes_of_u32 (pd_base d)"
    unfolding load_at_append by (simp_all add: length_bytes_of_u16 length_bytes_of_u32)
  then show ?thesis by (simp add: pseudodesc_at_def u16_of_bytes_of_u16 u32_of_bytes_of_u32)
qed

text \<open>The three half words of \<^verbatim>\<open>save_idt\<close> make up the limit and the base.\<close>

lemma u32_in_halves: "bytes_of_u16 (ucast a) @ bytes_of_u16 (ucast (drop_bit 16 a)) = bytes_of_u32 a"
proof -
  have "(ucast (ucast a :: u16) :: u8) = ucast a" "(ucast (drop_bit 8 (ucast a :: u16)) :: u8) = ucast (drop_bit 8 a)"
    "(ucast (ucast (drop_bit 16 a) :: u16) :: u8) = ucast (drop_bit 16 a)"
    "(ucast (drop_bit 8 (ucast (drop_bit 16 a) :: u16)) :: u8) = ucast (drop_bit 24 a)" for a :: u32
    by (rule bit_word_eqI, auto simp: bit_simps)+
  then show ?thesis by (simp add: bytes_of_u16_def bytes_of_u32_def)
qed

lemma save_idt_loads:
  "cpu_idtr (save_idt data addr sz c) = \<lparr>pd_lim = ucast (sz - 1), pd_base = addr\<rparr>"
proof -
  let ?d = "\<lparr>pd_lim = ucast (sz - 1), pd_base = addr\<rparr>"
  have "bytes_of_pseudodesc ?d = bytes_of_u16 (ucast (sz - 1)) @ bytes_of_u16 (ucast addr)
      @ bytes_of_u16 (ucast (drop_bit 16 addr))"
    by (simp add: bytes_of_pseudodesc_def u32_in_halves)
  then have "save_idt data addr sz c = lidt data (c\<lparr>ram := store_at data (bytes_of_pseudodesc ?d) (ram c)\<rparr>)"
    by (simp add: save_idt_def store_at_append Let_def length_bytes_of_u16 add.assoc)
  then show ?thesis by (simp add: lidt_def pseudodesc_stored)
qed

text \<open>Flags as the kernel can have them: the fixed bit set, the reserved and virtual-mode bits clear.\<close>

definition flags_ok :: "u32 \<Rightarrow> bool" where
  "flags_ok f \<longleftrightarrow> (f AND 0x00247FD5) OR 2 = f"

lemma flags_ok_masks:
  assumes "flags_ok f"
  shows "f AND 0x00FCFFFF = f" "f AND FL_VM = 0"
proof -
  have f: "(f AND 0x00247FD5) OR 2 = f" using assms by (simp add: flags_ok_def)
  have "((f AND 0x00247FD5) OR 2) AND 0x00FCFFFF = (f AND 0x00247FD5) OR 2"
    "((f AND 0x00247FD5) OR 2) AND FL_VM = 0"
    by (simp_all add: bit.conj_disj_distrib2 and.assoc)
  then show "f AND 0x00FCFFFF = f" "f AND FL_VM = 0" unfolding f by simp_all
qed

lemma read_eflags_ok:
  assumes "flags_ok (cpu_eflags c)"
  shows "fst (read_eflags c) = cpu_eflags c" "cpu_eflags (snd (read_eflags c)) = cpu_eflags c"
    "cpu_esp (snd (read_eflags c)) = cpu_esp c"
  using flags_ok_masks(1) [OF assms] by (simp_all add: read_eflags_def pushfl_def pushl_def popl_def)

lemma write_eflags_ok:
  assumes "flags_ok f" "flags_ok (cpu_eflags c)"
  shows "cpu_eflags (write_eflags f c) = f" "cpu_esp (write_eflags f c) = cpu_esp c"
  using assms(1) flags_ok_masks(2) [OF assms(2)]
  by (simp_all add: write_eflags_def popfl_def pushl_def popl_def flags_ok_def Let_def)

lemma interrupt_flag:
  assumes "flags_ok (cpu_eflags c)"
  shows "flags_ok (cpu_eflags (enable_interrupt c))" "flags_ok (cpu_eflags (disable_interrupt c))"
    "can_interrupt (enable_interrupt c)" "\<not> can_interrupt (disable_interrupt c)"
proof -
  have f: "(cpu_eflags c AND 0x00247FD5) OR 2 = cpu_eflags c" using assms by (simp add: flags_ok_def)
  have "((cpu_eflags c OR FL_IF) AND 0x00247FD5) OR 2 = ((cpu_eflags c AND 0x00247FD5) OR 2) OR FL_IF"
    by (simp add: bit.conj_disj_distrib2 ac_simps)
  then show "flags_ok (cpu_eflags (enable_interrupt c))" unfolding f by (simp add: flags_ok_def enable_interrupt_def)
  have "((cpu_eflags c AND NOT FL_IF) AND 0x00247FD5) OR 2 = ((cpu_eflags c AND 0x00247FD5) OR 2) AND NOT FL_IF"
    by (simp add: bit.conj_disj_distrib2 and.assoc and.commute [of "NOT FL_IF"])
  then show "flags_ok (cpu_eflags (disable_interrupt c))" unfolding f by (simp add: flags_ok_def disable_interrupt_def)
  show "can_interrupt (enable_interrupt c)" "\<not> can_interrupt (disable_interrupt c)"
    by (simp_all add: can_interrupt_def enable_interrupt_def disable_interrupt_def bit.conj_disj_distrib2 and.assoc)
qed

end
