(* ===== verification/User.thy ===== *)
theory User
  imports Syscalls X86
begin

text \<open>
  The user's side of the system calls, \<^verbatim>\<open>game/syscall.c\<close> and \<^verbatim>\<open>game/common.c\<close>, and the start of
  \<^verbatim>\<open>main\<close> in \<^verbatim>\<open>game/game.c\<close>, on the state of the kernel. \<open>f\<close> is the frame with the registers that
  the process has when it executes \<^verbatim>\<open>int\<close>; a call that returns leaves its result in the saved
  \<^verbatim>\<open>eax\<close>, which \<^verbatim>\<open>iret\<close> restores. What \<^verbatim>\<open>printk\<close> prints is a call recorded in the state.
\<close>

section \<open>game/syscall.c: int T\_SYSCALL with up to five arguments\<close>

definition int_syscall :: "u32 \<Rightarrow> u32 \<Rightarrow> trapframe \<Rightarrow> (pushregs \<Rightarrow> pushregs) \<Rightarrow> kernel \<Rightarrow> sys_outcome result option" where
  "int_syscall etp utp f load k = trap etp utp 0 (enter (f\<lparr>tf_trapno := T_SYSCALL, tf_regs := load (tf_regs f)\<rparr>) k)"

definition do_syscall0 :: "u32 \<Rightarrow> u32 \<Rightarrow> trapframe \<Rightarrow> u32 \<Rightarrow> kernel \<Rightarrow> sys_outcome result option" where
  "do_syscall0 etp utp f syscallno k = int_syscall etp utp f (\<lambda>r. r\<lparr>reg_eax := syscallno\<rparr>) k"

definition do_syscall1 :: "u32 \<Rightarrow> u32 \<Rightarrow> trapframe \<Rightarrow> u32 \<Rightarrow> u32 \<Rightarrow> kernel \<Rightarrow> sys_outcome result option" where
  "do_syscall1 etp utp f syscallno a1 k = int_syscall etp utp f (\<lambda>r. r\<lparr>reg_eax := syscallno, reg_edx := a1\<rparr>) k"

definition do_syscall2 :: "u32 \<Rightarrow> u32 \<Rightarrow> trapframe \<Rightarrow> u32 \<Rightarrow> u32 \<Rightarrow> u32 \<Rightarrow> kernel \<Rightarrow> sys_outcome result option" where
  "do_syscall2 etp utp f syscallno a1 a2 k =
     int_syscall etp utp f (\<lambda>r. r\<lparr>reg_eax := syscallno, reg_edx := a1, reg_ecx := a2\<rparr>) k"

definition do_syscall3 :: "u32 \<Rightarrow> u32 \<Rightarrow> trapframe \<Rightarrow> u32 \<Rightarrow> u32 \<Rightarrow> u32 \<Rightarrow> u32 \<Rightarrow> kernel \<Rightarrow> sys_outcome result option" where
  "do_syscall3 etp utp f syscallno a1 a2 a3 k =
     int_syscall etp utp f (\<lambda>r. r\<lparr>reg_eax := syscallno, reg_edx := a1, reg_ecx := a2, reg_ebx := a3\<rparr>) k"

definition do_syscall4 ::
  "u32 \<Rightarrow> u32 \<Rightarrow> trapframe \<Rightarrow> u32 \<Rightarrow> u32 \<Rightarrow> u32 \<Rightarrow> u32 \<Rightarrow> u32 \<Rightarrow> kernel \<Rightarrow> sys_outcome result option" where
  "do_syscall4 etp utp f syscallno a1 a2 a3 a4 k =
     int_syscall etp utp f (\<lambda>r. r\<lparr>reg_eax := syscallno, reg_edx := a1, reg_ecx := a2, reg_ebx := a3, reg_edi := a4\<rparr>) k"

definition do_syscall5 ::
  "u32 \<Rightarrow> u32 \<Rightarrow> trapframe \<Rightarrow> u32 \<Rightarrow> u32 \<Rightarrow> u32 \<Rightarrow> u32 \<Rightarrow> u32 \<Rightarrow> u32 \<Rightarrow> kernel \<Rightarrow> sys_outcome result option" where
  "do_syscall5 etp utp f syscallno a1 a2 a3 a4 a5 k =
     int_syscall etp utp f (\<lambda>r. r\<lparr>reg_eax := syscallno, reg_edx := a1, reg_ecx := a2, reg_ebx := a3, reg_edi := a4,
       reg_esi := a5\<rparr>) k"

section \<open>game/syscall.c: the wrappers\<close>

text \<open>\<^verbatim>\<open>my_assert(... == 0)\<close> on the result of a call.\<close>

definition is_zero :: "sys_outcome result option \<Rightarrow> sys_outcome result option" where
  "is_zero m = map_option (\<lambda>r. andThen r (\<lambda>x. case x of
       Returns v k \<Rightarrow> andThen (my_assert ''do_syscall(...) == 0'' (v = 0)) (\<lambda>_. Inr (Returns v k))
     | Switched k \<Rightarrow> Inr (Switched k) | Halted k \<Rightarrow> Inr (Halted k))) m"

definition user_vprintk :: "u32 \<Rightarrow> u32 \<Rightarrow> trapframe \<Rightarrow> u32 \<Rightarrow> u32 \<Rightarrow> kernel \<Rightarrow> sys_outcome result option" where
  "user_vprintk etp utp f ctl arg k = is_zero (do_syscall2 etp utp f SYS_vprintk ctl arg k)"

definition user_timer :: "u32 \<Rightarrow> u32 \<Rightarrow> trapframe \<Rightarrow> u32 \<Rightarrow> kernel \<Rightarrow> sys_outcome result option" where
  "user_timer etp utp f handler k = is_zero (do_syscall1 etp utp f SYS_timer handler k)"

definition user_getpid :: "u32 \<Rightarrow> u32 \<Rightarrow> trapframe \<Rightarrow> kernel \<Rightarrow> sys_outcome result option" where
  "user_getpid etp utp f k = do_syscall0 etp utp f SYS_getpid k"

definition user_keyboard :: "u32 \<Rightarrow> u32 \<Rightarrow> trapframe \<Rightarrow> u32 \<Rightarrow> kernel \<Rightarrow> sys_outcome result option" where
  "user_keyboard etp utp f handler k = is_zero (do_syscall1 etp utp f SYS_keyboard handler k)"

definition user_display :: "u32 \<Rightarrow> u32 \<Rightarrow> trapframe \<Rightarrow> u32 \<Rightarrow> kernel \<Rightarrow> sys_outcome result option" where
  "user_display etp utp f buf k = is_zero (do_syscall1 etp utp f SYS_display buf k)"

text \<open>\<^verbatim>\<open>for (;;)\<close> around a call that never comes back: if it did, the call would be made again.\<close>

partial_function (option) user_crash :: "u32 \<Rightarrow> u32 \<Rightarrow> trapframe \<Rightarrow> kernel \<Rightarrow> sys_outcome result option" where
  "user_crash etp utp f k =
     Option.bind (do_syscall0 etp utp f SYS_crash k) (\<lambda>r. case r of
       Inr (Returns v k1) \<Rightarrow> user_crash etp utp f k1 | _ \<Rightarrow> Some r)"

partial_function (option) user_exit :: "u32 \<Rightarrow> u32 \<Rightarrow> trapframe \<Rightarrow> kernel \<Rightarrow> sys_outcome result option" where
  "user_exit etp utp f k =
     Option.bind (do_syscall0 etp utp f SYS_exit k) (\<lambda>r. case r of
       Inr (Returns v k1) \<Rightarrow> user_exit etp utp f k1 | _ \<Rightarrow> Some r)"

definition user_wait_intr :: "u32 \<Rightarrow> u32 \<Rightarrow> trapframe \<Rightarrow> kernel \<Rightarrow> sys_outcome result option" where
  "user_wait_intr etp utp f k = do_syscall0 etp utp f SYS_wait_intr k"

definition user_fork :: "u32 \<Rightarrow> u32 \<Rightarrow> trapframe \<Rightarrow> kernel \<Rightarrow> sys_outcome result option" where
  "user_fork etp utp f k = do_syscall0 etp utp f SYS_fork k"

definition user_sleep :: "u32 \<Rightarrow> u32 \<Rightarrow> trapframe \<Rightarrow> u32 \<Rightarrow> kernel \<Rightarrow> sys_outcome result option" where
  "user_sleep etp utp f time k = do_syscall1 etp utp f SYS_sleep time k"

definition user_sem_open :: "u32 \<Rightarrow> u32 \<Rightarrow> trapframe \<Rightarrow> u32 \<Rightarrow> u32 \<Rightarrow> kernel \<Rightarrow> sys_outcome result option" where
  "user_sem_open etp utp f sem v k = do_syscall2 etp utp f SYS_sem_open sem v k"

definition user_sem_post :: "u32 \<Rightarrow> u32 \<Rightarrow> trapframe \<Rightarrow> u32 \<Rightarrow> kernel \<Rightarrow> sys_outcome result option" where
  "user_sem_post etp utp f sem k = do_syscall1 etp utp f SYS_sem_post sem k"

definition user_sem_wait :: "u32 \<Rightarrow> u32 \<Rightarrow> trapframe \<Rightarrow> u32 \<Rightarrow> kernel \<Rightarrow> sys_outcome result option" where
  "user_sem_wait etp utp f sem k = do_syscall1 etp utp f SYS_sem_wait sem k"

definition user_sem_destroy :: "u32 \<Rightarrow> u32 \<Rightarrow> trapframe \<Rightarrow> u32 \<Rightarrow> kernel \<Rightarrow> sys_outcome result option" where
  "user_sem_destroy etp utp f sem k = do_syscall1 etp utp f SYS_sem_destroy sem k"

definition user_mem_share :: "u32 \<Rightarrow> u32 \<Rightarrow> trapframe \<Rightarrow> u32 \<Rightarrow> u32 \<Rightarrow> u32 \<Rightarrow> kernel \<Rightarrow> sys_outcome result option" where
  "user_mem_share etp utp f dest_pid src_pid va k = do_syscall3 etp utp f SYS_mem_share dest_pid src_pid va k"

text \<open>\<^verbatim>\<open>printk\<close> of \<^verbatim>\<open>game/common.c\<close>; \<open>arg\<close> is the address of its variable arguments.\<close>

definition user_printk :: "u32 \<Rightarrow> u32 \<Rightarrow> trapframe \<Rightarrow> u32 \<Rightarrow> u32 \<Rightarrow> kernel \<Rightarrow> sys_outcome result option" where
  "user_printk etp utp f ctl arg k = user_vprintk etp utp f ctl arg k"

section \<open>game/game.c: main\<close>

text \<open>Going on after a call that returned.\<close>

definition and_then :: "sys_outcome result option \<Rightarrow> (u32 \<Rightarrow> kernel \<Rightarrow> sys_outcome result option) \<Rightarrow> sys_outcome result option" where
  "and_then m g = Option.bind m (\<lambda>r. case r of Inr (Returns v k) \<Rightarrow> g v k | _ \<Rightarrow> Some r)"

text \<open>\<^verbatim>\<open>for(;;);\<close> and \<^verbatim>\<open>while(true)\<close> without a body: the process never goes on.\<close>

partial_function (option) spin :: "kernel \<Rightarrow> sys_outcome result option" where
  "spin k = spin k"

lemma spin_never_returns [simp]: "spin k = None"
proof -
  have "False" if "spin k = Some r" for r
    using spin.raw_induct [of "\<lambda>_ _. False" k r] that by blast
  then show ?thesis by (cases "spin k") auto
qed

text \<open>\<^verbatim>\<open>abort\<close> of \<^verbatim>\<open>game/common.c\<close> prints and never returns. \<^verbatim>\<open>breakpoint\<close> of \<^verbatim>\<open>inc/x86.h\<close> in user mode is \<^verbatim>\<open>int3\<close>, vector 3.\<close>

definition user_abort :: "u32 \<Rightarrow> u32 \<Rightarrow> trapframe \<Rightarrow> u32 \<Rightarrow> u32 \<Rightarrow> kernel \<Rightarrow> sys_outcome result option" where
  "user_abort etp utp f ctl arg k = and_then (user_printk etp utp f ctl arg k) (\<lambda>_ k1. spin k1)"

definition breakpoint :: "u32 \<Rightarrow> u32 \<Rightarrow> trapframe \<Rightarrow> kernel \<Rightarrow> sys_outcome result option" where
  "breakpoint etp utp f k = trap etp utp 0 (enter (f\<lparr>tf_trapno := 3\<rparr>) k)"

text \<open>A store of the running process to its memory, byte by byte.\<close>

definition user_store :: "u32 \<Rightarrow> u32 \<Rightarrow> u32 \<Rightarrow> u8 \<Rightarrow> kernel \<Rightarrow> kernel result" where
  "user_store etp utp va b k =
     (case user_access etp utp (mem k) (cr3 k) va of
        None \<Rightarrow> Inl (Panic ''Page fault'')
      | Some pa \<Rightarrow> Inr (k\<lparr>mem := (mem k)\<lparr>pmem := (pmem (mem k))(pa := b)\<rparr>\<rparr>))"

fun user_stores :: "u32 \<Rightarrow> u32 \<Rightarrow> u32 \<Rightarrow> u8 list \<Rightarrow> kernel \<Rightarrow> kernel result" where
  "user_stores etp utp va [] k = Inr k"
| "user_stores etp utp va (b # bs) k = andThen (user_store etp utp va b k) (user_stores etp utp (va + 1) bs)"

text \<open>
  The loop of the forks, seen by the process that makes them; the result is the last value of \<^verbatim>\<open>pid\<close>.
  \<open>f n\<close> are the registers at the n-th system call of \<^verbatim>\<open>main\<close>.
\<close>

function fork_loop :: "u32 \<Rightarrow> u32 \<Rightarrow> (nat \<Rightarrow> trapframe) \<Rightarrow> nat \<Rightarrow> nat \<Rightarrow> u32 \<Rightarrow> kernel \<Rightarrow> sys_outcome result option" where
  "fork_loop etp utp f child_num i p k =
     (if i < child_num then
        and_then (user_fork etp utp (f (4 + i)) k) (\<lambda>p k1.
          if p = 0 then Some (Inr (Returns p k1)) else fork_loop etp utp f child_num (i + 1) p k1)
      else Some (Inr (Returns p k)))"
  by pat_completeness auto
termination
  by (relation "measure (\<lambda>(etp, utp, f, child_num, i, p, k). child_num - i)") auto

declare fork_loop.simps [simp del]

text \<open>\<open>start\<close> is the value \<^verbatim>\<open>pid\<close> is declared with, none.\<close>

definition main_parent ::
  "u32 \<Rightarrow> u32 \<Rightarrow> (nat \<Rightarrow> trapframe) \<Rightarrow> u32 \<Rightarrow> u32 \<Rightarrow> u32 \<Rightarrow> u32 \<Rightarrow> u32 \<Rightarrow> u32 \<Rightarrow> kernel \<Rightarrow> sys_outcome result option" where
  "main_parent etp utp f msg arg on_timer on_key shared_mem start k =
     and_then (user_printk etp utp (f 0) msg arg k) (\<lambda>_ k.
     and_then (user_timer etp utp (f 1) on_timer k) (\<lambda>_ k.
     and_then (user_keyboard etp utp (f 2) on_key k) (\<lambda>_ k.
     and_then (user_sem_open etp utp (f 3) 0 2 k) (\<lambda>_ k.
       case user_stores etp utp shared_mem (replicate 4 0) k of
         Inl e \<Rightarrow> Some (Inl e)
       | Inr k \<Rightarrow> fork_loop etp utp f 6 0 start k))))"

text \<open>The children: \<open>f n\<close> are the registers at their n-th call, \<open>shared_mem\<close> is the page they share with the father.\<close>

fun user_loads :: "u32 \<Rightarrow> u32 \<Rightarrow> nat \<Rightarrow> u32 \<Rightarrow> nat \<Rightarrow> kernel \<Rightarrow> u8 list result" where
  "user_loads etp utp p va 0 k = Inr []"
| "user_loads etp utp p va (Suc n) k =
     (case user_access etp utp (mem k) p va of
        None \<Rightarrow> Inl (Panic ''Page fault'')
      | Some pa \<Rightarrow> andThen (user_loads etp utp p (va + 1) n k) (\<lambda>bs. Inr (pmem (mem k) pa # bs)))"

definition child_share :: "u32 \<Rightarrow> u32 \<Rightarrow> (nat \<Rightarrow> trapframe) \<Rightarrow> u32 \<Rightarrow> kernel \<Rightarrow> sys_outcome result option" where
  "child_share etp utp f shared_mem k =
     and_then (user_getpid etp utp (f 0) k) (\<lambda>me k1.
     and_then (user_mem_share etp utp (f 1) me 0 shared_mem k1) (\<lambda>_ k2. Some (Inr (Returns me k2))))"

text \<open>Into the critical section, up to the sleep, which switches to another process.\<close>

definition child_enter ::
  "u32 \<Rightarrow> u32 \<Rightarrow> (nat \<Rightarrow> trapframe) \<Rightarrow> u32 \<Rightarrow> u32 \<Rightarrow> u32 \<Rightarrow> u32 \<Rightarrow> kernel \<Rightarrow> sys_outcome result option" where
  "child_enter etp utp f shared_mem sem_id msg arg k =
     and_then (child_share etp utp f shared_mem k) (\<lambda>me k1.
     and_then (user_sem_wait etp utp (f 2) sem_id k1) (\<lambda>_ k2.
     and_then (user_printk etp utp (f 3) msg arg k2) (\<lambda>_ k3.
       user_sleep etp utp (f 4) 1 k3)))"

text \<open>\<^verbatim>\<open>*shared_p += me % 3\<close>, and out of the critical section.\<close>

definition child_add :: "u32 \<Rightarrow> u32 \<Rightarrow> u32 \<Rightarrow> u32 \<Rightarrow> kernel \<Rightarrow> kernel result" where
  "child_add etp utp shared_p me k =
     andThen (user_loads etp utp (cr3 k) shared_p 4 k) (\<lambda>bs.
       user_stores etp utp shared_p (bytes_of_u32 (u32_of_bytes bs + me mod 3)) k)"

definition child_leave ::
  "u32 \<Rightarrow> u32 \<Rightarrow> (nat \<Rightarrow> trapframe) \<Rightarrow> u32 \<Rightarrow> u32 \<Rightarrow> u32 \<Rightarrow> u32 \<Rightarrow> u32 \<Rightarrow> kernel \<Rightarrow> sys_outcome result option" where
  "child_leave etp utp f shared_p sem_id me msg arg k =
     (case child_add etp utp shared_p me k of
        Inl e \<Rightarrow> Some (Inl e)
      | Inr k1 \<Rightarrow>
          and_then (user_printk etp utp (f 5) msg arg k1) (\<lambda>_ k2. user_sem_post etp utp (f 6) sem_id k2))"

text \<open>
  All of a child, if nothing switches, and all of \<^verbatim>\<open>main\<close>: \<open>play\<close> is what stands behind the two endless loops, the
  announcement of the game and \<^verbatim>\<open>main_loop\<close>.
\<close>

definition child_main ::
  "u32 \<Rightarrow> u32 \<Rightarrow> (nat \<Rightarrow> trapframe) \<Rightarrow> u32 \<Rightarrow> u32 \<Rightarrow> u32 \<Rightarrow> u32 \<Rightarrow> u32 \<Rightarrow> u32 \<Rightarrow> kernel \<Rightarrow> sys_outcome result option" where
  "child_main etp utp f shared_mem sem_id msg arg msg2 arg2 k =
     and_then (child_share etp utp f shared_mem k) (\<lambda>me k1.
     and_then (user_sem_wait etp utp (f 2) sem_id k1) (\<lambda>_ k2.
     and_then (user_printk etp utp (f 3) msg arg k2) (\<lambda>_ k3.
     and_then (user_sleep etp utp (f 4) 1 k3) (\<lambda>_ k4.
       child_leave etp utp f shared_mem sem_id me msg2 arg2 k4))))"

definition main_rest ::
  "(kernel \<Rightarrow> sys_outcome result option) \<Rightarrow> (kernel \<Rightarrow> sys_outcome result option) \<Rightarrow> u32 \<Rightarrow> kernel \<Rightarrow> sys_outcome result option" where
  "main_rest child play p k =
     and_then (if p \<noteq> 0 then spin k else child k) (\<lambda>_ k1.
     and_then (spin k1) (\<lambda>_ k2. play k2))"

text \<open>\<open>f n\<close> are the registers at the n-th call of the father, \<open>g n\<close> those of the child.\<close>

definition main ::
  "u32 \<Rightarrow> u32 \<Rightarrow> (nat \<Rightarrow> trapframe) \<Rightarrow> (nat \<Rightarrow> trapframe) \<Rightarrow> u32 \<Rightarrow> u32 \<Rightarrow> u32 \<Rightarrow> u32 \<Rightarrow> u32 \<Rightarrow> u32 \<Rightarrow> u32 \<Rightarrow> u32 \<Rightarrow> u32 \<Rightarrow> u32
     \<Rightarrow> (kernel \<Rightarrow> sys_outcome result option) \<Rightarrow> kernel \<Rightarrow> sys_outcome result option" where
  "main etp utp f g msg arg msg1 arg1 msg2 arg2 on_timer on_key shared_mem start play k =
     and_then (main_parent etp utp f msg arg on_timer on_key shared_mem start k)
       (main_rest (child_main etp utp g shared_mem 0 msg1 arg1 msg2 arg2) play)"

section \<open>What a call does\<close>

text \<open>The frame a call enters with, and the state after it has returned \<open>v\<close> in state \<open>k1\<close> of the kernel.\<close>

definition at_call :: "trapframe \<Rightarrow> (pushregs \<Rightarrow> pushregs) \<Rightarrow> trapframe" where
  "at_call f load = f\<lparr>tf_trapno := T_SYSCALL, tf_regs := load (tf_regs f)\<rparr>"

definition with_result :: "nat \<Rightarrow> u32 \<Rightarrow> kernel \<Rightarrow> kernel" where
  "with_result p v k = upd_pcb p (\<lambda>b. b\<lparr>tf := (tf b)\<lparr>tf_regs := (tf_regs (tf b))\<lparr>reg_eax := v\<rparr>\<rparr>\<rparr>) k"

definition returns_to :: "nat \<Rightarrow> sys_outcome result option \<Rightarrow> sys_outcome result option" where
  "returns_to p m = map_option (\<lambda>r. andThen r (\<lambda>x. case x of
       Returns v k \<Rightarrow> Inr (Returns v (with_result p v k)) | Switched k \<Rightarrow> Inr (Switched k) | Halted k \<Rightarrow> Inr (Halted k))) m"

lemma returns_to_simps [simp]:
  "returns_to p None = None" "returns_to p (Some (Inl e)) = Some (Inl e)"
  "returns_to p (Some (Inr (Returns v k))) = Some (Inr (Returns v (with_result p v k)))"
  "returns_to p (Some (Inr (Switched k))) = Some (Inr (Switched k))"
  "returns_to p (Some (Inr (Halted k))) = Some (Inr (Halted k))"
  by (simp_all add: returns_to_def)

lemma is_zero_simps [simp]:
  "is_zero None = None" "is_zero (Some (Inl e)) = Some (Inl e)" "is_zero (Some (Inr (Returns 0 k))) = Some (Inr (Returns 0 k))"
  by (simp_all add: is_zero_def)

lemma and_then_simps [simp]:
  "and_then None g = None" "and_then (Some (Inl e)) g = Some (Inl e)" "and_then (Some (Inr (Returns v k))) g = g v k"
  "and_then (Some (Inr (Switched k))) g = Some (Inr (Switched k))" "and_then (Some (Inr (Halted k))) g = Some (Inr (Halted k))"
  by (simp_all add: and_then_def)

lemma main_rest_father: "p \<noteq> 0 \<Longrightarrow> main_rest child play p k = None"
  by (simp add: main_rest_def and_then_def)

text \<open>Whoever gets there, father or child, never comes to the game.\<close>

lemma game_not_reached: "main_rest child play p k = main_rest child play' p k"
  by (simp add: main_rest_def and_then_def)

lemma enter_at_call:
  assumes "kernel_ok utp k"
  shows "tf (user_pcbs (enter f k) (get_pid k)) = f" "ts_top (enter f k) = Pcb_end (get_pid k)"
    "\<not> interrupts (enter f k)" "(enter f k)\<lparr>interrupts := False\<rparr> = enter f k" "get_pid (enter f k) = get_pid k"
  using assms by (simp_all add: enter_def kernel_ok_def table_ok_def)

lemma int_syscall_eq:
  assumes "kernel_ok utp k"
  shows "int_syscall etp utp f load k
    = returns_to (get_pid k) (syscall_handler etp utp (at_call f load) (enter (at_call f load) k))"
proof -
  have t: "tf_trapno (at_call f load) = 0x80" by (simp add: at_call_def)
  note e = enter_at_call [OF assms, of "at_call f load"]
  show ?thesis
    unfolding int_syscall_def at_call_def [symmetric] trap_def Let_def e(2) returns_to_def with_result_def
    by (simp add: e(1,3) t)
qed

lemma returning_zero: "is_zero (returns_to p (returning (andThen m (\<lambda>k1. Inr (0, k1)))))
    = returns_to p (returning (andThen m (\<lambda>k1. Inr (0, k1))))"
  by (cases m) (simp_all add: returning_def)

lemmas user_defs = user_vprintk_def user_timer_def user_getpid_def user_keyboard_def user_display_def user_wait_intr_def
  user_fork_def user_sleep_def user_sem_open_def user_sem_post_def user_sem_wait_def user_sem_destroy_def user_mem_share_def
  do_syscall0_def do_syscall1_def do_syscall2_def do_syscall3_def

lemma user_exit_eq:
  assumes "kernel_ok utp k"
  shows "user_exit etp utp f k = returns_to (get_pid k) (switch (sys_exit (enter (at_call f (\<lambda>r. r\<lparr>reg_eax := SYS_exit\<rparr>)) k)))"
    (is "_ = returns_to _ (switch ?m)")
proof -
  have call: "do_syscall0 etp utp f SYS_exit k = returns_to (get_pid k) (switch ?m)"
    by (simp add: do_syscall0_def int_syscall_eq [OF assms] syscall_handler_def Let_def enter_at_call(4) [OF assms] at_call_def)
  consider "switch ?m = None" | e where "switch ?m = Some (Inl e)" | k' where "switch ?m = Some (Inr (Switched k'))"
  proof (cases "switch ?m")
    case (Some r)
    then show thesis using that by (cases r) (auto simp: switch_def andThen_eq_Inr)
  qed
  then show ?thesis by cases (use call in \<open>simp_all add: user_exit.simps [of etp utp f k]\<close>)
qed

text \<open>The values \<^verbatim>\<open>syscall_handler\<close> finds in the registers.\<close>

lemma at_call_regs [simp]: "tf_regs (at_call f load) = load (tf_regs f)"
  by (simp add: at_call_def)

section \<open>The family of main\<close>

text \<open>
  Process 0 has made \<open>n\<close> children from frames \<open>F\<close>: they are ready with 0 in \<^verbatim>\<open>eax\<close>, each in an address
  space of its own with the bytes of process 0, and nobody else is there.
\<close>

definition family :: "u32 \<Rightarrow> (nat \<Rightarrow> trapframe) \<Rightarrow> nat \<Rightarrow> kernel \<Rightarrow> bool" where
  "family utp F n k \<longleftrightarrow> kernel_ok utp k \<and> get_pid k = 0 \<and> (\<forall>q \<le> n. own_space utp q (mem k))
     \<and> (\<forall>i < NPROC. status (user_pcbs k i) = (if i = 0 then PCB_RUNNING else if i \<le> n then PCB_RUNNABLE else PCB_FREE))
     \<and> (\<forall>i. 0 < i \<and> i \<le> n \<longrightarrow> tf (user_pcbs k i) = (F i)\<lparr>tf_regs := (tf_regs (F i))\<lparr>reg_eax := 0\<rparr>\<rparr>)
     \<and> (\<forall>i j. 0 < i \<and> i \<le> n \<and> j < 4194304 \<longrightarrow>
          pmem (mem k) (of_nat ((4 + i) * 4194304) + of_nat j) = pmem (mem k) (of_nat (4 * 4194304) + of_nat j))"

lemma find_first: "n < m \<Longrightarrow> P n \<Longrightarrow> \<forall>i < n. \<not> P i \<Longrightarrow> find P [0..<m] = Some n"
  by (auto simp: find_Some_iff intro!: exI [of _ n])

lemma frame_address: "q < 28 \<Longrightarrow> j < 4194304 \<Longrightarrow> of_nat ((4 + q) * 4194304) + of_nat j \<in> frames q"
  using unat_add_of_nat [of "of_nat ((4 + q) * 4194304)" j] unat_frame_base [of q] by (simp add: frames_def algebra_simps)

lemma enter_family:
  assumes "kernel_ok utp k" "get_pid k = 0"
  shows "user_pcbs (enter F k) = (user_pcbs k)(0 := (user_pcbs k 0)\<lparr>tf := F\<rparr>)" "mem (enter F k) = mem k" "get_pid (enter F k) = 0"
    "sem_pool (enter F k) = sem_pool k" "do_timer (enter F k) = do_timer k" "do_keyboard (enter F k) = do_keyboard k"
    "cr3 (enter F k) = 0"
  using assms by (simp_all add: enter_def kernel_ok_def)

lemma with_result_fields [simp]:
  "kernel_ok utp k \<Longrightarrow> kernel_ok utp (with_result p v k)" "get_pid (with_result p v k) = get_pid k" "mem (with_result p v k) = mem k"
  "sem_pool (with_result p v k) = sem_pool k" "do_timer (with_result p v k) = do_timer k"
  "do_keyboard (with_result p v k) = do_keyboard k" "cr3 (with_result p v k) = cr3 k"
  "status (user_pcbs (with_result p v k) i) = status (user_pcbs k i)"
  "i \<noteq> p \<Longrightarrow> user_pcbs (with_result p v k) i = user_pcbs k i"
  by (simp_all add: with_result_def)

text \<open>One more child.\<close>

lemma next_child:
  assumes lay: "layout_ok etp utp" and fam: "family utp F n k" and n: "n < 27"
    and F: "F (n + 1) = at_call f (\<lambda>r. r\<lparr>reg_eax := SYS_fork\<rparr>)"
  shows "\<exists>k'. user_fork etp utp f k = Some (Inr (Returns (of_nat (n + 1)) k')) \<and> family utp F (n + 1) k'
    \<and> sem_pool k' = sem_pool k \<and> do_timer k' = do_timer k \<and> do_keyboard k' = do_keyboard k"
proof -
  let ?F = "at_call f (\<lambda>r. r\<lparr>reg_eax := SYS_fork\<rparr>)" and ?p = "n + 1"
  let ?e = "enter ?F k"
  have k: "kernel_ok utp k" "get_pid k = 0" and own: "\<forall>q \<le> n. own_space utp q (mem k)"
    and st: "i < 64 \<Longrightarrow> status (user_pcbs k i) = (if i = 0 then PCB_RUNNING else if i \<le> n then PCB_RUNNABLE else PCB_FREE)"
    for i using fam by (simp_all add: family_def)
  note e = enter_family [OF k]
  have free: "free_pcb ?e = Some ?p"
    unfolding free_pcb_def e NPROC_def by (rule find_first) (use n st in auto)
  obtain m where m: "pmap_init_and_copy etp utp 0 ?p 0 (mem k) = Inr m" "own_space utp ?p m"
    "\<forall>j < 4194304. pmem m (of_nat ((4 + ?p) * 4194304) + of_nat j) = pmem (mem k) (of_nat ((4 + 0) * 4194304) + of_nat j)"
    "\<forall>a. a \<notin> frames ?p \<longrightarrow> pmem m a = pmem (mem k) a"
    using fork_copy_ok [OF lay, of 0 "mem k" ?p] own n by auto
  have kept: "\<forall>q. q \<noteq> ?p \<longrightarrow> own_space utp q (mem k) \<longrightarrow> own_space utp q m"
    using fork_memory [OF lay, of 0 "mem k" ?p] own n m(1) by auto
  have run: "sys_fork etp utp ?e = Inr (of_nat ?p, forked ?p m ?e)" using m(1) free by (simp add: sys_fork_eq e)
  let ?k = "with_result 0 (of_nat ?p) (forked ?p m ?e)"
  have call: "user_fork etp utp f k = Some (Inr (Returns (of_nat ?p) ?k))"
    using run by (simp add: user_fork_def do_syscall0_def int_syscall_eq [OF k(1)] k(2) syscall_handler_def Let_def
        enter_at_call(4) [OF k(1)] returning_def)
  have same: "pmem m (of_nat ((4 + q) * 4194304) + of_nat j) = pmem (mem k) (of_nat ((4 + q) * 4194304) + of_nat j)"
    if "q \<noteq> ?p" "q < 28" "j < 4194304" for q j
    using m(4) frame_address [OF that(2,3)] frames_disjoint [OF that(1)] by blast
  have "pmem m (of_nat ((4 + i) * 4194304) + of_nat j) = pmem m (of_nat (4 * 4194304) + of_nat j)"
    if "0 < i" "i \<le> ?p" "j < 4194304" for i j
    using that fam n m(3) same [of i j] same [of 0 j] by (cases "i = ?p") (auto simp: family_def)
  moreover have "kernel_ok utp ?k" using sys_fork_ok [OF enter_ok [OF k(1)] run] by simp
  moreover have "\<forall>q \<le> ?p. own_space utp q m" using own kept m(2) by (auto simp: le_Suc_eq)
  moreover have "\<forall>i < 64. status (user_pcbs ?k i) = (if i = 0 then PCB_RUNNING else if i \<le> ?p then PCB_RUNNABLE else PCB_FREE)"
    using st n by (auto simp: forked_def e)
  moreover have "\<forall>i. 0 < i \<and> i \<le> ?p \<longrightarrow> tf (user_pcbs ?k i) = (F i)\<lparr>tf_regs := (tf_regs (F i))\<lparr>reg_eax := 0\<rparr>\<rparr>"
    using fam F n by (auto simp: forked_def e family_def le_Suc_eq)
  ultimately have "family utp F ?p ?k" by (simp add: family_def e)
  with call show ?thesis by (auto simp: forked_def e)
qed

lemma fork_loop_ok:
  assumes "layout_ok etp utp" "family utp F n k" "n \<le> 6" "\<forall>i < 6. F (i + 1) = at_call (f (4 + i)) (\<lambda>r. r\<lparr>reg_eax := SYS_fork\<rparr>)"
  shows "\<exists>k'. fork_loop etp utp f 6 n p k = Some (Inr (Returns (if n < 6 then 6 else p) k')) \<and> family utp F 6 k'
    \<and> sem_pool k' = sem_pool k \<and> do_timer k' = do_timer k \<and> do_keyboard k' = do_keyboard k"
  using assms(2,3)
proof (induction "6 - n" arbitrary: n p k)
  case 0
  then show ?case by (simp add: fork_loop.simps [of etp utp f 6 6 p k])
next
  case (Suc d)
  then have n: "n < 6" "d = 6 - (n + 1)" "n + 1 \<le> 6" by simp_all
  obtain k1 where k1: "user_fork etp utp (f (4 + n)) k = Some (Inr (Returns (of_nat (n + 1)) k1))" "family utp F (n + 1) k1"
    "sem_pool k1 = sem_pool k" "do_timer k1 = do_timer k" "do_keyboard k1 = do_keyboard k"
    using next_child [OF assms(1) Suc.prems(1), of "f (4 + n)"] n(1) assms(4) by auto
  have "unat (of_nat (n + 1) :: u32) = n + 1" using n(1) by (intro unat_of_nat_u32) simp
  then have nz: "(of_nat (n + 1) :: u32) \<noteq> 0" by (metis add_is_0 one_neq_zero unsigned_0)
  have six: "n = 5 \<Longrightarrow> (of_nat (n + 1) :: u32) = 6" by simp
  have "fork_loop etp utp f 6 n p k = fork_loop etp utp f 6 (n + 1) (of_nat (n + 1)) k1"
    using n(1) nz by (subst fork_loop.simps) (simp add: k1(1) del: of_nat_Suc of_nat_add)
  then show ?case using Suc.hyps(1) [OF n(2) k1(2) n(3), of "of_nat (n + 1)"] k1(3-5) n(1) six by (cases "n = 5") auto
qed

lemma user_stores_ok:
  assumes "layout_ok etp utp" "own_space utp (cr3 k) (mem k)" "\<forall>i < length bs. unat (PDX (va + of_nat i)) = 32"
  shows "\<exists>m. user_stores etp utp va bs k = Inr (k\<lparr>mem := (mem k)\<lparr>pmem := m\<rparr>\<rparr>)"
  using assms(2,3)
proof (induction bs arbitrary: va k)
  case Nil
  have "k = k\<lparr>mem := (mem k)\<lparr>pmem := pmem (mem k)\<rparr>\<rparr>" by simp
  then show ?case by (metis user_stores.simps(1))
next
  case (Cons b bs)
  have "unat (PDX va) = 32" using Cons.prems(2) by force
  then obtain pa where pa: "user_access etp utp (mem k) (cr3 k) va = Some pa"
    using own_space_user_access(1) [OF assms(1) Cons.prems(1)] by blast
  let ?k = "k\<lparr>mem := (mem k)\<lparr>pmem := (pmem (mem k))(pa := b)\<rparr>\<rparr>"
  have "own_space utp (cr3 ?k) (mem ?k)" using Cons.prems(1) by (simp add: own_space_def own_table_def)
  moreover have "\<forall>i < length bs. unat (PDX (va + 1 + of_nat i)) = 32"
    using Cons.prems(2) by (metis (no_types, lifting) Suc_less_eq add.assoc add.commute length_Cons of_nat_Suc)
  ultimately obtain m where "user_stores etp utp (va + 1) bs ?k = Inr (?k\<lparr>mem := (mem ?k)\<lparr>pmem := m\<rparr>\<rparr>)"
    using Cons.IH [of ?k "va + 1"] by blast
  then show ?case by (intro exI [of _ m]) (simp add: user_store_def pa)
qed

lemma family_memory:
  assumes "layout_ok etp utp" "family utp F n k" "0 < i" "i \<le> n" "unat (PDX va) = 32"
  shows "\<exists>pd ps. user_access etp utp (mem k) i va = Some pd \<and> user_access etp utp (mem k) 0 va = Some ps
      \<and> pd \<in> frames i \<and> ps \<in> frames 0 \<and> pmem (mem k) pd = pmem (mem k) ps"
proof -
  have own: "own_space utp i (mem k)" "own_space utp 0 (mem k)" using assms(2-4) by (simp_all add: family_def)
  then have q: "i < 28" by (simp add: own_space_def)
  obtain j where j: "va = 0x8000000 + of_nat j" "j < 4194304" using in_region [OF assms(5)] by blast
  have b: "unat (0x8000000 :: u32) = 32 * 4194304" "(32 :: nat) < 1024" by simp_all
  note r = region_translation(2) [OF b j(2)]
  have same: "pmem (mem k) (of_nat ((4 + i) * 4194304) + of_nat j) = pmem (mem k) (of_nat (4 * 4194304) + of_nat j)"
    using assms(2-4) j(2) unfolding family_def by blast
  show ?thesis
    using own_space_user_access [OF assms(1) own(1) assms(5)] own_space_user_access [OF assms(1) own(2) assms(5)] same
      r [OF q] r [of 0] unfolding j(1) by (simp del: of_nat_add of_nat_mult)
qed

text \<open>The calls that change neither the memory nor who is ready.\<close>

definition same_table :: "kernel \<Rightarrow> kernel \<Rightarrow> bool" where
  "same_table k k' \<longleftrightarrow> get_pid k' = get_pid k \<and> mem k' = mem k \<and> (\<forall>i. status (user_pcbs k' i) = status (user_pcbs k i))"

lemma quiet_calls:
  assumes "kernel_ok utp k" "get_pid k = 0"
  shows "\<exists>k'. user_printk etp utp f c a k = Some (Inr (Returns 0 k')) \<and> kernel_ok utp k' \<and> same_table k k'
      \<and> sem_pool k' = sem_pool k \<and> do_timer k' = do_timer k \<and> do_keyboard k' = do_keyboard k"
    "\<exists>k'. user_timer etp utp f h k = Some (Inr (Returns 0 k')) \<and> kernel_ok utp k' \<and> same_table k k'
      \<and> sem_pool k' = sem_pool k \<and> do_timer k' = h \<and> do_keyboard k' = do_keyboard k"
    "\<exists>k'. user_keyboard etp utp f h k = Some (Inr (Returns 0 k')) \<and> kernel_ok utp k' \<and> same_table k k'
      \<and> sem_pool k' = sem_pool k \<and> do_timer k' = do_timer k \<and> do_keyboard k' = h"
    "\<exists>k'. user_sem_open etp utp f 0 2 k = Some (Inr (Returns 0 k')) \<and> kernel_ok utp k' \<and> same_table k k'
      \<and> sem_pool k' = (sem_pool k)[0 := 2] \<and> do_timer k' = do_timer k \<and> do_keyboard k' = do_keyboard k"
proof -
  note call = int_syscall_eq [OF assms(1)] user_defs syscall_handler_def Let_def enter_at_call(4) [OF assms(1)] assms(2)
    user_printk_def same_table_def enter_family [OF assms] sys_timer_def sys_keyboard_def
  have ok: "kernel_ok utp (enter F k)" for F by (rule enter_ok [OF assms(1)])
  have get: "get_pid (k1\<lparr>do_timer := h\<rparr>) = get_pid k1" "get_pid (k1\<lparr>do_keyboard := h\<rparr>) = get_pid k1" for k1 h
    by (simp_all add: get_pid_def)
  show "\<exists>k'. user_printk etp utp f c a k = Some (Inr (Returns 0 k')) \<and> kernel_ok utp k' \<and> same_table k k'
      \<and> sem_pool k' = sem_pool k \<and> do_timer k' = do_timer k \<and> do_keyboard k' = do_keyboard k"
    using ok by (simp add: call)
  show "\<exists>k'. user_timer etp utp f h k = Some (Inr (Returns 0 k')) \<and> kernel_ok utp k' \<and> same_table k k'
      \<and> sem_pool k' = sem_pool k \<and> do_timer k' = h \<and> do_keyboard k' = do_keyboard k"
    using ok by (simp add: call get)
  show "\<exists>k'. user_keyboard etp utp f h k = Some (Inr (Returns 0 k')) \<and> kernel_ok utp k' \<and> same_table k k'
      \<and> sem_pool k' = sem_pool k \<and> do_timer k' = do_timer k \<and> do_keyboard k' = h"
    using ok by (simp add: call get)
  have i: "sem_index 0 (enter F k)" for F using ok [of F] by (simp add: sem_index_def kernel_ok_def table_ok_def)
  have o: "sys_sem_open 0 2 (enter F k) = Inr (0, with_count 0 2 (enter F k))" for F
    by (simp add: sys_sem_open_def sem_ops(2) [OF i] my_assert_def)
  have w: "kernel_ok utp (with_count 0 2 (enter F k))" for F using sem_set_ok [OF ok sem_ops(2) [OF i]] .
  show "\<exists>k'. user_sem_open etp utp f 0 2 k = Some (Inr (Returns 0 k')) \<and> kernel_ok utp k' \<and> same_table k k'
      \<and> sem_pool k' = (sem_pool k)[0 := 2] \<and> do_timer k' = do_timer k \<and> do_keyboard k' = do_keyboard k"
    using w by (simp add: call o returning_def) (simp add: with_count_def enter_family [OF assms])
qed

text \<open>A process stops the whole kernel with \<^verbatim>\<open>int3\<close>: its gate is open to user mode, but \<^verbatim>\<open>trap\<close> does not know the vector.\<close>

lemma breakpoint_panics:
  assumes "kernel_ok utp k"
  shows "breakpoint etp utp f k = Some (Inl (Panic ''Unknown interrupt''))"
  unfolding breakpoint_def trap_def Let_def enter_at_call(2) [OF assms]
  by (simp add: enter_at_call(1,3) [OF assms])

section \<open>The shared page\<close>

lemma user_access_pmem [simp]: "user_access etp utp (st\<lparr>pmem := m\<rparr>) = user_access etp utp st"
  by (intro ext) (simp add: user_access_def translate_def table_at_def Let_def cong: option.case_cong)

lemma loads_linear:
  assumes "\<And>i. i < n \<Longrightarrow> user_access etp utp (mem k) p (va + of_nat i) = Some (P + of_nat i)"
  shows "user_loads etp utp p va n k = Inr (load_at P n (pmem (mem k)))"
  using assms
proof (induction n arbitrary: va P)
  case (Suc n)
  have "user_loads etp utp p (va + 1) n k = Inr (load_at (P + 1) n (pmem (mem k)))"
    by (rule Suc.IH) (use Suc.prems [of "Suc _"] in \<open>simp add: add.assoc\<close>)
  then show ?case using Suc.prems [of 0] by simp
qed simp

lemma stores_linear:
  assumes "\<And>i. i < length bs \<Longrightarrow> user_access etp utp (mem k) (cr3 k) (va + of_nat i) = Some (P + of_nat i)"
  shows "user_stores etp utp va bs k = Inr (k\<lparr>mem := (mem k)\<lparr>pmem := store_at P bs (pmem (mem k))\<rparr>\<rparr>)"
  using assms
proof (induction bs arbitrary: va P k)
  case (Cons b bs)
  let ?k = "k\<lparr>mem := (mem k)\<lparr>pmem := (pmem (mem k))(P := b)\<rparr>\<rparr>"
  have "user_stores etp utp (va + 1) bs ?k = Inr (?k\<lparr>mem := (mem ?k)\<lparr>pmem := store_at (P + 1) bs (pmem (mem ?k))\<rparr>\<rparr>)"
    by (rule Cons.IH) (use Cons.prems [of "Suc _"] in \<open>simp add: add.assoc\<close>)
  then show ?case using Cons.prems [of 0] by (simp add: user_store_def)
qed simp

lemma child_adds:
  assumes "\<And>i. i < 4 \<Longrightarrow> user_access etp utp (mem k) (cr3 k) (va + of_nat i) = Some (P + of_nat i)"
  shows "child_add etp utp va c k = Inr (k\<lparr>mem := (mem k)\<lparr>pmem :=
    store_at P (bytes_of_u32 (u32_of_bytes (load_at P 4 (pmem (mem k))) + c mod 3)) (pmem (mem k))\<rparr>\<rparr>)"
  using loads_linear [of 4, OF assms] stores_linear [of "bytes_of_u32 v" for v, OF assms]
  by (simp add: child_add_def length_bytes_of_u32)

lemma page_offset:
  assumes "PGOFF va = 0" "i < 4096"
  shows "unat va mod 4096 = 0" "unat (va + of_nat i) = unat va + i" "PGNUM (va + of_nat i) = PGNUM va"
proof -
  show z: "unat va mod 4096 = 0" using assms(1) unat_fields(3) [of va] by simp
  obtain q where q: "unat va = 4096 * q" using z by (metis mod_0_imp_dvd dvdE)
  have "unat va < 4294967296" using unsigned_less [of va] by simp
  then show u: "unat (va + of_nat i) = unat va + i" using q assms(2) by (intro unat_add_of_nat) simp
  have "(unat va + i) div 4096 = unat va div 4096" using q assms(2) by simp
  then have "unat (PGNUM (va + of_nat i)) = unat (PGNUM va)" by (simp add: unat_fields u)
  then show "PGNUM (va + of_nat i) = PGNUM va" by (rule unsigned_word_eqI)
qed

lemma page_walk:
  assumes "PGOFF va = 0" "i < 4096" "unat d < 1024"
  shows "PGADDR d (PTX (va + of_nat i)) (PGOFF (va + of_nat i)) = PGADDR d (PTX va) 0 + of_nat i"
proof -
  note o = page_offset [OF assms(1,2)]
  have "(unat va + i) mod 4096 = i" using o(1) assms(2) by (simp add: mod_add_left_eq [of "unat va", symmetric])
  then have off: "unat (PGOFF (va + of_nat i)) = i" by (simp add: unat_fields o(2))
  have t: "PTX (va + of_nat i) = PTX va" by (rule same_page(2) [OF o(3)])
  have base: "unat (PGADDR d (PTX va) 0) = unat d * 4194304 + unat (PTX va) * 4096"
    using unat_PGADDR [OF assms(3) PGOFF_small(2)] by simp
  have "unat (PGADDR d (PTX va) 0 + of_nat i) = unat d * 4194304 + unat (PTX va) * 4096 + i"
    using base assms(2,3) PGOFF_small(2) [of va] by (subst unat_add_of_nat) simp_all
  then have "unat (PGADDR d (PTX (va + of_nat i)) (PGOFF (va + of_nat i))) = unat (PGADDR d (PTX va) 0 + of_nat i)"
    by (simp add: t off unat_PGADDR [OF assms(3) PGOFF_small(2,1)])
  then show ?thesis by (rule unsigned_word_eqI)
qed

lemma user_mem_share_eq:
  assumes "kernel_ok utp k"
  shows "user_mem_share etp utp f q src va k = returns_to (get_pid k) (returning (sys_mem_share q src va
    (enter (at_call f (\<lambda>r. r\<lparr>reg_eax := SYS_mem_share, reg_edx := q, reg_ecx := src, reg_ebx := va\<rparr>)) k)))"
  by (simp add: int_syscall_eq [OF assms] user_defs syscall_handler_def Let_def enter_at_call(4) [OF assms])

lemma user_sem_post_eq:
  assumes "kernel_ok utp k"
  shows "user_sem_post etp utp f s k = returns_to (get_pid k) (returning (sys_sem_post s
    (enter (at_call f (\<lambda>r. r\<lparr>reg_eax := SYS_sem_post, reg_edx := s\<rparr>)) k)))"
  by (simp add: int_syscall_eq [OF assms] user_defs syscall_handler_def Let_def enter_at_call(4) [OF assms])

lemma sem_post_assert: "my_assert ''sem_post'' (sem_assert s) = Inr ()"
  by (simp add: my_assert_def)

lemma get_pid_fields [simp]: "get_pid (k\<lparr>calls := c\<rparr>) = get_pid k" "get_pid (k\<lparr>mem := m\<rparr>) = get_pid k"
  by (simp_all add: get_pid_def)

lemma user_printk_returns:
  assumes "kernel_ok utp k"
  obtains k' where "user_printk etp utp f c a k = Some (Inr (Returns 0 k'))" "kernel_ok utp k'" "get_pid k' = get_pid k"
    "mem k' = mem k" "sem_pool k' = sem_pool k"
proof -
  let ?e = "enter (at_call f (\<lambda>r. r\<lparr>reg_eax := SYS_vprintk, reg_edx := c, reg_ecx := a\<rparr>)) k"
  let ?k = "with_result (get_pid k) 0 (?e\<lparr>calls := calls ?e @ [(SYS_vprintk, [c, a])]\<rparr>)"
  have "user_printk etp utp f c a k = Some (Inr (Returns 0 ?k))"
    by (simp add: int_syscall_eq [OF assms] user_defs user_printk_def syscall_handler_def Let_def enter_at_call(4) [OF assms])
  moreover have "kernel_ok utp ?k" using enter_ok [OF assms] by simp
  moreover have "get_pid ?k = get_pid k" "mem ?k = mem k" "sem_pool ?k = sem_pool k"
    by (simp_all add: enter_at_call(5) [OF assms], simp_all add: enter_def)
  ultimately show thesis by (rule that)
qed

lemma child_share_ok:
  assumes lay: "layout_ok etp utp" and k: "kernel_ok utp k" "get_pid k = p" "p \<noteq> 0"
    and own: "own_space utp p (mem k)" "own_space utp 0 (mem k)" and va: "unat (PDX va) = 32" "PGOFF va = 0"
  shows "\<exists>k1. child_share etp utp f va k = Some (Inr (Returns (of_nat p) k1)) \<and> kernel_ok utp k1 \<and> get_pid k1 = p
    \<and> (\<forall>w. PGNUM w = PGNUM va \<longrightarrow> (\<forall>q \<in> {0, p}. user_access etp utp (mem k1) q w = user_access etp utp (mem k) 0 w))"
proof -
  have p28: "p < 28" using own(1) by (simp add: own_space_def)
  then have u: "unat (of_nat p :: u32) = p" by (simp add: unat_of_nat_u32)
  let ?F = "at_call (f 0) (\<lambda>r. r\<lparr>reg_eax := SYS_getpid\<rparr>)"
  let ?k = "with_result p (of_nat p) (enter ?F k)"
  have one: "user_getpid etp utp (f 0) k = Some (Inr (Returns (of_nat p) ?k))"
    by (simp add: int_syscall_eq [OF k(1)] k(2) user_defs syscall_handler_def Let_def enter_at_call(4,5) [OF k(1)])
  have ok: "kernel_ok utp ?k" "get_pid ?k = p" "mem ?k = mem k"
    using enter_ok [OF k(1), of ?F] enter_at_call(5) [OF k(1), of ?F] k(2) by (simp_all add: enter_def)
  obtain m where m: "pmap_copy_one_page p 0 va (mem k) = Inr m" "user_pgdir m = user_pgdir (mem k)"
      "\<And>w. PGNUM w = PGNUM va \<Longrightarrow> user_access etp utp m p w = user_access etp utp (mem k) 0 w"
      "\<And>w. unat (PDX w) = 32 \<Longrightarrow> user_access etp utp m 0 w = user_access etp utp (mem k) 0 w"
    using page_shared [OF lay own k(3) va] by blast
  let ?G = "at_call (f 1) (\<lambda>r. r\<lparr>reg_eax := SYS_mem_share, reg_edx := of_nat p, reg_ecx := 0, reg_ebx := va\<rparr>)"
  let ?e = "enter ?G ?k"
  have e: "kernel_ok utp ?e" "mem ?e = mem k" "get_pid ?e = p"
    using enter_ok [OF ok(1)] enter_at_call(5) [OF ok(1)] ok(2,3) by (simp_all add: enter_def)
  have run: "sys_mem_share (of_nat p) 0 va ?e = Inr (E_SUCCESS, ?e\<lparr>mem := m\<rparr>)"
    using m(1) e(2) by (simp add: sys_mem_share_def u)
  have okm: "kernel_ok utp (?e\<lparr>mem := m\<rparr>)" by (rule kernel_ok_cong [OF e(1)]) (use m(2) e(2) in simp_all)
  let ?k1 = "with_result p 0 (?e\<lparr>mem := m\<rparr>)"
  have two: "user_mem_share etp utp (f 1) (of_nat p) 0 va ?k = Some (Inr (Returns 0 ?k1))"
    unfolding user_mem_share_eq [OF ok(1)] ok(2) run by (simp add: returning_def)
  have "user_access etp utp m q w = user_access etp utp (mem k) 0 w" if "PGNUM w = PGNUM va" "q \<in> {0, p}" for w q
    using m(3) [OF that(1)] m(4) [of w] that va(1) same_page(1) [OF that(1)] by auto
  then show ?thesis
    using one two okm e(3) by (intro exI [of _ ?k1]) (simp add: child_share_def)
qed

lemma child_leave_ok:
  assumes k: "kernel_ok utp k" "get_pid k = p" "sem_index s k"
    and acc: "\<And>q i. q \<in> {0, p} \<Longrightarrow> i < 4 \<Longrightarrow> user_access etp utp (mem k) q (va + of_nat i) = Some (P + of_nat i)"
  shows "\<exists>k3 x. user_loads etp utp 0 va 4 k = Inr (bytes_of_u32 x)
    \<and> child_leave etp utp f va s c msg arg k = Some (Inr (Returns 0 k3))
    \<and> user_loads etp utp 0 va 4 k3 = Inr (bytes_of_u32 (x + c mod 3)) \<and> sem_count s k3 = sem_count s k + 1"
proof -
  define x where "x = u32_of_bytes (load_at P 4 (pmem (mem k)))"
  have zero: "user_loads etp utp 0 va 4 k = Inr (bytes_of_u32 x)"
  proof -
    have "user_loads etp utp 0 va 4 k = Inr (load_at P 4 (pmem (mem k)))"
      by (rule loads_linear) (simp add: acc)
    then show ?thesis by (simp add: x_def bytes_of_u32_of_bytes length_load_at)
  qed
  have c3: "cr3 k = p" using k(1,2) by (simp add: kernel_ok_def)
  let ?m = "store_at P (bytes_of_u32 (x + c mod 3)) (pmem (mem k))"
  let ?k1 = "k\<lparr>mem := (mem k)\<lparr>pmem := ?m\<rparr>\<rparr>"
  have add: "child_add etp utp va c k = Inr ?k1"
    using child_adds [of etp utp k va P c] acc [of p] c3 by (simp add: x_def)
  have ok1: "kernel_ok utp ?k1" using k(1) by simp
  obtain k2 where k2: "user_printk etp utp (f 5) msg arg ?k1 = Some (Inr (Returns 0 k2))" "kernel_ok utp k2"
      "get_pid k2 = p" "mem k2 = (mem k)\<lparr>pmem := ?m\<rparr>" "sem_pool k2 = sem_pool k"
    by (rule user_printk_returns [OF ok1]) (use k(2) in simp)
  let ?e = "enter (at_call (f 6) (\<lambda>r. r\<lparr>reg_eax := SYS_sem_post, reg_edx := s\<rparr>)) k2"
  have e: "sem_pool ?e = sem_pool k" "mem ?e = mem k2" using k2(5) by (simp_all add: enter_def)
  have i: "sem_index s ?e" "sem_count s ?e = sem_count s k" using e(1) k(3) by (simp_all add: sem_index_def sem_count_def)
  let ?k3 = "with_result p 0 (with_count s (sem_count s k + 1) ?e)"
  have "sys_sem_post s ?e = Inr (0, with_count s (sem_count s k + 1) ?e)"
    by (simp only: sys_sem_post_def sem_ops(1,2) [OF i(1)] i(2) andThen.simps sem_post_assert E_SUCCESS_def)
  then have post: "user_sem_post etp utp (f 6) s k2 = Some (Inr (Returns 0 ?k3))"
    unfolding user_sem_post_eq [OF k2(2)] k2(3) by (simp only: returning_def andThen.simps prod.case returns_to_simps)
  have "user_loads etp utp 0 va 4 ?k3 = Inr (load_at P 4 (pmem (mem ?k3)))"
    by (rule loads_linear) (use acc [of 0] e(2) k2(4) in \<open>simp add: with_count_def\<close>)
  then have "user_loads etp utp 0 va 4 ?k3 = Inr (bytes_of_u32 (x + c mod 3))"
    using load_stored [of "bytes_of_u32 (x + c mod 3)" P "pmem (mem k)"] e(2) k2(4)
    by (simp add: with_count_def length_bytes_of_u32)
  moreover have "sem_count s ?k3 = sem_count s k + 1"
    using i(1) by (simp add: sem_count_def with_count_def sem_index_def)
  moreover have "child_leave etp utp f va s c msg arg k = Some (Inr (Returns 0 ?k3))"
    using add k2(1) post by (simp add: child_leave_def)
  ultimately show ?thesis using zero by blast
qed

text \<open>
  C40. The shared page of the game: a child that has called \<^verbatim>\<open>sys_mem_share\<close> on the page of
  \<^verbatim>\<open>shared_mem\<close> and is running again later, the mapping of that page as it left it, adds
  \<^verbatim>\<open>pid % 3\<close> to the word the \<^emph>\<open>father\<close> reads there, and leaves the critical section
  with the semaphore one higher. No step of it fails.
\<close>

theorem child_adds_to_shared:
  assumes "layout_ok etp utp" "kernel_ok utp k" "get_pid k = p" "p \<noteq> 0" "own_space utp p (mem k)" "own_space utp 0 (mem k)"
    and "unat (PDX va) = 32" "PGOFF va = 0"
  shows "\<exists>k1. child_share etp utp f va k = Some (Inr (Returns (of_nat p) k1)) \<and> kernel_ok utp k1 \<and> get_pid k1 = p
    \<and> (\<forall>k2 s. kernel_ok utp k2 \<and> get_pid k2 = p \<and> sem_index s k2
        \<and> (\<forall>w. PGNUM w = PGNUM va \<longrightarrow> (\<forall>q \<in> {0, p}. user_access etp utp (mem k2) q w = user_access etp utp (mem k1) q w))
        \<longrightarrow> (\<exists>k3 x. user_loads etp utp 0 va 4 k2 = Inr (bytes_of_u32 x)
              \<and> child_leave etp utp f va s (of_nat p) msg arg k2 = Some (Inr (Returns 0 k3))
              \<and> user_loads etp utp 0 va 4 k3 = Inr (bytes_of_u32 (x + of_nat p mod 3))
              \<and> sem_count s k3 = sem_count s k2 + 1))"
proof -
  obtain k1 where k1: "child_share etp utp f va k = Some (Inr (Returns (of_nat p) k1))" "kernel_ok utp k1" "get_pid k1 = p"
      "\<forall>w. PGNUM w = PGNUM va \<longrightarrow> (\<forall>q \<in> {0, p}. user_access etp utp (mem k1) q w = user_access etp utp (mem k) 0 w)"
    using child_share_ok [OF assms, of f] by blast
  let ?P = "PGADDR 4 (PTX va) 0"
  have at: "user_access etp utp (mem k) 0 (va + of_nat i) = Some (?P + of_nat i)" if "i < 4096" for i
  proof -
    have d: "unat (PDX (va + of_nat i)) = 32" using same_page(1) [OF page_offset(3) [OF assms(8) that]] assms(7) by simp
    have four: "unat (4 :: u32) < 1024" by simp
    show ?thesis
      using own_space_user_access(1) [OF assms(1,6) d] by (simp add: page_walk [OF assms(8) that four])
  qed
  show ?thesis
  proof (rule exI [of _ k1], intro conjI allI impI k1(1-3), elim conjE)
    fix k2 s
    assume k2: "kernel_ok utp k2" "get_pid k2 = p" "sem_index s k2"
      and same: "\<forall>w. PGNUM w = PGNUM va \<longrightarrow> (\<forall>q \<in> {0, p}. user_access etp utp (mem k2) q w = user_access etp utp (mem k1) q w)"
    have at2: "user_access etp utp (mem k2) q (va + of_nat i) = user_access etp utp (mem k) 0 (va + of_nat i)"
      if "q \<in> {0, p}" "i < 4" for q i
    proof -
      have "i < 4096" using that(2) by simp
      then show ?thesis using page_offset(3) [OF assms(8)] same k1(4) that(1) by metis
    qed
    show "\<exists>k3 x. user_loads etp utp 0 va 4 k2 = Inr (bytes_of_u32 x)
              \<and> child_leave etp utp f va s (of_nat p) msg arg k2 = Some (Inr (Returns 0 k3))
              \<and> user_loads etp utp 0 va 4 k3 = Inr (bytes_of_u32 (x + of_nat p mod 3)) \<and> sem_count s k3 = sem_count s k2 + 1"
    proof (rule child_leave_ok [OF k2, where P = ?P])
      fix q i assume "q \<in> {0, p}" "i < (4 :: nat)"
      then show "user_access etp utp (mem k2) q (va + of_nat i) = Some (?P + of_nat i)"
        using at [of i] at2 [of q i] by simp
    qed
  qed
qed

definition sample_child :: kernel where
  "sample_child = (sample_kernel (\<lambda>i. idle_pcb\<lparr>pid := i\<rparr>))\<lparr>user_pcbs := (\<lambda>i. idle_pcb\<lparr>pid := i,
     status := if i = 1 then PCB_RUNNING else if i = 0 then PCB_RUNNABLE else PCB_FREE\<rparr>),
     curr_pid := 1, cr3 := 1, ts_top := Pcb_end 1, mem := sample_paging\<rparr>"

lemma sample_child_ok: "kernel_ok 0x200000 sample_child" "get_pid sample_child = 1" "mem sample_child = sample_paging"
proof -
  have "user_pgdir sample_paging i 32 = table_pa 0x200000 i OR 7" for i
    by (simp add: sample_paging_def)
  then show "kernel_ok 0x200000 sample_child"
    by (auto simp: kernel_ok_def table_ok_def pcb_ok_def sample_child_def sample_kernel_def get_pid_def idle_pcb_def)
qed (simp_all add: sample_child_def get_pid_def)

theorem child_adds_to_shared_witness:
  "\<exists>k1 k3 x. child_share 0x102000 0x200000 (\<lambda>_. sample_frame) 0x8050000 sample_child = Some (Inr (Returns 1 k1))
     \<and> user_loads 0x102000 0x200000 0 0x8050000 4 k1 = Inr (bytes_of_u32 x)
     \<and> child_leave 0x102000 0x200000 (\<lambda>_. sample_frame) 0x8050000 0 1 0 0 k1 = Some (Inr (Returns 0 k3))
     \<and> user_loads 0x102000 0x200000 0 0x8050000 4 k3 = Inr (bytes_of_u32 (x + 1))"
proof -
  note ok = sample_child_ok
  have va: "unat (PDX 0x8050000) = 32" "PGOFF 0x8050000 = 0" by (simp_all add: unat_fields PGOFF_def)
  have own: "own_space 0x200000 i (mem sample_child)" if "i < 28" for i
    using sample_space [OF that] ok(3) by (simp add: address_space_def)
  obtain k1 where k1: "child_share 0x102000 0x200000 (\<lambda>_. sample_frame) 0x8050000 sample_child = Some (Inr (Returns 1 k1))"
      "kernel_ok 0x200000 k1" "get_pid k1 = 1"
    and leave: "kernel_ok 0x200000 k1 \<and> get_pid k1 = 1 \<and> sem_index 0 k1 \<longrightarrow>
      (\<exists>k3 x. user_loads 0x102000 0x200000 0 0x8050000 4 k1 = Inr (bytes_of_u32 x)
        \<and> child_leave 0x102000 0x200000 (\<lambda>_. sample_frame) 0x8050000 0 1 0 0 k1 = Some (Inr (Returns 0 k3))
        \<and> user_loads 0x102000 0x200000 0 0x8050000 4 k3 = Inr (bytes_of_u32 (x + 1 mod 3)))"
    using child_adds_to_shared [OF sample_layout ok(1,2) _ own own va, of "\<lambda>_. sample_frame" 0 0] by auto blast
  have "sem_index 0 k1" using k1(2) by (simp add: sem_index_def kernel_ok_def table_ok_def)
  moreover have "(1 :: u32) mod 3 = 1" by simp
  ultimately show ?thesis using k1 leave by auto
qed

text \<open>
  C38. The two sides of the interface agree: each function of \<^verbatim>\<open>game/syscall.c\<close> but \<^verbatim>\<open>sys_vprintk\<close>
  and \<^verbatim>\<open>sys_crash\<close>, called by the running process, is the function of the kernel with its name on its arguments, in the state with the registers at the
  \<^verbatim>\<open>int\<close> saved; its result, if it returns, is what the process finds in \<^verbatim>\<open>eax\<close>, and the assertions
  of the wrappers on the result hold.
\<close>

theorem user_calls_reach_kernel:
  assumes "kernel_ok utp k" "\<And>load. e load = enter (at_call f load) k" "p = get_pid k"
  shows "user_timer etp utp f h k = Some (Inr (Returns 0 (with_result p 0
        (sys_timer h (e (\<lambda>r. r\<lparr>reg_eax := SYS_timer, reg_edx := h\<rparr>))))))
    \<and> user_keyboard etp utp f h k = Some (Inr (Returns 0 (with_result p 0
        (sys_keyboard h (e (\<lambda>r. r\<lparr>reg_eax := SYS_keyboard, reg_edx := h\<rparr>))))))
    \<and> user_getpid etp utp f k = Some (Inr (Returns (of_nat p) (with_result p (of_nat p) (e (\<lambda>r. r\<lparr>reg_eax := SYS_getpid\<rparr>)))))
    \<and> user_wait_intr etp utp f k = Some (Inr (Returns 0 (with_result p 0 (sys_wait_intr (e (\<lambda>r. r\<lparr>reg_eax := SYS_wait_intr\<rparr>))))))
    \<and> user_display etp utp f b k = returns_to p (returning
        (andThen (sys_display etp utp b (e (\<lambda>r. r\<lparr>reg_eax := SYS_display, reg_edx := b\<rparr>))) (\<lambda>k1. Inr (0, k1))))
    \<and> user_fork etp utp f k = returns_to p (returning (sys_fork etp utp (e (\<lambda>r. r\<lparr>reg_eax := SYS_fork\<rparr>))))
    \<and> user_sleep etp utp f t k = returns_to p (switch (sys_sleep t (e (\<lambda>r. r\<lparr>reg_eax := SYS_sleep, reg_edx := t\<rparr>))))
    \<and> user_exit etp utp f k = returns_to p (switch (sys_exit (e (\<lambda>r. r\<lparr>reg_eax := SYS_exit\<rparr>))))
    \<and> user_sem_open etp utp f s v k = returns_to p (returning
        (sys_sem_open s v (e (\<lambda>r. r\<lparr>reg_eax := SYS_sem_open, reg_edx := s, reg_ecx := v\<rparr>))))
    \<and> user_sem_destroy etp utp f s k = returns_to p (returning
        (sys_sem_destroy s (e (\<lambda>r. r\<lparr>reg_eax := SYS_sem_destroy, reg_edx := s\<rparr>))))
    \<and> user_sem_wait etp utp f s k = returns_to p (waiting
        (sys_sem_wait s (e (\<lambda>r. r\<lparr>reg_eax := SYS_sem_wait, reg_edx := s\<rparr>))))
    \<and> user_sem_post etp utp f s k = returns_to p (returning
        (sys_sem_post s (e (\<lambda>r. r\<lparr>reg_eax := SYS_sem_post, reg_edx := s\<rparr>))))
    \<and> user_mem_share etp utp f q src va k = returns_to p (returning
        (sys_mem_share q src va (e (\<lambda>r. r\<lparr>reg_eax := SYS_mem_share, reg_edx := q, reg_ecx := src, reg_ebx := va\<rparr>))))"
proof -
  note call = int_syscall_eq [OF assms(1)] user_defs syscall_handler_def Let_def enter_at_call(4) [OF assms(1)] assms(2,3)
  show ?thesis
    by (intro conjI) (simp_all add: call user_exit_eq [OF assms(1)] enter_at_call(5) [OF assms(1)] returning_zero)
qed

theorem user_calls_reach_kernel_witness:
  "\<exists>k'. user_getpid 0x102000 0x200000 sample_frame sample_running = Some (Inr (Returns 0 k'))
     \<and> reg_eax (tf_regs (tf (user_pcbs k' 0))) = 0"
proof -
  have p: "get_pid sample_running = 0" by (simp add: sample_running_fork)
  show ?thesis
    using user_calls_reach_kernel [OF sample_running_ok refl refl, where etp = "0x102000" and f = sample_frame]
    by (simp add: p with_result_def)
qed

text \<open>
  C39. \<^verbatim>\<open>main\<close> of the game, started as the only process: the father registers its two handlers, opens
  semaphore 0 with 2, and forks six times; then the processes 1 to 6 are ready behind their fork, with 0 as
  its result; the father has 6, the last child, and the kernel
  is in a state that satisfies its invariant. From there \<^verbatim>\<open>main\<close> does not return, and the game that stands
  behind its loops is never started. On a processor that walks the tables at each access each child has a private copy of
  the father's 4 MB. A processor with a translation buffer may still hold the entries of 0x10000000 from one fork in the
  next, since nothing reloads \<^verbatim>\<open>cr3\<close> between them: there only the copy of the first child is sure, and what a later
  one misses is said in \<open>Tlb\<close>, \<open>second_fork_stale\<close>.
\<close>

theorem main_starts_children:
  assumes "layout_ok etp utp" "kernel_ok utp k" "get_pid k = 0" "own_space utp 0 (mem k)"
    and "\<forall>i < NPROC. i \<noteq> 0 \<longrightarrow> status (user_pcbs k i) = PCB_FREE"
    and "\<forall>i < 4. unat (PDX (shared_mem + of_nat i)) = 32"
  shows "\<exists>k'. main_parent etp utp f msg arg on_timer on_key shared_mem start k = Some (Inr (Returns 6 k'))
    \<and> kernel_ok utp k' \<and> get_pid k' = 0 \<and> do_timer k' = on_timer \<and> do_keyboard k' = on_key \<and> sem_count 0 k' = 2
    \<and> (\<forall>i < NPROC. status (user_pcbs k' i) = (if i = 0 then PCB_RUNNING else if i \<le> 6 then PCB_RUNNABLE else PCB_FREE))
    \<and> (\<forall>i \<in> {1..6}. tf_eip (tf (user_pcbs k' i)) = tf_eip (f (3 + i)) \<and> reg_eax (tf_regs (tf (user_pcbs k' i))) = 0
         \<and> (\<forall>va. unat (PDX va) = 32 \<longrightarrow> (\<exists>pd ps. user_access etp utp (mem k') i va = Some pd
              \<and> user_access etp utp (mem k') 0 va = Some ps \<and> pd \<in> frames i \<and> ps \<in> frames 0
              \<and> pmem (mem k') pd = pmem (mem k') ps)))
    \<and> main etp utp f g msg arg msg1 arg1 msg2 arg2 on_timer on_key shared_mem start play k = None"
proof -
  define F where "F i = at_call (f (3 + i)) (\<lambda>r. r\<lparr>reg_eax := SYS_fork\<rparr>)" for i
  obtain k1 where k1: "user_printk etp utp (f 0) msg arg k = Some (Inr (Returns 0 k1))" "kernel_ok utp k1" "same_table k k1"
    using quiet_calls(1) [OF assms(2,3)] by blast
  then have p1: "get_pid k1 = 0" using assms(3) by (simp add: same_table_def)
  obtain k2 where k2: "user_timer etp utp (f 1) on_timer k1 = Some (Inr (Returns 0 k2))" "kernel_ok utp k2" "same_table k1 k2"
      "do_timer k2 = on_timer"
    using quiet_calls(2) [OF k1(2) p1] by blast
  then have p2: "get_pid k2 = 0" using p1 by (simp add: same_table_def)
  obtain k3 where k3: "user_keyboard etp utp (f 2) on_key k2 = Some (Inr (Returns 0 k3))" "kernel_ok utp k3" "same_table k2 k3"
      "do_timer k3 = on_timer" "do_keyboard k3 = on_key"
    using quiet_calls(3) [OF k2(2) p2] k2(4) by metis
  then have p3: "get_pid k3 = 0" using p2 by (simp add: same_table_def)
  obtain k4 where k4: "user_sem_open etp utp (f 3) 0 2 k3 = Some (Inr (Returns 0 k4))" "kernel_ok utp k4" "same_table k3 k4"
      "do_timer k4 = on_timer" "do_keyboard k4 = on_key" "sem_pool k4 = (sem_pool k3)[0 := 2]"
    using quiet_calls(4) [OF k3(2) p3] k3(4,5) by metis
  have t: "get_pid k4 = 0" "mem k4 = mem k" "status (user_pcbs k4 i) = status (user_pcbs k i)" for i
    using k1(3) k2(3) k3(3) k4(3) assms(3) by (simp_all add: same_table_def)
  have "cr3 k4 = 0" using k4(2) t(1) by (simp add: kernel_ok_def)
  then obtain m where m: "user_stores etp utp shared_mem (replicate 4 0) k4 = Inr (k4\<lparr>mem := (mem k4)\<lparr>pmem := m\<rparr>\<rparr>)"
    using user_stores_ok [OF assms(1), of k4 "replicate 4 0" shared_mem] t(2) assms(4,6) by auto
  let ?k5 = "k4\<lparr>mem := (mem k4)\<lparr>pmem := m\<rparr>\<rparr>"
  have "status (user_pcbs k4 0) = PCB_RUNNING" using k4(2) t(1) by (simp add: kernel_ok_def)
  moreover have "own_space utp 0 ((mem k)\<lparr>pmem := m\<rparr>)" using assms(4) by (simp add: own_space_def own_table_def)
  moreover have "kernel_ok utp ?k5" using k4(2) by (rule kernel_ok_fields(6))
  ultimately have "family utp F 0 ?k5" using t assms(5) by (simp add: family_def)
  from fork_loop_ok [OF assms(1) this, of f start] obtain k' where
    k': "fork_loop etp utp f 6 0 start ?k5 = Some (Inr (Returns 6 k'))" "family utp F 6 k'" "sem_pool k' = sem_pool k4"
      "do_timer k' = on_timer" "do_keyboard k' = on_key"
    using k4(4,5) by (auto simp: F_def add.commute)
  have "main_parent etp utp f msg arg on_timer on_key shared_mem start k = Some (Inr (Returns 6 k'))"
    using k1(1) k2(1) k3(1) k4(1) m k'(1) by (simp add: main_parent_def)
  moreover from this have "main etp utp f g msg arg msg1 arg1 msg2 arg2 on_timer on_key shared_mem start play k = None"
    by (simp add: main_def main_rest_father)
  moreover have "sem_count 0 k' = 2"
    using k3(2) by (simp add: sem_count_def k'(3) k4(6) kernel_ok_def table_ok_def)
  moreover have "\<exists>pd ps. user_access etp utp (mem k') i va = Some pd \<and> user_access etp utp (mem k') 0 va = Some ps
      \<and> pd \<in> frames i \<and> ps \<in> frames 0 \<and> pmem (mem k') pd = pmem (mem k') ps" if i: "i \<in> {1..6}" and va: "unat (PDX va) = 32" for i va
    using family_memory [OF assms(1) k'(2) _ _ va, of i] i by auto
  ultimately show ?thesis
    using k'(2,4,5) by (auto simp: family_def F_def at_call_def)
qed

lemma all_less_four: "(\<forall>i < 4. P i) \<longleftrightarrow> P 0 \<and> P 1 \<and> P 2 \<and> P (3 :: nat)"
  by (auto simp: less_Suc_eq numeral_eq_Suc)

theorem main_starts_children_witness:
  "\<exists>k k'. main_parent 0x102000 0x200000 (\<lambda>i. zero_frame\<lparr>tf_eip := of_nat i\<rparr>) 0 0 0x8048100 0x8048200 0x8050000 0 k
        = Some (Inr (Returns 6 k')) \<and> tf_eip (tf (user_pcbs k' 4)) = 7"
proof -
  let ?k = "(sample_kernel (\<lambda>i. idle_pcb\<lparr>pid := i\<rparr>))\<lparr>mem := sample_paging\<rparr>"
  have ok: "kernel_ok 0x200000 ?k"
    by (auto simp: kernel_ok_def table_ok_def pcb_ok_def sample_kernel_def get_pid_def idle_pcb_def sample_paging_def)
  have own: "own_space 0x200000 0 (mem ?k)" using sample_space [of 0] by (simp add: address_space_def)
  have "\<forall>i < 4. unat (PDX (0x8050000 + of_nat i)) = 32"
    by (simp add: all_less_four unat_fields)
  moreover have "\<forall>i < NPROC. i \<noteq> 0 \<longrightarrow> status (user_pcbs ?k i) = PCB_FREE" "get_pid ?k = 0"
    by (simp_all add: sample_kernel_def get_pid_def idle_pcb_def)
  ultimately show ?thesis
    using main_starts_children [OF sample_layout ok _ own, where f = "\<lambda>i. zero_frame\<lparr>tf_eip := of_nat i\<rparr>" and msg = 0 and arg = 0
        and on_timer = "0x8048100" and on_key = "0x8048200" and shared_mem = "0x8050000" and start = 0] by fastforce
qed

end
