(* ===== verification/Traps.thy ===== *)
theory Traps
  imports Kernel
begin

text \<open>
  The descriptor tables of \<^verbatim>\<open>kernel/trap.c\<close> and \<^verbatim>\<open>trap_init\<close>, which loads them: what the processor
  looks up when it is interrupted. \<open>handlers\<close> stands for the entry points of
  \<^verbatim>\<open>kernel/trapentry.S\<close>, \<open>pts_addr\<close> for where the linker puts \<^verbatim>\<open>pts\<close>.
\<close>

section \<open>Numbers of traps: inc/trap.h\<close>

definition T_DIVIDE :: u32 where [simp]: "T_DIVIDE = 0"
definition T_DEBUG :: u32 where [simp]: "T_DEBUG = 1"
definition T_NMI :: u32 where [simp]: "T_NMI = 2"
definition T_BRKPT :: u32 where [simp]: "T_BRKPT = 3"
definition T_OFLOW :: u32 where [simp]: "T_OFLOW = 4"
definition T_BOUND :: u32 where [simp]: "T_BOUND = 5"
definition T_DEVICE :: u32 where [simp]: "T_DEVICE = 7"
definition T_DBLFLT :: u32 where [simp]: "T_DBLFLT = 8"
definition T_TSS :: u32 where [simp]: "T_TSS = 10"
definition T_SEGNP :: u32 where [simp]: "T_SEGNP = 11"
definition T_STACK :: u32 where [simp]: "T_STACK = 12"
definition T_FPERR :: u32 where [simp]: "T_FPERR = 16"
definition T_ALIGN :: u32 where [simp]: "T_ALIGN = 17"
definition T_MCHK :: u32 where [simp]: "T_MCHK = 18"
definition T_SIMDERR :: u32 where [simp]: "T_SIMDERR = 19"
definition T_DEFAULT :: u32 where [simp]: "T_DEFAULT = 500"
definition IRQ_SERIAL :: u32 where [simp]: "IRQ_SERIAL = 4"
definition IRQ_SPURIOUS :: u32 where [simp]: "IRQ_SPURIOUS = 7"
definition IRQ_ERROR :: u32 where [simp]: "IRQ_ERROR = 19"

section \<open>The global descriptor table\<close>

definition gdt :: "segdesc list" where
  "gdt = (replicate 6 SEG_NULL)
     [unat (drop_bit 3 GD_KT) := SEG (STA_X OR STA_R) 0x0 0xffffffff 0,
      unat (drop_bit 3 GD_KD) := SEG STA_W 0x0 0xffffffff 0,
      unat (drop_bit 3 GD_UT) := SEG (STA_X OR STA_R) 0x0 0xffffffff 3,
      unat (drop_bit 3 GD_UD) := SEG STA_W 0x0 0xffffffff 3,
      unat (drop_bit 3 GD_TSS0) := SEG_NULL]"

text \<open>The limits the pseudo-descriptors hold; a descriptor takes 8 bytes.\<close>

definition gdt_pd_lim :: u16 where "gdt_pd_lim = of_nat (length gdt * 8 - 1)"
definition idt_pd_lim :: u16 where "idt_pd_lim = of_nat (256 * 8 - 1)"

section \<open>trap\_init\<close>

text \<open>The tables in memory, the segment registers and what \<^verbatim>\<open>lgdt\<close>, \<^verbatim>\<open>lldt\<close>, \<^verbatim>\<open>ltr\<close> and \<^verbatim>\<open>lidt\<close> load.\<close>

record traps =
  the_gdt :: "segdesc list"
  idt :: "gatedesc list"
  pts :: taskstate
  reg_cs :: u16
  reg_ds :: u16
  reg_es :: u16
  reg_ss :: u16
  reg_fs :: u16
  reg_gs :: u16
  gdtr :: "u16 option"
  idtr :: "u16 option"
  ldtr :: u16
  tr :: u16

text \<open>\<^verbatim>\<open>for ( ; i < 256 ; i++) SETGATE(idt[i], 0, GD_KT, trap_handlers[i], 0);\<close>\<close>

function fill_idt :: "(nat \<Rightarrow> u32) \<Rightarrow> nat \<Rightarrow> gatedesc list \<Rightarrow> gatedesc list" where
  "fill_idt handlers i gates =
     (if i < 256
      then fill_idt handlers (i + 1) (gates[i := SETGATE False GD_KT (handlers i) 0 (gates ! i)])
      else gates)"
  by pat_completeness auto
termination
  by (relation "measure (\<lambda>(handlers, i, gates). 256 - i)") auto

declare fill_idt.simps [simp del]

definition sizeof_Taskstate :: u32 where "sizeof_Taskstate = 104"

definition trap_init :: "(nat \<Rightarrow> u32) \<Rightarrow> u32 \<Rightarrow> traps \<Rightarrow> traps" where
  "trap_init handlers pts_addr st =
     (let st1 = st\<lparr>gdtr := Some gdt_pd_lim, reg_gs := GD_UD OR 3, reg_fs := GD_UD OR 3, reg_es := GD_KD,
            reg_ds := GD_KD, reg_ss := GD_KD, reg_cs := GD_KT, ldtr := 0\<rparr>;
          gates = fill_idt handlers 0 (idt st1);
          b = unat T_BRKPT; s = unat T_SYSCALL;
          gates1 = gates[b := SETGATE False GD_KT (handlers b) 3 (gates ! b)];
          gates2 = gates1[s := SETGATE False GD_KT (handlers s) 3 (gates1 ! s)];
          st2 = st1\<lparr>idt := gates2, pts := (pts st1)\<lparr>ts_esp0 := KSTACKTOP, ts_ss0 := GD_KD\<rparr>\<rparr>;
          t = unat (drop_bit 3 GD_TSS0);
          segs = (the_gdt st2)[t := SEG16 STS_T32A pts_addr sizeof_Taskstate 0];
          segs1 = segs[t := (segs ! t)\<lparr>sd_s := 0\<rparr>]
      in st2\<lparr>the_gdt := segs1, tr := GD_TSS0, idtr := Some idt_pd_lim\<rparr>)"

text \<open>Static memory before it: the table above, and zeros.\<close>

definition boot_traps :: "traps \<Rightarrow> bool" where
  "boot_traps st \<longleftrightarrow> the_gdt st = gdt \<and> idt st = replicate 256 null_gate \<and> pts st = zero_taskstate"

section \<open>What the processor finds\<close>

lemma fill_idt_nth:
  "length gates = 256 \<Longrightarrow> length (fill_idt handlers i gates) = 256 \<and> (\<forall>j < 256. fill_idt handlers i gates ! j
     = (if i \<le> j then SETGATE False GD_KT (handlers j) 0 (gates ! j) else gates ! j))"
proof (induction "256 - i" arbitrary: i gates)
  case 0
  then show ?case by (simp add: fill_idt.simps [of _ i])
next
  case (Suc d i gates)
  have d: "d = 256 - (i + 1)" "i < 256" using Suc.hyps(2) by simp_all
  let ?g = "gates[i := SETGATE False GD_KT (handlers i) 0 (gates ! i)]"
  have "length ?g = 256" using Suc.prems by simp
  from Suc.hyps(1) [OF d(1) this] show ?case
    using d(2) Suc.prems by (auto simp: fill_idt.simps [of _ i] nth_list_update not_less_eq_eq dest: le_antisym)
qed

lemma seg_of_system [simp]: "seg_base (d\<lparr>sd_s := x\<rparr>) = seg_base d" "seg_limit (d\<lparr>sd_s := x\<rparr>) = seg_limit d"
  by (simp_all add: seg_base_def seg_limit_def seg_raw_limit_def)

lemma SETGATE_fields [simp]:
  "gd_sel (SETGATE t sel off dpl g) = sel" "gd_p (SETGATE t sel off dpl g) = 1"
  "gd_dpl (SETGATE t sel off dpl g) = dpl" "gd_type (SETGATE t sel off dpl g) = (if t then STS_TG32 else STS_IG32)"
  "gate_offset (SETGATE t sel off dpl g) = off"
  using gate_offset_SETGATE(1) by (simp_all add: SETGATE_def)

lemma gdt_selectors: "unat (drop_bit 3 GD_KT) = 1" "unat (drop_bit 3 GD_KD) = 2" "unat (drop_bit 3 GD_UT) = 3"
  "unat (drop_bit 3 GD_UD) = 4" "unat (drop_bit 3 GD_TSS0) = 5"
  by (simp_all add: drop_bit_eq_div)

text \<open>A software interrupt from privilege \<open>cpl\<close> passes a gate whose level is not below it.\<close>

definition may_call :: "2 word \<Rightarrow> gatedesc \<Rightarrow> bool" where
  "may_call cpl g \<longleftrightarrow> gd_p g = 1 \<and> cpl \<le> gd_dpl g"

text \<open>
  C27. After \<^verbatim>\<open>trap_init\<close> every one of the 256 vectors leads to its own handler in the kernel's code
  segment, through a gate that clears the interrupt flag (so that the assertion at the top of
  \<^verbatim>\<open>trap\<close> holds); user mode can raise exactly the breakpoint and the system call itself; user and
  kernel segments span the whole address space; and the task register leads to \<^verbatim>\<open>pts\<close>, whose
  kernel stack is the one of the boot.
\<close>

theorem trap_init_installs:
  assumes "boot_traps st" "v < 256"
  shows "let st' = trap_init handlers pts_addr st; g = idt st' ! v in
      length (idt st') = 256 \<and> gate_offset g = handlers v \<and> gd_sel g = GD_KT \<and> gd_type g = STS_IG32
      \<and> (may_call 3 g \<longleftrightarrow> v = 3 \<or> v = 128)
      \<and> (\<forall>i \<in> {1, 2, 3, 4}. seg_base (the_gdt st' ! i) = 0 \<and> seg_limit (the_gdt st' ! i) = 0xFFFFFFFF
            \<and> sd_dpl (the_gdt st' ! i) = (if i \<le> 2 then 0 else 3))
      \<and> seg_base (the_gdt st' ! 5) = pts_addr \<and> seg_limit (the_gdt st' ! 5) = 104 \<and> sd_s (the_gdt st' ! 5) = 0
      \<and> tr st' = GD_TSS0 \<and> ts_esp0 (pts st') = KSTACKTOP \<and> ts_ss0 (pts st') = GD_KD"
proof -
  define gates where "gates = fill_idt handlers 0 (idt st)"
  have g: "length gates = 256" "\<And>j. j < 256 \<Longrightarrow> gates ! j = SETGATE False GD_KT (handlers j) 0 (idt st ! j)"
    using fill_idt_nth [of "idt st" handlers 0] assms(1) by (simp_all add: gates_def boot_traps_def)
  have idt: "idt (trap_init handlers pts_addr st) = gates[3 := SETGATE False GD_KT (handlers 3) 3 (gates ! 3),
      128 := SETGATE False GD_KT (handlers 128) 3 (gates ! 128)]"
    by (simp add: trap_init_def Let_def gates_def nth_list_update)
  have gate: "\<exists>x dpl. idt (trap_init handlers pts_addr st) ! v = SETGATE False GD_KT (handlers v) dpl x
      \<and> dpl = (if v = 3 \<or> v = 128 then 3 else 0)"
    using g assms(2) by (auto simp: idt nth_list_update)
  have "length (idt (trap_init handlers pts_addr st)) = 256" using g(1) by (simp add: idt)
  moreover have segs: "the_gdt (trap_init handlers pts_addr st) =
      gdt[5 := (SEG16 STS_T32A pts_addr sizeof_Taskstate 0)\<lparr>sd_s := 0\<rparr>]"
    using assms(1) unfolding trap_init_def Let_def gdt_selectors by (simp add: boot_traps_def gdt_def)
  have code: "gdt ! 1 = SEG (STA_X OR STA_R) 0 0xffffffff 0" "gdt ! 2 = SEG STA_W 0 0xffffffff 0"
      "gdt ! 3 = SEG (STA_X OR STA_R) 0 0xffffffff 3" "gdt ! 4 = SEG STA_W 0 0xffffffff 3" "length gdt = 6"
    unfolding gdt_def gdt_selectors by simp_all
  have flat: "seg_limit (SEG ty 0 0xffffffff dpl) = 0xffffffff" for ty dpl
    by (simp add: seg_limit_SEG)
  have dpl: "sd_dpl (SEG ty b l dpl) = dpl" for ty b l dpl by (simp add: SEG_def)
  have "\<forall>i \<in> {1, 2, 3, 4}. seg_base (the_gdt (trap_init handlers pts_addr st) ! i) = 0
      \<and> seg_limit (the_gdt (trap_init handlers pts_addr st) ! i) = 0xFFFFFFFF
      \<and> sd_dpl (the_gdt (trap_init handlers pts_addr st) ! i) = (if i \<le> 2 then 0 else 3)"
    by (simp add: segs code code(1) [simplified] seg_base_SEG flat [simplified] dpl)
  moreover have "seg_base (the_gdt (trap_init handlers pts_addr st) ! 5) = pts_addr"
      "seg_limit (the_gdt (trap_init handlers pts_addr st) ! 5) = 104" "sd_s (the_gdt (trap_init handlers pts_addr st) ! 5) = 0"
    using code(5) seg_limit_SEG16 [of sizeof_Taskstate] by (simp_all add: segs seg_base_SEG sizeof_Taskstate_def)
  moreover have "tr (trap_init handlers pts_addr st) = GD_TSS0" "ts_esp0 (pts (trap_init handlers pts_addr st)) = KSTACKTOP"
      "ts_ss0 (pts (trap_init handlers pts_addr st)) = GD_KD"
    by (simp_all add: trap_init_def Let_def)
  moreover from gate obtain x where
      "idt (trap_init handlers pts_addr st) ! v = SETGATE False GD_KT (handlers v) (if v = 3 \<or> v = 128 then 3 else 0) x"
    by blast
  moreover have "(3 :: 2 word) \<le> (if v = 3 \<or> v = 128 then 3 else 0) \<longleftrightarrow> v = 3 \<or> v = 128" by simp
  ultimately show ?thesis unfolding Let_def may_call_def by simp
qed

definition sample_traps :: traps where
  "sample_traps = \<lparr>the_gdt = gdt, idt = replicate 256 null_gate, pts = zero_taskstate, reg_cs = 0, reg_ds = 0,
     reg_es = 0, reg_ss = 0, reg_fs = 0, reg_gs = 0, gdtr = None, idtr = None, ldtr = 0, tr = 0\<rparr>"

lemma trap_init_installs_witness:
  "gate_offset (idt (trap_init (\<lambda>v. 0xF0100000 + 16 * of_nat v) 0xF0123450 sample_traps) ! 14) = 0xF01000E0"
  using trap_init_installs [of sample_traps 14 "\<lambda>v. 0xF0100000 + 16 * of_nat v" "0xF0123450"]
  by (simp add: boot_traps_def sample_traps_def Let_def)

end
