(* ===== verification/Entry.thy ===== *)
theory Entry
  imports Traps X86
begin

text \<open>
  The way into the kernel and back, at the level of the stack: what the processor pushes when user mode is
  interrupted, the stubs of \<^verbatim>\<open>kernel/trapentry.S\<close>, and the instructions that leave the kernel, at the end of
  \<^verbatim>\<open>_alltraps\<close> and in \<^verbatim>\<open>pcb_exec\<close>. The structures \<^verbatim>\<open>PushRegs\<close>, \<^verbatim>\<open>Trapframe\<close> and \<^verbatim>\<open>PCB\<close> are laid out in
  bytes. This is what the other theories take for granted when they pass a \<^verbatim>\<open>Trapframe\<close> to \<^verbatim>\<open>trap\<close> and
  continue a process from \<^verbatim>\<open>pcb->tf\<close>. The upper half of a pushed segment register is the parameter \<open>pad\<close>.
\<close>

unbundle bit_operations_syntax

section \<open>Layouts\<close>

definition bytes_of_pushregs :: "pushregs \<Rightarrow> u8 list" where
  "bytes_of_pushregs r = bytes_of_u32 (reg_edi r) @ bytes_of_u32 (reg_esi r) @ bytes_of_u32 (reg_ebp r)
     @ bytes_of_u32 (reg_oesp r) @ bytes_of_u32 (reg_ebx r) @ bytes_of_u32 (reg_edx r)
     @ bytes_of_u32 (reg_ecx r) @ bytes_of_u32 (reg_eax r)"

definition bytes_of_trapframe :: "trapframe \<Rightarrow> u8 list" where
  "bytes_of_trapframe f = bytes_of_pushregs (tf_regs f)
     @ bytes_of_u16 (tf_es f) @ bytes_of_u16 (tf_padding1 f) @ bytes_of_u16 (tf_ds f) @ bytes_of_u16 (tf_padding2 f)
     @ bytes_of_u32 (tf_trapno f) @ bytes_of_u32 (tf_err f) @ bytes_of_u32 (tf_eip f)
     @ bytes_of_u16 (tf_cs f) @ bytes_of_u16 (tf_padding3 f) @ bytes_of_u32 (tf_eflags f)
     @ bytes_of_u32 (tf_esp f) @ bytes_of_u16 (tf_ss f) @ bytes_of_u16 (tf_padding4 f)"

definition sizeof_Trapframe :: nat where [simp]: "sizeof_Trapframe = 68"

text \<open>The fields of \<^verbatim>\<open>struct PCB\<close> in front of \<^verbatim>\<open>tf\<close>, and the whole of it.\<close>

definition offsetof_tf :: nat where "offsetof_tf = 7 * 4 + KSTACK_SIZE"
definition sizeof_PCB :: nat where "sizeof_PCB = offsetof_tf + sizeof_Trapframe"

section \<open>The processor at a trap\<close>

record core =
  c_regs :: pushregs
  c_es :: u16
  c_ds :: u16
  c_ss :: u16
  c_cs :: u16
  c_eip :: u32
  c_esp :: u32
  c_eflags :: u32
  c_mem :: memory

definition push_bytes :: "u8 list \<Rightarrow> core \<Rightarrow> core" where
  "push_bytes bs c = c\<lparr>c_esp := c_esp c - of_nat (length bs), c_mem := store_at (c_esp c - of_nat (length bs)) bs (c_mem c)\<rparr>"

definition push_word :: "u32 \<Rightarrow> core \<Rightarrow> core" where "push_word v = push_bytes (bytes_of_u32 v)"
definition push_seg :: "u16 \<Rightarrow> u16 \<Rightarrow> core \<Rightarrow> core" where "push_seg pad s = push_bytes (bytes_of_u16 s @ bytes_of_u16 pad)"

text \<open>
  The interrupt of user mode through a gate: the stack of the task state, the five double words, the
  error code of the exceptions that have one, and the flags that are cleared, with \<^verbatim>\<open>IF\<close> if the gate is an
  interrupt gate and without it if it is a trap gate. The exceptions with an error code are those of the processor's
  manual: double fault, invalid task state, segment not present, stack fault, general protection, page fault and
  alignment check.
\<close>

definition pushes_error_code :: "nat \<Rightarrow> bool" where
  "pushes_error_code num \<longleftrightarrow> num = 8 \<or> (10 \<le> num \<and> num \<le> 14) \<or> num = 17"

definition interrupt :: "u16 \<Rightarrow> taskstate \<Rightarrow> gatedesc \<Rightarrow> u32 option \<Rightarrow> core \<Rightarrow> core" where
  "interrupt pad ts g err c =
     (let c1 = c\<lparr>c_ss := ts_ss0 ts, c_esp := ts_esp0 ts\<rparr>;
          c2 = push_seg pad (c_ss c) c1;
          c3 = push_word (c_esp c) c2;
          c4 = push_word (c_eflags c) c3;
          c5 = push_seg pad (c_cs c) c4;
          c6 = push_word (c_eip c) c5;
          c7 = (case err of Some e \<Rightarrow> push_word e c6 | None \<Rightarrow> c6)
      in c7\<lparr>c_cs := gd_sel g, c_eip := gate_offset g,
           c_eflags := c_eflags c AND NOT ((if gd_type g = STS_IG32 then FL_IF else 0) OR FL_TF OR FL_NT OR FL_RF OR FL_VM)\<rparr>)"

section \<open>kernel/trapentry.S\<close>

text \<open>The vectors whose stub is a \<^verbatim>\<open>TRAPHANDLER\<close>; the others are \<^verbatim>\<open>TRAPHANDLER_NOEC\<close>.\<close>

definition has_error_code :: "nat \<Rightarrow> bool" where
  "has_error_code num \<longleftrightarrow> num \<in> {8, 10, 11, 12, 13, 14, 17}"

definition thdlr :: "nat \<Rightarrow> core \<Rightarrow> core" where
  "thdlr num c = (if has_error_code num then push_word (of_nat num) c else push_word (of_nat num) (push_word 0 c))"

definition pushal :: "core \<Rightarrow> core" where
  "pushal c =
     (let r = c_regs c
      in push_word (reg_edi r) (push_word (reg_esi r) (push_word (reg_ebp r) (push_word (c_esp c)
         (push_word (reg_ebx r) (push_word (reg_edx r) (push_word (reg_ecx r) (push_word (reg_eax r) c))))))))"

text \<open>\<^verbatim>\<open>_alltraps\<close> up to the call of \<^verbatim>\<open>trap\<close>; \<open>ret\<close> is the address behind it.\<close>

definition alltraps_in :: "u16 \<Rightarrow> u32 \<Rightarrow> core \<Rightarrow> core" where
  "alltraps_in pad ret c =
     (let c1 = push_seg pad (c_ds c) c;
          c2 = push_seg pad (c_es c1) c1;
          c3 = pushal c2;
          c4 = c3\<lparr>c_regs := (c_regs c3)\<lparr>reg_eax := (reg_eax (c_regs c3) AND 0xFFFF0000) OR ucast GD_KD\<rparr>,
                 c_ds := GD_KD, c_es := GD_KD\<rparr>;
          c5 = push_word (c_esp c4) c4
      in push_word ret c5)"

definition pop_word :: "core \<Rightarrow> u32 \<times> core" where
  "pop_word c = (u32_of_bytes (load_at (c_esp c) 4 (c_mem c)), c\<lparr>c_esp := c_esp c + 4\<rparr>)"

definition pop_seg :: "core \<Rightarrow> u16 \<times> core" where
  "pop_seg c = (u16_of_bytes (load_at (c_esp c) 2 (c_mem c)), c\<lparr>c_esp := c_esp c + 4\<rparr>)"

definition popal :: "core \<Rightarrow> core" where
  "popal c =
     (let (edi, c1) = pop_word c;
          (esi, c2) = pop_word c1;
          (ebp, c3) = pop_word c2;
          (_, c4) = pop_word c3;
          (ebx, c5) = pop_word c4;
          (edx, c6) = pop_word c5;
          (ecx, c7) = pop_word c6;
          (eax, c8) = pop_word c7
      in c8\<lparr>c_regs := (c_regs c8)\<lparr>reg_edi := edi, reg_esi := esi, reg_ebp := ebp, reg_ebx := ebx,
           reg_edx := edx, reg_ecx := ecx, reg_eax := eax\<rparr>\<rparr>)"

text \<open>\<^verbatim>\<open>iret\<close> out of the kernel; the stack is popped when the code segment is less privileged.\<close>

definition iret :: "core \<Rightarrow> core" where
  "iret c =
     (let (eip, c1) = pop_word c;
          (cs, c2) = pop_seg c1;
          (eflags, c3) = pop_word c2;
          c4 = c3\<lparr>c_eip := eip, c_cs := cs, c_eflags := (eflags AND 0x003F7FD5) OR 2\<rparr>
      in if cs AND 3 = 0 then c4
         else let (esp, c5) = pop_word c4; (ss, c6) = pop_seg c5 in c6\<lparr>c_esp := esp, c_ss := ss\<rparr>)"

text \<open>\<^verbatim>\<open>popal\<close>, the two segments, \<^verbatim>\<open>addl $8\<close>, \<^verbatim>\<open>iret\<close>: the tail of \<^verbatim>\<open>_alltraps\<close> and of \<^verbatim>\<open>pcb_exec\<close>.\<close>

definition leave :: "core \<Rightarrow> core" where
  "leave c =
     (let c1 = popal c;
          (es, c2) = pop_seg c1;
          (ds, c3) = pop_seg c2
      in iret (c3\<lparr>c_es := es, c_ds := ds, c_esp := c_esp c3 + 8\<rparr>))"

text \<open>The return from \<^verbatim>\<open>trap\<close>: \<^verbatim>\<open>ret\<close> has taken its address, \<^verbatim>\<open>addl $4\<close> drops the argument.\<close>

definition alltraps_out :: "core \<Rightarrow> core" where
  "alltraps_out c = leave (c\<lparr>c_esp := c_esp c + 4\<rparr>)"

definition exec_frame :: "u32 \<Rightarrow> core \<Rightarrow> core" where
  "exec_frame tf_addr c = leave (c\<lparr>c_esp := tf_addr\<rparr>)"

section \<open>trap, with the keyboard\<close>

text \<open>
  The keyboard case of \<^verbatim>\<open>trap\<close> reads the scan code and pulses bit 7 of port 0x61; the rest of \<^verbatim>\<open>trap\<close> uses no port.
\<close>

definition keyboard_code :: "'d ports \<Rightarrow> 'd \<Rightarrow> u8 \<times> 'd" where
  "keyboard_code P d =
     (let (code, d1) = inb P 0x60 d;
          (val, d2) = inb P 0x61 d1;
          d3 = outb P 0x61 (val OR 0x80) d2
      in (code, outb P 0x61 val d3))"

definition trap_ports :: "'d ports \<Rightarrow> u32 \<Rightarrow> u32 \<Rightarrow> 'd \<Rightarrow> kernel \<Rightarrow> sys_outcome result option \<times> 'd" where
  "trap_ports P etp utp d k =
     (let p = (case ts_top k of Pcb_end i \<Rightarrow> i | Boot_stack \<Rightarrow> 0);
          (code, d1) = (if \<not> interrupts k \<and> tf_trapno (tf (user_pcbs k p)) = IRQ_OFFSET + IRQ_KBD then keyboard_code P d else (0, d))
      in (trap etp utp code k, d1))"

lemma key_reaches_handler:
  assumes "ts_top k = Pcb_end p" "\<not> interrupts k" "tf_trapno (tf (user_pcbs k p)) = IRQ_OFFSET + IRQ_KBD" "do_keyboard k \<noteq> 0"
  shows "fst (trap_ports P etp utp d k) =
    Some (Inr (Returns 0 (k\<lparr>calls := calls k @ [(do_keyboard k, [ucast (fst (inb P 0x60 d))])]\<rparr>)))"
  using assms by (simp add: trap_ports_def trap_def keyboard_code_def Let_def case_prod_beta)

section \<open>Pushing and popping\<close>

lemma word_lengths [simp]: "length (bytes_of_u32 v) = 4" "length (bytes_of_u16 w) = 2"
  by (simp_all add: length_bytes_of_u32 length_bytes_of_u16)

lemma frame_lengths [simp]: "length (bytes_of_pushregs r) = 32" "length (bytes_of_trapframe f) = 68"
  by (simp_all add: bytes_of_pushregs_def bytes_of_trapframe_def)

lemma unat_minus_nat:
  fixes q :: u32
  assumes "n < 2 ^ 32"
  shows "n \<le> unat q \<Longrightarrow> unat (q - of_nat n) = unat q - n"
    "unat q < n \<Longrightarrow> unat (q - of_nat n) = 2 ^ 32 + unat q - n"
proof -
  have n: "unat (of_nat n :: u32) = n" using assms by (simp add: unat_of_nat_u32)
  show "n \<le> unat q \<Longrightarrow> unat (q - of_nat n) = unat q - n" by (simp add: unat_sub word_le_nat_alt n)
  show "unat q < n \<Longrightarrow> unat (q - of_nat n) = 2 ^ 32 + unat q - n"
    using unat_sub_if_size [of q "of_nat n"] by (simp add: word_le_nat_alt word_size n)
qed

lemma store_at_two:
  assumes "length bs + length cs < 2 ^ 32"
  shows "store_at a cs (store_at (a + of_nat (length cs)) bs m) = store_at a (cs @ bs) m"
proof
  fix p
  have e: "p - (a + of_nat (length cs)) = (p - a) - of_nat (length cs)" by simp
  have "unat (p - (a + of_nat (length cs))) =
      (if length cs \<le> unat (p - a) then unat (p - a) - length cs else 2 ^ 32 + unat (p - a) - length cs)"
    unfolding e using assms unat_minus_nat [of "length cs" "p - a"] by auto
  then show "store_at a cs (store_at (a + of_nat (length cs)) bs m) p = store_at a (cs @ bs) m p"
    using assms by (auto simp: store_at_eq Let_def nth_append not_less)
qed

lemma push_push:
  "length bs + length cs < 2 ^ 32 \<Longrightarrow> push_bytes cs (push_bytes bs c) = push_bytes (cs @ bs) c"
  using store_at_two [of bs cs "c_esp c - of_nat (length bs) - of_nat (length cs)" "c_mem c"]
  by (simp add: push_bytes_def algebra_simps)

text \<open>A push touches nothing else, so that the pushes of the entry collect into one.\<close>

lemma push_other [simp]:
  "c_regs (push_bytes bs c) = c_regs c" "c_es (push_bytes bs c) = c_es c" "c_ds (push_bytes bs c) = c_ds c"
  "c_ss (push_bytes bs c) = c_ss c" "c_cs (push_bytes bs c) = c_cs c" "c_eip (push_bytes bs c) = c_eip c"
  "c_eflags (push_bytes bs c) = c_eflags c" "c_esp (push_bytes bs c) = c_esp c - of_nat (length bs)"
  "c_mem (push_bytes bs c) = store_at (c_esp c - of_nat (length bs)) bs (c_mem c)"
  by (simp_all add: push_bytes_def)

lemma push_after [simp]:
  "push_bytes bs (c\<lparr>c_regs := r\<rparr>) = (push_bytes bs c)\<lparr>c_regs := r\<rparr>" "push_bytes bs (c\<lparr>c_es := s\<rparr>) = (push_bytes bs c)\<lparr>c_es := s\<rparr>"
  "push_bytes bs (c\<lparr>c_ds := s\<rparr>) = (push_bytes bs c)\<lparr>c_ds := s\<rparr>" "push_bytes bs (c\<lparr>c_cs := s\<rparr>) = (push_bytes bs c)\<lparr>c_cs := s\<rparr>"
  "push_bytes bs (c\<lparr>c_eip := v\<rparr>) = (push_bytes bs c)\<lparr>c_eip := v\<rparr>"
  "push_bytes bs (c\<lparr>c_eflags := v\<rparr>) = (push_bytes bs c)\<lparr>c_eflags := v\<rparr>"
  by (simp_all add: push_bytes_def)

section \<open>Into the kernel\<close>

text \<open>From user mode to the first instruction of \<^verbatim>\<open>trap\<close>.\<close>

definition entered :: "u16 \<Rightarrow> u32 \<Rightarrow> taskstate \<Rightarrow> gatedesc \<Rightarrow> nat \<Rightarrow> u32 \<Rightarrow> core \<Rightarrow> core" where
  "entered pad ret ts g num err c =
     alltraps_in pad ret (thdlr num (interrupt pad ts g (if pushes_error_code num then Some err else None) c))"

text \<open>The interrupted registers as a \<^verbatim>\<open>struct Trapframe\<close>.\<close>

definition frame_of :: "u16 \<Rightarrow> taskstate \<Rightarrow> nat \<Rightarrow> u32 \<Rightarrow> core \<Rightarrow> trapframe" where
  "frame_of pad ts num err c =
     \<lparr>tf_regs = (c_regs c)\<lparr>reg_oesp := ts_esp0 ts - 36\<rparr>, tf_es = c_es c, tf_padding1 = pad, tf_ds = c_ds c,
      tf_padding2 = pad, tf_trapno = of_nat num, tf_err = (if pushes_error_code num then err else 0), tf_eip = c_eip c,
      tf_cs = c_cs c, tf_padding3 = pad, tf_eflags = c_eflags c, tf_esp = c_esp c, tf_ss = c_ss c, tf_padding4 = pad\<rparr>"

text \<open>The stubs agree with the processor.\<close>

lemma stub_table: "has_error_code num = pushes_error_code num"
  by (auto simp: has_error_code_def pushes_error_code_def)

lemma entered_memory:
  "c_mem (entered pad ret ts g num err c) =
     store_at (ts_esp0 ts - 76) (bytes_of_u32 ret @ bytes_of_u32 (ts_esp0 ts - 68) @ bytes_of_trapframe (frame_of pad ts num err c)) (c_mem c)"
  "c_esp (entered pad ret ts g num err c) = ts_esp0 ts - 76"
  by (cases "pushes_error_code num",
    simp_all add: stub_table entered_def alltraps_in_def pushal_def thdlr_def interrupt_def push_word_def push_seg_def push_push
      Let_def frame_of_def bytes_of_trapframe_def bytes_of_pushregs_def)

lemma entered_flags:
  "gd_type g = STS_IG32 \<Longrightarrow> c_eflags (entered pad ret ts g num err c) AND FL_IF = 0"
  by (simp add: entered_def alltraps_in_def pushal_def thdlr_def interrupt_def push_word_def push_seg_def Let_def
      bit.conj_disj_distrib2 and.assoc split: option.split)

lemma load_prefix:
  assumes "length (xs @ ys @ zs) < 2 ^ 32"
  shows "load_at (a + of_nat (length xs)) (length ys) (store_at a (xs @ ys @ zs) m) = ys"
proof -
  have "load_at a (length xs + (length ys + length zs)) (store_at a (xs @ ys @ zs) m) = xs @ ys @ zs"
    using load_stored [OF assms, of a m] by simp
  then show ?thesis unfolding load_at_append [of _ "length xs"] load_at_append [of _ "length ys"] by simp
qed

section \<open>Out of the kernel\<close>

text \<open>The bytes on top of the stack.\<close>

definition on_stack :: "u8 list \<Rightarrow> core \<Rightarrow> bool" where
  "on_stack bs c \<longleftrightarrow> load_at (c_esp c) (length bs) (c_mem c) = bs"

lemma on_stack_append:
  "on_stack (bs @ cs) c \<longleftrightarrow> on_stack bs c \<and> load_at (c_esp c + of_nat (length bs)) (length cs) (c_mem c) = cs"
  by (simp add: on_stack_def load_at_append append_eq_append_conv)

lemma pop_word_on_stack:
  "on_stack (bytes_of_u32 v @ rest) c \<Longrightarrow> pop_word c = (v, c\<lparr>c_esp := c_esp c + 4\<rparr>)"
  "on_stack (bytes_of_u32 v @ rest) c \<Longrightarrow> on_stack rest (c\<lparr>c_esp := c_esp c + 4\<rparr>)"
  unfolding on_stack_append by (simp_all add: on_stack_def pop_word_def u32_of_bytes_of_u32)

lemma pop_seg_on_stack:
  "on_stack (bytes_of_u16 v @ bytes_of_u16 pad @ rest) c \<Longrightarrow> pop_seg c = (v, c\<lparr>c_esp := c_esp c + 4\<rparr>)"
  "on_stack (bytes_of_u16 v @ bytes_of_u16 pad @ rest) c \<Longrightarrow> on_stack rest (c\<lparr>c_esp := c_esp c + 4\<rparr>)"
  unfolding on_stack_append append_assoc [symmetric]
  by (simp_all add: on_stack_append on_stack_def pop_seg_def u16_of_bytes_of_u16 load_at_append add.assoc)

text \<open>The stack only matters from the pointer on.\<close>

lemma on_stack_upd [simp]:
  "on_stack bs (c\<lparr>c_regs := r\<rparr>) = on_stack bs c" "on_stack bs (c\<lparr>c_es := s\<rparr>) = on_stack bs c"
  "on_stack bs (c\<lparr>c_ds := s\<rparr>) = on_stack bs c" "on_stack bs (c\<lparr>c_cs := s\<rparr>) = on_stack bs c"
  "on_stack bs (c\<lparr>c_eip := v\<rparr>) = on_stack bs c" "on_stack bs (c\<lparr>c_eflags := v\<rparr>) = on_stack bs c"
  by (simp_all add: on_stack_def)

lemma on_stack_shift [simp]: "on_stack bs (c\<lparr>c_esp := a, c_regs := r\<rparr>) = on_stack bs (c\<lparr>c_esp := a\<rparr>)"
  by (simp add: on_stack_def)

lemma popal_on_stack:
  assumes "on_stack (bytes_of_pushregs r @ rest) c"
  shows "popal c = c\<lparr>c_esp := c_esp c + 32, c_regs := r\<lparr>reg_oesp := reg_oesp (c_regs c)\<rparr>\<rparr>"
    "on_stack rest (c\<lparr>c_esp := c_esp c + 32\<rparr>)"
proof -
  have pop: "pop_word (c\<lparr>c_esp := a\<rparr>) = (v, c\<lparr>c_esp := a + 4\<rparr>)" "on_stack bs (c\<lparr>c_esp := a + 4\<rparr>)"
    if "on_stack (bytes_of_u32 v @ bs) (c\<lparr>c_esp := a\<rparr>)" for a v bs
    using pop_word_on_stack [OF that] by simp_all
  have s: "on_stack (bytes_of_u32 (reg_edi r) @ bytes_of_u32 (reg_esi r) @ bytes_of_u32 (reg_ebp r)
     @ bytes_of_u32 (reg_oesp r) @ bytes_of_u32 (reg_ebx r) @ bytes_of_u32 (reg_edx r)
     @ bytes_of_u32 (reg_ecx r) @ bytes_of_u32 (reg_eax r) @ rest) (c\<lparr>c_esp := c_esp c\<rparr>)"
    using assms by (simp add: bytes_of_pushregs_def)
  note t1 = pop [OF s]
  note t2 = pop [OF t1(2)]
  note t3 = pop [OF t2(2)]
  note t4 = pop [OF t3(2)]
  note t5 = pop [OF t4(2)]
  note t6 = pop [OF t5(2)]
  note t7 = pop [OF t6(2)]
  note t8 = pop [OF t7(2)]
  show "on_stack rest (c\<lparr>c_esp := c_esp c + 32\<rparr>)" using t8(2) by (simp add: add.assoc)
  show "popal c = c\<lparr>c_esp := c_esp c + 32, c_regs := r\<lparr>reg_oesp := reg_oesp (c_regs c)\<rparr>\<rparr>"
    using t1(1) t2(1) t3(1) t4(1) t5(1) t6(1) t7(1) t8(1) by (simp add: popal_def Let_def add.assoc)
qed

lemma pops:
  "on_stack (bytes_of_u32 v @ bs) (c\<lparr>c_esp := a\<rparr>) \<Longrightarrow> pop_word (c\<lparr>c_esp := a\<rparr>) = (v, c\<lparr>c_esp := a + 4\<rparr>)"
  "on_stack (bytes_of_u32 v @ bs) (c\<lparr>c_esp := a\<rparr>) \<Longrightarrow> on_stack bs (c\<lparr>c_esp := a + 4\<rparr>)"
  "on_stack (bytes_of_u16 w @ bytes_of_u16 pad @ bs) (c\<lparr>c_esp := a\<rparr>) \<Longrightarrow> pop_seg (c\<lparr>c_esp := a\<rparr>) = (w, c\<lparr>c_esp := a + 4\<rparr>)"
  "on_stack (bytes_of_u16 w @ bytes_of_u16 pad @ bs) (c\<lparr>c_esp := a\<rparr>) \<Longrightarrow> on_stack bs (c\<lparr>c_esp := a + 4\<rparr>)"
  using pop_word_on_stack [of v bs "c\<lparr>c_esp := a\<rparr>"] pop_seg_on_stack [of w pad bs "c\<lparr>c_esp := a\<rparr>"] by simp_all

lemma iret_on_stack:
  assumes "on_stack (bytes_of_u32 (tf_eip f) @ bytes_of_u16 (tf_cs f) @ bytes_of_u16 (tf_padding3 f) @ bytes_of_u32 (tf_eflags f)
     @ bytes_of_u32 (tf_esp f) @ bytes_of_u16 (tf_ss f) @ bytes_of_u16 (tf_padding4 f)) c" "tf_cs f AND 3 \<noteq> 0"
  shows "iret c = c\<lparr>c_eip := tf_eip f, c_cs := tf_cs f, c_eflags := (tf_eflags f AND 0x003F7FD5) OR 2,
    c_esp := tf_esp f, c_ss := tf_ss f\<rparr>"
proof -
  have s: "on_stack (bytes_of_u32 (tf_eip f) @ bytes_of_u16 (tf_cs f) @ bytes_of_u16 (tf_padding3 f) @ bytes_of_u32 (tf_eflags f)
     @ bytes_of_u32 (tf_esp f) @ bytes_of_u16 (tf_ss f) @ bytes_of_u16 (tf_padding4 f)) (c\<lparr>c_esp := c_esp c\<rparr>)"
    using assms(1) by simp
  note t1 = pops(1,2) [OF s]
  note t2 = pops(3,4) [OF t1(2)]
  note t3 = pops(1,2) [OF t2(2)]
  note t4 = pops(1,2) [OF t3(2)]
  have t5: "on_stack (bytes_of_u16 (tf_ss f) @ bytes_of_u16 (tf_padding4 f) @ []) (c\<lparr>c_esp := c_esp c + 4 + 4 + 4 + 4\<rparr>)"
    using t4(2) by simp
  have esp: "u32_of_bytes (load_at (c_esp c + 4 + 4 + 4) 4 (c_mem c)) = tf_esp f"
    using t4(1) by (simp add: pop_word_def)
  have ss: "u16_of_bytes (load_at (c_esp c + 4 + 4 + 4 + 4) 2 (c_mem c)) = tf_ss f"
    using pops(3) [OF t5] by (simp add: pop_seg_def)
  show ?thesis
    using t1(1) t2(1) t3(1) esp ss assms(2) by (simp add: iret_def pop_word_def pop_seg_def Let_def)
qed

lemma leave_on_stack:
  assumes "on_stack (bytes_of_trapframe f) c" "tf_cs f AND 3 \<noteq> 0"
  shows "leave c = c\<lparr>c_regs := (tf_regs f)\<lparr>reg_oesp := reg_oesp (c_regs c)\<rparr>, c_es := tf_es f, c_ds := tf_ds f,
    c_eip := tf_eip f, c_cs := tf_cs f, c_eflags := (tf_eflags f AND 0x003F7FD5) OR 2,
    c_esp := tf_esp f, c_ss := tf_ss f\<rparr>"
proof -
  note t0 = popal_on_stack [OF assms(1) [unfolded bytes_of_trapframe_def]]
  note t1 = pops(3,4) [OF t0(2)]
  note t2 = pops(3,4) [OF t1(2)]
  note t3 = pops(1,2) [OF t2(2)]
  note t4 = pops(1,2) [OF t3(2)]
  have es: "u16_of_bytes (load_at (c_esp c + 32) 2 (c_mem c)) = tf_es f"
    using t1(1) by (simp add: pop_seg_def)
  have ds: "u16_of_bytes (load_at (c_esp c + 32 + 4) 2 (c_mem c)) = tf_ds f"
    using t2(1) by (simp add: pop_seg_def)
  let ?c = "c\<lparr>c_regs := (tf_regs f)\<lparr>reg_oesp := reg_oesp (c_regs c)\<rparr>, c_es := tf_es f, c_ds := tf_ds f,
    c_esp := c_esp c + 32 + 4 + 4 + 4 + 4\<rparr>"
  have "leave c = iret ?c"
    using es ds by (simp add: leave_def t0(1) pop_seg_def Let_def add.assoc)
  moreover have "on_stack (bytes_of_u32 (tf_eip f) @ bytes_of_u16 (tf_cs f) @ bytes_of_u16 (tf_padding3 f) @ bytes_of_u32 (tf_eflags f)
     @ bytes_of_u32 (tf_esp f) @ bytes_of_u16 (tf_ss f) @ bytes_of_u16 (tf_padding4 f)) ?c"
    using t4(2) by (simp add: on_stack_def)
  ultimately show ?thesis using iret_on_stack [of f ?c] assms(2) by simp
qed

section \<open>Properties\<close>

text \<open>
  C23. However user mode is interrupted, the stub of the vector and \<^verbatim>\<open>_alltraps\<close> call \<^verbatim>\<open>trap\<close> with a pointer to a
  complete \<^verbatim>\<open>struct Trapframe\<close> of the interrupted registers: for the exceptions for which the processor pushes an error
  code the stub takes it, for all others it puts 0 in its place. Behind an interrupt gate interrupts are off; only the 76 bytes below the kernel stack have changed, and after \<^verbatim>\<open>pcb_exec\<close> of a
  process the frame is exactly its \<^verbatim>\<open>pcb->tf\<close>.
\<close>

theorem entry_builds_frame:
  "let c' = entered pad ret ts g num err c; a = ts_esp0 ts - 68 in
      load_at a sizeof_Trapframe (c_mem c') = bytes_of_trapframe (frame_of pad ts num err c)
    \<and> c_esp c' = a - 8 \<and> load_at (c_esp c' + 4) 4 (c_mem c') = bytes_of_u32 a
    \<and> (gd_type g = STS_IG32 \<longrightarrow> c_eflags c' AND FL_IF = 0)
    \<and> (\<forall>p. 76 \<le> unat (p - c_esp c') \<longrightarrow> c_mem c' p = c_mem c p)
    \<and> (ts_esp0 ts = pcb + of_nat sizeof_PCB \<longrightarrow> a = pcb + of_nat offsetof_tf)"
proof -
  let ?c = "entered pad ret ts g num err c" and ?a = "ts_esp0 ts - 68"
  let ?fr = "bytes_of_trapframe (frame_of pad ts num err c)"
  have m: "c_mem ?c = store_at (?a - 8) (bytes_of_u32 ret @ bytes_of_u32 ?a @ ?fr) (c_mem c)" "c_esp ?c = ?a - 8"
    by (simp_all add: entered_memory)
  have "load_at ?a 68 (c_mem ?c) = ?fr"
    using load_prefix [of "bytes_of_u32 ret @ bytes_of_u32 ?a" ?fr "[]" "?a - 8" "c_mem c"] m by simp
  moreover have "load_at (?a - 4) 4 (c_mem ?c) = bytes_of_u32 ?a"
    using load_prefix [of "bytes_of_u32 ret" "bytes_of_u32 ?a" ?fr "?a - 8" "c_mem c"] m by simp
  moreover have "c_mem ?c p = c_mem c p" if "76 \<le> unat (p - (?a - 8))" for p
    using that m by (simp add: store_at_eq Let_def)
  moreover have "ts_esp0 ts = pcb + of_nat sizeof_PCB \<longrightarrow> ?a = pcb + of_nat offsetof_tf"
    by (simp add: sizeof_PCB_def)
  ultimately show ?thesis using m(2) entered_flags by (simp add: Let_def)
qed

definition user_core :: core where
  "user_core = \<lparr>c_regs = zero_regs\<lparr>reg_eax := 9, reg_ebx := 0x1234\<rparr>, c_es = 0x23, c_ds = 0x23, c_ss = 0x23, c_cs = 0x1B,
     c_eip = 0x8048100, c_esp = 0x83FFFF0, c_eflags = 0x202, c_mem = (\<lambda>p. ucast p)\<rparr>"

definition task :: taskstate where "task = zero_taskstate\<lparr>ts_esp0 := 0xF0109060, ts_ss0 := GD_KD\<rparr>"

definition page_fault_gate :: gatedesc where "page_fault_gate = SETGATE False GD_KT 0xF0101234 0 null_gate"

theorem entry_builds_frame_witness:
  "load_at 0xF010901C 68 (c_mem (entered 0 0xF0101300 task page_fault_gate 14 4 user_core))
     = bytes_of_trapframe (frame_of 0 task 14 4 user_core)
   \<and> ts_esp0 task - 68 = 0xF0108000 + of_nat offsetof_tf
   \<and> c_eflags (entered 0 0xF0101300 task page_fault_gate 14 4 user_core) AND FL_IF = 0"
proof -
  have g: "gd_type page_fault_gate = STS_IG32" by (simp add: page_fault_gate_def SETGATE_def)
  show ?thesis
    using entry_builds_frame [of 0 "0xF0101300" task page_fault_gate 14 4 user_core "0xF0108000"] g
    by (simp add: Let_def task_def sizeof_PCB_def offsetof_tf_def del: STS_IG32_def)
qed

text \<open>
  C24. A process resumes exactly where it was interrupted: if what \<^verbatim>\<open>trap\<close> does leaves its \<^verbatim>\<open>tf\<close> in memory but for
  \<^verbatim>\<open>eax\<close>, then the return of \<^verbatim>\<open>_alltraps\<close>, or any later \<^verbatim>\<open>pcb_exec\<close>, restores every register, segment, the
  flags and the user's stack, with the new \<^verbatim>\<open>eax\<close>.
\<close>

theorem trap_round_trip:
  assumes "c_cs c AND 3 = 3" "flags_ok (c_eflags c)"
    and "load_at (ts_esp0 ts - 68) sizeof_Trapframe (c_mem k) =
      bytes_of_trapframe ((frame_of pad ts num err c)\<lparr>tf_regs := (c_regs c)\<lparr>reg_oesp := ts_esp0 ts - 36, reg_eax := v\<rparr>\<rparr>)"
  shows "exec_frame (ts_esp0 ts - 68) k =
      c\<lparr>c_regs := (c_regs c)\<lparr>reg_oesp := reg_oesp (c_regs k), reg_eax := v\<rparr>, c_mem := c_mem k\<rparr>
    \<and> (c_esp k = ts_esp0 ts - 72 \<longrightarrow> alltraps_out k = exec_frame (ts_esp0 ts - 68) k)"
proof -
  let ?f = "(frame_of pad ts num err c)\<lparr>tf_regs := (c_regs c)\<lparr>reg_oesp := ts_esp0 ts - 36, reg_eax := v\<rparr>\<rparr>"
  have s: "on_stack (bytes_of_trapframe ?f) (k\<lparr>c_esp := ts_esp0 ts - 68\<rparr>)"
    using assms(3) by (simp add: on_stack_def)
  have fl: "(c_eflags c AND 0x003F7FD5) OR 2 = c_eflags c"
  proof -
    have "(((c_eflags c AND 0x00247FD5) OR 2) AND 0x003F7FD5) OR 2 = (c_eflags c AND 0x00247FD5) OR 2"
      by (simp add: bit.conj_disj_distrib2 and.assoc)
    then show ?thesis using assms(2) by (simp add: flags_ok_def)
  qed
  have "tf_cs ?f AND 3 \<noteq> 0" using assms(1) by (simp add: frame_of_def)
  from leave_on_stack [OF s this] fl
  have "exec_frame (ts_esp0 ts - 68) k =
      c\<lparr>c_regs := (c_regs c)\<lparr>reg_oesp := reg_oesp (c_regs k), reg_eax := v\<rparr>, c_mem := c_mem k\<rparr>"
    by (simp add: exec_frame_def frame_of_def)
  then show ?thesis by (auto simp: alltraps_out_def exec_frame_def)
qed

text \<open>A page fault that is passed over: the process continues as it was.\<close>

theorem trap_round_trip_witness:
  "exec_frame 0xF010901C (entered 0 0xF0101300 task page_fault_gate 14 4 user_core)
    = user_core\<lparr>c_mem := c_mem (entered 0 0xF0101300 task page_fault_gate 14 4 user_core)\<rparr>"
proof -
  let ?k = "entered 0 0xF0101300 task page_fault_gate 14 4 user_core"
  have a: "ts_esp0 task - 68 = 0xF010901C" by (simp add: task_def)
  have "(frame_of 0 task 14 4 user_core)\<lparr>tf_regs := (c_regs user_core)\<lparr>reg_oesp := ts_esp0 task - 36, reg_eax := 9\<rparr>\<rparr>
      = frame_of 0 task 14 4 user_core" by (simp add: frame_of_def user_core_def)
  then have m: "load_at (ts_esp0 task - 68) sizeof_Trapframe (c_mem ?k) = bytes_of_trapframe
      ((frame_of 0 task 14 4 user_core)\<lparr>tf_regs := (c_regs user_core)\<lparr>reg_oesp := ts_esp0 task - 36, reg_eax := 9\<rparr>\<rparr>)"
    using load_prefix [of "bytes_of_u32 0xF0101300 @ bytes_of_u32 (ts_esp0 task - 68)"
        "bytes_of_trapframe (frame_of 0 task 14 4 user_core)" "[]" "ts_esp0 task - 76" "c_mem user_core"]
    by (simp add: entered_memory)
  have r: "reg_oesp (c_regs ?k) = 0"
    by (simp add: entered_def alltraps_in_def pushal_def thdlr_def interrupt_def push_word_def push_seg_def Let_def
        has_error_code_def pushes_error_code_def user_core_def zero_regs_def)
  have "c_cs user_core AND 3 = 3" "flags_ok (c_eflags user_core)" by (simp_all add: user_core_def flags_ok_def)
  from trap_round_trip [OF this m] r show ?thesis unfolding a by (simp add: user_core_def zero_regs_def)
qed

end
