(* ===== verification/Tlb.thy ===== *)
theory Tlb
  imports Paging X86
begin

text \<open>
  Paging with the translation buffer. The other theories translate every address by a walk through the
  tables; the processor keeps translations and walks only for a page it has none of. Which ones it
  keeps is its own business: \<open>keep\<close> is the parameter for that. Here \<^verbatim>\<open>load_updir\<close> and the copy of a fork
  are modelled with the buffer, and it is shown when the buffer cannot be noticed, and where
  \<^verbatim>\<open>pmap_init_and_copy\<close> forgets it.
\<close>

section \<open>Accesses through the buffer\<close>

definition tlb_access :: "(tlb \<Rightarrow> tlb) \<Rightarrow> (u32 \<Rightarrow> (u32 \<times> u32) option) \<Rightarrow> u32 \<Rightarrow> tlb \<Rightarrow> (u32 \<times> tlb) option" where
  "tlb_access keep walk va t =
     (case t (PGNUM va) of
        Some (f, r) \<Rightarrow> Some (f OR PGOFF va, keep t)
      | None \<Rightarrow>
          (case walk va of
             None \<Rightarrow> None
           | Some (pa, r) \<Rightarrow> Some (pa, keep (t(PGNUM va \<mapsto> (PTE_ADDR pa, r))))))"

fun tlb_memcpy :: "(tlb \<Rightarrow> tlb) \<Rightarrow> (u32 \<Rightarrow> (u32 \<times> u32) option) \<Rightarrow> u32 \<Rightarrow> u32 \<Rightarrow> nat \<Rightarrow> tlb \<Rightarrow> memory \<Rightarrow> (tlb \<times> memory) result" where
  "tlb_memcpy keep walk dest src 0 t m = Inr (t, m)"
| "tlb_memcpy keep walk dest src (Suc n) t m =
     (case tlb_access keep walk src t of
        None \<Rightarrow> Inl (Out_of_bounds ''page fault'')
      | Some (ps, t1) \<Rightarrow>
          (case tlb_access keep walk dest t1 of
             None \<Rightarrow> Inl (Out_of_bounds ''page fault'')
           | Some (pd, t2) \<Rightarrow> tlb_memcpy keep walk (dest + 1) (src + 1) n t2 (m(pd := m ps))))"

text \<open>A buffer that holds on to the pages with \<open>K\<close>, and to no others.\<close>

definition keep_only :: "(u32 \<Rightarrow> bool) \<Rightarrow> tlb \<Rightarrow> tlb" where
  "keep_only K t = (\<lambda>n. if K n then t n else None)"

section \<open>load\_updir, and the copy of a fork\<close>

text \<open>\<open>updir\<close> is the address the linker gave \<^verbatim>\<open>user_pgdir\<close>.\<close>

definition load_updir :: "u32 \<Rightarrow> nat \<Rightarrow> cpu \<Rightarrow> cpu" where
  "load_updir updir pid c = lcr3 (updir + of_nat (PGSIZE * pid) - KERNBASE) c"

definition pmap_init_and_copy_tlb :: "(tlb \<Rightarrow> tlb) \<Rightarrow> u32 \<Rightarrow> u32 \<Rightarrow> nat \<Rightarrow> nat \<Rightarrow> nat \<Rightarrow> paging \<times> tlb \<Rightarrow> (paging \<times> tlb) result" where
  "pmap_init_and_copy_tlb keep etp utp cr3 dest_pid src_pid = (\<lambda>(st, t).
     andThen (pcb_page_init etp dest_pid st) (\<lambda>st1.
     andThen (alloc_page utp 0x8000000 (PTE_P OR PTE_W OR PTE_U) dest_pid st1) (\<lambda>(pa, st2).
     andThen (pgdir_check src_pid) (\<lambda>_.
       let st3 = set_pde src_pid (unat (PDX new_addr)) (table_pa utp dest_pid OR PTE_P OR PTE_W OR PTE_U) st2
       in andThen (tlb_memcpy keep (translate etp utp st3 cr3) new_addr 0x8000000 PTSIZE t (pmem st3)) (\<lambda>(t1, m).
            Inr (set_pde src_pid (unat (PDX new_addr)) 0 (st3\<lparr>pmem := m\<rparr>), t1))))))"

section \<open>What a buffer amounts to\<close>

text \<open>The translation an access gets, and a buffer that agrees with the tables outside the pages \<open>K\<close>.\<close>

definition seen :: "(u32 \<Rightarrow> (u32 \<times> u32) option) \<Rightarrow> tlb \<Rightarrow> u32 \<Rightarrow> u32 option" where
  "seen walk t va = (case t (PGNUM va) of Some (f, r) \<Rightarrow> Some (f OR PGOFF va) | None \<Rightarrow> map_option fst (walk va))"

definition agrees :: "(u32 \<Rightarrow> bool) \<Rightarrow> (u32 \<Rightarrow> (u32 \<times> u32) option) \<Rightarrow> tlb \<Rightarrow> bool" where
  "agrees K walk t \<longleftrightarrow>
     (\<forall>va f r. t (PGNUM va) = Some (f, r) \<longrightarrow> \<not> K (PGNUM va) \<longrightarrow> walk va = Some (f OR PGOFF va, r))"

text \<open>A buffer that agrees everywhere; the empty one does.\<close>

abbreviation coherent :: "(u32 \<Rightarrow> (u32 \<times> u32) option) \<Rightarrow> tlb \<Rightarrow> bool" where
  "coherent \<equiv> agrees (\<lambda>_. False)"

text \<open>
  The contract of a walk with a buffer: the tables map whole pages, and the buffer drops entries but
  makes up none, and drops none of the pages \<open>K\<close>.
\<close>

locale buffered_walk =
  fixes walk :: "u32 \<Rightarrow> (u32 \<times> u32) option"
    and keep :: "tlb \<Rightarrow> tlb"
    and K :: "u32 \<Rightarrow> bool"
  assumes paged: "walk va = Some (pa, r) \<Longrightarrow> PGNUM vb = PGNUM va \<Longrightarrow> walk vb = Some (PTE_ADDR pa OR PGOFF vb, r)"
    and keep_sub: "keep t n = Some e \<Longrightarrow> t n = Some e"
    and keep_held: "K n \<Longrightarrow> keep t n = t n"

context buffered_walk begin

lemma access_result: "map_option fst (tlb_access keep walk va t) = seen walk t va"
  by (auto simp: tlb_access_def seen_def split: option.split)

lemma walk_frame: "walk va = Some (pa, r) \<Longrightarrow> pa = PTE_ADDR pa OR PGOFF va"
  using paged [of va pa r va] by simp

lemma access_agrees:
  assumes "agrees K walk t" "tlb_access keep walk va t = Some (pa, t')"
  shows "agrees K walk t'"
  using assms paged unfolding agrees_def tlb_access_def
  by (fastforce split: option.splits if_splits dest!: keep_sub)

lemma keep_seen: "agrees K walk t \<Longrightarrow> seen walk (keep t) vb = seen walk t vb"
  using keep_held [of "PGNUM vb" t] keep_sub [of t "PGNUM vb"] unfolding agrees_def seen_def
  by (cases "K (PGNUM vb)"; cases "keep t (PGNUM vb)"; cases "t (PGNUM vb)") force+

lemma fill_agrees:
  assumes "agrees K walk t" "walk va = Some (pa, r)"
  shows "agrees K walk (t(PGNUM va \<mapsto> (PTE_ADDR pa, r)))"
  using assms paged [OF assms(2)] unfolding agrees_def by auto

lemma fill_seen:
  assumes "walk va = Some (pa, r)" "t (PGNUM va) = None"
  shows "seen walk (t(PGNUM va \<mapsto> (PTE_ADDR pa, r))) vb = seen walk t vb"
  using assms paged [OF assms(1), of vb] by (auto simp: seen_def)

lemma access_seen:
  assumes "agrees K walk t" "tlb_access keep walk va t = Some (pa, t')"
  shows "seen walk t' vb = seen walk t vb"
  using assms keep_seen fill_agrees fill_seen
  by (auto simp: tlb_access_def split: option.splits)

text \<open>An access leaves a page of \<open>K\<close> in the buffer, and those that were there.\<close>

lemma access_held:
  assumes "tlb_access keep walk va t = Some (pa, t')" "K n" "n = PGNUM va \<or> t n \<noteq> None"
  shows "t' n \<noteq> None"
  using assms by (auto simp: tlb_access_def keep_held split: option.splits if_splits)

text \<open>A copy is the copy through what the buffer shows at its start.\<close>

lemma memcpy_seen:
  "agrees K walk t \<Longrightarrow>
     (case virtual_memcpy (seen walk t) dest src n m of
        Inl e \<Rightarrow> tlb_memcpy keep walk dest src n t m = Inl e
      | Inr m' \<Rightarrow> \<exists>t'. tlb_memcpy keep walk dest src n t m = Inr (t', m') \<and> agrees K walk t'
          \<and> (\<forall>q. K q \<longrightarrow> t q \<noteq> None \<or> (\<exists>i < n. q = PGNUM (dest + of_nat i)) \<longrightarrow> t' q \<noteq> None))"
proof (induction n arbitrary: dest src t m)
  case (Suc n dest src t m)
  show ?case
  proof (cases "tlb_access keep walk src t")
    case None
    then show ?thesis using access_result [of src t] by simp
  next
    case (Some a)
    obtain ps t1 where a: "tlb_access keep walk src t = Some (ps, t1)" using Some by (cases a) auto
    have t1: "agrees K walk t1" "seen walk t1 = seen walk t" "seen walk t src = Some ps"
      using access_agrees [OF Suc.prems a] access_seen [OF Suc.prems a] access_result [of src t] a by auto
    show ?thesis
    proof (cases "tlb_access keep walk dest t1")
      case None
      then show ?thesis using a t1 access_result [of dest t1] by simp
    next
      case (Some b)
      obtain pd t2 where b: "tlb_access keep walk dest t1 = Some (pd, t2)" using Some by (cases b) auto
      have t2: "agrees K walk t2" "seen walk t2 = seen walk t" "seen walk t dest = Some pd"
        using access_agrees [OF t1(1) b] access_seen [OF t1(1) b] access_result [of dest t1] b t1 by auto
      have held: "t2 q \<noteq> None" if "K q" "t q \<noteq> None \<or> q = PGNUM dest" for q
        using that access_held [OF a, of q] access_held [OF b, of q] by blast
      have split: "(\<exists>i < Suc n. q = PGNUM (dest + of_nat i)) \<longleftrightarrow>
          q = PGNUM dest \<or> (\<exists>i < n. q = PGNUM (dest + 1 + of_nat i))" for q
        by (auto simp: less_Suc_eq_0_disj add.assoc)
      define m1 where "m1 = m(pd := m ps)"
      have step: "virtual_memcpy (seen walk t) dest src (Suc n) m = virtual_memcpy (seen walk t2) (dest + 1) (src + 1) n m1"
          "tlb_memcpy keep walk dest src (Suc n) t m = tlb_memcpy keep walk (dest + 1) (src + 1) n t2 m1"
        using a b t1(3) t2(2,3) by (simp_all add: m1_def)
      note IH = Suc.IH [OF t2(1), of "dest + 1" "src + 1" m1]
      show ?thesis
      proof (cases "virtual_memcpy (seen walk t2) (dest + 1) (src + 1) n m1")
        case (Inl e)
        then show ?thesis using IH unfolding step by simp
      next
        case (Inr m')
        then obtain t' where "tlb_memcpy keep walk (dest + 1) (src + 1) n t2 m1 = Inr (t', m')" "agrees K walk t'"
          "\<forall>q. K q \<longrightarrow> t2 q \<noteq> None \<or> (\<exists>i < n. q = PGNUM (dest + 1 + of_nat i)) \<longrightarrow> t' q \<noteq> None"
          using IH by auto
        then show ?thesis using Inr held unfolding step split by simp
      qed
    qed
  qed
qed simp

end

section \<open>The tables and the buffer\<close>

lemma PTE_ADDR_frame: "PTE_ADDR (PTE_ADDR pte OR PGOFF va) = PTE_ADDR pte"
  unfolding PTE_ADDR_def PGOFF_def by (rule bit_word_eqI) (auto simp: bit_simps bit_masks)

lemma translate_paged:
  assumes "translate etp utp st pid va = Some (pa, r)" "PGNUM vb = PGNUM va"
  shows "translate etp utp st pid vb = Some (PTE_ADDR pa OR PGOFF vb, r)"
  using assms(1) same_page [OF assms(2)]
  by (auto simp: translate_def Let_def PTE_ADDR_frame split: if_splits option.splits)

text \<open>Any buffer that makes up no entries, and one that holds on to the pages \<open>L\<close>.\<close>

lemma translate_buffered:
  assumes "\<And>t n e. keep t n = Some e \<Longrightarrow> t n = Some e"
  shows "buffered_walk (translate etp utp st pid) keep (\<lambda>_. False)"
  by unfold_locales (auto simp: translate_paged dest: assms)

lemma keep_only_sub: "keep_only L t n = Some e \<Longrightarrow> t n = Some e"
  by (simp add: keep_only_def split: if_splits)

interpretation held: buffered_walk "translate etp utp st pid" "keep_only L" L for etp utp st pid L
  by unfold_locales (auto simp: translate_paged keep_only_def split: if_splits)

lemma agrees_seen: "coherent walk t \<Longrightarrow> seen walk t va = map_option fst (walk va)"
  by (auto simp: seen_def agrees_def split: option.split)

lemma agrees_empty [simp]: "agrees K walk Map.empty"
  by (simp add: agrees_def)

text \<open>After \<^verbatim>\<open>load_updir\<close> no change of the tables can be missed.\<close>

lemma load_updir_coherent: "coherent walk (cpu_tlb (load_updir updir pid c))"
  by (simp add: load_updir_def lcr3_def)

lemma memcpy_keep_only:
  "tlb_memcpy (keep_only L) walk dest src n t m = Inr (t', m') \<Longrightarrow> \<forall>q. t q \<noteq> None \<longrightarrow> L q
    \<Longrightarrow> t' q \<noteq> None \<Longrightarrow> L q"
proof (induction n arbitrary: dest src t m)
  case (Suc n dest src t m)
  obtain ps t1 pd t2 where a: "tlb_access (keep_only L) walk src t = Some (ps, t1)"
      "tlb_access (keep_only L) walk dest t1 = Some (pd, t2)"
      "tlb_memcpy (keep_only L) walk (dest + 1) (src + 1) n t2 (m(pd := m ps)) = Inr (t', m')"
    using Suc.prems(1) by (auto split: option.splits)
  have "\<forall>q. t2 q \<noteq> None \<longrightarrow> L q" using a(2) by (auto simp: tlb_access_def keep_only_def split: option.splits if_splits)
  from Suc.IH [OF a(3) this Suc.prems(3)] show ?case .
qed simp

text \<open>A copy between two lists of addresses.\<close>

lemma virtual_memcpy_lists:
  assumes "\<And>i. i < n \<Longrightarrow> tr (src + of_nat i) = Some (s i)" "\<And>i. i < n \<Longrightarrow> tr (dest + of_nat i) = Some (d i)"
    and "inj_on d {..<n}" "\<And>i j. i < n \<Longrightarrow> j < n \<Longrightarrow> s i \<noteq> d j"
  shows "\<exists>m'. virtual_memcpy tr dest src n m = Inr m' \<and> (\<forall>i < n. m' (d i) = m (s i))
    \<and> (\<forall>p. (\<forall>i < n. p \<noteq> d i) \<longrightarrow> m' p = m p)"
  using assms
proof (induction n arbitrary: dest src s d m)
  case (Suc n dest src s d m)
  let ?m = "m(d 0 := m (s 0))"
  have "\<exists>m'. virtual_memcpy tr (dest + 1) (src + 1) n ?m = Inr m' \<and> (\<forall>i < n. m' (d (Suc i)) = ?m (s (Suc i)))
      \<and> (\<forall>p. (\<forall>i < n. p \<noteq> d (Suc i)) \<longrightarrow> m' p = ?m p)"
  proof (rule Suc.IH)
    show "inj_on (\<lambda>i. d (Suc i)) {..<n}" using Suc.prems(3) by (auto simp: inj_on_def)
  qed (use Suc.prems(1,2) [of "Suc _"] Suc.prems(4) in \<open>simp_all add: add.assoc\<close>)
  then obtain m' where m': "virtual_memcpy tr (dest + 1) (src + 1) n ?m = Inr m'"
      "\<And>i. i < n \<Longrightarrow> m' (d (Suc i)) = ?m (s (Suc i))" "\<And>p. \<forall>i < n. p \<noteq> d (Suc i) \<Longrightarrow> m' p = ?m p" by blast
  have d0: "d 0 \<noteq> d (Suc i)" if "i < n" for i using Suc.prems(3) that by (auto simp: inj_on_def)
  have "m' (d i) = m (s i)" if "i < Suc n" for i
    using that m'(2,3) d0 Suc.prems(4) [of i 0] by (cases i) auto
  moreover have "m' p = m p" if "\<forall>i < Suc n. p \<noteq> d i" for p
    using that m'(3) [of p] by auto
  ultimately show ?case using m'(1) Suc.prems(1,2) [of 0] by auto
qed simp

section \<open>One fork\<close>

text \<open>Both copies run on the tables \<open>s3\<close> in which the parent sees the child's frames at 0x10000000.\<close>

lemma fork_steps:
  assumes "src < 28" "dest < 28" "dest \<noteq> src"
  obtains s3 where
    "\<And>keep t. pmap_init_and_copy_tlb keep etp utp src dest src (st, t) =
       andThen (tlb_memcpy keep (translate etp utp s3 src) 0x10000000 0x8000000 4194304 t (pmem st))
         (\<lambda>(t1, m). Inr (set_pde src 64 0 (s3\<lparr>pmem := m\<rparr>), t1))"
    "pmap_init_and_copy etp utp src dest src st =
       andThen (virtual_memcpy (\<lambda>va. map_option fst (translate etp utp s3 src va)) 0x10000000 0x8000000 4194304 (pmem st))
         (\<lambda>m. Inr (set_pde src 64 0 (s3\<lparr>pmem := m\<rparr>)))"
    "own_table dest 7 s3" "\<And>q. q \<noteq> dest \<Longrightarrow> user_pgtable s3 q = user_pgtable st q"
    "user_pgdir s3 src = (user_pgdir st src)(64 := table_pa utp dest OR 7)"
proof -
  obtain s1 s2 where a: "pcb_page_init etp dest st = Inr s1"
    "alloc_page utp 0x8000000 7 dest s1 = Inr (of_nat ((4 + dest) * 4194304), s2)"
    "own_table dest 7 (set_pde src 64 (table_pa utp dest OR 7) s2)" "pmem s2 = pmem st"
    "\<And>q. q \<noteq> dest \<Longrightarrow> user_pgtable s2 q = user_pgtable st q"
    "user_pgdir s2 = (user_pgdir st)
       (dest := (user_pgdir st dest)(0 := etp + 1, 960 := etp + 3, 32 := table_pa utp dest OR 7))"
    by (rule fork_tables [OF assms, where etp = etp and utp = utp and st = st]) (rule that)
  have pdx: "unat (PDX (0x10000000 :: u32)) = 64" by (simp add: unat_fields)
  let ?s3 = "set_pde src 64 (table_pa utp dest OR 7) s2"
  show thesis
  proof
    show "pmap_init_and_copy_tlb keep etp utp src dest src (st, t) =
       andThen (tlb_memcpy keep (translate etp utp ?s3 src) 0x10000000 0x8000000 4194304 t (pmem st))
         (\<lambda>(t1, m). Inr (set_pde src 64 0 (?s3\<lparr>pmem := m\<rparr>), t1))" for keep t
      unfolding pmap_init_and_copy_tlb_def prod.case a(1) using a(2,4) assms(1) by (simp add: pdx pgdir_check_def Let_def)
    show "pmap_init_and_copy etp utp src dest src st =
       andThen (virtual_memcpy (\<lambda>va. map_option fst (translate etp utp ?s3 src va)) 0x10000000 0x8000000 4194304 (pmem st))
         (\<lambda>m. Inr (set_pde src 64 0 (?s3\<lparr>pmem := m\<rparr>)))"
      unfolding pmap_init_and_copy_def a(1) using a(2,4) assms(1) by (simp add: pdx pgdir_check_def Let_def)
  qed (use a assms(3) in \<open>simp_all add: fun_eq_iff\<close>)
qed

text \<open>Outside the region of the child's frames those tables translate as before.\<close>

lemma fork_keeps_walks:
  assumes lay: "layout_ok etp utp" and src: "address_space etp utp src st"
    and tabs: "user_pgtable s3 src = user_pgtable st src" "\<And>i. i \<noteq> 64 \<Longrightarrow> user_pgdir s3 src i = user_pgdir st src i"
    and va: "unat (PDX va) \<noteq> 64"
  shows "translate etp utp s3 src va = translate etp utp st src va"
proof -
  have own: "own_space utp src s3"
    using src tabs by (simp add: address_space_def own_space_def own_table_def)
  have pde: "user_pgdir s3 src (unat (PDX va)) = user_pgdir st src (unat (PDX va))" using va by (rule tabs(2))
  consider "unat (PDX va) = 0" | "unat (PDX va) = 960" | "unat (PDX va) = 32"
    | "user_pgdir st src (unat (PDX va)) = 0" using src by (auto simp: address_space_def)
  then show ?thesis
  proof cases
    case 1
    then show ?thesis using boot_mapping(1) [OF lay, of st src va 1] boot_mapping(1) [OF lay, of s3 src va 1] pde src
      by (simp add: address_space_def)
  next
    case 2
    then show ?thesis using boot_mapping(1) [OF lay, of st src va 3] boot_mapping(1) [OF lay, of s3 src va 3] pde src
      by (simp add: address_space_def)
  next
    case 3
    then show ?thesis using translate_own [OF lay _ _ _ _ _ _ _, of src 7 st src va 7]
        translate_own [OF lay _ _ _ _ _ _ _, of src 7 s3 src va 7] own src pde
      by (simp add: address_space_def own_space_def)
  next
    case 4
    then show ?thesis using pde by (simp add: translate_def)
  qed
qed

text \<open>The parent's translations while it copies: its own region, the child's frames, and the rest as before.\<close>

lemma copy_walks:
  assumes lay: "layout_ok etp utp" and src: "address_space etp utp src st" and dest: "dest < 28" "dest \<noteq> src"
    and tabs: "own_table dest 7 s3" "user_pgtable s3 src = user_pgtable st src"
      "user_pgdir s3 src = (user_pgdir st src)(64 := table_pa utp dest OR 7)"
  shows "i < 4194304 \<Longrightarrow> translate etp utp s3 src (0x8000000 + of_nat i) = Some (of_nat ((4 + src) * 4194304) + of_nat i, 7)"
    and "i < 4194304 \<Longrightarrow> translate etp utp s3 src (0x10000000 + of_nat i) = Some (of_nat ((4 + dest) * 4194304) + of_nat i, 7)"
    and "unat (PDX va) \<noteq> 64 \<Longrightarrow> translate etp utp s3 src va = translate etp utp st src va"
  using fork_walks [OF lay _ dest(1) tabs(1), of src i] fork_keeps_walks [OF lay src tabs(2), of va] src tabs(2,3)
  by (simp_all add: address_space_def own_space_def own_table_def)

text \<open>
  C13. With a translation buffer that agrees with the tables and holds nothing of the region where the parent
  maps the child's frames, whatever the buffer drops and when, the copy of a fork is the copy of the model
  without a buffer; and loading a page directory makes every buffer agree with the tables.
\<close>

theorem buffer_transparent:
  assumes "layout_ok etp utp" "address_space etp utp src st" "dest < 28" "dest \<noteq> src"
    and "\<And>t n e. keep t n = Some e \<Longrightarrow> t n = Some e"
    and "coherent (translate etp utp st src) t" "\<And>va. unat (PDX va) = 64 \<Longrightarrow> t (PGNUM va) = None"
  shows "\<exists>st' t'. pmap_init_and_copy etp utp src dest src st = Inr st'
    \<and> pmap_init_and_copy_tlb keep etp utp src dest src (st, t) = Inr (st', t')
    \<and> coherent (translate etp utp st' q) (cpu_tlb (load_updir updir q c))"
proof -
  have s28: "src < 28" "own_space utp src st" using assms(2) by (simp_all add: address_space_def own_space_def)
  obtain s3 where s3: "pmap_init_and_copy_tlb keep etp utp src dest src (st, t) =
       andThen (tlb_memcpy keep (translate etp utp s3 src) 0x10000000 0x8000000 4194304 t (pmem st))
         (\<lambda>(t1, m). Inr (set_pde src 64 0 (s3\<lparr>pmem := m\<rparr>), t1))"
    "pmap_init_and_copy etp utp src dest src st =
       andThen (virtual_memcpy (\<lambda>va. map_option fst (translate etp utp s3 src va)) 0x10000000 0x8000000 4194304 (pmem st))
         (\<lambda>m. Inr (set_pde src 64 0 (s3\<lparr>pmem := m\<rparr>)))"
    "own_table dest 7 s3" "user_pgtable s3 src = user_pgtable st src"
    "user_pgdir s3 src = (user_pgdir st src)(64 := table_pa utp dest OR 7)"
    using fork_steps [OF s28(1) assms(3,4), where etp = etp and utp = utp and st = st] assms(4) by metis
  note walks = copy_walks [OF assms(1-4) s3(3-5)]
  have "coherent (translate etp utp s3 src) t"
    using assms(6,7) walks(3) unfolding agrees_def by (metis option.distinct(1))
  moreover from this have "seen (translate etp utp s3 src) t = (\<lambda>va. map_option fst (translate etp utp s3 src va))"
    by (auto simp: agrees_seen)
  moreover have "buffered_walk (translate etp utp s3 src) keep (\<lambda>_. False)"
    by (rule translate_buffered) (rule assms(5))
  ultimately show ?thesis
    using buffered_walk.memcpy_seen [of "translate etp utp s3 src" keep "\<lambda>_. False" t "0x10000000" "0x8000000" 4194304 "pmem st"]
      fork_copy_ok [OF assms(1) s28(2) assms(3,4)] s3(1,2) load_updir_coherent
    by (auto split: sum.splits)
qed

theorem buffer_transparent_witness:
  "\<exists>st' t'. pmap_init_and_copy 0x102000 0x200000 0 1 0 sample_paging = Inr st'
    \<and> pmap_init_and_copy_tlb (keep_only even) 0x102000 0x200000 0 1 0 (sample_paging, Map.empty) = Inr (st', t')"
proof -
  have s: "address_space 0x102000 0x200000 0 sample_paging" by (rule sample_space) simp
  have "\<exists>st' t'. pmap_init_and_copy 0x102000 0x200000 0 1 0 sample_paging = Inr st'
    \<and> pmap_init_and_copy_tlb (keep_only even) 0x102000 0x200000 0 1 0 (sample_paging, Map.empty) = Inr (st', t')
    \<and> coherent (translate 0x102000 0x200000 st' 0) (cpu_tlb (load_updir 0xF0200000 0 undefined))"
    by (rule buffer_transparent [OF sample_layout s]) (auto dest: keep_only_sub)
  then show ?thesis by blast
qed

section \<open>Two forks in a row\<close>

text \<open>What the first fork leaves in a buffer that holds on to the pages \<open>L\<close>.\<close>

lemma first_fork_buffer:
  assumes lay: "layout_ok etp utp" and src: "address_space etp utp src st" and dest: "dest < 28" "dest \<noteq> src"
  obtains st1 t1 where "pmap_init_and_copy_tlb (keep_only L) etp utp src dest src (st, Map.empty) = Inr (st1, t1)"
    "pmap_init_and_copy etp utp src dest src st = Inr st1"
    "\<And>q. t1 q \<noteq> None \<Longrightarrow> L q"
    "\<And>w i. i < 4194304 \<Longrightarrow> L (PGNUM (0x10000000 + of_nat i)) \<Longrightarrow>
       seen w t1 (0x10000000 + of_nat i) = Some (of_nat ((4 + dest) * 4194304) + of_nat i)"
    "\<And>w i. i < 4194304 \<Longrightarrow> t1 (PGNUM (0x8000000 + of_nat i)) \<noteq> None \<Longrightarrow>
       seen w t1 (0x8000000 + of_nat i) = Some (of_nat ((4 + src) * 4194304) + of_nat i)"
proof -
  have s28: "src < 28" "own_space utp src st" using src by (simp_all add: address_space_def own_space_def)
  obtain s3 where s3: "\<And>keep t. pmap_init_and_copy_tlb keep etp utp src dest src (st, t) =
       andThen (tlb_memcpy keep (translate etp utp s3 src) 0x10000000 0x8000000 4194304 t (pmem st))
         (\<lambda>(t1, m). Inr (set_pde src 64 0 (s3\<lparr>pmem := m\<rparr>), t1))"
    "pmap_init_and_copy etp utp src dest src st =
       andThen (virtual_memcpy (\<lambda>va. map_option fst (translate etp utp s3 src va)) 0x10000000 0x8000000 4194304 (pmem st))
         (\<lambda>m. Inr (set_pde src 64 0 (s3\<lparr>pmem := m\<rparr>)))"
    "own_table dest 7 s3" "user_pgtable s3 src = user_pgtable st src"
    "user_pgdir s3 src = (user_pgdir st src)(64 := table_pa utp dest OR 7)"
    using fork_steps [OF s28(1) dest, where etp = etp and utp = utp and st = st] dest(2) by metis
  note walks = copy_walks [OF assms s3(3-5)]
  let ?w = "translate etp utp s3 src"
  obtain st1 where "pmap_init_and_copy etp utp src dest src st = Inr st1"
    using fork_copy_ok [OF lay s28(2) dest] by blast
  then obtain m1 where m1: "virtual_memcpy (\<lambda>va. map_option fst (?w va)) 0x10000000 0x8000000 4194304 (pmem st) = Inr m1"
      "st1 = set_pde src 64 0 (s3\<lparr>pmem := m1\<rparr>)"
    using s3(2) by (cases "virtual_memcpy (\<lambda>va. map_option fst (?w va)) 0x10000000 0x8000000 4194304 (pmem st)") auto
  have e: "seen ?w Map.empty = (\<lambda>va. map_option fst (?w va))" by (auto simp: agrees_seen)
  obtain t1 where t1: "tlb_memcpy (keep_only L) ?w 0x10000000 0x8000000 4194304 Map.empty (pmem st) = Inr (t1, m1)"
      "\<And>q. L q \<Longrightarrow> (\<exists>i < 4194304. q = PGNUM (0x10000000 + of_nat i)) \<Longrightarrow> t1 q \<noteq> None"
    using held.memcpy_seen [of L etp utp s3 src Map.empty "0x10000000" "0x8000000" 4194304 "pmem st"] m1(1) e by auto
  have co: "coherent ?w t1"
    using buffered_walk.memcpy_seen [OF translate_buffered, of "keep_only L" etp utp s3 src Map.empty "0x10000000" "0x8000000" 4194304 "pmem st"]
      keep_only_sub t1(1) m1(1) e by auto
  have same: "seen w t1 va = map_option fst (?w va)" if "t1 (PGNUM va) \<noteq> None" for w va
    using that co by (auto simp: seen_def agrees_def)
  show thesis
  proof (rule that)
    show "pmap_init_and_copy_tlb (keep_only L) etp utp src dest src (st, Map.empty) = Inr (st1, t1)"
      using s3(1) t1(1) m1(2) by simp
    show "L q" if "t1 q \<noteq> None" for q
      using memcpy_keep_only [OF t1(1) _ that] by simp
    show "seen w t1 (0x10000000 + of_nat i) = Some (of_nat ((4 + dest) * 4194304) + of_nat i)"
      if "i < 4194304" "L (PGNUM (0x10000000 + of_nat i))" for w i
      using same [OF t1(2) [OF that(2)]] walks(2) [OF that(1)] that(1) by auto
    show "seen w t1 (0x8000000 + of_nat i) = Some (of_nat ((4 + src) * 4194304) + of_nat i)"
      if "i < 4194304" "t1 (PGNUM (0x8000000 + of_nat i)) \<noteq> None" for w i
      using same [OF that(2)] walks(1) [OF that(1)] by (simp only: option.map fst_conv)
  qed (rule \<open>pmap_init_and_copy etp utp src dest src st = Inr st1\<close>)
qed

lemma frame_offset_inj:
  assumes "(base :: u32) + of_nat i = base + of_nat j" "i < 4194304" "j < 4194304"
  shows "i = j"
proof -
  have "(of_nat i :: u32) = of_nat j" using assms(1) by simp
  then have "unat (of_nat i :: u32) = unat (of_nat j :: u32)" by simp
  then show ?thesis using assms(2,3) by (simp add: unat_of_nat_u32)
qed

lemma in_frames:
  assumes "pid < 28" "i < 4194304"
  shows "of_nat ((4 + pid) * 4194304) + of_nat i \<in> frames pid"
proof -
  have "unat (of_nat ((4 + pid) * 4194304) + of_nat i :: u32) = (4 + pid) * 4194304 + i"
    using assms unat_add_of_nat [of "of_nat ((4 + pid) * 4194304)" i] unat_frame_base [OF assms(1)] by (simp only:) simp
  then show ?thesis using assms(2) by (simp add: frames_def)
qed

text \<open>After a fork the parent is as before, and so is everything outside the child's frames.\<close>

lemma fork_keeps_space:
  assumes lay: "layout_ok etp utp" and src: "address_space etp utp src st" and c: "c < 28" "c \<noteq> src"
    and run: "pmap_init_and_copy etp utp src c src st = Inr st1"
  shows "\<forall>p. p \<notin> frames c \<longrightarrow> pmem st1 p = pmem st p" "address_space etp utp src st1"
proof -
  have own: "own_space utp src st" using src by (simp add: address_space_def)
  obtain st' where f: "pmap_init_and_copy etp utp src c src st = Inr st'"
    "\<forall>p. p \<notin> frames c \<longrightarrow> pmem st' p = pmem st p" "\<forall>q. q \<noteq> c \<longrightarrow> user_pgtable st' q = user_pgtable st q"
    "\<forall>q i. q \<noteq> c \<longrightarrow> \<not> (q = src \<and> i = 64) \<longrightarrow> user_pgdir st' q i = user_pgdir st q i"
    "user_pgdir st' src 64 = 0"
    using fork_copy_ok [OF lay own c] by blast
  have e: "st' = st1" using f(1) run by simp
  show "\<forall>p. p \<notin> frames c \<longrightarrow> pmem st1 p = pmem st p" using f(2) e by simp
  have "user_pgdir st1 src i = user_pgdir st src i" for i
    using f(4,5) c(2) src by (cases "i = 64") (auto simp: e address_space_def)
  moreover have "user_pgtable st1 src = user_pgtable st src" using f(3) c(2) e by simp
  ultimately show "address_space etp utp src st1"
    using src by (simp add: address_space_def own_space_def own_table_def)
qed

text \<open>A copy whose destinations lie in the frames of \<open>c1\<close> where \<open>S\<close> holds, and in those of \<open>c2\<close> elsewhere.\<close>

lemma split_copy:
  fixes base :: "nat \<Rightarrow> u32" and d :: "nat \<Rightarrow> u32" and S :: "nat \<Rightarrow> bool" and src c1 c2 :: nat
  defines "base \<equiv> \<lambda>p. of_nat ((4 + p) * 4194304)" and "d \<equiv> \<lambda>i. base (if S i then c1 else c2) + of_nat i"
  assumes c: "src < 28" "c1 < 28" "c2 < 28" "c1 \<noteq> src" "c2 \<noteq> src" "c1 \<noteq> c2"
    and rd: "\<And>i. i < 4194304 \<Longrightarrow> X (0x8000000 + of_nat i) = Some (base src + of_nat i)"
    and wr: "\<And>i. i < 4194304 \<Longrightarrow> X (0x10000000 + of_nat i) = Some (d i)"
  obtains m' where "virtual_memcpy X 0x10000000 0x8000000 4194304 m = Inr m'"
    "\<And>i. i < 4194304 \<Longrightarrow> m' (base c2 + of_nat i) = (if S i then m (base c2 + of_nat i) else m (base src + of_nat i))"
proof -
  have mine: "base p + of_nat i \<noteq> base q + of_nat j" if "p \<noteq> q" "p < 28" "q < 28" "i < 4194304" "j < 4194304" for p q i j
    unfolding base_def
    using frames_disjoint [OF that(1)] in_frames [OF that(2,4)] in_frames [OF that(3,5)] by (metis disjoint_iff)
  have off: "base p + of_nat i = base p + of_nat j \<Longrightarrow> i < 4194304 \<Longrightarrow> j < 4194304 \<Longrightarrow> i = j" for p i j
    using frame_offset_inj unfolding base_def by blast
  have inj: "inj_on d {..<4194304}"
    using mine [of c1 c2] mine [of c2 c1] c off by (intro inj_onI) (auto simp: d_def split: if_splits)
  have apart: "base src + of_nat i \<noteq> d j" if "i < 4194304" "j < 4194304" for i j
    using mine [of src c1 i j] mine [of src c2 i j] c that by (simp add: d_def)
  obtain m' where m': "virtual_memcpy X 0x10000000 0x8000000 4194304 m = Inr m'"
      "\<And>i. i < 4194304 \<Longrightarrow> m' (d i) = m (base src + of_nat i)"
      "\<And>p. \<forall>i < 4194304. p \<noteq> d i \<Longrightarrow> m' p = m p"
    using virtual_memcpy_lists [OF rd wr inj apart] by blast
  have "base c2 + of_nat i \<noteq> d j" if "S i" "i < 4194304" "j < 4194304" for i j
    using mine [of c2 c1 i j] off [of c2 i j] that c by (cases "S j") (auto simp: d_def)
  then have "m' (base c2 + of_nat i) = (if S i then m (base c2 + of_nat i) else m (base src + of_nat i))" if "i < 4194304" for i
    using m'(2) [OF that] m'(3) that by (cases "S i") (auto simp: d_def)
  with m'(1) show thesis by (rule that)
qed

text \<open>
  C14. \<^verbatim>\<open>pmap_init_and_copy\<close> changes the mapping of 0x10000000 under the running processor without a
  flush. Two forks in a row without a reload of \<^verbatim>\<open>cr3\<close> between them, on a processor whose buffer holds
  on to the pages \<open>L\<close>: on the pages the buffer has dropped the second child gets the parent's bytes, on
  the others it keeps what was in its frames before; the bytes meant for it go to the first child.
\<close>

theorem second_fork_stale:
  assumes lay: "layout_ok etp utp" and src: "address_space etp utp src st"
    and c: "c1 < 28" "c2 < 28" "c1 \<noteq> src" "c2 \<noteq> src" "c1 \<noteq> c2"
  shows "\<exists>st1 t1 st2 t2. pmap_init_and_copy_tlb (keep_only L) etp utp src c1 src (st, Map.empty) = Inr (st1, t1)
    \<and> pmap_init_and_copy_tlb (keep_only L) etp utp src c2 src (st1, t1) = Inr (st2, t2)
    \<and> (\<forall>i < 4194304. pmem st2 (of_nat ((4 + c2) * 4194304) + of_nat i) =
         (if L (PGNUM (0x10000000 + of_nat i)) then pmem st (of_nat ((4 + c2) * 4194304) + of_nat i)
          else pmem st (of_nat ((4 + src) * 4194304) + of_nat i)))"
proof -
  let ?base = "\<lambda>p. of_nat ((4 + p) * 4194304) :: u32"
  let ?L = "\<lambda>i. L (PGNUM (0x10000000 + of_nat i))"
  have s28: "src < 28" "own_space utp src st" using src by (simp_all add: address_space_def own_space_def)
  obtain st1 t1 where one: "pmap_init_and_copy_tlb (keep_only L) etp utp src c1 src (st, Map.empty) = Inr (st1, t1)"
    "pmap_init_and_copy etp utp src c1 src st = Inr st1" "\<And>q. t1 q \<noteq> None \<Longrightarrow> L q"
    "\<And>w i. i < 4194304 \<Longrightarrow> ?L i \<Longrightarrow> seen w t1 (0x10000000 + of_nat i) = Some (?base c1 + of_nat i)"
    "\<And>w i. i < 4194304 \<Longrightarrow> t1 (PGNUM (0x8000000 + of_nat i)) \<noteq> None \<Longrightarrow>
       seen w t1 (0x8000000 + of_nat i) = Some (?base src + of_nat i)"
    by (rule first_fork_buffer [OF lay src c(1,3), where L = L]) (rule that, assumption+)
  note st1 = fork_keeps_space [OF lay src c(1,3) one(2)]
  obtain s3 where s3: "pmap_init_and_copy_tlb (keep_only L) etp utp src c2 src (st1, t1) =
       andThen (tlb_memcpy (keep_only L) (translate etp utp s3 src) 0x10000000 0x8000000 4194304 t1 (pmem st1))
         (\<lambda>(t1, m). Inr (set_pde src 64 0 (s3\<lparr>pmem := m\<rparr>), t1))"
    "own_table c2 7 s3" "user_pgtable s3 src = user_pgtable st1 src"
    "user_pgdir s3 src = (user_pgdir st1 src)(64 := table_pa utp c2 OR 7)"
    using fork_steps [OF s28(1) c(2,4), where etp = etp and utp = utp and st = st1] c(4) by metis
  note walks = copy_walks [OF lay st1(2) c(2,4) s3(2-4)]
  let ?w = "translate etp utp s3 src"
  have rd: "seen ?w t1 (0x8000000 + of_nat i) = Some (?base src + of_nat i)" if "i < 4194304" for i
    using one(5) [OF that, of ?w] walks(1) [OF that] by (cases "t1 (PGNUM (0x8000000 + of_nat i))") (simp_all add: seen_def)
  have wr: "seen ?w t1 (0x10000000 + of_nat i) = Some (?base (if ?L i then c1 else c2) + of_nat i)" if "i < 4194304" for i
    using one(4) [OF that, of ?w] one(3) [of "PGNUM (0x10000000 + of_nat i)"] walks(2) [OF that]
    by (cases "?L i"; cases "t1 (PGNUM (0x10000000 + of_nat i))") (simp_all add: seen_def)
  obtain m' where m': "virtual_memcpy (seen ?w t1) 0x10000000 0x8000000 4194304 (pmem st1) = Inr m'"
      "\<And>i. i < 4194304 \<Longrightarrow> m' (?base c2 + of_nat i) = (if ?L i then pmem st1 (?base c2 + of_nat i) else pmem st1 (?base src + of_nat i))"
    by (rule split_copy [OF s28(1) c rd wr]) (assumption | rule that)+
  have "agrees L ?w t1" using one(3) by (auto simp: agrees_def)
  then obtain t2 where "tlb_memcpy (keep_only L) ?w 0x10000000 0x8000000 4194304 t1 (pmem st1) = Inr (t2, m')"
    using held.memcpy_seen [of L etp utp s3 src t1 "0x10000000" "0x8000000" 4194304 "pmem st1"] m'(1) by auto
  then have two: "pmap_init_and_copy_tlb (keep_only L) etp utp src c2 src (st1, t1)
      = Inr (set_pde src 64 0 (s3\<lparr>pmem := m'\<rparr>), t2)" using s3(1) by simp
  have "pmem st1 (?base c2 + of_nat i) = pmem st (?base c2 + of_nat i)"
    "pmem st1 (?base src + of_nat i) = pmem st (?base src + of_nat i)" if i: "i < 4194304" for i
    using st1(1) in_frames [OF c(2) i] in_frames [OF s28(1) i] frames_disjoint [OF c(5)] frames_disjoint [OF c(3)] by blast+
  then have "m' (?base c2 + of_nat i) = (if ?L i then pmem st (?base c2 + of_nat i) else pmem st (?base src + of_nat i))"
    if i: "i < 4194304" for i using m'(2) [OF i] i by presburger
  then show ?thesis using one(1) two by auto
qed

text \<open>Process 0 forks twice; each frame is filled with its own number. Child 2 starts with a page of its own.\<close>

definition numbered_frames :: paging where
  "numbered_frames = sample_paging\<lparr>pmem := (\<lambda>p. ucast (drop_bit 22 p))\<rparr>"

theorem second_fork_stale_witness:
  "\<exists>st1 t1 st2 t2. pmap_init_and_copy_tlb (keep_only (\<lambda>n. n = 0x10000)) 0x102000 0x200000 0 1 0 (numbered_frames, Map.empty) = Inr (st1, t1)
    \<and> pmap_init_and_copy_tlb (keep_only (\<lambda>n. n = 0x10000)) 0x102000 0x200000 0 2 0 (st1, t1) = Inr (st2, t2)
    \<and> pmem st2 (of_nat ((4 + 2) * 4194304) + of_nat 7) = 6 \<and> pmem st2 (of_nat ((4 + 2) * 4194304) + of_nat 8192) = 4"
proof -
  have s: "address_space 0x102000 0x200000 0 numbered_frames"
    by (simp add: numbered_frames_def address_space_def own_space_def own_table_def sample_paging_def)
  obtain st1 t1 st2 t2 where
    two: "pmap_init_and_copy_tlb (keep_only (\<lambda>n. n = 0x10000)) 0x102000 0x200000 0 1 0 (numbered_frames, Map.empty) = Inr (st1, t1)"
      "pmap_init_and_copy_tlb (keep_only (\<lambda>n. n = 0x10000)) 0x102000 0x200000 0 2 0 (st1, t1) = Inr (st2, t2)"
    and m: "\<And>i. i < 4194304 \<Longrightarrow> pmem st2 (of_nat ((4 + 2) * 4194304) + of_nat i) =
         (if PGNUM (0x10000000 + of_nat i) = 0x10000 then pmem numbered_frames (of_nat ((4 + 2) * 4194304) + of_nat i)
          else pmem numbered_frames (of_nat ((4 + 0) * 4194304) + of_nat i))"
    using second_fork_stale [OF sample_layout s, of 1 2 "\<lambda>n. n = 0x10000"] by auto
  have "pmem st2 (of_nat ((4 + 2) * 4194304) + of_nat 7) = 6" "pmem st2 (of_nat ((4 + 2) * 4194304) + of_nat 8192) = 4"
    by (subst m; simp add: PGNUM_def numbered_frames_def drop_bit_eq_div)+
  with two show ?thesis by blast
qed

end
