(* ===== verification/Isolation.thy ===== *)
theory Isolation
  imports Paging
begin

text \<open>
  What the calls of \<^verbatim>\<open>kernel/pmap.c\<close> make of the address spaces, from the zeroed directories on: the first
  process is set up by \<^verbatim>\<open>pcb_page_init\<close> and \<^verbatim>\<open>alloc_page\<close> as \<^verbatim>\<open>userprog_load\<close> does, later ones by
  \<^verbatim>\<open>pmap_init_and_copy\<close> as \<^verbatim>\<open>sys_fork\<close> does, and \<^verbatim>\<open>pmap_copy_one_page\<close> shares pages as
  \<^verbatim>\<open>sys_mem_share\<close> does. The memory of a process is at every moment its own frames, up to the pages shared.
\<close>

section \<open>Sequences of calls\<close>

datatype page_call = Fork nat nat | Share nat nat u32

fun page_step :: "u32 \<Rightarrow> u32 \<Rightarrow> page_call \<Rightarrow> paging \<Rightarrow> paging result" where
  "page_step etp utp (Fork p c) st = pmap_init_and_copy etp utp p c p st"
| "page_step etp utp (Share d s va) st = pmap_copy_one_page d s va st"

fun page_run :: "u32 \<Rightarrow> u32 \<Rightarrow> page_call list \<Rightarrow> paging \<Rightarrow> paging result" where
  "page_run etp utp [] st = Inr st"
| "page_run etp utp (c # cs) st = andThen (page_step etp utp c st) (page_run etp utp cs)"

definition page_boot :: "u32 \<Rightarrow> u32 \<Rightarrow> paging \<Rightarrow> paging result" where
  "page_boot etp utp st =
     andThen (pcb_page_init etp 0 st) (\<lambda>st1.
     andThen (alloc_page utp 0x8048000 (PTE_P OR PTE_W OR PTE_U) 0 st1) (\<lambda>(pa, st2). Inr st2))"

text \<open>
  The calls the kernel makes: a process that exists forks into a pid that has a page table and is not its own,
  new or used before; a page-aligned address is shared between processes that exist. \<open>made\<close> are the processes
  the calls leave.
\<close>

fun calls_ok :: "nat set \<Rightarrow> page_call list \<Rightarrow> bool" where
  "calls_ok M [] = True"
| "calls_ok M (Fork p c # cs) = (p \<in> M \<and> c < USER_DIR_NUM \<and> c \<noteq> p \<and> calls_ok (insert c M) cs)"
| "calls_ok M (Share d s va # cs) = (d \<in> M \<and> s \<in> M \<and> PGOFF va = 0 \<and> calls_ok M cs)"

fun made :: "nat set \<Rightarrow> page_call list \<Rightarrow> nat set" where
  "made M [] = M"
| "made M (Fork p c # cs) = made (insert c M) cs"
| "made M (Share d s va # cs) = made M cs"

text \<open>Whose frames hold page \<open>i\<close> of a process: its own since its fork, unless the page was shared after.\<close>

fun owner_step :: "page_call \<Rightarrow> (nat \<Rightarrow> nat \<Rightarrow> nat) \<Rightarrow> nat \<Rightarrow> nat \<Rightarrow> nat" where
  "owner_step (Fork p c) ow = ow(c := \<lambda>i. c)"
| "owner_step (Share d s va) ow = ow(d := (ow d)(unat (PTX va) := ow s (unat (PTX va))))"

definition owner :: "page_call list \<Rightarrow> nat \<Rightarrow> nat \<Rightarrow> nat" where
  "owner cs = fold owner_step cs (\<lambda>p i. p)"

section \<open>The tables\<close>

definition spaces :: "u32 \<Rightarrow> u32 \<Rightarrow> nat set \<Rightarrow> (nat \<Rightarrow> nat \<Rightarrow> nat) \<Rightarrow> paging \<Rightarrow> bool" where
  "spaces etp utp M ow st \<longleftrightarrow>
     (\<forall>p i. i \<noteq> 0 \<longrightarrow> i \<noteq> 32 \<longrightarrow> i \<noteq> 960 \<longrightarrow> user_pgdir st p i = 0)
     \<and> (\<forall>p \<in> M. p < 28 \<and> user_pgdir st p 0 = etp + 1 \<and> user_pgdir st p 960 = etp + 3
          \<and> user_pgdir st p 32 = table_pa utp p OR 7
          \<and> (\<forall>i < 1024. ow p i < 28 \<and> user_pgtable st p i = PGADDR (of_nat (4 + ow p i)) (of_nat i) 7))"

lemma spacesD:
  assumes "spaces etp utp M ow st"
  shows "\<lbrakk>i \<noteq> 0; i \<noteq> 32; i \<noteq> 960\<rbrakk> \<Longrightarrow> user_pgdir st p i = 0"
    "p \<in> M \<Longrightarrow> p < 28" "p \<in> M \<Longrightarrow> user_pgdir st p 0 = etp + 1" "p \<in> M \<Longrightarrow> user_pgdir st p 960 = etp + 3"
    "p \<in> M \<Longrightarrow> user_pgdir st p 32 = table_pa utp p OR 7" "\<lbrakk>p \<in> M; i < 1024\<rbrakk> \<Longrightarrow> ow p i < 28"
    "\<lbrakk>p \<in> M; i < 1024\<rbrakk> \<Longrightarrow> user_pgtable st p i = PGADDR (of_nat (4 + ow p i)) (of_nat i) 7"
  using assms by (simp_all add: spaces_def)

text \<open>The walk through such tables.\<close>

lemma region_iff: "unat (PDX va) = 32 \<longleftrightarrow> 0x8000000 \<le> va \<and> va < 0x8400000"
  unfolding word_le_nat_alt word_less_nat_alt unat_fields
  using div_mult_mod_eq [of "unat va" 4194304] mod_less_divisor [of 4194304 "unat va"]
  by (auto intro!: div_nat_eqI)

lemma spaces_user_access:
  assumes lay: "layout_ok etp utp" and sp: "spaces etp utp M ow st" and p: "p \<in> M"
  shows "user_access etp utp st p va = (if 0x8000000 \<le> va \<and> va < 0x8400000
      then Some (of_nat ((4 + ow p (unat (PTX va))) * 4194304) + (va - 0x8000000)) else None)"
proof (cases "unat (PDX va) = 32")
  case True
  define o' where "o' = ow p (unat (PTX va))"
  have o28: "o' < 28" and e: "user_pgtable st p (unat (PTX va)) = PGADDR (of_nat (4 + o')) (PTX va) 7"
    using spacesD(6,7) [OF sp p PGOFF_small(2) [of va]] by (simp_all add: o'_def)
  have d: "unat (of_nat (4 + o') :: u32) < 1024" unfolding frame_no [OF o28] using o28 by simp
  have seven: "unat (7 :: u32) < 4096" by simp
  note fl = flag_P [OF d PGOFF_small(2) seven]
  have "user_access etp utp st p va = Some (PGADDR (of_nat (4 + o')) (PTX va) (PGOFF va))"
    using user_access_entry [OF lay spacesD(2,5) [OF sp p] True] e fl
      PTE_ADDR_PGADDR [OF d PGOFF_small(2) seven PGOFF_small(1)]
    by (simp add: Let_def PGOFF_def)
  moreover obtain i where i: "va = 0x8000000 + of_nat i" "i < 4194304" using in_region [OF True] .
  have "PGADDR (of_nat (4 + o')) (PTX va) (PGOFF va) = of_nat ((4 + o') * 4194304) + of_nat i"
    unfolding i(1) by (rule region_translation(2) [OF _ _ i(2) o28, where k = 32]) simp_all
  ultimately show ?thesis using True i(1) unfolding region_iff o'_def by simp
next
  case False
  consider "unat (PDX va) = 0" | "unat (PDX va) = 960" | "unat (PDX va) \<noteq> 0" "unat (PDX va) \<noteq> 960" by blast
  then have "user_access etp utp st p va = None"
  proof cases
    case 1
    then show ?thesis using spacesD(3) [OF sp p] by (intro boot_mapping(2) [OF lay, of _ _ _ 1]) simp_all
  next
    case 2
    then show ?thesis using spacesD(4) [OF sp p] by (intro boot_mapping(2) [OF lay, of _ _ _ 3]) simp_all
  next
    case 3
    then show ?thesis using spacesD(1) [OF sp] False by (simp add: user_access_def translate_def)
  qed
  then show ?thesis using False unfolding region_iff by simp
qed

lemma kernel_mapping:
  assumes lay: "layout_ok etp utp" and sp: "spaces etp utp M ow st" and p: "p \<in> M" and pa: "pa < 0x400000"
  shows "translate etp utp st p (KERNBASE + pa) = Some (pa, 3)"
proof -
  have "unat pa < 4194304" using pa by (simp add: word_less_nat_alt)
  note low_memory(1,3) [OF this]
  then show ?thesis using boot_mapping(1) [OF lay, of st p "KERNBASE + pa" 3] spacesD(4) [OF sp p] by simp
qed

section \<open>The calls keep them\<close>

lemma virtual_memcpy_returns:
  assumes "\<And>i. i < n \<Longrightarrow> tr (src + of_nat i) \<noteq> None" "\<And>i. i < n \<Longrightarrow> tr (dest + of_nat i) \<noteq> None"
  shows "\<exists>m'. virtual_memcpy tr dest src n m = Inr m'"
  using assms
proof (induction n arbitrary: dest src m)
  case (Suc n)
  obtain ps pd where "tr src = Some ps" "tr dest = Some pd" using Suc.prems [of 0] by auto
  moreover have "tr (src + 1 + of_nat i) \<noteq> None" "tr (dest + 1 + of_nat i) \<noteq> None" if "i < n" for i
    using Suc.prems [of "Suc i"] that by (simp_all add: ac_simps)
  ultimately show ?case using Suc.IH [of "src + 1" "dest + 1"] by simp
qed simp

lemma fork_spaces:
  assumes lay: "layout_ok etp utp" and sp: "spaces etp utp M ow st" and p: "p \<in> M" and c: "c < 28" "c \<noteq> p"
  obtains st' where "pmap_init_and_copy etp utp p c p st = Inr st'"
    "spaces etp utp (insert c M) (ow(c := \<lambda>i. c)) st'"
proof -
  have p28: "p < 28" using spacesD(2) [OF sp p] .
  obtain s1 s2 where a: "pcb_page_init etp c st = Inr s1"
    "alloc_page utp 0x8000000 7 c s1 = Inr (of_nat ((4 + c) * 4194304), s2)"
    "own_table c 7 (set_pde p 64 (table_pa utp c OR 7) s2)" "pmem s2 = pmem st"
    "\<And>q. q \<noteq> c \<Longrightarrow> user_pgtable s2 q = user_pgtable st q"
    "user_pgdir s2 = (user_pgdir st)
       (c := (user_pgdir st c)(0 := etp + 1, 960 := etp + 3, 32 := table_pa utp c OR 7))"
    by (rule fork_tables [OF p28 c, where etp = etp and utp = utp and st = st]) (rule that)
  let ?s3 = "set_pde p 64 (table_pa utp c OR 7) s2"
  let ?s0 = "set_pde p 64 0 s2"
  have own: "user_pgtable s2 c i = PGADDR (of_nat (4 + c)) (of_nat i) 7" if "i < 1024" for i
    using a(3) that by (simp add: own_table_def)
  have sp0: "spaces etp utp (insert c M) (ow(c := \<lambda>i. c)) (?s0\<lparr>pmem := m\<rparr>)" for m
    unfolding spaces_def using spacesD [OF sp] a(5,6) own c by auto
  have walk: "translate etp utp ?s3 p va = translate etp utp (?s0\<lparr>pmem := pmem s2\<rparr>) p va" if "unat (PDX va) = 32" for va
    using that by (simp add: translate_def table_at_def Let_def)
  have old: "translate etp utp ?s3 p (0x8000000 + of_nat i) \<noteq> None" if i: "i < 4194304" for i
  proof -
    have "unat (PDX (0x8000000 + of_nat i)) = 32" by (rule region_translation(1) [OF _ _ i p28]) simp_all
    then show ?thesis
      using walk spaces_user_access [OF lay sp0 [of "pmem s2"], of p "0x8000000 + of_nat i"] p
      unfolding region_iff by (auto simp: user_access_def split: option.splits)
  qed
  have pd: "user_pgdir ?s3 p 64 = table_pa utp c OR 7" by simp
  have new: "translate etp utp ?s3 p (0x10000000 + of_nat i) \<noteq> None" if i: "i < 4194304" for i
  proof -
    have "unat (PDX (0x10000000 + of_nat i)) = 64" by (rule region_translation(1) [OF _ _ i p28]) simp_all
    then show ?thesis using translate_own [OF lay c(1) a(3), of p "0x10000000 + of_nat i" 7] pd by simp
  qed
  have "\<exists>m'. virtual_memcpy (\<lambda>va. map_option fst (translate etp utp ?s3 p va)) 0x10000000 0x8000000 4194304 (pmem st) = Inr m'"
    by (rule virtual_memcpy_returns; unfold option.map_disc_iff; rule old new; assumption)
  then obtain m where m: "virtual_memcpy (\<lambda>va. map_option fst (translate etp utp ?s3 p va))
      0x10000000 0x8000000 4194304 (pmem st) = Inr m" by (rule exE)
  have pdx: "unat (PDX (0x10000000 :: u32)) = 64" by (simp add: unat_fields)
  have "pmap_init_and_copy etp utp p c p st = Inr (set_pde p 64 0 (?s3\<lparr>pmem := m\<rparr>))"
    unfolding pmap_init_and_copy_def a(1) using a(2,4) m p28 by (simp add: pdx pgdir_check_def Let_def)
  moreover have "set_pde p 64 0 (?s3\<lparr>pmem := m\<rparr>) = ?s0\<lparr>pmem := m\<rparr>" by (simp add: set_pde_def)
  ultimately show thesis using that sp0 by metis
qed

lemma share_spaces:
  assumes sp: "spaces etp utp M ow st" and ds: "d \<in> M" "s \<in> M" and va: "PGOFF va = 0"
  obtains st' where "pmap_copy_one_page d s va st = Inr st'"
    "spaces etp utp M (ow(d := (ow d)(unat (PTX va) := ow s (unat (PTX va))))) st'"
proof
  let ?st' = "set_pte d (unat (PTX va)) (user_pgtable st s (unat (PTX va))) st"
  have "of_nat PGSIZE - 1 = (0xFFF :: u32)" by simp
  then show "pmap_copy_one_page d s va st = Inr ?st'"
    using va spacesD(2) [OF sp] ds by (simp add: pmap_copy_one_page_def pgtable_check_def PGOFF_def)
  show "spaces etp utp M (ow(d := (ow d)(unat (PTX va) := ow s (unat (PTX va))))) ?st'"
    unfolding spaces_def using spacesD [OF sp] ds by simp
qed

lemma run_spaces:
  assumes "layout_ok etp utp" "spaces etp utp M ow st" "calls_ok M cs"
  shows "\<exists>st'. page_run etp utp cs st = Inr st' \<and> spaces etp utp (made M cs) (fold owner_step cs ow) st'"
  using assms(2,3)
proof (induction cs arbitrary: M ow st)
  case (Cons call cs)
  show ?case
  proof (cases call)
    case (Fork p c)
    then obtain st' where "pmap_init_and_copy etp utp p c p st = Inr st'"
        "spaces etp utp (insert c M) (ow(c := \<lambda>i. c)) st'"
      using fork_spaces [OF assms(1) Cons.prems(1), of p c] Cons.prems(2) by auto
    then show ?thesis using Cons.IH Cons.prems(2) Fork by auto
  next
    case (Share d s va)
    then obtain st' where "pmap_copy_one_page d s va st = Inr st'"
        "spaces etp utp M (ow(d := (ow d)(unat (PTX va) := ow s (unat (PTX va))))) st'"
      using share_spaces [OF Cons.prems(1), of d s va] Cons.prems(2) by auto
    then show ?thesis using Cons.IH Cons.prems(2) Share by auto
  qed
qed simp

lemma boot_spaces:
  assumes "\<And>p i. user_pgdir st p i = 0"
  obtains st' where "page_boot etp utp st = Inr st'" "spaces etp utp {0} (\<lambda>p i. p) st'"
proof -
  let ?s = "set_pde 0 960 (etp + PTE_P + PTE_W) (set_pde 0 0 (etp + PTE_P) st)"
  have pdx: "unat (PDX (0x8048000 :: u32)) = 32" by (simp add: unat_fields)
  obtain st' where a: "alloc_page utp 0x8048000 7 0 ?s = Inr (of_nat ((4 + 0) * 4194304), st')" "own_table 0 7 st'"
    "user_pgdir st' = (user_pgdir ?s)(0 := (user_pgdir ?s 0)(32 := table_pa utp 0 OR 7))"
    using alloc_page_ok [of 0 utp "0x8048000" 7 ?s] pdx by auto
  have "page_boot etp utp st = Inr st'"
    unfolding page_boot_def using pcb_page_init_ok [of 0 etp st] a(1) by simp
  moreover have "spaces etp utp {0} (\<lambda>p i. p) st'"
    unfolding spaces_def using a(2,3) assms by (auto simp: own_table_def)
  ultimately show thesis by (rule that)
qed

text \<open>The frames of the owner.\<close>

lemma access_frames:
  assumes "o' < 28" "0x8000000 \<le> va \<and> va < 0x8400000 \<and> pa = of_nat ((4 + o') * 4194304) + (va - 0x8000000)"
  shows "pa \<in> frames o'"
proof -
  obtain i where i: "va = 0x8000000 + of_nat i" "i < 4194304" using assms(2) region_iff in_region by metis
  have "unat (of_nat ((4 + o') * 4194304) :: u32) = (4 + o') * 4194304" by (rule unat_frame_base [OF assms(1)])
  then have "unat pa = (4 + o') * 4194304 + i"
    using assms i unat_add_of_nat [of "of_nat ((4 + o') * 4194304)" i] by simp
  then show ?thesis using i(2) by (simp add: frames_def)
qed

text \<open>A page that was never the target of a share is in the process's own frames.\<close>

lemma owner_unshared:
  "\<forall>s va. Share p s va \<notin> set cs \<Longrightarrow> owner cs p = (\<lambda>i. p)"
proof -
  assume "\<forall>s va. Share p s va \<notin> set cs"
  then have "ow p = (\<lambda>i. p) \<Longrightarrow> fold owner_step cs ow p = (\<lambda>i. p)" for ow
  proof (induction cs arbitrary: ow)
    case (Cons c cs)
    have "owner_step c ow p = (\<lambda>i. p)" using Cons.prems by (cases c) auto
    then show ?case using Cons.IH [of "owner_step c ow"] Cons.prems by simp
  qed simp
  then show ?thesis by (simp add: owner_def)
qed

section \<open>Property\<close>

text \<open>
  C12. Processes are isolated. From zeroed directories on, with whatever is in the tables and in memory, the first
  process is set up and then any calls are made that the kernel may make: forks into pids below 28, and shares of
  pages between processes that exist. All of them succeed, and after them, by the walk through the tables, a
  process reaches in user mode exactly [0x8000000, 0x8400000): each page in the 4 MB of frames of its owner, which is
  the process itself unless the page was shared to it after its fork. So two processes no page was shared to reach
  disjoint memory, no process reaches memory below 16 MB, where the kernel and its tables are, and the
  kernel's mapping of the low 4 MB at \<^verbatim>\<open>KERNBASE\<close> is in every directory and not for user mode.
\<close>

theorem address_spaces_isolated:
  assumes "layout_ok etp utp" "\<forall>p i. user_pgdir st0 p i = 0" "calls_ok {0} cs"
  shows "\<exists>st. andThen (page_boot etp utp st0) (page_run etp utp cs) = Inr st
    \<and> (\<forall>p \<in> made {0} cs.
        (\<forall>va. user_access etp utp st p va = (if 0x8000000 \<le> va \<and> va < 0x8400000
           then Some (of_nat ((4 + owner cs p (unat (PTX va))) * 4194304) + (va - 0x8000000)) else None))
        \<and> (\<forall>va pa. user_access etp utp st p va = Some pa \<longrightarrow> KERN_MEM \<le> pa)
        \<and> (\<forall>pa < 0x400000. translate etp utp st p (KERNBASE + pa) = Some (pa, 3))
        \<and> ((\<forall>s va. Share p s va \<notin> set cs) \<longrightarrow>
             (\<forall>va pa. user_access etp utp st p va = Some pa \<longrightarrow> pa \<in> frames p)))"
proof -
  obtain st1 where b: "page_boot etp utp st0 = Inr st1" "spaces etp utp {0} (\<lambda>p i. p) st1"
    using boot_spaces assms(2) by blast
  obtain st where r: "page_run etp utp cs st1 = Inr st" "spaces etp utp (made {0} cs) (owner cs) st"
    using run_spaces [OF assms(1) b(2) assms(3)] unfolding owner_def by blast
  note acc = spaces_user_access [OF assms(1) r(2)]
  have fr: "pa \<in> frames (owner cs p (unat (PTX va)))"
    if p: "p \<in> made {0} cs" and a: "user_access etp utp st p va = Some pa" for p va pa
    by (rule access_frames [OF spacesD(6) [OF r(2) p PGOFF_small(2)]]) (use acc [OF p, of va] a in \<open>auto split: if_splits\<close>)
  have "KERN_MEM \<le> pa" if "p \<in> made {0} cs" "user_access etp utp st p va = Some pa" for p va pa
    using fr [OF that] by (simp add: frames_def word_le_nat_alt)
  moreover have "pa \<in> frames p" if "p \<in> made {0} cs" "user_access etp utp st p va = Some pa"
    "\<forall>s va. Share p s va \<notin> set cs" for p va pa
    using fr [OF that(1,2)] owner_unshared [OF that(3)] by simp
  ultimately show ?thesis using b(1) r(1) acc kernel_mapping [OF assms(1) r(2)] by auto
qed

text \<open>Two forks, then a page of process 2 is shared to process 1.\<close>

theorem address_spaces_isolated_witness:
  "\<exists>st. andThen (page_boot 0x102000 0x200000 \<lparr>user_pgdir = \<lambda>p i. 0, user_pgtable = \<lambda>p i. 5, pmem = \<lambda>p. 0\<rparr>)
      (page_run 0x102000 0x200000 [Fork 0 1, Fork 1 2, Share 1 2 0x8050000]) = Inr st
    \<and> user_access 0x102000 0x200000 st 1 0x8050004 = Some 0x1850004
    \<and> user_access 0x102000 0x200000 st 1 0x8051004 = Some 0x1451004
    \<and> user_access 0x102000 0x200000 st 2 0x8051004 = Some 0x1851004
    \<and> user_access 0x102000 0x200000 st 1 0xF0100000 = None"
proof -
  have x: "unat (PTX 0x8050000) = 80" "unat (PTX 0x8050004) = 80" "unat (PTX 0x8051004) = 81" "PGOFF 0x8050000 = 0"
    by (simp_all add: unat_fields PGOFF_def)
  have ok: "calls_ok {0} [Fork 0 1, Fork 1 2, Share 1 2 0x8050000]"
    and m: "made {0} [Fork 0 1, Fork 1 2, Share 1 2 0x8050000] = {0, 1, 2}" using x by auto
  show ?thesis
    using address_spaces_isolated [OF sample_layout _ ok, unfolded m,
        of "\<lparr>user_pgdir = \<lambda>p i. 0, user_pgtable = \<lambda>p i. 5, pmem = \<lambda>p. 0\<rparr>"]
    by (auto simp: owner_def x)
qed

end
