(* ===== verification/Start.thy ===== *)
theory Start
  imports Paging X86
begin

text \<open>
  The two stretches of assembly the system starts with: \<^verbatim>\<open>boot/boot.S\<close>, from real mode to \<^verbatim>\<open>bootmain\<close>, and
  \<^verbatim>\<open>kernel/entry.S\<close>, which switches paging on under the running code and calls \<^verbatim>\<open>kernel_init\<close>. \<open>machine\<close>
  adds to \<open>cpu\<close> the registers these instructions use. The BIOS call that sets the video mode is the parameter
  \<open>int10\<close>, and so are the addresses of labels. The descriptors the assembler builds with its own \<^verbatim>\<open>SEG\<close>
  macro are compared with the structures of C.
\<close>

unbundle bit_operations_syntax

section \<open>Descriptors in bytes\<close>

text \<open>\<^verbatim>\<open>struct Segdesc\<close>: bit fields from the low end of two double words.\<close>

definition bytes_of_segdesc :: "segdesc \<Rightarrow> u8 list" where
  "bytes_of_segdesc d = bytes_of_u16 (sd_lim_15_0 d) @ bytes_of_u16 (sd_base_15_0 d)
     @ [sd_base_23_16 d,
        ucast (sd_type d) OR push_bit 4 (ucast (sd_s d)) OR push_bit 5 (ucast (sd_dpl d)) OR push_bit 7 (ucast (sd_p d)),
        ucast (sd_lim_19_16 d) OR push_bit 4 (ucast (sd_avl d)) OR push_bit 5 (ucast (sd_rsv1 d))
          OR push_bit 6 (ucast (sd_db d)) OR push_bit 7 (ucast (sd_g d)),
        sd_base_31_24 d]"

text \<open>The macros of \<^verbatim>\<open>inc/mmu.h\<close> for the assembler.\<close>

definition asm_SEG_NULL :: "u8 list" where
  "asm_SEG_NULL = bytes_of_u16 0 @ bytes_of_u16 0 @ [0, 0, 0, 0]"

definition asm_SEG :: "u8 \<Rightarrow> u32 \<Rightarrow> u32 \<Rightarrow> u8 list" where
  "asm_SEG ty base lim =
     bytes_of_u16 (ucast (drop_bit 12 lim AND 0xffff)) @ bytes_of_u16 (ucast (base AND 0xffff))
     @ [ucast (drop_bit 16 base AND 0xff), 0x90 OR ty,
        0xC0 OR ucast (drop_bit 28 lim AND 0xf), ucast (drop_bit 24 base AND 0xff)]"

definition boot_gdt :: "u8 list" where
  "boot_gdt = asm_SEG_NULL @ asm_SEG (ucast (STA_X OR STA_R)) 0x0 0xffffffff @ asm_SEG (ucast STA_W) 0x0 0xffffffff"

definition gdtdesc :: "u32 \<Rightarrow> u8 list" where
  "gdtdesc gdt_addr = bytes_of_u16 0x17 @ bytes_of_u32 gdt_addr"

section \<open>boot/boot.S\<close>

record machine = cpu +
  m_eax :: u32
  m_eip :: u32
  m_cs :: u16
  m_ds :: u16
  m_es :: u16
  m_fs :: u16
  m_gs :: u16
  m_ss :: u16

text \<open>\<^verbatim>\<open>seta20.1\<close>: the input buffer of the keyboard controller is busy while bit 1 of its status is set.\<close>

partial_function (option) seta20 :: "'d ports \<Rightarrow> 'd \<Rightarrow> 'd option" where
  "seta20 P d =
     (let al = fst (in8 P 0x64 d); d1 = snd (in8 P 0x64 d)
      in if al AND 0x2 \<noteq> 0 then seta20 P d1 else Some d1)"

definition start :: "'d ports \<Rightarrow> (u16 \<Rightarrow> 'd \<Rightarrow> 'd) \<Rightarrow> u32 \<Rightarrow> u32 \<Rightarrow> u32 \<Rightarrow> machine \<Rightarrow> 'd \<Rightarrow> (machine \<times> 'd) option" where
  "start P int10 gdtdesc_addr start_addr bootmain_addr m d =
     (let m1 = m\<lparr>cpu_eflags := cpu_eflags m AND NOT FL_IF AND NOT FL_DF, m_ds := 0, m_es := 0, m_ss := 0\<rparr>;
          d1 = int10 0x13 d
      in case seta20 P d1 of
           None \<Rightarrow> None
         | Some d2 \<Rightarrow>
             (case seta20 P (out8 P 0x64 0xd1 d2) of
                None \<Rightarrow> None
              | Some d3 \<Rightarrow>
                  let d4 = out8 P 0x60 0xdf d3;
                      m2 = m1\<lparr>cpu_gdtr := pseudodesc_at gdtdesc_addr (ram m1), m_eax := cpu_cr0 m1 OR 0x1,
                              cpu_cr0 := cpu_cr0 m1 OR 0x1, m_cs := 0x8\<rparr>;
                      m3 = m2\<lparr>m_eax := (m_eax m2 AND 0xFFFF0000) OR 0x10, m_ds := 0x10, m_es := 0x10, m_fs := 0x10,
                              m_gs := 0x10, m_ss := 0x10, cpu_esp := start_addr, m_eip := bootmain_addr\<rparr>
                  in Some (m3, d4)))"

section \<open>kernel/entry.S\<close>

definition RELOC :: "u32 \<Rightarrow> u32" where "RELOC x = x - KERNBASE"

text \<open>
  \<open>pgdir\<close>, \<open>relocated\<close> and \<open>kernel_init_addr\<close> are link addresses. The first part runs at the physical address,
  up to the jump; the second one at the link address.
\<close>

definition entry_low :: "u32 \<Rightarrow> u32 \<Rightarrow> machine \<Rightarrow> machine" where
  "entry_low pgdir relocated m =
     (let m1 = m\<lparr>ram := store_at 0x472 (bytes_of_u16 0x1234) (ram m)\<rparr>;
          m2 = m1\<lparr>m_eax := RELOC pgdir, cpu_cr3 := RELOC pgdir, cpu_tlb := Map.empty\<rparr>;
          m3 = m2\<lparr>m_eax := cpu_cr0 m2 OR (CR0_PE OR CR0_PG OR CR0_WP), cpu_cr0 := cpu_cr0 m2 OR (CR0_PE OR CR0_PG OR CR0_WP)\<rparr>
      in m3\<lparr>m_eax := relocated, m_eip := relocated\<rparr>)"

definition entry_high :: "u32 \<Rightarrow> machine \<Rightarrow> machine" where
  "entry_high kernel_init_addr m = m\<lparr>cpu_ebp := 0x0, cpu_esp := 0xF0400000, m_eip := kernel_init_addr\<rparr>"

text \<open>The walk through \<^verbatim>\<open>entry_pgdir\<close>, whose table lies at the physical address \<open>etp\<close>.\<close>

definition entry_walk :: "u32 \<Rightarrow> u32 \<Rightarrow> (u32 \<times> u32) option" where
  "entry_walk etp va =
     (let pde = entry_pgdir (KADDR etp) ! unat (PDX va)
      in if pde AND PTE_P = 0 \<or> PTE_ADDR pde \<noteq> etp then None
         else let pte = entry_pgtable ! unat (PTX va)
              in if pte AND PTE_P = 0 then None else Some (PTE_ADDR pte OR PGOFF va, PGOFF (pde AND pte)))"

section \<open>The assembler's descriptors are those of C\<close>

lemma ucast_of_masked:
  "(ucast (x AND 0xff) :: u8) = ucast x" "(ucast (x AND 0xffff) :: u16) = ucast x" for x :: u32
proof -
  have m: "x AND 0xff = take_bit 8 x" "x AND 0xffff = take_bit 16 x"
    by (simp_all add: take_bit_eq_mask mask_numeral)
  show "(ucast (x AND 0xff) :: u8) = ucast x" unfolding m by (rule bit_word_eqI) (simp add: bit_simps)
  show "(ucast (x AND 0xffff) :: u16) = ucast x" unfolding m by (rule bit_word_eqI) (simp add: bit_simps)
qed

lemma asm_SEG_struct: "asm_SEG (ucast ty) base lim = bytes_of_segdesc (SEG ty base lim 0)"
proof -
  have t: "0x90 OR (ucast ty :: u8) = ucast ty OR push_bit 4 1 OR push_bit 7 1"
    by (simp add: push_bit_eq_mult ac_simps)
  have "(ucast (drop_bit 28 lim AND 0xf) :: u8) = ucast (ucast (drop_bit 28 lim) :: 4 word)"
  proof -
    have m: "drop_bit 28 lim AND 0xf = take_bit 4 (drop_bit 28 lim)" by (simp add: take_bit_eq_mask mask_numeral)
    show ?thesis unfolding m by (rule bit_word_eqI) (auto simp: bit_simps)
  qed
  then have l: "0xC0 OR (ucast (drop_bit 28 lim AND 0xf) :: u8) =
      ucast (ucast (drop_bit 28 lim) :: 4 word) OR push_bit 6 1 OR push_bit 7 1"
    by (simp add: push_bit_eq_mult ac_simps)
  show ?thesis by (simp add: asm_SEG_def bytes_of_segdesc_def SEG_def ucast_of_masked t l)
qed

lemma asm_SEG_NULL_struct: "asm_SEG_NULL = bytes_of_segdesc SEG_NULL"
  by (simp add: asm_SEG_NULL_def bytes_of_segdesc_def SEG_NULL_def)

lemma boot_gdt_struct:
  "boot_gdt = concat (map bytes_of_segdesc [SEG_NULL, SEG (STA_X OR STA_R) 0 0xffffffff 0, SEG STA_W 0 0xffffffff 0])"
  unfolding boot_gdt_def asm_SEG_struct asm_SEG_NULL_struct by simp

section \<open>Up to bootmain\<close>

text \<open>What the keyboard controller promises: it empties its input buffer after a while.\<close>

definition controller_ready :: "'d ports \<Rightarrow> bool" where
  "controller_ready P \<longleftrightarrow> (\<forall>d. \<exists>n. fst (in8 P 0x64 (((\<lambda>d. snd (in8 P 0x64 d)) ^^ n) d)) AND 0x2 = 0)"

lemma seta20_returns:
  assumes "controller_ready P"
  shows "\<exists>d'. seta20 P d = Some d'"
proof -
  obtain n where "fst (in8 P 0x64 (((\<lambda>d. snd (in8 P 0x64 d)) ^^ n) d)) AND 0x2 = 0"
    using assms by (auto simp: controller_ready_def)
  then show ?thesis
  proof (induction n arbitrary: d)
    case 0
    then show ?case by (simp add: seta20.simps [of P d] Let_def)
  next
    case (Suc n)
    then have "\<exists>d'. seta20 P (snd (in8 P 0x64 d)) = Some d'" by (simp add: funpow_Suc_right del: funpow.simps)
    then show ?case by (auto simp: seta20.simps [of P d] Let_def)
  qed
qed

lemma gdtdesc_loaded:
  assumes "load_at p 6 m = gdtdesc g"
  shows "pseudodesc_at p m = \<lparr>pd_lim = 0x17, pd_base = g\<rparr>"
proof -
  have "load_at p (2 + 4) m = bytes_of_u16 0x17 @ bytes_of_u32 g" using assms by (simp add: gdtdesc_def)
  then have "load_at p 2 m = bytes_of_u16 0x17" "load_at (p + 2) 4 m = bytes_of_u32 g"
    unfolding load_at_append by (simp_all add: length_bytes_of_u16 length_bytes_of_u32)
  then show ?thesis by (simp add: pseudodesc_at_def u16_of_bytes_of_u16 u32_of_bytes_of_u32)
qed

text \<open>The descriptor a selector names, as the bytes in memory.\<close>

definition selected :: "u16 \<Rightarrow> cpu \<Rightarrow> u8 list" where
  "selected sel c = load_at (pd_base (cpu_gdtr c) + ucast (sel AND 0xFFF8)) 8 (ram c)"

lemma boot_gdt_selected:
  assumes "load_at g 24 m = boot_gdt"
  shows "load_at (g + 8) 8 m = bytes_of_segdesc (SEG (STA_X OR STA_R) 0 0xffffffff 0)"
    "load_at (g + 16) 8 m = bytes_of_segdesc (SEG STA_W 0 0xffffffff 0)"
proof -
  have l: "length (bytes_of_segdesc d) = 8" for d
    by (simp add: bytes_of_segdesc_def length_bytes_of_u16)
  have "load_at g (8 + (8 + 8)) m = bytes_of_segdesc SEG_NULL
      @ bytes_of_segdesc (SEG (STA_X OR STA_R) 0 0xffffffff 0) @ bytes_of_segdesc (SEG STA_W 0 0xffffffff 0)"
    using assms by (simp add: boot_gdt_struct)
  then have "load_at (g + 8) (8 + 8) m = bytes_of_segdesc (SEG (STA_X OR STA_R) 0 0xffffffff 0)
      @ bytes_of_segdesc (SEG STA_W 0 0xffffffff 0)"
    unfolding load_at_append [of g] using l by (simp add: append_eq_append_conv)
  then show "load_at (g + 8) 8 m = bytes_of_segdesc (SEG (STA_X OR STA_R) 0 0xffffffff 0)"
    "load_at (g + 16) 8 m = bytes_of_segdesc (SEG STA_W 0 0xffffffff 0)"
    unfolding load_at_append [of "g + 8"] using l by (simp_all add: append_eq_append_conv add.assoc)
qed

lemma start_reaches_bootmain:
  assumes "controller_ready P" "load_at gd 6 (ram m) = gdtdesc g" "load_at g 24 (ram m) = boot_gdt"
  shows "\<exists>m' d'. start P int10 gd start_addr bootmain_addr m d = Some (m', d')
    \<and> m_eip m' = bootmain_addr \<and> cpu_esp m' = start_addr \<and> cpu_cr0 m' AND CR0_PE \<noteq> 0
    \<and> cpu_eflags m' AND FL_IF = 0 \<and> cpu_gdtr m' = \<lparr>pd_lim = 0x17, pd_base = g\<rparr>
    \<and> selected (m_cs m') (cpu.truncate m') = bytes_of_segdesc (SEG (STA_X OR STA_R) 0 0xffffffff 0)
    \<and> (\<forall>s \<in> {m_ds m', m_es m', m_fs m', m_gs m', m_ss m'}.
         selected s (cpu.truncate m') = bytes_of_segdesc (SEG STA_W 0 0xffffffff 0))"
proof -
  obtain d2 where d2: "seta20 P (int10 0x13 d) = Some d2" using seta20_returns [OF assms(1)] by blast
  obtain d3 where d3: "seta20 P (out8 P 0x64 0xd1 d2) = Some d3" using seta20_returns [OF assms(1)] by blast
  show ?thesis
    using boot_gdt_selected [OF assms(3)]
    by (simp add: start_def Let_def d2 d3 gdtdesc_loaded [OF assms(2)] selected_def cpu.defs
        bit.conj_disj_distrib2 and.assoc)
qed

text \<open>A controller that is busy for as many reads as its state says.\<close>

definition busy_ports :: "nat ports" where
  "busy_ports = \<lparr>in8 = (\<lambda>_ n. (if n = 0 then 0 else 2, n - 1)), in16 = (\<lambda>_ n. (0, n)), in32 = (\<lambda>_ n. (0, n)),
     out8 = (\<lambda>_ _ n. n + 3), out16 = (\<lambda>_ _ n. n), out32 = (\<lambda>_ _ n. n)\<rparr>"

lemma busy_ports_ready: "controller_ready busy_ports"
proof -
  have n: "((\<lambda>d. snd (in8 busy_ports 0x64 d)) ^^ n) m = m - n" for n m
    by (induction n) (simp_all add: busy_ports_def)
  show ?thesis
    unfolding controller_ready_def
  proof
    fix d show "\<exists>n. fst (in8 busy_ports 0x64 (((\<lambda>d. snd (in8 busy_ports 0x64 d)) ^^ n) d)) AND 0x2 = 0"
      by (rule exI [of _ d]) (simp add: n, simp add: busy_ports_def)
  qed
qed

section \<open>Paging under the running code\<close>

lemma entry_pgdir_nth:
  assumes "i < 1024"
  shows "entry_pgdir (KADDR etp) ! i = (if i = 0 then etp + 1 else if i = 960 then etp + 3 else 0)"
proof -
  have "unat (drop_bit 22 (0xF0000000 :: u32)) = 960" by (simp add: drop_bit_eq_div)
  then show ?thesis using assms by (simp add: entry_pgdir_def KADDR_def nth_list_update)
qed

text \<open>The walk is the one of a process whose directory is \<^verbatim>\<open>entry_pgdir\<close>.\<close>

lemma entry_walk_translate:
  assumes "layout_ok etp utp"
  shows "entry_walk etp va = translate etp utp \<lparr>user_pgdir = (\<lambda>_ i. entry_pgdir (KADDR etp) ! i),
    user_pgtable = (\<lambda>_ _. 0), pmem = m\<rparr> 0 va"
proof -
  let ?e = "entry_pgdir (KADDR etp) ! unat (PDX va)"
  have a: "unat etp mod 4096 = 0" using assms by (simp add: layout_ok_def)
  have "etp + f = etp OR f" if "f = 1 \<or> f = 3" for f
  proof (rule disjunctive_add)
    fix n
    have "take_bit 12 (unat etp) = 0" using a by (simp add: take_bit_eq_mod)
    then have "n < 12 \<Longrightarrow> \<not> bit (unat etp) n" by (metis bit_take_bit_iff bit_0_eq bot_apply bot_bool_def)
    then have "n < 12 \<Longrightarrow> \<not> bit etp n" by (auto simp: bit_unsigned_iff dest: bit_imp_le_length)
    moreover have "bit f n \<Longrightarrow> n < 12" using small_bits [of f 12 n] that by auto
    ultimately show "\<not> bit etp n \<or> \<not> bit f n" by blast
  qed
  then have "PTE_ADDR (etp + 1) = etp" "PTE_ADDR (etp + 3) = etp"
    using low_flags(1) [OF a, of 1] low_flags(1) [OF a, of 3] by simp_all
  then have "?e = 0 \<or> PTE_ADDR ?e = etp" using entry_pgdir_nth [OF PGOFF_small(3), of etp va] by auto
  then show ?thesis by (auto simp: entry_walk_def translate_def table_at_def Let_def)
qed

text \<open>
  C36. \<^verbatim>\<open>entry.S\<close> switches paging on while it runs: with \<^verbatim>\<open>entry_pgdir\<close> every address of the low 4 MB is mapped to
  itself, so that the code before the jump goes on, and to \<^verbatim>\<open>KERNBASE\<close> above it, so that the jump lands on
  the same instructions; the low mapping is read-only (\<^verbatim>\<open>CR0_WP\<close> is set), the high one writable, nothing else
  is mapped, and \<^verbatim>\<open>kernel_init\<close> starts with a stack that is.
\<close>

theorem entry_continues:
  assumes "layout_ok etp utp" "pa < 0x400000"
  shows "let m' = entry_high kinit (entry_low pgdir relocated m) in
      cpu_cr3 m' = pgdir - KERNBASE \<and> cpu_cr0 m' AND CR0_PG \<noteq> 0 \<and> cpu_cr0 m' AND CR0_WP \<noteq> 0
    \<and> m_eip (entry_low pgdir relocated m) = relocated \<and> m_eip m' = kinit
    \<and> entry_walk etp pa = Some (pa, PTE_P) \<and> entry_walk etp (KERNBASE + pa) = Some (pa, PTE_P OR PTE_W)
    \<and> (\<forall>va. unat (PDX va) \<notin> {0, 960} \<longrightarrow> entry_walk etp va = None)
    \<and> entry_walk etp (cpu_esp m' - 4) = Some (0x3FFFFC, PTE_P OR PTE_W)"
proof -
  have low: "entry_walk etp pa = Some (pa, 1)" "entry_walk etp (KERNBASE + pa) = Some (pa, 3)" if "unat pa < 4194304" for pa
  proof -
    note l = low_memory [OF that]
    let ?st = "\<lparr>user_pgdir = (\<lambda>_ i. entry_pgdir (KADDR etp) ! i), user_pgtable = (\<lambda>_ _. 0), pmem = (\<lambda>_. 0)\<rparr>"
    note w = entry_walk_translate [OF assms(1), of _ "\<lambda>_. 0"]
    have "user_pgdir ?st 0 (unat (PDX pa)) = etp + 1" "user_pgdir ?st 0 (unat (PDX (KERNBASE + pa))) = etp + 3"
      unfolding l(1,2) by (simp_all add: entry_pgdir_nth)
    from boot_mapping(1) [OF assms(1) this(1)] boot_mapping(1) [OF assms(1) this(2)]
    show "entry_walk etp pa = Some (pa, 1)" "entry_walk etp (KERNBASE + pa) = Some (pa, 3)"
      unfolding w l(3,4) by simp_all
  qed
  have "entry_walk etp va = None" if "unat (PDX va) \<notin> {0, 960}" for va
    using that entry_pgdir_nth [OF PGOFF_small(3), of etp va] by (simp add: entry_walk_def)
  moreover have "unat pa < 4194304" using assms(2) by (simp add: word_less_nat_alt)
  moreover have "entry_walk etp 0xF03FFFFC = Some (0x3FFFFC, 3)" using low(2) [of "0x3FFFFC"] by simp
  ultimately show ?thesis
    using low by (simp add: entry_low_def entry_high_def RELOC_def Let_def bit.conj_disj_distrib2 and.assoc)
qed

theorem entry_continues_witness:
  "entry_walk 0x102000 0x10000C = Some (0x10000C, 1) \<and> entry_walk 0x102000 0xF010000C = Some (0x10000C, 3)"
  using entry_continues [OF sample_layout, of "0x10000C"] by (simp add: Let_def)

end
