(* ===== verification/Console.thy ===== *)
theory Console
  imports CString
begin

text \<open>
  Printing: \<^verbatim>\<open>kernel/printk.c\<close>, and what the printed numbers say. The output of
  \<^verbatim>\<open>serial_printc\<close> is the list of the bytes sent; the arguments of a call are the 32-bit words on
  the stack, strings lie in the flat memory, the control string is the array \<^verbatim>\<open>ctl\<close> points to.
\<close>

section \<open>convert\<close>

text \<open>\<^verbatim>\<open>static char Representation[] = "0123456789ABCDEF"\<close>, with its NUL.\<close>

definition Representation :: "u8 list" where
  "Representation = [48, 49, 50, 51, 52, 53, 54, 55, 56, 57, 65, 66, 67, 68, 69, 70, 0]"

text \<open>
  The loop of \<^verbatim>\<open>convert\<close>: \<open>p\<close> is the index of \<^verbatim>\<open>ptr\<close> in the buffer of 50, \<open>out\<close> the characters from there
  on. Writing below the buffer is a fault.
\<close>

function convert_loop :: "u32 \<Rightarrow> u32 \<Rightarrow> nat \<Rightarrow> u8 list \<Rightarrow> u8 list result" where
  "convert_loop num base p out =
     (if base = 0 then Inl (Panic ''divide error'')
      else if p = 0 then Inl (Out_of_bounds ''buffer'')
      else andThen (array_get ''Representation'' Representation (unat (num mod base))) (\<lambda>c.
        let num' = num div base; out' = c # out
        in if num' \<noteq> 0 then convert_loop num' base (p - 1) out' else Inr out'))"
  by pat_completeness auto
termination
  by (relation "measure (\<lambda>(num, base, p, out). p)") auto

declare convert_loop.simps [simp del]

definition convert :: "u32 \<Rightarrow> u32 \<Rightarrow> u8 list result" where
  "convert num base = convert_loop num base 49 []"

section \<open>puts, vfprintf and printk\<close>

text \<open>A string that has no end in 32 bits of address space is printed forever.\<close>

function puts_loop :: "memory \<Rightarrow> u32 \<Rightarrow> nat \<Rightarrow> u8 list \<Rightarrow> (nat \<times> u8 list) result" where
  "puts_loop m s count out =
     (if count < 2 ^ 32 then
        if m s = 0 then Inr (count, out) else puts_loop m (s + 1) (count + 1) (out @ [m s])
      else Inl (Diverges ''puts''))"
  by pat_completeness auto
termination
  by (relation "measure (\<lambda>(m, s, count, out). 2 ^ 32 - count)") auto

declare puts_loop.simps [simp del]

definition puts :: "memory \<Rightarrow> u32 \<Rightarrow> u8 list \<Rightarrow> (nat \<times> u8 list) result" where
  "puts m s out = puts_loop m s 0 out"

text \<open>\<^verbatim>\<open>puts\<close> of the characters \<^verbatim>\<open>convert\<close> left in its buffer, which end with a NUL.\<close>

definition puts_chars :: "u8 list \<Rightarrow> u8 list \<Rightarrow> nat \<times> u8 list" where
  "puts_chars cs out = (let t = takeWhile (\<lambda>c. c \<noteq> 0) cs in (length t, out @ t))"

definition va_arg :: "u32 list \<Rightarrow> (u32 \<times> u32 list) result" where
  "va_arg args = (case args of [] \<Rightarrow> Inl (Out_of_bounds ''va_arg'') | a # rest \<Rightarrow> Inr (a, rest))"

text \<open>
  \<open>37\<close> is the percent sign, \<open>45\<close> the minus, \<open>100\<close>, \<open>120\<close>, \<open>99\<close> and \<open>115\<close> are d, x, c and s. After an
  unknown letter, even the NUL, the loop goes on with the next character.
\<close>

fun vfprintf :: "memory \<Rightarrow> u8 list \<Rightarrow> u32 list \<Rightarrow> nat \<Rightarrow> u8 list \<Rightarrow> (nat \<times> u8 list) result" where
  "vfprintf m [] args count out = Inl (Out_of_bounds ''ctl'')"
| "vfprintf m (c # ctl) args count out =
     (if c = 0 then Inr (count, out)
      else if c \<noteq> 37 then vfprintf m ctl args (count + 1) (out @ [c])
      else (case ctl of
          [] \<Rightarrow> Inl (Out_of_bounds ''ctl'')
        | d # ctl' \<Rightarrow>
            if d = 100 then andThen (va_arg args) (\<lambda>(i, args').
                let neg = sint i < 0; j = (if neg then - i else i);
                    out1 = (if neg then out @ [45] else out); count1 = (if neg then count + 1 else count)
                in andThen (convert j 10) (\<lambda>cs. let (n, out2) = puts_chars cs out1
                     in vfprintf m ctl' args' (count1 + n) out2))
            else if d = 120 then andThen (va_arg args) (\<lambda>(i, args').
                andThen (convert i 16) (\<lambda>cs. let (n, out2) = puts_chars cs out
                     in vfprintf m ctl' args' (count + n) out2))
            else if d = 99 then andThen (va_arg args) (\<lambda>(i, args').
                vfprintf m ctl' args' (count + 1) (out @ [ucast i]))
            else if d = 115 then andThen (va_arg args) (\<lambda>(s, args').
                andThen (puts m s out) (\<lambda>(n, out2). vfprintf m ctl' args' (count + n) out2))
            else vfprintf m ctl' args count out))"

definition printk :: "memory \<Rightarrow> u8 list \<Rightarrow> u32 list \<Rightarrow> u8 list \<Rightarrow> (int \<times> u8 list) result" where
  "printk m ctl args out = andThen (vfprintf m ctl args 0 out) (\<lambda>(count, out1). Inr (0, out1))"

section \<open>Numerals\<close>

text \<open>The digits of a number in a base up to 16, most significant first.\<close>

definition digit :: "nat \<Rightarrow> u8" where
  "digit d = Representation ! d"

fun numeral_of :: "nat \<Rightarrow> nat \<Rightarrow> u8 list" where
  "numeral_of b n = (if b < 2 then [] else if n < b then [digit n] else numeral_of b (n div b) @ [digit (n mod b)])"

declare numeral_of.simps [simp del]

text \<open>Reading a numeral back.\<close>

definition digit_value :: "u8 \<Rightarrow> nat" where
  "digit_value c = (if c \<ge> 65 then unat c - 55 else unat c - 48)"

definition read_numeral :: "nat \<Rightarrow> u8 list \<Rightarrow> nat" where
  "read_numeral b cs = foldl (\<lambda>n c. n * b + digit_value c) 0 cs"

lemma digit_cases: "d < 16 \<Longrightarrow> digit_value (digit d) = d \<and> digit d \<noteq> 0 \<and> (digit d = 48 \<longleftrightarrow> d = 0)"
proof -
  assume "d < 16"
  then have "d \<in> set [0..<16]" by simp
  moreover have "\<forall>d \<in> set [0..<16]. digit_value (digit d) = d \<and> digit d \<noteq> 0 \<and> (digit d = 48 \<longleftrightarrow> d = 0)"
    by (simp add: upt_rec digit_def digit_value_def Representation_def)
  ultimately show ?thesis by blast
qed

lemma read_numeral_of:
  "2 \<le> b \<Longrightarrow> b \<le> 16 \<Longrightarrow> read_numeral b (numeral_of b n) = n"
proof (induction b n rule: numeral_of.induct)
  case (1 b n)
  then have d: "n mod b < 16" "n < b \<longrightarrow> n < 16" by (auto intro: less_le_trans [of _ b])
  show ?case
    using 1 d digit_cases [of n] digit_cases [of "n mod b"]
    by (simp add: numeral_of.simps [of b n] read_numeral_def)
qed

lemma numeral_of_nonempty [simp]: "2 \<le> b \<Longrightarrow> numeral_of b n \<noteq> []"
  by (subst numeral_of.simps) simp

lemma numeral_of_chars: "2 \<le> b \<Longrightarrow> b \<le> 16 \<Longrightarrow> c \<in> set (numeral_of b n) \<Longrightarrow> c \<noteq> 0"
proof (induction b n rule: numeral_of.induct)
  case (1 b n)
  then have d: "n mod b < 16" "n < b \<longrightarrow> n < 16" by (auto intro: less_le_trans [of _ b])
  show ?case
    using 1 d digit_cases [of n] digit_cases [of "n mod b"]
    by (auto simp: numeral_of.simps [of b n] split: if_splits)
qed

lemma numeral_of_no_leading_zero: "2 \<le> b \<Longrightarrow> b \<le> 16 \<Longrightarrow> hd (numeral_of b n) = 48 \<longleftrightarrow> n = 0"
proof (induction b n rule: numeral_of.induct)
  case (1 b n)
  have "n < b \<longrightarrow> n < 16" using 1(3) by simp
  then show ?case
    using 1 digit_cases [of n] by (auto simp: numeral_of.simps [of b n] div_eq_0_iff hd_append)
qed

lemma convert_loop_numeral:
  assumes "2 \<le> unat base" "unat base \<le> 16"
  shows "unat num < 2 ^ p \<Longrightarrow> 0 < p \<Longrightarrow> convert_loop num base p out = Inr (numeral_of (unat base) (unat num) @ out)"
proof (induction p arbitrary: num out)
  case (Suc p)
  have b: "base \<noteq> 0" using assms(1) by auto
  have d: "unat (num mod base) = unat num mod unat base" "unat (num div base) = unat num div unat base"
    by (simp_all add: unat_mod unat_div)
  have lt: "unat num mod unat base < 16" using assms by (auto intro: less_le_trans [of _ "unat base"])
  then have get: "array_get ''Representation'' Representation (unat (num mod base)) = Inr (digit (unat num mod unat base))"
    by (simp add: array_get_def d digit_def Representation_def)
  have z: "num div base = 0 \<longleftrightarrow> unat num < unat base"
    using assms(1) by (simp add: d div_eq_0_iff flip: unat_eq_0)
  show ?case
  proof (cases "unat num < unat base")
    case True
    then show ?thesis using b get z assms(1)
      by (simp add: convert_loop.simps [of num] numeral_of.simps [of _ "unat num"])
  next
    case False
    have "unat num div unat base \<le> unat num div 2" using assms(1) by (rule div_le_mono2 [rotated]) simp
    also have "\<dots> < 2 ^ p" using Suc.prems(1) by (simp add: less_mult_imp_div_less)
    finally have small: "unat (num div base) < 2 ^ p" by (simp add: d)
    have "0 < unat num div unat base" using False assms(1) by (simp add: div_greater_zero_iff)
    then have p: "0 < p" using small d by (cases p) auto
    show ?thesis using b get z False assms(1) Suc.IH [OF small p] d(2)
      by (simp add: convert_loop.simps [of num] numeral_of.simps [of _ "unat num"])
  qed
qed simp

lemma convert_numeral:
  assumes "2 \<le> unat base" "unat base \<le> 16"
  shows "convert num base = Inr (numeral_of (unat base) (unat num))"
proof -
  have "unat num < 2 ^ 32" using unsigned_less [of num] by simp
  then have "unat num < 2 ^ 49" by (rule less_le_trans) simp
  then show ?thesis using convert_loop_numeral [OF assms, of num 49 "[]"] by (simp add: convert_def)
qed

text \<open>
  \<^verbatim>\<open>convert\<close> prints a number in any base from 2 to 16 so that reading the digits gives it back,
  without a leading zero, and stays inside its buffer of 50 bytes.
\<close>

lemma convert_reads_back:
  assumes "2 \<le> unat base" "unat base \<le> 16"
  shows "\<exists>cs. convert num base = Inr cs \<and> read_numeral (unat base) cs = unat num \<and> cs \<noteq> []
    \<and> (hd cs = 48 \<longleftrightarrow> num = 0)"
  using convert_numeral [OF assms] read_numeral_of [OF assms] numeral_of_no_leading_zero [OF assms] assms(1)
  by (auto simp: unat_eq_0)

lemma convert_reads_back_witness:
  "\<exists>cs. convert 0xF01047E7 16 = Inr cs \<and> read_numeral 16 cs = 0xF01047E7"
  using convert_reads_back [of 16 "0xF01047E7"] by auto

section \<open>itoa\<close>

lemma itoa_loop_numeral:
  "0 \<le> a \<Longrightarrow> itoa_loop a out = numeral_of 10 (nat a) @ out"
proof (induction a out rule: itoa_loop.induct)
  case (1 a p)
  have sgn: "a sdiv 10 = a div 10" "a smod 10 = a mod 10"
    using 1(2) by (simp_all add: signed_divide_int_def signed_modulo_int_def minus_div_mult_eq_mod sgn_if)
  have m: "a mod 10 \<in> {0..<10}" by simp
  have "(of_int (48 + a mod 10) :: u8) = digit (nat (a mod 10))"
  proof -
    have "nat (a mod 10) \<in> set [0..<10]" using m by auto
    moreover have "\<forall>d \<in> set [0..<10]. (of_int (48 + int d) :: u8) = digit d"
      by (simp add: upt_rec digit_def Representation_def)
    ultimately show ?thesis using m by force
  qed
  then have c: "of_int (48 + a mod 10) = digit (nat a mod 10)" using 1(2) by (simp add: nat_mod_distrib)
  have z: "a div 10 = 0 \<longleftrightarrow> nat a < 10" using 1(2) by (auto simp: div_eq_0_iff)
  have d: "nat (a div 10) = nat a div 10" using 1(2) by (simp add: nat_div_distrib)
  show ?case
    using 1 c z d sgn
    by (simp add: itoa_loop.simps [of a] Let_def numeral_of.simps [of 10 "nat a"] pos_imp_zdiv_nonneg_iff)
qed

text \<open>
  \<^verbatim>\<open>itoa\<close> prints a number that is not negative in decimal; of a negative one it prints characters
  below '0' (the code of '0' plus a negative remainder).
\<close>

lemma itoa_decimal:
  "(0 \<le> a \<longrightarrow> read_numeral 10 (itoa a) = nat a \<and> (hd (itoa a) = 48 \<longleftrightarrow> a = 0))
   \<and> itoa (- 7) = [41]"
  using itoa_loop_numeral [of a "[]"] read_numeral_of [of 10 "nat a"] numeral_of_no_leading_zero [of 10 "nat a"]
  by (auto simp: itoa_def itoa_loop.simps [of "- 7"] signed_divide_int_def signed_modulo_int_def)

lemma itoa_decimal_witness: "read_numeral 10 (itoa 2017) = 2017"
  using itoa_decimal [of 2017] by simp

section \<open>printk\<close>

text \<open>A control string as the pieces it is made of, and what they print.\<close>

datatype piece = Text u8 | Decimal | Hex | Char | String

fun control :: "piece list \<Rightarrow> u8 list" where
  "control [] = []"
| "control (Text c # ps) = c # control ps"
| "control (Decimal # ps) = 37 # 100 # control ps"
| "control (Hex # ps) = 37 # 120 # control ps"
| "control (Char # ps) = 37 # 99 # control ps"
| "control (String # ps) = 37 # 115 # control ps"

definition decimal :: "u32 \<Rightarrow> u8 list" where
  "decimal i = (if sint i < 0 then 45 # numeral_of 10 (nat (- sint i)) else numeral_of 10 (nat (sint i)))"

definition string_in :: "memory \<Rightarrow> u32 \<Rightarrow> u8 list \<Rightarrow> bool" where
  "string_in m s str \<longleftrightarrow> length str < 2 ^ 32 \<and> (\<forall>i < length str. m (s + of_nat i) = str ! i \<and> str ! i \<noteq> 0)
     \<and> m (s + of_nat (length str)) = 0"

inductive renders :: "memory \<Rightarrow> piece list \<Rightarrow> u32 list \<Rightarrow> u8 list \<Rightarrow> bool" for m where
  empty: "renders m [] args []"
| text_piece: "c \<noteq> 0 \<Longrightarrow> c \<noteq> 37 \<Longrightarrow> renders m ps args out \<Longrightarrow> renders m (Text c # ps) args (c # out)"
| decimal: "renders m ps args out \<Longrightarrow> renders m (Decimal # ps) (i # args) (decimal i @ out)"
| hex: "renders m ps args out \<Longrightarrow> renders m (Hex # ps) (i # args) (numeral_of 16 (unat i) @ out)"
| char: "renders m ps args out \<Longrightarrow> renders m (Char # ps) (i # args) (ucast i # out)"
| string: "string_in m s str \<Longrightarrow> renders m ps args out \<Longrightarrow> renders m (String # ps) (s # args) (str @ out)"

lemma puts_loop_string:
  assumes "\<And>i. i < length str \<Longrightarrow> m (s + of_nat i) = str ! i \<and> str ! i \<noteq> 0" "m (s + of_nat (length str)) = 0"
    and "count + length str < 2 ^ 32"
  shows "puts_loop m s count out = Inr (count + length str, out @ str)"
  using assms
proof (induction str arbitrary: s count out)
  case Nil
  then show ?case by (simp add: puts_loop.simps [of m s])
next
  case (Cons c str)
  have "m s = c" "c \<noteq> 0" using Cons.prems(1) [of 0] by simp_all
  moreover have "puts_loop m (s + 1) (count + 1) (out @ [c]) = Inr (count + 1 + length str, (out @ [c]) @ str)"
    using Cons.prems(1) [of "Suc _"] Cons.prems(2,3) by (intro Cons.IH) (simp_all add: add.assoc)
  ultimately show ?case using Cons.prems(3) by (simp add: puts_loop.simps [of m s])
qed

lemma puts_string: "string_in m s str \<Longrightarrow> puts m s out = Inr (length str, out @ str)"
  using puts_loop_string [of str m s 0 out] by (simp add: puts_def string_in_def)

lemma puts_numeral:
  "2 \<le> b \<Longrightarrow> b \<le> 16 \<Longrightarrow> puts_chars (numeral_of b n) out = (length (numeral_of b n), out @ numeral_of b n)"
proof -
  assume b: "2 \<le> b" "b \<le> 16"
  have "takeWhile (\<lambda>c. c \<noteq> 0) (numeral_of b n) = numeral_of b n"
    using numeral_of_chars [OF b] by (auto simp: takeWhile_eq_all_conv)
  then show ?thesis by (simp only: puts_chars_def Let_def)
qed

lemma uint_of_sint: "uint (i :: u32) = (if sint i < 0 then sint i + 2 ^ 32 else sint i)"
proof -
  have r: "- 2147483648 \<le> sint i" "sint i < 2147483648" using sint_ge [of i] sint_lt [of i] by simp_all
  have "uint i = sint i mod 4294967296" using uint_sint [of i] by (simp add: take_bit_eq_mod)
  then show ?thesis using r mod_add_self2 [of "sint i" 4294967296] by (auto simp del: mod_add_self2)
qed

lemma signs:
  "sint (i :: u32) < 0 \<Longrightarrow> unat (- i) = nat (- sint i)" "\<not> sint i < 0 \<Longrightarrow> unat i = nat (sint i)"
proof -
  show "unat i = nat (sint i)" if "\<not> sint i < 0" using uint_of_sint [of i] that by (simp flip: nat_uint_eq)
  show "unat (- i) = nat (- sint i)" if n: "sint i < 0"
  proof -
    have u: "uint i = sint i + 4294967296" using uint_of_sint [of i] n by simp
    have r: "- 2147483648 \<le> sint i" using sint_ge [of i] by simp
    have "uint (- i) = (- uint i) mod 4294967296" by (simp add: uint_word_ariths)
    also have "\<dots> = (4294967296 + - uint i) mod 4294967296" by (rule mod_add_self1 [symmetric])
    also have "\<dots> = - sint i" using u n r by (simp add: mod_pos_pos_trivial)
    finally have "uint (- i) = - sint i" .
    then show ?thesis by (simp only: unat_eq_nat_uint)
  qed
qed

lemma vfprintf_renders:
  "renders m ps args out \<Longrightarrow> vfprintf m (control ps @ [0]) args count buf = Inr (count + length out, buf @ out)"
proof (induction arbitrary: count buf rule: renders.induct)
  case (decimal ps args out i)
  then show ?case
    using signs [of i] convert_numeral [of 10]
    by (auto simp: va_arg_def Let_def puts_numeral decimal_def)
qed (simp_all add: va_arg_def Let_def puts_numeral convert_numeral puts_string)

text \<open>
  \<^verbatim>\<open>printk\<close> prints what its control string describes: the text as it is, numbers in decimal with
  their sign (the least number included, whose negation overflows to itself) and in hexadecimal,
  characters, and strings up to their NUL, in order; \<^verbatim>\<open>vfprintf\<close> counts the characters.
\<close>

lemma printk_renders:
  assumes "renders m ps args out"
  shows "vfprintf m (control ps @ [0]) args count buf = Inr (count + length out, buf @ out)
    \<and> printk m (control ps @ [0]) args buf = Inr (0, buf @ out)"
  using vfprintf_renders [OF assms] by (simp add: printk_def)

lemma printk_renders_witness:
  "printk (\<lambda>_. 0) (control [Text 97, Decimal, Text 32, Hex] @ [0]) [- 5, 255] [] = Inr (0, [97, 45, 53, 32, 70, 70])"
proof -
  have "renders (\<lambda>_. 0) [Text 97, Decimal, Text 32, Hex] [- 5, 255]
      (97 # (decimal (- 5) @ 32 # (numeral_of 16 (unat (255 :: u32)) @ [])))"
    by (intro renders.intros) simp_all
  from printk_renders [OF this, of 0 "[]"] show ?thesis
    by (simp add: decimal_def numeral_of.simps digit_def Representation_def)
qed

text \<open>A control string that ends in a percent sign makes the loop run past its NUL.\<close>

lemma percent_at_end: "printk m [37, 0] args out = Inl (Out_of_bounds ''ctl'')"
  by (simp add: printk_def)

end
