(* ===== verification/Ide.thy ===== *)
theory Ide
  imports X86
begin

text \<open>
  The disk driver \<^verbatim>\<open>kernel/ide.c\<close> and the sector reader of the boot loader (\<^verbatim>\<open>boot/main.c\<close>), over the
  port instructions of \<open>X86\<close>. \<open>ata_drive\<close> states what a working ATA drive in PIO mode does, as its
  documentation has it: registers for the address and the count, a data port that delivers or takes the
  sectors of the transfer in order, a double word at a time, and a status. After a command and after each
  sector the drive is busy, and until the status has been read as ready nothing is promised of the registers
  and of the data port. Under it the driver is the disk of sectors the file system is modelled over.
\<close>

section \<open>kernel/ide.c\<close>

definition IDE_BSY :: u8 where [simp]: "IDE_BSY = 0x80"
definition IDE_DRDY :: u8 where [simp]: "IDE_DRDY = 0x40"
definition IDE_DF :: u8 where [simp]: "IDE_DF = 0x20"
definition IDE_ERR :: u8 where [simp]: "IDE_ERR = 0x01"

partial_function (option) ide_wait_loop :: "'d ports \<Rightarrow> 'd \<Rightarrow> (u8 \<times> 'd) option" where
  "ide_wait_loop P d =
     (let r = fst (inb P 0x1F7 d); d1 = snd (inb P 0x1F7 d)
      in if r AND (IDE_BSY OR IDE_DRDY) \<noteq> IDE_DRDY then ide_wait_loop P d1 else Some (r, d1))"

definition ide_wait_ready :: "'d ports \<Rightarrow> bool \<Rightarrow> 'd \<Rightarrow> (int \<times> 'd) option" where
  "ide_wait_ready P check_error d =
     (case ide_wait_loop P d of
        None \<Rightarrow> None
      | Some (r, d1) \<Rightarrow>
          Some (if check_error \<and> r AND (IDE_DF OR IDE_ERR) \<noteq> 0 then - 1 else 0, d1))"

text \<open>The six \<^verbatim>\<open>outb\<close> that start a command.\<close>

definition ide_command :: "'d ports \<Rightarrow> u32 \<Rightarrow> nat \<Rightarrow> u8 \<Rightarrow> 'd \<Rightarrow> 'd" where
  "ide_command P sec_idx sec_num cmd d0 =
     (let d1 = outb P 0x1F2 (of_nat sec_num) d0;
          d2 = outb P 0x1F3 (ucast (sec_idx AND 0xFF)) d1;
          d3 = outb P 0x1F4 (ucast (drop_bit 8 sec_idx AND 0xFF)) d2;
          d4 = outb P 0x1F5 (ucast (drop_bit 16 sec_idx AND 0xFF)) d3;
          d5 = outb P 0x1F6 (ucast (0xE0 OR (drop_bit 24 sec_idx AND 0x0F))) d4
      in outb P 0x1F7 cmd d5)"

fun ide_read_loop :: "'d ports \<Rightarrow> nat \<Rightarrow> u8 list \<Rightarrow> 'd \<Rightarrow> (int \<times> u8 list \<times> 'd) option" where
  "ide_read_loop P 0 dst d = Some (0, dst, d)"
| "ide_read_loop P (Suc sec_num) dst d =
     (case ide_wait_ready P True d of
        None \<Rightarrow> None
      | Some (r, d1) \<Rightarrow>
          if r < 0 then Some (r, dst, d1)
          else let (s, d2) = insl P 0x1F0 (SECTSIZE div 4) d1 in ide_read_loop P sec_num (dst @ s) d2)"

definition ide_read :: "'d ports \<Rightarrow> u32 \<Rightarrow> nat \<Rightarrow> 'd \<Rightarrow> (int \<times> u8 list \<times> 'd) result option" where
  "ide_read P sec_idx sec_num d =
     (case my_assert ''sec_num <= 256'' (sec_num \<le> 256) of
        Inl e \<Rightarrow> Some (Inl e)
      | Inr _ \<Rightarrow> (case ide_wait_ready P False d of
          None \<Rightarrow> None
        | Some (r, d1) \<Rightarrow>
            map_option Inr (ide_read_loop P sec_num [] (ide_command P sec_idx sec_num 0x20 d1))))"

fun ide_write_loop :: "'d ports \<Rightarrow> nat \<Rightarrow> u8 list \<Rightarrow> 'd \<Rightarrow> (int \<times> 'd) option" where
  "ide_write_loop P 0 src d = Some (0, d)"
| "ide_write_loop P (Suc sec_num) src d =
     (case ide_wait_ready P True d of
        None \<Rightarrow> None
      | Some (r, d1) \<Rightarrow>
          if r < 0 then Some (r, d1)
          else ide_write_loop P sec_num (drop SECTSIZE src) (outsl P 0x1F0 src (SECTSIZE div 4) d1))"

definition ide_write :: "'d ports \<Rightarrow> u32 \<Rightarrow> u8 list \<Rightarrow> nat \<Rightarrow> 'd \<Rightarrow> (int \<times> 'd) result option" where
  "ide_write P secno src sec_num d =
     (case my_assert ''sec_num <= 256'' (sec_num \<le> 256) of
        Inl e \<Rightarrow> Some (Inl e)
      | Inr _ \<Rightarrow> (case ide_wait_ready P False d of
          None \<Rightarrow> None
        | Some (r, d1) \<Rightarrow>
            map_option Inr (ide_write_loop P sec_num src (ide_command P secno sec_num 0x30 d1))))"

section \<open>waitdisk and readsect, boot/main.c\<close>

partial_function (option) waitdisk :: "'d ports \<Rightarrow> 'd \<Rightarrow> 'd option" where
  "waitdisk P d =
     (let r = fst (inb P 0x1F7 d); d1 = snd (inb P 0x1F7 d)
      in if r AND 0xC0 \<noteq> 0x40 then waitdisk P d1 else Some d1)"

definition readsect :: "'d ports \<Rightarrow> u32 \<Rightarrow> 'd \<Rightarrow> (u8 list \<times> 'd) option" where
  "readsect P off d =
     (case waitdisk P d of
        None \<Rightarrow> None
      | Some d0 \<Rightarrow>
          let d1 = outb P 0x1F2 1 d0;
              d2 = outb P 0x1F3 (ucast off) d1;
              d3 = outb P 0x1F4 (ucast (drop_bit 8 off)) d2;
              d4 = outb P 0x1F5 (ucast (drop_bit 16 off)) d3;
              d5 = outb P 0x1F6 (ucast (drop_bit 24 off OR 0xE0)) d4;
              d6 = outb P 0x1F7 0x20 d5
          in (case waitdisk P d6 of None \<Rightarrow> None | Some d7 \<Rightarrow> Some (insl P 0x1F0 (SECTSIZE div 4) d7)))"

section \<open>An ATA drive\<close>

text \<open>
  A transfer: the next sector, how many there are to come, and how many double words or which bytes of it
  have gone through the data port. \<open>waiting\<close> is set from a command, or from the end of a sector, until the host
  has read a status that says that the drive is ready.
\<close>

datatype transfer = Idle | Reading u32 nat nat | Writing u32 nat "u8 list"

record ata =
  regs :: "u32 \<Rightarrow> u8"
  transfer :: transfer
  sectors :: disk
  waiting :: bool

text \<open>The address in the registers, 28 bits of it; a count of 0 means 256 sectors.\<close>

definition lba :: "(u32 \<Rightarrow> u8) \<Rightarrow> u32" where
  "lba r = ucast (r 0x1F3) OR push_bit 8 (ucast (r 0x1F4)) OR push_bit 16 (ucast (r 0x1F5))
     OR push_bit 24 (ucast (r 0x1F6 AND 0x0F))"

definition sector_count :: "(u32 \<Rightarrow> u8) \<Rightarrow> nat" where
  "sector_count r = (if r 0x1F2 = 0 then 256 else unat (r 0x1F2))"

definition polled :: "'d ports \<Rightarrow> nat \<Rightarrow> 'd \<Rightarrow> 'd" where
  "polled P n d = ((\<lambda>d. snd (inb P 0x1F7 d)) ^^ n) d"

definition word_read :: "u32 \<Rightarrow> nat \<Rightarrow> nat \<Rightarrow> ata \<Rightarrow> ata" where
  "word_read n k w a =
     (if w < 127 then a\<lparr>transfer := Reading n (Suc k) (w + 1)\<rparr>
      else a\<lparr>transfer := (if k = 0 then Idle else Reading (n + 1) k 0), waiting := True\<rparr>)"

definition word_written :: "u32 \<Rightarrow> nat \<Rightarrow> u8 list \<Rightarrow> ata \<Rightarrow> ata" where
  "word_written n k bs a =
     (if length bs < 512 then a\<lparr>transfer := Writing n (Suc k) bs\<rparr>
      else a\<lparr>transfer := (if k = 0 then Idle else Writing (n + 1) k []), sectors := (sectors a)(n := bs), waiting := True\<rparr>)"

definition ata_drive :: "'d ports \<Rightarrow> ('d \<Rightarrow> ata) \<Rightarrow> bool" where
  "ata_drive P view \<longleftrightarrow>
     (\<forall>d. fst (inb P 0x1F7 d) AND 0xC0 = 0x40 \<longrightarrow>
        fst (inb P 0x1F7 d) AND 0x21 = 0 \<and> view (snd (inb P 0x1F7 d)) = (view d)\<lparr>waiting := False\<rparr>)
   \<and> (\<forall>d. fst (inb P 0x1F7 d) AND 0xC0 \<noteq> 0x40 \<longrightarrow> waiting (view d) \<and> view (snd (inb P 0x1F7 d)) = view d)
   \<and> (\<forall>d. \<exists>n. fst (inb P 0x1F7 (polled P n d)) AND 0xC0 = 0x40)
   \<and> (\<forall>p v d. \<not> waiting (view d) \<and> p \<in> {0x1F2, 0x1F3, 0x1F4, 0x1F5, 0x1F6} \<longrightarrow>
        view (outb P p v d) = (view d)\<lparr>regs := (regs (view d))(p := v)\<rparr>)
   \<and> (\<forall>d. \<not> waiting (view d) \<longrightarrow> view (outb P 0x1F7 0x20 d) =
        (view d)\<lparr>transfer := Reading (lba (regs (view d))) (sector_count (regs (view d))) 0, waiting := True\<rparr>)
   \<and> (\<forall>d. \<not> waiting (view d) \<longrightarrow> view (outb P 0x1F7 0x30 d) =
        (view d)\<lparr>transfer := Writing (lba (regs (view d))) (sector_count (regs (view d))) [], waiting := True\<rparr>)
   \<and> (\<forall>d n. length (sectors (view d) n) = 512)
   \<and> (\<forall>d n k w. \<not> waiting (view d) \<and> transfer (view d) = Reading n (Suc k) w \<and> w < 128 \<longrightarrow>
        fst (inl P 0x1F0 d) = u32_of_bytes (take 4 (drop (4 * w) (sectors (view d) n)))
        \<and> view (snd (inl P 0x1F0 d)) = word_read n k w (view d))
   \<and> (\<forall>d n k bs v. \<not> waiting (view d) \<and> transfer (view d) = Writing n (Suc k) bs \<and> length bs + 4 \<le> 512 \<longrightarrow>
        view (outl P 0x1F0 v d) = word_written n k (bs @ bytes_of_u32 v) (view d))"

section \<open>The driver\<close>

lemma status_bits: "IDE_BSY OR IDE_DRDY = 0xC0" "IDE_DF OR IDE_ERR = 0x21"
  by simp_all

lemma ata_driveD:
  assumes "ata_drive P view"
  shows "fst (inb P 0x1F7 d) AND 0xC0 = 0x40 \<Longrightarrow> fst (inb P 0x1F7 d) AND 0x21 = 0"
    "fst (inb P 0x1F7 d) AND 0xC0 = 0x40 \<Longrightarrow> view (snd (inb P 0x1F7 d)) = (view d)\<lparr>waiting := False\<rparr>"
    "fst (inb P 0x1F7 d) AND 0xC0 \<noteq> 0x40 \<Longrightarrow> view (snd (inb P 0x1F7 d)) = view d"
    "\<exists>n. fst (inb P 0x1F7 (polled P n d)) AND 0xC0 = 0x40"
    "\<not> waiting (view d) \<Longrightarrow> p \<in> {0x1F2, 0x1F3, 0x1F4, 0x1F5, 0x1F6} \<Longrightarrow>
        view (outb P p v d) = (view d)\<lparr>regs := (regs (view d))(p := v)\<rparr>"
    "\<not> waiting (view d) \<Longrightarrow> view (outb P 0x1F7 0x20 d) =
        (view d)\<lparr>transfer := Reading (lba (regs (view d))) (sector_count (regs (view d))) 0, waiting := True\<rparr>"
    "\<not> waiting (view d) \<Longrightarrow> view (outb P 0x1F7 0x30 d) =
        (view d)\<lparr>transfer := Writing (lba (regs (view d))) (sector_count (regs (view d))) [], waiting := True\<rparr>"
    "length (sectors (view d) n) = 512"
    "\<not> waiting (view d) \<Longrightarrow> transfer (view d) = Reading n (Suc k) w \<Longrightarrow> w < 128 \<Longrightarrow>
        fst (inl P 0x1F0 d) = u32_of_bytes (take 4 (drop (4 * w) (sectors (view d) n)))
        \<and> view (snd (inl P 0x1F0 d)) = word_read n k w (view d)"
    "\<not> waiting (view d) \<Longrightarrow> transfer (view d) = Writing n (Suc k) bs \<Longrightarrow> length bs + 4 \<le> 512 \<Longrightarrow>
        view (outl P 0x1F0 x d) = word_written n k (bs @ bytes_of_u32 x) (view d)"
  using assms unfolding ata_drive_def by blast+

text \<open>The string instructions move the rest of a sector.\<close>

lemma read_words:
  assumes "ata_drive P view"
  shows "\<lbrakk>\<not> waiting (view d); transfer (view d) = Reading n (Suc k) w; w + j = 128; 0 < j\<rbrakk> \<Longrightarrow>
    fst (insl P 0x1F0 j d) = drop (4 * w) (sectors (view d) n)
    \<and> view (snd (insl P 0x1F0 j d)) = (view d)\<lparr>transfer := (if k = 0 then Idle else Reading (n + 1) k 0), waiting := True\<rparr>"
proof (induction j arbitrary: d w)
  case (Suc j d w)
  obtain v d1 where v: "inl P 0x1F0 d = (v, d1)" by fastforce
  let ?s = "sectors (view d) n"
  note law = ata_driveD(9) [OF assms Suc.prems(1,2)] ata_driveD(8) [OF assms, of d n]
  have b: "bytes_of_u32 v = take 4 (drop (4 * w) ?s)"
    using law v Suc.prems(3) by (simp add: bytes_of_u32_of_bytes)
  have split: "take 4 (drop (4 * w) ?s) @ drop (4 * Suc w) ?s = drop (4 * w) ?s"
    using append_take_drop_id [of 4 "drop (4 * w) ?s"] by (simp add: add.commute)
  show ?case
  proof (cases j)
    case 0
    then have "w = 127" using Suc.prems(3) by simp
    then show ?thesis using law v b 0 by (simp add: insl_def word_read_def)
  next
    case (Suc i)
    then have "\<not> waiting (view d1)" "transfer (view d1) = Reading n (Suc k) (Suc w)" "Suc w + j = 128" "0 < j"
        "view d1 = (view d)\<lparr>transfer := Reading n (Suc k) (Suc w)\<rparr>"
      using law(1) v Suc.prems(1,3) by (simp_all add: word_read_def)
    with Suc.IH [of d1 "Suc w"] show ?thesis
      using v b split by (simp add: insl_def split_beta)
  qed
qed simp

lemma insl_sector:
  assumes "ata_drive P view" "\<not> waiting (view d)" "transfer (view d) = Reading n (Suc k) 0"
  shows "fst (insl P 0x1F0 128 d) = sectors (view d) n
    \<and> view (snd (insl P 0x1F0 128 d)) = (view d)\<lparr>transfer := (if k = 0 then Idle else Reading (n + 1) k 0), waiting := True\<rparr>"
  using read_words [OF assms, of 128] by simp

lemma write_words:
  assumes "ata_drive P view"
  shows "\<lbrakk>\<not> waiting (view d); transfer (view d) = Writing n (Suc k) bs; length bs + 4 * j = 512; 0 < j; 4 * j \<le> length s\<rbrakk> \<Longrightarrow>
    view (outsl P 0x1F0 s j d) = (view d)\<lparr>transfer := (if k = 0 then Idle else Writing (n + 1) k []),
      sectors := (sectors (view d))(n := bs @ take (4 * j) s), waiting := True\<rparr>"
proof (induction j arbitrary: d bs s)
  case (Suc j d bs s)
  let ?d = "outl P 0x1F0 (u32_of_bytes (take 4 s)) d"
  have b: "bytes_of_u32 (u32_of_bytes (take 4 s)) = take 4 s"
    using Suc.prems(5) by (simp add: bytes_of_u32_of_bytes)
  have v: "view ?d = word_written n k (bs @ take 4 s) (view d)"
    using ata_driveD(10) [OF assms Suc.prems(1,2)] Suc.prems(3) b by simp
  have l: "length (take 4 s) = 4" using Suc.prems(5) by simp
  have t: "take 4 s @ take (4 * j) (drop 4 s) = take (4 * Suc j) s" by (simp add: take_add)
  show ?case
  proof (cases "j = 0")
    case True
    then show ?thesis using v l Suc.prems(3) by (simp add: outsl_def word_written_def fun_upd_def)
  next
    case False
    then have "view ?d = (view d)\<lparr>transfer := Writing n (Suc k) (bs @ take 4 s)\<rparr>"
      using v l Suc.prems(3) by (simp add: word_written_def)
    moreover from this have "view (outsl P 0x1F0 (drop 4 s) j ?d) =
        (view ?d)\<lparr>transfer := (if k = 0 then Idle else Writing (n + 1) k []),
          sectors := (sectors (view ?d))(n := (bs @ take 4 s) @ take (4 * j) (drop 4 s)), waiting := True\<rparr>"
      using False l Suc.prems by (intro Suc.IH) auto
    ultimately show ?thesis using t by (simp add: outsl_def fun_upd_def)
  qed
qed simp

lemma outsl_sector:
  assumes "ata_drive P view" "\<not> waiting (view d)" "transfer (view d) = Writing n (Suc k) []" "512 \<le> length s"
  shows "view (outsl P 0x1F0 s 128 d) = (view d)\<lparr>transfer := (if k = 0 then Idle else Writing (n + 1) k []),
    sectors := (sectors (view d))(n := take 512 s), waiting := True\<rparr>"
  using write_words [OF assms(1-3), of 128 s] assms(4) by simp

lemma wait_loop_returns:
  assumes "ata_drive P view"
  shows "\<exists>r d'. ide_wait_loop P d = Some (r, d') \<and> waitdisk P d = Some d' \<and> view d' = (view d)\<lparr>waiting := False\<rparr> \<and> r AND 0x21 = 0"
proof -
  obtain n where "fst (inb P 0x1F7 (polled P n d)) AND 0xC0 = 0x40" using ata_driveD(4) [OF assms] by blast
  then show ?thesis
  proof (induction n arbitrary: d)
    case 0
    then have "fst (inb P 0x1F7 d) AND 0xC0 = 0x40" by (simp add: polled_def)
    then show ?case using ata_driveD(1,2) [OF assms, of d]
      by (simp add: ide_wait_loop.simps [of P d] waitdisk.simps [of P d] Let_def prod_eq_iff)
  next
    case (Suc n d)
    let ?d = "snd (inb P 0x1F7 d)"
    show ?case
    proof (cases "fst (inb P 0x1F7 d) AND 0xC0 = 0x40")
      case True
      then show ?thesis using ata_driveD(1,2) [OF assms, of d]
        by (simp add: ide_wait_loop.simps [of P d] waitdisk.simps [of P d] Let_def prod_eq_iff)
    next
      case False
      have "fst (inb P 0x1F7 (polled P n ?d)) AND 0xC0 = 0x40"
        using Suc.prems by (simp add: polled_def funpow_Suc_right del: funpow.simps)
      from Suc.IH [OF this] False ata_driveD(3) [OF assms, of d] show ?thesis
        by (simp add: ide_wait_loop.simps [of P d] waitdisk.simps [of P d] Let_def prod_eq_iff)
    qed
  qed
qed

lemma wait_ready:
  assumes "ata_drive P view"
  obtains d' where "ide_wait_ready P c d = Some (0, d')" "view d' = (view d)\<lparr>waiting := False\<rparr>"
  using wait_loop_returns [OF assms, of d] by (auto simp: ide_wait_ready_def)

lemma lba_command:
  fixes n :: u32
  assumes "unat n < 2 ^ 28"
  shows "ucast (ucast (n AND 0xFF) :: u8) OR push_bit 8 (ucast (ucast (drop_bit 8 n AND 0xFF) :: u8))
     OR push_bit 16 (ucast (ucast (drop_bit 16 n AND 0xFF) :: u8))
     OR push_bit 24 (ucast ((ucast (0xE0 OR (drop_bit 24 n AND 0x0F)) :: u8) AND 0x0F)) = n"
proof -
  have hi: "bit n i \<Longrightarrow> i < 28" for i using small_bits [of n 28 i] assms by simp
  have m: "w AND 0xFF = take_bit 8 w" "w AND 0x0F = take_bit 4 w" for w :: u32
    by (simp_all add: take_bit_eq_mask mask_numeral)
  have m8: "w AND 0x0F = take_bit 4 w" for w :: u8
    by (simp add: take_bit_eq_mask mask_numeral)
  have e: "(0xE0 OR w) AND 0x0F = take_bit 4 w" for w :: u8
    by (simp add: bit.conj_disj_distrib2 m8 [symmetric])
  have u8: "(ucast (ucast (take_bit 8 w) :: u8) :: u32) = take_bit 8 w" for w :: u32
    by (rule bit_word_eqI) (auto simp: bit_simps)
  have u4: "(ucast ((ucast (0xE0 OR take_bit 4 w) :: u8) AND 0x0F) :: u32) = take_bit 4 w" for w :: u32
  proof -
    have "(ucast (0xE0 OR take_bit 4 w) :: u8) = 0xE0 OR ucast (take_bit 4 w)" by (simp add: unsigned_or_eq)
    then have "(ucast (0xE0 OR take_bit 4 w) :: u8) AND 0x0F = take_bit 4 (ucast (take_bit 4 w))" by (simp only: e)
    then show ?thesis by (simp only:) (rule bit_word_eqI, auto simp: bit_simps)
  qed
  have "take_bit 8 n OR push_bit 8 (take_bit 8 (drop_bit 8 n)) OR push_bit 16 (take_bit 8 (drop_bit 16 n))
      OR push_bit 24 (take_bit 4 (drop_bit 24 n)) = n"
  proof (rule bit_word_eqI)
    fix i
    assume "i < LENGTH(32)"
    consider "i < 8" | "8 \<le> i" "i < 16" | "16 \<le> i" "i < 24" | "24 \<le> i" "i < 28" | "28 \<le> i" by linarith
    then show "bit (take_bit 8 n OR push_bit 8 (take_bit 8 (drop_bit 8 n)) OR push_bit 16 (take_bit 8 (drop_bit 16 n))
      OR push_bit 24 (take_bit 4 (drop_bit 24 n))) i = bit n i"
      unfolding bit_or_iff bit_push_bit_iff bit_take_bit_iff bit_drop_bit_eq comp_def
      using \<open>i < LENGTH(32)\<close> hi [of i] by cases auto
  qed
  then show ?thesis unfolding m u8 u4 .
qed

text \<open>The boot loader writes the same bytes into the registers.\<close>

lemma readsect_bytes:
  fixes n :: u32
  shows "(ucast n :: u8) = ucast (n AND 0xFF)" "(ucast (drop_bit k n) :: u8) = ucast (drop_bit k n AND 0xFF)"
    "unat n < 2 ^ 28 \<Longrightarrow> (ucast (drop_bit 24 n OR 0xE0) :: u8) = ucast (0xE0 OR (drop_bit 24 n AND 0x0F))"
proof -
  have m: "w AND 0xFF = take_bit 8 w" "w AND 0x0F = take_bit 4 w" for w :: u32
    by (simp_all add: take_bit_eq_mask mask_numeral)
  show "(ucast n :: u8) = ucast (n AND 0xFF)" unfolding m by (rule bit_word_eqI) (auto simp: bit_simps)
  show "(ucast (drop_bit k n) :: u8) = ucast (drop_bit k n AND 0xFF)"
    unfolding m by (rule bit_word_eqI) (auto simp: bit_simps)
  assume "unat n < 2 ^ 28"
  then have hi: "bit n (24 + j) \<Longrightarrow> j < 4" for j using small_bits [of n 28 "24 + j"] by simp
  have "drop_bit 24 n AND 0x0F = drop_bit 24 n"
    unfolding m by (intro bit_word_eqI) (auto simp: bit_simps dest: hi)
  then show "(ucast (drop_bit 24 n OR 0xE0) :: u8) = ucast (0xE0 OR (drop_bit 24 n AND 0x0F))"
    by (simp add: or.commute)
qed

lemma view_command:
  assumes "ata_drive P view" "unat n < 2 ^ 28" "0 < k" "k \<le> 256" "c = 0x20 \<or> c = 0x30" "\<not> waiting (view d)"
  shows "\<exists>r. view (ide_command P n k c d) =
    (view d)\<lparr>regs := r, transfer := (if c = 0x20 then Reading n k 0 else Writing n k []), waiting := True\<rparr>"
proof -
  define r where "r = (regs (view d))(0x1F2 := of_nat k, 0x1F3 := ucast (n AND 0xFF),
     0x1F4 := ucast (drop_bit 8 n AND 0xFF), 0x1F5 := ucast (drop_bit 16 n AND 0xFF),
     0x1F6 := (ucast (0xE0 OR (drop_bit 24 n AND 0x0F)) :: u8))"
  have "lba r = n" using lba_command [OF assms(2)] by (simp add: r_def lba_def)
  moreover have "sector_count r = k"
  proof (cases "k = 256")
    case True
    then show ?thesis by (simp add: r_def sector_count_def)
  next
    case False
    then have "unat (of_nat k :: u8) = k" using assms(4) by (simp add: unat_of_nat)
    moreover have "(of_nat k :: u8) \<noteq> 0" using calculation assms(3) by (metis neq0_conv unat_0)
    ultimately show ?thesis by (simp add: r_def sector_count_def)
  qed
  moreover have "view (ide_command P n k c d) =
     (view d)\<lparr>regs := r, transfer := (if c = 0x20 then Reading (lba r) (sector_count r) 0
         else Writing (lba r) (sector_count r) []), waiting := True\<rparr>"
    using assms(5,6) by (auto simp: ide_command_def ata_driveD(5-7) [OF assms(1)] r_def)
  ultimately show ?thesis by metis
qed

text \<open>The sectors of a transfer, in order.\<close>

fun run :: "u32 \<Rightarrow> nat \<Rightarrow> u32 list" where
  "run n 0 = []"
| "run n (Suc k) = n # run (n + 1) k"

lemma read_loop:
  assumes "ata_drive P view"
  shows "k > 0 \<longrightarrow> transfer (view d) = Reading n k 0 \<Longrightarrow> \<exists>d'. ide_read_loop P k dst d =
      Some (0, dst @ concat (map (\<lambda>m. disk_read m (sectors (view d))) (run n k)), d')
    \<and> sectors (view d') = sectors (view d)"
proof (induction k arbitrary: n dst d)
  case (Suc k n dst d)
  obtain d1 where d1: "ide_wait_ready P True d = Some (0, d1)" "view d1 = (view d)\<lparr>waiting := False\<rparr>"
    using wait_ready [OF assms] by metis
  have t: "\<not> waiting (view d1)" "transfer (view d1) = Reading n (Suc k) 0" using Suc.prems d1 by simp_all
  obtain s d2 where s: "insl P 0x1F0 128 d1 = (s, d2)" by fastforce
  have v: "s = sectors (view d) n" "view d2 = (view d)\<lparr>transfer := (if k = 0 then Idle else Reading (n + 1) k 0), waiting := True\<rparr>"
    using insl_sector [OF assms t] s d1 by simp_all
  have "k > 0 \<longrightarrow> transfer (view d2) = Reading (n + 1) k 0" using v by simp
  from Suc.IH [OF this, of "dst @ s"] v d1 s show ?case by (simp add: disk_read_def)
qed simp

lemma write_loop:
  assumes "ata_drive P view"
  shows "\<lbrakk>k > 0 \<longrightarrow> transfer (view d) = Writing n k []; length src = k * SECTSIZE\<rbrakk> \<Longrightarrow>
    \<exists>d'. ide_write_loop P k src d = Some (0, d')
    \<and> sectors (view d') = disk.wr_all (zip (run n k) (chunks SECTSIZE k src)) (sectors (view d))"
proof (induction k arbitrary: n src d)
  case (Suc k n src d)
  obtain d1 where d1: "ide_wait_ready P True d = Some (0, d1)" "view d1 = (view d)\<lparr>waiting := False\<rparr>"
    using wait_ready [OF assms] by metis
  have t: "\<not> waiting (view d1)" "transfer (view d1) = Writing n (Suc k) []" using Suc.prems d1 by simp_all
  let ?d2 = "outsl P 0x1F0 src 128 d1"
  have "512 \<le> length src" using Suc.prems by simp
  note v = outsl_sector [OF assms t this]
  have "k > 0 \<longrightarrow> transfer (view ?d2) = Writing (n + 1) k []" using v by simp
  moreover have "length (drop SECTSIZE src) = k * SECTSIZE" using Suc.prems by simp
  moreover have "sectors (view ?d2) = disk_write n (take SECTSIZE src) (sectors (view d))"
    using v d1 by (simp add: disk_write_def)
  ultimately show ?case using Suc.IH [of ?d2 "n + 1" "drop SECTSIZE src"] d1 by simp
qed simp

lemma readsect_command:
  assumes "unat n < 2 ^ 28"
  shows "readsect P n d = (case waitdisk P d of None \<Rightarrow> None | Some d0 \<Rightarrow>
      (case waitdisk P (ide_command P n 1 0x20 d0) of None \<Rightarrow> None | Some d7 \<Rightarrow> Some (insl P 0x1F0 128 d7)))"
  by (simp add: readsect_def ide_command_def Let_def readsect_bytes(1) [of n] readsect_bytes(2) [of 8 n]
      readsect_bytes(2) [of 16 n] readsect_bytes(3) [OF assms] cong: option.case_cong)

lemma run_nth: "run n k = map (\<lambda>i. n + of_nat i) [0..<k]"
  by (induction k arbitrary: n) (simp_all add: upt_conv_Cons map_Suc_upt [symmetric] add.assoc del: upt_Suc)

lemma ide_read_disk:
  assumes "ata_drive P view" "unat n < 2 ^ 28" "0 < k" "k \<le> 256"
  shows "\<exists>d'. ide_read P n k d = Some (Inr (0, concat (map (\<lambda>m. disk_read m (sectors (view d))) (run n k)), d'))
    \<and> sectors (view d') = sectors (view d)"
proof -
  obtain d1 where d1: "ide_wait_ready P False d = Some (0, d1)" "view d1 = (view d)\<lparr>waiting := False\<rparr>"
    using wait_ready [OF assms(1)] by metis
  from view_command [OF assms, of "0x20" d1] obtain r where
    v: "view (ide_command P n k 0x20 d1) = (view d)\<lparr>regs := r, transfer := Reading n k 0, waiting := True\<rparr>" using d1 by auto
  then have "k > 0 \<longrightarrow> transfer (view (ide_command P n k 0x20 d1)) = Reading n k 0" by simp
  from read_loop [OF assms(1) this, of "[]"] show ?thesis using assms(4) d1 v by (auto simp: ide_read_def my_assert_def)
qed

lemma ide_write_disk:
  assumes "ata_drive P view" "unat n < 2 ^ 28" "0 < k" "k \<le> 256" "length src = k * SECTSIZE"
  shows "\<exists>d'. ide_write P n src k d = Some (Inr (0, d'))
    \<and> sectors (view d') = disk.wr_all (zip (run n k) (chunks SECTSIZE k src)) (sectors (view d))"
proof -
  obtain d1 where d1: "ide_wait_ready P False d = Some (0, d1)" "view d1 = (view d)\<lparr>waiting := False\<rparr>"
    using wait_ready [OF assms(1)] by metis
  from view_command [OF assms(1-4), of "0x30" d1] obtain r where
    v: "view (ide_command P n k 0x30 d1) = (view d)\<lparr>regs := r, transfer := Writing n k [], waiting := True\<rparr>" using d1 by auto
  then have "k > 0 \<longrightarrow> transfer (view (ide_command P n k 0x30 d1)) = Writing n k []" by simp
  from write_loop [OF assms(1) this assms(5)] show ?thesis
    using assms(4) d1 v by (auto simp: ide_write_def my_assert_def)
qed

lemma readsect_disk:
  assumes "ata_drive P view" "unat n < 2 ^ 28"
  shows "\<exists>d'. readsect P n d = Some (disk_read n (sectors (view d)), d') \<and> sectors (view d') = sectors (view d)"
proof -
  obtain d1 where d1: "waitdisk P d = Some d1" "view d1 = (view d)\<lparr>waiting := False\<rparr>"
    using wait_loop_returns [OF assms(1)] by metis
  from view_command [OF assms, of 1 "0x20" d1] obtain r where
    v: "view (ide_command P n 1 0x20 d1) = (view d)\<lparr>regs := r, transfer := Reading n 1 0, waiting := True\<rparr>" using d1 by auto
  obtain d2 where d2: "waitdisk P (ide_command P n 1 0x20 d1) = Some d2"
      "view d2 = (view d)\<lparr>regs := r, transfer := Reading n 1 0, waiting := False\<rparr>"
    using wait_loop_returns [OF assms(1), of "ide_command P n 1 0x20 d1"] v by auto
  then have "\<not> waiting (view d2)" "transfer (view d2) = Reading n (Suc 0) 0" by simp_all
  from insl_sector [OF assms(1) this] d1 d2 show ?thesis
    by (auto simp: readsect_command [OF assms(2)] disk_read_def prod_eq_iff)
qed

lemma run_distinct: "k \<le> 256 \<Longrightarrow> distinct (run n k)"
proof -
  assume "k \<le> 256"
  then have "unat (of_nat i :: u32) = i" if "i < k" for i using that by (simp add: unat_of_nat)
  then have "inj_on (\<lambda>i. n + (of_nat i :: u32)) {0..<k}"
    by (intro inj_onI) (metis add_left_cancel atLeastLessThan_iff)
  then show ?thesis by (simp add: run_nth distinct_map)
qed

text \<open>What was written comes back.\<close>

lemma read_written:
  assumes "distinct ns" "length cs = length ns" "disk_ok D" "\<forall>c \<in> set cs. length c = SECTSIZE"
  shows "map (\<lambda>m. disk_read m (disk.wr_all (zip ns cs) D)) ns = cs"
  using assms
proof (induction ns arbitrary: cs D)
  case (Cons n ns cs D)
  then obtain c cs' where c: "cs = c # cs'" by (cases cs) auto
  have ok: "disk_ok (disk_write n c D)" using Cons.prems c by (intro disk.ok_wr) auto
  have good: "disk.good_writes (zip ns cs')" using Cons.prems c by (auto simp: disk.good_writes_def dest: set_zip_rightD)
  have "n \<notin> fst ` set (zip ns cs')" using Cons.prems by (auto dest: set_zip_leftD)
  then have "disk_read n (disk.wr_all (zip ns cs') (disk_write n c D)) = disk_read n (disk_write n c D)"
    by (rule disk.rd_wr_all_other [OF good ok TrueI])
  moreover have "disk_read n (disk_write n c D) = c" by (simp add: disk_read_def disk_write_def)
  moreover have "map (\<lambda>m. disk_read m (disk.wr_all (zip ns cs') (disk_write n c D))) ns = cs'"
    using Cons.prems c by (intro Cons.IH ok) auto
  ultimately show ?case using c by simp
qed simp

text \<open>
  A drive to run it on: busy for three polls after each command and each sector; as long as the host has not seen
  it ready it takes no byte and delivers zeros.
\<close>

record sim =
  sim_raw :: ata
  busy :: nat

definition sim_ata :: "sim \<Rightarrow> ata" where
  "sim_ata d = (sim_raw d)\<lparr>sectors := (\<lambda>n. take 512 (sectors (sim_raw d) n @ replicate 512 0))\<rparr>"

definition sim_ports :: "sim ports" where
  "sim_ports = \<lparr>
     in8 = (\<lambda>p d. if waiting (sim_raw d) \<and> busy d > 0 then (0x80, d\<lparr>busy := busy d - 1\<rparr>)
       else (0x50, d\<lparr>sim_raw := (sim_raw d)\<lparr>waiting := False\<rparr>\<rparr>)),
     in16 = (\<lambda>p d. (0, d)),
     in32 = (\<lambda>p d. if waiting (sim_raw d) then (0, d) else (case transfer (sim_raw d) of
           Reading n (Suc k) w \<Rightarrow> (u32_of_bytes (take 4 (drop (4 * w) (sectors (sim_ata d) n))),
             d\<lparr>sim_raw := word_read n k w (sim_raw d), busy := 3\<rparr>)
         | _ \<Rightarrow> (0, d))),
     out8 = (\<lambda>p v d. let a = sim_raw d in
        if waiting a then d
        else if p = 0x1F7 then
          d\<lparr>sim_raw := a\<lparr>transfer := (if v = 0x20 then Reading (lba (regs a)) (sector_count (regs a)) 0
               else if v = 0x30 then Writing (lba (regs a)) (sector_count (regs a)) [] else transfer a),
             waiting := True\<rparr>, busy := 3\<rparr>
        else d\<lparr>sim_raw := a\<lparr>regs := (regs a)(ucast p := v)\<rparr>\<rparr>),
     out16 = (\<lambda>p v d. d),
     out32 = (\<lambda>p v d. if waiting (sim_raw d) then d else (case transfer (sim_raw d) of
           Writing n (Suc k) bs \<Rightarrow> d\<lparr>sim_raw := word_written n k (bs @ bytes_of_u32 v) (sim_raw d), busy := 3\<rparr>
         | _ \<Rightarrow> d))\<rparr>"

lemma sim_polled: "fst (inb sim_ports 0x1F7 (polled sim_ports (busy d) d)) = 0x50"
proof (induction "busy d" arbitrary: d)
  case 0
  then show ?case by (simp add: polled_def sim_ports_def port_defs)
next
  case (Suc b d)
  let ?d = "snd (inb sim_ports 0x1F7 d)"
  show ?case
  proof (cases "waiting (sim_raw d)")
    case True
    have "b = busy ?d" using Suc.hyps(2) True by (auto simp: sim_ports_def port_defs split: if_splits)
    then have "fst (inb sim_ports 0x1F7 (polled sim_ports b ?d)) = 0x50" using Suc.hyps(1) [of ?d] by simp
    then show ?thesis by (simp add: polled_def Suc.hyps(2) [symmetric] funpow_Suc_right del: funpow.simps)
  next
    case False
    have "fst (inb sim_ports 0x1F7 (polled sim_ports n d)) = 0x50" if "\<not> waiting (sim_raw d)" for n d
      using that by (induction n arbitrary: d) (auto simp: polled_def sim_ports_def port_defs funpow_Suc_right simp del: funpow.simps(2))
    then show ?thesis using False by blast
  qed
qed

lemma sim_drive: "ata_drive sim_ports sim_ata"
proof -
  have "\<exists>n. fst (inb sim_ports 0x1F7 (polled sim_ports n d)) AND 0xC0 = 0x40" for d
    using sim_polled [of d] by (intro exI [of _ "busy d"]) simp
  moreover have "sim_ata (outl sim_ports 0x1F0 v d) = word_written n k (bs @ bytes_of_u32 v) (sim_ata d)"
    if "\<not> waiting (sim_ata d)" "transfer (sim_ata d) = Writing n (Suc k) bs" "length bs + 4 \<le> 512" for d n k bs v
  proof -
    have "(\<lambda>m. take 512 (((sectors (sim_raw d))(n := bs @ bytes_of_u32 v)) m @ replicate 512 0))
        = (\<lambda>m. take 512 (sectors (sim_raw d) m @ replicate 512 0))(n := bs @ bytes_of_u32 v)"
      if "\<not> length (bs @ bytes_of_u32 v) < 512"
      using that \<open>length bs + 4 \<le> 512\<close> by (auto simp: fun_eq_iff length_bytes_of_u32)
    then show ?thesis using that(1,2)
      by (simp add: sim_ports_def port_defs sim_ata_def word_written_def del: take_append fun_upd_apply)
  qed
  moreover have "sim_ata (outb sim_ports p v d) = (sim_ata d)\<lparr>regs := (regs (sim_ata d))(p := v)\<rparr>"
    if "\<not> waiting (sim_ata d)" "p \<in> {0x1F2, 0x1F3, 0x1F4, 0x1F5, 0x1F6}" for p v d
    using that by (auto simp: sim_ports_def port_defs sim_ata_def Let_def)
  ultimately show ?thesis unfolding ata_drive_def by (simp add: sim_ports_def port_defs sim_ata_def word_read_def Let_def min_def)
qed

definition sim_start :: sim where
  "sim_start = \<lparr>sim_raw = \<lparr>regs = (\<lambda>_. 0), transfer = Idle, sectors = (\<lambda>n. replicate 512 (ucast n)), waiting = True\<rparr>, busy = 2\<rparr>"

section \<open>Properties\<close>

text \<open>
  C28. On a working drive the driver is the disk of sectors: \<open>ide_read\<close> returns 0 with the sectors in
  order and changes none, \<open>ide_write\<close> returns 0 and stores the buffer sector by sector, and the
  \<open>readsect\<close> of the boot loader delivers the sector; all of them return, however long the drive is
  busy. The drive promises nothing of its registers and its data port while it is busy, so that this rests on the
  waiting of the driver.
\<close>

theorem ide_refines_disk:
  assumes "ata_drive P view" "unat n < 2 ^ 28" "0 < k" "k \<le> 256" "length src = k * SECTSIZE"
  shows "(\<exists>d'. ide_read P n k d = Some (Inr (0, concat (map (\<lambda>m. disk_read m (sectors (view d))) (run n k)), d'))
        \<and> sectors (view d') = sectors (view d))
   \<and> (\<exists>d'. ide_write P n src k d = Some (Inr (0, d'))
        \<and> sectors (view d') = disk.wr_all (zip (run n k) (chunks SECTSIZE k src)) (sectors (view d)))
   \<and> (\<exists>d'. readsect P n d = Some (disk_read n (sectors (view d)), d') \<and> sectors (view d') = sectors (view d))"
  using ide_read_disk [OF assms(1-4)] ide_write_disk [OF assms] readsect_disk [OF assms(1,2)] by blast

theorem ide_refines_disk_witness:
  "\<exists>d'. ide_write sim_ports 7 (replicate 1024 1) 2 sim_start = Some (Inr (0, d'))
    \<and> sectors (sim_ata d') = disk.wr_all (zip (run 7 2) (chunks SECTSIZE 2 (replicate 1024 1))) (sectors (sim_ata sim_start))"
  using ide_refines_disk [OF sim_drive, of 7 2 "replicate 1024 1" sim_start] by simp

text \<open>
  Sectors written through the driver and read back through it are the bytes that were written.
\<close>

lemma ide_round_trip:
  assumes "ata_drive P view" "disk_ok (sectors (view d))" "unat n < 2 ^ 28" "0 < k" "k \<le> 256"
    "length src = k * SECTSIZE"
  shows "\<exists>d1 d2. ide_write P n src k d = Some (Inr (0, d1)) \<and> ide_read P n k d1 = Some (Inr (0, src, d2))"
proof -
  let ?cs = "chunks SECTSIZE k src"
  obtain d1 where w: "ide_write P n src k d = Some (Inr (0, d1))"
      "sectors (view d1) = disk.wr_all (zip (run n k) ?cs) (sectors (view d))"
    using ide_write_disk [OF assms(1,3-6)] by blast
  have "map (\<lambda>m. disk_read m (sectors (view d1))) (run n k) = ?cs"
    unfolding w using assms run_distinct by (intro read_written) (auto simp: run_nth dest: chunk_length)
  moreover have "concat ?cs = src" using assms(6) by (intro concat_chunks) simp
  ultimately show ?thesis using w ide_read_disk [OF assms(1,3-5), of d1] by auto
qed

lemma ide_round_trip_witness:
  "\<exists>d1 d2. ide_write sim_ports 3 (replicate 512 9) 1 sim_start = Some (Inr (0, d1))
    \<and> ide_read sim_ports 3 1 d1 = Some (Inr (0, replicate 512 9, d2))"
  by (rule ide_round_trip [OF sim_drive]) (simp_all add: sim_start_def sim_ata_def disk_ok_def)

end
