(* ===== verification/Devices.thy ===== *)
theory Devices
  imports Ide Kernel
begin

text \<open>
  The start of the devices: the serial port (\<^verbatim>\<open>kernel/serial.c\<close>), the interval timer
  (\<^verbatim>\<open>kernel/timer.c\<close>) and the two interrupt controllers (\<^verbatim>\<open>kernel/irq.c\<close>), as sequences of port
  writes. What the chips make of a write is stated as their data sheets have it: \<open>board_out\<close> is the
  effect of one write on the registers of the 16550, the 8253 and the pair of 8259A.
\<close>

section \<open>kernel/serial.c\<close>

definition PORT :: u32 where [simp]: "PORT = 0x3f8"

definition init_serial :: "'d ports \<Rightarrow> 'd \<Rightarrow> 'd" where
  "init_serial P d0 =
     (let d1 = outb P (PORT + 1) 0x00 d0;
          d2 = outb P (PORT + 3) 0x80 d1;
          d3 = outb P (PORT + 0) 0x03 d2;
          d4 = outb P (PORT + 1) 0x00 d3;
          d5 = outb P (PORT + 3) 0x03 d4;
          d6 = outb P (PORT + 2) 0xC7 d5
      in outb P (PORT + 4) 0x0B d6)"

definition is_serial_idle :: "'d ports \<Rightarrow> 'd \<Rightarrow> int \<times> 'd" where
  "is_serial_idle P d = (let (r, d1) = inb P (PORT + 5) d in (uint (r AND 0x20), d1))"

partial_function (option) serial_wait :: "'d ports \<Rightarrow> 'd \<Rightarrow> 'd option" where
  "serial_wait P d =
     (let i = fst (is_serial_idle P d); d1 = snd (is_serial_idle P d)
      in if i = 0 then serial_wait P d1 else Some d1)"

definition serial_printc :: "'d ports \<Rightarrow> u8 \<Rightarrow> 'd \<Rightarrow> (int \<times> 'd) option" where
  "serial_printc P c d =
     (case serial_wait P d of None \<Rightarrow> None | Some d1 \<Rightarrow> Some (1, outb P PORT c d1))"

section \<open>kernel/timer.c\<close>

definition HZ :: int where [simp]: "HZ = 100"
definition PORT_CH_0 :: u32 where [simp]: "PORT_CH_0 = 0x40"
definition PORT_CMD :: u32 where [simp]: "PORT_CMD = 0x43"
definition PIT_FREQUENCE :: int where [simp]: "PIT_FREQUENCE = 1193182"

text \<open>\<^verbatim>\<open>union CmdByte\<close>: the bit fields, and the byte they make up.\<close>

record CmdByte =
  present_mode :: "1 word"
  operate_mode :: "3 word"
  access_mode :: "2 word"
  channel :: "2 word"

definition CmdByte_val :: "CmdByte \<Rightarrow> u8" where
  "CmdByte_val m = ucast (present_mode m) OR push_bit 1 (ucast (operate_mode m))
     OR push_bit 4 (ucast (access_mode m)) OR push_bit 6 (ucast (channel m))"

definition mode :: CmdByte where
  "mode = \<lparr>present_mode = 0, operate_mode = 2, access_mode = 3, channel = 0\<rparr>"

definition init_timer :: "'d ports \<Rightarrow> 'd \<Rightarrow> 'd" where
  "init_timer P d0 =
     (let counter = PIT_FREQUENCE div HZ;
          d1 = outb P PORT_CMD (CmdByte_val mode) d0;
          d2 = outb P PORT_CH_0 (of_int (counter AND 0xFF)) d1
      in outb P PORT_CH_0 (of_int (drop_bit 8 counter AND 0xFF)) d2)"

section \<open>kernel/irq.c\<close>

definition IO_PIC1 :: u32 where [simp]: "IO_PIC1 = 0x20"
definition IO_PIC2 :: u32 where [simp]: "IO_PIC2 = 0xA0"
definition IRQ_SLAVE :: u8 where [simp]: "IRQ_SLAVE = 2"

definition pic_init :: "'d ports \<Rightarrow> 'd \<Rightarrow> 'd" where
  "pic_init P d0 =
     (let d1 = outb P (IO_PIC1 + 1) 0xFF d0;
          d2 = outb P (IO_PIC2 + 1) 0xFF d1;
          d3 = outb P IO_PIC1 0x11 d2;
          d4 = outb P (IO_PIC1 + 1) (ucast IRQ_OFFSET) d3;
          d5 = outb P (IO_PIC1 + 1) (push_bit (unat IRQ_SLAVE) 1) d4;
          d6 = outb P (IO_PIC1 + 1) 0x3 d5;
          d7 = outb P IO_PIC2 0x11 d6;
          d8 = outb P (IO_PIC2 + 1) (ucast (IRQ_OFFSET + 8)) d7;
          d9 = outb P (IO_PIC2 + 1) IRQ_SLAVE d8;
          d10 = outb P (IO_PIC2 + 1) 0x03 d9;
          d11 = outb P IO_PIC1 0x68 d10;
          d12 = outb P IO_PIC1 0x0a d11;
          d13 = outb P IO_PIC2 0x68 d12
      in outb P IO_PIC2 0x0a d13)"

section \<open>The chips\<close>

text \<open>
  8259A: a write with bit 4 to the even port starts the initialisation and clears the mask; the odd
  port then takes the vector, the cascade and the mode, and the mask afterwards. Bit 3 of the even
  port selects the third operation word.
\<close>

datatype pic_stage = Ready | Want_vector | Want_cascade | Want_mode

record pic =
  stage :: pic_stage
  imr :: u8
  vector :: u8
  cascade :: u8
  icw4 :: u8
  ocw3 :: u8

definition pic_even :: "u8 \<Rightarrow> pic \<Rightarrow> pic" where
  "pic_even v c =
     (if v AND 0x10 \<noteq> 0 then c\<lparr>stage := Want_vector, imr := 0\<rparr>
      else if v AND 0x08 \<noteq> 0 then c\<lparr>ocw3 := v\<rparr> else c)"

definition pic_odd :: "u8 \<Rightarrow> pic \<Rightarrow> pic" where
  "pic_odd v c =
     (case stage c of
        Ready \<Rightarrow> c\<lparr>imr := v\<rparr>
      | Want_vector \<Rightarrow> c\<lparr>vector := v AND 0xF8, stage := Want_cascade\<rparr>
      | Want_cascade \<Rightarrow> c\<lparr>cascade := v, stage := Want_mode\<rparr>
      | Want_mode \<Rightarrow> c\<lparr>icw4 := v, stage := Ready\<rparr>)"

text \<open>
  8253, channel 0: the command byte, then the low and the high byte of the counter. 16550: bit 7 of
  the line control puts the divisor in place of the data and interrupt registers. \<open>full\<close> is set from a byte
  for transmission until the host has read a line status that says that there is room for the next.
\<close>

record board =
  sent :: "u8 list"
  full :: bool
  lcr :: u8
  divisor_low :: u8
  divisor_high :: u8
  ier :: u8
  fcr :: u8
  mcr :: u8
  pit_command :: u8
  pit_low :: "u8 option"
  reload :: nat
  master :: pic
  slave :: pic

definition board_out :: "u32 \<Rightarrow> u8 \<Rightarrow> board \<Rightarrow> board" where
  "board_out p v b =
     (if p = 0x3f8 then (if lcr b AND 0x80 \<noteq> 0 then b\<lparr>divisor_low := v\<rparr> else b\<lparr>sent := sent b @ [v], full := True\<rparr>)
      else if p = 0x3f9 then (if lcr b AND 0x80 \<noteq> 0 then b\<lparr>divisor_high := v\<rparr> else b\<lparr>ier := v\<rparr>)
      else if p = 0x3fa then b\<lparr>fcr := v\<rparr>
      else if p = 0x3fb then b\<lparr>lcr := v\<rparr>
      else if p = 0x3fc then b\<lparr>mcr := v\<rparr>
      else if p = 0x43 then b\<lparr>pit_command := v, pit_low := None\<rparr>
      else if p = 0x40 then
        (case pit_low b of
           None \<Rightarrow> b\<lparr>pit_low := Some v\<rparr>
         | Some l \<Rightarrow> b\<lparr>pit_low := None, reload := unat l + 256 * unat v\<rparr>)
      else if p = 0x20 then b\<lparr>master := pic_even v (master b)\<rparr>
      else if p = 0x21 then b\<lparr>master := pic_odd v (master b)\<rparr>
      else if p = 0xA0 then b\<lparr>slave := pic_even v (slave b)\<rparr>
      else if p = 0xA1 then b\<lparr>slave := pic_odd v (slave b)\<rparr>
      else b)"

definition device_ports :: "u32 set" where
  "device_ports = {0x3f8, 0x3f9, 0x3fa, 0x3fb, 0x3fc, 0x43, 0x40, 0x20, 0x21, 0xA0, 0xA1}"

definition serial_polled :: "'d ports \<Rightarrow> nat \<Rightarrow> 'd \<Rightarrow> 'd" where
  "serial_polled P n d = ((\<lambda>d. snd (inb P 0x3fd d)) ^^ n) d"

text \<open>A byte for transmission while the last one is still there: nothing is promised then.\<close>

definition overrun :: "u32 \<Rightarrow> board \<Rightarrow> bool" where
  "overrun p b \<longleftrightarrow> p = 0x3f8 \<and> lcr b AND 0x80 = 0 \<and> full b"

definition board_chips :: "'d ports \<Rightarrow> ('d \<Rightarrow> board) \<Rightarrow> bool" where
  "board_chips P view \<longleftrightarrow>
     (\<forall>p v d. p \<in> device_ports \<and> \<not> overrun p (view d) \<longrightarrow> view (outb P p v d) = board_out p v (view d))
   \<and> (\<forall>d. fst (inb P 0x3fd d) AND 0x20 \<noteq> 0 \<longrightarrow> view (snd (inb P 0x3fd d)) = (view d)\<lparr>full := False\<rparr>)
   \<and> (\<forall>d. fst (inb P 0x3fd d) AND 0x20 = 0 \<longrightarrow> full (view d) \<and> view (snd (inb P 0x3fd d)) = view d)
   \<and> (\<forall>d. \<exists>n. fst (inb P 0x3fd (serial_polled P n d)) AND 0x20 \<noteq> 0)"

text \<open>The vector the processor gets for line \<open>n\<close>, and whether the line is masked.\<close>

definition irq_vector :: "board \<Rightarrow> nat \<Rightarrow> nat" where
  "irq_vector b n = (if n < 8 then unat (vector (master b)) + n else unat (vector (slave b)) + (n - 8))"

definition irq_masked :: "board \<Rightarrow> nat \<Rightarrow> bool" where
  "irq_masked b n = (if n < 8 then bit (imr (master b)) n
     else bit (imr (master b)) 2 \<or> bit (imr (slave b)) (n - 8))"

section \<open>The serial port transmits\<close>

lemma board_chipsD:
  assumes "board_chips P view"
  shows "p \<in> device_ports \<Longrightarrow> \<not> overrun p (view d) \<Longrightarrow> view (outb P p v d) = board_out p v (view d)"
    "fst (inb P 0x3fd d) AND 0x20 \<noteq> 0 \<Longrightarrow> view (snd (inb P 0x3fd d)) = (view d)\<lparr>full := False\<rparr>"
    "fst (inb P 0x3fd d) AND 0x20 = 0 \<Longrightarrow> view (snd (inb P 0x3fd d)) = view d"
    "\<exists>n. fst (inb P 0x3fd (serial_polled P n d)) AND 0x20 \<noteq> 0"
  using assms unfolding board_chips_def by blast+

lemma other_ports:
  assumes "board_chips P view" "p \<in> device_ports" "p \<noteq> 0x3f8"
  shows "view (outb P p v d) = board_out p v (view d)"
  using board_chipsD(1) [OF assms(1,2)] assms(3) by (simp add: overrun_def)

lemma serial_wait_returns:
  assumes "board_chips P view"
  shows "\<exists>d'. serial_wait P d = Some d' \<and> view d' = (view d)\<lparr>full := False\<rparr>"
proof -
  have idle: "is_serial_idle P d = (uint (fst (inb P 0x3fd d) AND 0x20), snd (inb P 0x3fd d))" for d
    by (simp add: is_serial_idle_def split_beta)
  obtain n where "fst (inb P 0x3fd (serial_polled P n d)) AND 0x20 \<noteq> 0" using board_chipsD(4) [OF assms] by blast
  then show ?thesis
  proof (induction n arbitrary: d)
    case 0
    then show ?case using board_chipsD(2) [OF assms, of d]
      by (simp add: serial_polled_def serial_wait.simps [of P d] idle Let_def uint_0_iff)
  next
    case (Suc n d)
    let ?d = "snd (inb P 0x3fd d)"
    have "fst (inb P 0x3fd (serial_polled P n ?d)) AND 0x20 \<noteq> 0"
      using Suc.prems by (simp add: serial_polled_def funpow_Suc_right del: funpow.simps)
    from Suc.IH [OF this] board_chipsD(2,3) [OF assms, of d] show ?case
      by (cases "fst (inb P 0x3fd d) AND 0x20 = 0") (auto simp add: serial_wait.simps [of P d] idle Let_def uint_0_iff)
  qed
qed

lemma serial_printc_sends:
  assumes "board_chips P view" "lcr (view d) AND 0x80 = 0"
  shows "\<exists>d'. serial_printc P c d = Some (1, d') \<and> view d' = (view d)\<lparr>sent := sent (view d) @ [c], full := True\<rparr>"
proof -
  obtain d1 where "serial_wait P d = Some d1" "view d1 = (view d)\<lparr>full := False\<rparr>"
    using serial_wait_returns [OF assms(1)] by blast
  moreover have "0x3f8 \<in> device_ports" by (simp add: device_ports_def)
  ultimately show ?thesis
    using board_chipsD(1) [OF assms(1), of "0x3f8" d1 c] assms(2) by (simp add: serial_printc_def board_out_def overrun_def)
qed

lemma CmdByte_mode: "CmdByte_val mode = 0x34"
  by (simp add: CmdByte_val_def mode_def)

lemma counter_bytes:
  "(of_int (PIT_FREQUENCE div HZ AND 0xFF) :: u8) = 0x9B" "(of_int (drop_bit 8 (PIT_FREQUENCE div HZ) AND 0xFF) :: u8) = 0x2E"
  by (simp_all add: drop_bit_eq_div)

lemma view_init_serial:
  assumes "board_chips P view"
  shows "view (init_serial P d) = (view d)\<lparr>lcr := 3, divisor_low := 3, divisor_high := 0,
    ier := (if lcr (view d) AND 0x80 \<noteq> 0 then ier (view d) else 0), fcr := 0xC7, mcr := 0x0B\<rparr>"
  by (simp add: init_serial_def board_chipsD(1) [OF assms] device_ports_def board_out_def overrun_def)

lemma view_init_timer:
  assumes "board_chips P view"
  shows "view (init_timer P d) = (view d)\<lparr>pit_command := 0x34, pit_low := None, reload := 11931\<rparr>"
  unfolding init_timer_def Let_def counter_bytes CmdByte_mode
  by (simp add: other_ports [OF assms] device_ports_def board_out_def)

lemma view_pic_init:
  assumes "board_chips P view" "stage (master (view d)) = Ready" "stage (slave (view d)) = Ready"
  shows "view (pic_init P d) = (view d)\<lparr>
    master := \<lparr>stage = Ready, imr = 0, vector = 32, cascade = 4, icw4 = 3, ocw3 = 0x0a\<rparr>,
    slave := \<lparr>stage = Ready, imr = 0, vector = 40, cascade = 2, icw4 = 3, ocw3 = 0x0a\<rparr>\<rparr>"
  using assms(2,3) unfolding pic_init_def Let_def
  by (simp add: other_ports [OF assms(1)] device_ports_def board_out_def pic_even_def pic_odd_def)

text \<open>
  Chips to run it on: after each byte the serial port is busy for two polls of its line status, and what is written
  to it before the host has seen it idle is lost.
\<close>

record sim_board =
  chips :: board
  polls :: nat

definition sim_board_ports :: "sim_board ports" where
  "sim_board_ports = \<lparr>
     in8 = (\<lambda>p d. if full (chips d) \<and> polls d > 0 then (0, d\<lparr>polls := polls d - 1\<rparr>)
       else (0x60, d\<lparr>chips := (chips d)\<lparr>full := False\<rparr>\<rparr>)),
     in16 = (\<lambda>p d. (0, d)), in32 = (\<lambda>p d. (0, d)),
     out8 = (\<lambda>p v d. if overrun (ucast p) (chips d) then d else d\<lparr>chips := board_out (ucast p) v (chips d), polls := 2\<rparr>),
     out16 = (\<lambda>p v d. d), out32 = (\<lambda>p v d. d)\<rparr>"

definition reset_pic :: pic where
  "reset_pic = \<lparr>stage = Ready, imr = 0, vector = 8, cascade = 0, icw4 = 0, ocw3 = 0\<rparr>"

definition sim_board_start :: sim_board where
  "sim_board_start = \<lparr>chips = \<lparr>sent = [], full = False, lcr = 0, divisor_low = 1, divisor_high = 0, ier = 0, fcr = 0, mcr = 0,
     pit_command = 0, pit_low = None, reload = 65536, master = reset_pic, slave = reset_pic\<rparr>, polls = 0\<rparr>"

lemma sim_board_polled: "polls d \<le> n \<Longrightarrow> fst (inb sim_board_ports 0x3fd (serial_polled sim_board_ports n d)) = 0x60"
proof (induction n arbitrary: d)
  case 0
  then show ?case by (simp add: sim_board_ports_def port_defs serial_polled_def)
next
  case (Suc n d)
  have "polls (snd (inb sim_board_ports 0x3fd d)) \<le> n \<or> \<not> full (chips (snd (inb sim_board_ports 0x3fd d)))"
    using Suc.prems by (auto simp: sim_board_ports_def port_defs)
  moreover have "fst (inb sim_board_ports 0x3fd (serial_polled sim_board_ports n d)) = 0x60" if "\<not> full (chips d)" for d
    using that by (induction n arbitrary: d)
      (auto simp: serial_polled_def sim_board_ports_def port_defs funpow_Suc_right simp del: funpow.simps(2))
  ultimately show ?case using Suc.IH by (auto simp: serial_polled_def funpow_Suc_right simp del: funpow.simps)
qed

lemma sim_board_chips: "board_chips sim_board_ports chips"
proof -
  have "\<exists>n. fst (inb sim_board_ports 0x3fd (serial_polled sim_board_ports n d)) AND 0x20 \<noteq> 0" for d
    using sim_board_polled [of d "polls d"] by (intro exI [of _ "polls d"]) simp
  moreover have "ucast (ucast p :: u16) = p" if "p \<in> device_ports" for p
    using that by (auto simp: device_ports_def)
  ultimately show ?thesis by (simp add: board_chips_def sim_board_ports_def port_defs)
qed

section \<open>Properties\<close>

text \<open>
  C31. After the start of the devices the timer divides its clock by 11931, so that it ticks \<^verbatim>\<open>HZ\<close> times a
  second to within one in a thousand of a tick; line \<open>n\<close> of the sixteen interrupt lines raises vector
  \<^verbatim>\<open>IRQ_OFFSET + n\<close>, and none is masked (the mask written first is cleared by the initialisation
  that follows); the serial port runs at 115200 / 3 baud with 8 bits, and a character printed is
  sent, in order, however long the port is busy. Nothing is promised of a byte that is written while the port is busy.
\<close>

theorem devices_ready:
  assumes "board_chips P view" "stage (master (view d)) = Ready" "stage (slave (view d)) = Ready"
  shows "let d1 = pic_init P (init_timer P (init_serial P d)); b = view d1 in
      HZ * int (reload b) \<le> PIT_FREQUENCE \<and> PIT_FREQUENCE - HZ * int (reload b) < HZ
      \<and> (\<forall>n < 16. irq_vector b n = unat IRQ_OFFSET + n \<and> \<not> irq_masked b n)
      \<and> lcr b = 3 \<and> divisor_low b = 3 \<and> divisor_high b = 0 \<and> sent b = sent (view d)
      \<and> (\<exists>d2. serial_printc P c d1 = Some (1, d2) \<and> sent (view d2) = sent (view d) @ [c])"
proof -
  define d1 where "d1 = pic_init P (init_timer P (init_serial P d))"
  note v = view_init_serial [OF assms(1)] view_init_timer [OF assms(1)]
  have b: "view d1 = (view d)\<lparr>lcr := 3, divisor_low := 3, divisor_high := 0,
      ier := (if lcr (view d) AND 0x80 \<noteq> 0 then ier (view d) else 0), fcr := 0xC7, mcr := 0x0B,
      pit_command := 0x34, pit_low := None, reload := 11931,
      master := \<lparr>stage = Ready, imr = 0, vector = 32, cascade = 4, icw4 = 3, ocw3 = 0x0a\<rparr>,
      slave := \<lparr>stage = Ready, imr = 0, vector = 40, cascade = 2, icw4 = 3, ocw3 = 0x0a\<rparr>\<rparr>"
    unfolding d1_def using assms(2,3) by (subst view_pic_init [OF assms(1)]) (simp_all add: v)
  then have "lcr (view d1) AND 0x80 = 0" by simp
  from serial_printc_sends [OF assms(1) this, of c] b show ?thesis
    unfolding Let_def d1_def [symmetric] by (auto simp: irq_vector_def irq_masked_def)
qed

theorem devices_ready_witness:
  "irq_vector (chips (pic_init sim_board_ports (init_timer sim_board_ports (init_serial sim_board_ports sim_board_start)))) 14
    = 46"
proof -
  have "stage (master (chips sim_board_start)) = Ready" "stage (slave (chips sim_board_start)) = Ready"
    by (simp_all add: sim_board_start_def reset_pic_def)
  from devices_ready [OF sim_board_chips this] show ?thesis by (simp add: Let_def)
qed

end
