(* ===== verification/Report.thy ===== *)
theory Report
  imports Console Devices
begin

text \<open>
  Messages on their way out of the machine: \<^verbatim>\<open>printk\<close> and \<^verbatim>\<open>sys_vprintk\<close> over the serial port, and how the
  system stops, \<^verbatim>\<open>_warn\<close> and \<^verbatim>\<open>_panic\<close> of \<^verbatim>\<open>lib/string.c\<close>, \<^verbatim>\<open>abort\<close> of \<^verbatim>\<open>kernel/abort.c\<close> and \<^verbatim>\<open>sys_crash\<close>. A
  \<^verbatim>\<open>va_list\<close> is the address of the first argument on the stack; \<open>junk\<close> are the words on the stack behind the
  arguments of a call.
\<close>

section \<open>Over the serial port\<close>

fun send :: "'d ports \<Rightarrow> u8 list \<Rightarrow> 'd \<Rightarrow> 'd option" where
  "send P [] d = Some d"
| "send P (c # cs) d = (case serial_printc P c d of None \<Rightarrow> None | Some (_, d1) \<Rightarrow> send P cs d1)"

definition serial_printk :: "'d ports \<Rightarrow> memory \<Rightarrow> u8 list \<Rightarrow> u32 list \<Rightarrow> 'd \<Rightarrow> (int \<times> 'd) result option" where
  "serial_printk P m ctl args d =
     (case printk m ctl args [] of
        Inl e \<Rightarrow> Some (Inl e)
      | Inr (r, out) \<Rightarrow> map_option (\<lambda>d1. Inr (r, d1)) (send P out d))"

definition sys_vprintk :: "'d ports \<Rightarrow> memory \<Rightarrow> u8 list \<Rightarrow> u32 list \<Rightarrow> 'd \<Rightarrow> 'd result option" where
  "sys_vprintk P m ctl arg d =
     (case vfprintf m ctl arg 0 [] of
        Inl e \<Rightarrow> Some (Inl e)
      | Inr (count, out) \<Rightarrow> map_option Inr (send P out d))"

section \<open>Stopping\<close>

text \<open>\<^verbatim>\<open>cli; hlt\<close>, in a loop.\<close>

definition sys_crash :: "cpu \<Rightarrow> cpu" where
  "sys_crash c = wait_for_interrupt (disable_interrupt c)"

definition text_of :: "string \<Rightarrow> u8 list" where
  "text_of s = map of_char s"

definition warn_text :: "string \<Rightarrow> memory \<Rightarrow> u32 \<Rightarrow> u32 \<Rightarrow> u8 list \<Rightarrow> u32 \<Rightarrow> u32 list \<Rightarrow> u8 list \<Rightarrow> u8 list result" where
  "warn_text heading m file line format args junk out =
     andThen (printk m (text_of heading @ [0]) [file, line] out) (\<lambda>(_, out1).
     andThen (printk m format (args # junk) out1) (\<lambda>(_, out2).
     andThen (printk m (text_of [CHR 0x0A] @ [0]) [] out2) (\<lambda>(_, out3). Inr out3)))"

text \<open>\<open>args\<close> is what \<^verbatim>\<open>va_start\<close> makes of it, the address behind \<^verbatim>\<open>format\<close> on the stack.\<close>

definition warn :: "memory \<Rightarrow> u32 \<Rightarrow> u32 \<Rightarrow> u8 list \<Rightarrow> u32 \<Rightarrow> u32 list \<Rightarrow> u8 list \<Rightarrow> u8 list result" where
  "warn = warn_text ''Warning (%s:%d): ''"

definition panic :: "memory \<Rightarrow> u32 \<Rightarrow> u32 \<Rightarrow> u8 list \<Rightarrow> u32 \<Rightarrow> u32 list \<Rightarrow> u8 list \<times> cpu \<Rightarrow> (u8 list \<times> cpu) result" where
  "panic m file line format args junk = (\<lambda>(out, c).
     let c1 = c\<lparr>cpu_eflags := cpu_eflags c AND NOT FL_DF\<rparr>
     in andThen (warn_text ''Fatal (%s:%d): '' m file line format args junk out) (\<lambda>out1. Inr (out1, sys_crash c1)))"

text \<open>\<^verbatim>\<open>while (TRUE) wait_for_interrupt();\<close> repeats the halt, which nothing ends with interrupts off.\<close>

definition abort :: "memory \<Rightarrow> u32 \<Rightarrow> u32 \<Rightarrow> u8 list \<times> cpu \<Rightarrow> (u8 list \<times> cpu) result" where
  "abort m fname line = (\<lambda>(out, c).
     let c1 = disable_interrupt c
     in andThen (printk m (text_of ''%s:%d: Assertion failed.'' @ [10, 0]) [fname, line] out) (\<lambda>(_, out1).
        Inr (out1, wait_for_interrupt c1)))"

section \<open>Lemmas\<close>

lemma send_transmits:
  assumes "board_chips P view"
  shows "lcr (view d) AND 0x80 = 0 \<Longrightarrow> \<exists>d'. send P cs d = Some d' \<and> view d' = (view d)\<lparr>sent := sent (view d) @ cs, full := full (view d) \<or> cs \<noteq> []\<rparr>"
proof (induction cs arbitrary: d)
  case (Cons c cs)
  obtain d1 where d1: "serial_printc P c d = Some (1, d1)" "view d1 = (view d)\<lparr>sent := sent (view d) @ [c], full := True\<rparr>"
    using serial_printc_sends [OF assms Cons.prems] by blast
  then obtain d' where "send P cs d1 = Some d'" "view d' = (view d1)\<lparr>sent := sent (view d1) @ cs, full := True\<rparr>"
    using Cons.IH [of d1] Cons.prems by auto
  then show ?case using d1 by simp
qed simp

lemma renders_text: "\<lbrakk>\<forall>c \<in> set cs. c \<noteq> 0 \<and> c \<noteq> 37; renders m ps args out\<rbrakk> \<Longrightarrow> renders m (map Text cs @ ps) args (cs @ out)"
  by (induction cs) (auto intro: renders.intros)

lemma control_append: "control (ps @ qs) = control ps @ control qs"
proof (induction ps)
  case (Cons p ps)
  then show ?case by (cases p) simp_all
qed simp

lemma control_text: "control (map Text cs) = cs"
  by (induction cs) simp_all

lemma renders_append: "renders m ps args out \<Longrightarrow> renders m (ps @ map Text cs) args (out @ cs)" if "\<forall>c \<in> set cs. c \<noteq> 0 \<and> c \<noteq> 37"
proof (induction rule: renders.induct)
  case (empty args)
  then show ?case using renders_text [OF that renders.empty, of m args] by simp
qed (auto intro: renders.intros)

lemma printk_pieces: "renders m ps args out \<Longrightarrow> printk m (control ps @ [0]) args buf = Inr (0, buf @ out)"
  using vfprintf_renders [of m ps args out 0 buf] by (simp add: printk_def)

text \<open>The headings of the two reports.\<close>

definition place :: "u8 list \<Rightarrow> piece list" where
  "place cs = map Text cs @ [String] @ map Text (text_of '':'') @ [Decimal] @ map Text (text_of ''): '')"

lemma place_control:
  "text_of ''Warning (%s:%d): '' = control (place (text_of ''Warning (''))"
  "text_of ''Fatal (%s:%d): '' = control (place (text_of ''Fatal (''))"
  by (simp_all add: text_of_def place_def)

lemma place_renders:
  assumes "string_in m file fs" "\<forall>c \<in> set cs. c \<noteq> 0 \<and> c \<noteq> 37"
  shows "renders m (place cs) [file, line] (cs @ fs @ text_of '':'' @ decimal line @ text_of ''): '')"
proof -
  have plain: "\<forall>c \<in> set (text_of ''): ''). c \<noteq> 0 \<and> c \<noteq> 37" "\<forall>c \<in> set (text_of '':''). c \<noteq> 0 \<and> c \<noteq> 37"
    by (simp_all add: text_of_def)
  note r1 = renders_text [OF plain(1) renders.empty, of m "[]"]
  note r2 = renders_text [OF plain(2) renders.decimal [OF r1], of line]
  note r3 = renders_text [OF assms(2) renders.string [OF assms(1) r2]]
  show ?thesis using r3 by (simp add: place_def)
qed

lemma newline: "printk m (text_of [CHR 0x0A] @ [0]) [] out = Inr (0, out @ [10])"
proof -
  have "renders m [Text 10] [] ([10] @ [])" by (simp add: renders.intros)
  from printk_pieces [OF this, of out] show ?thesis by (simp add: text_of_def)
qed

lemma warn_text_prints:
  assumes "heading = control (place cs)" "\<forall>c \<in> set cs. c \<noteq> 0 \<and> c \<noteq> 37"
    and "string_in m file fs" "renders m ps (args # junk) msg" "text_of h = heading"
  shows "warn_text h m file line (control ps @ [0]) args junk out =
    Inr (out @ cs @ fs @ text_of '':'' @ decimal line @ text_of ''): '' @ msg @ [10])"
  using printk_pieces [OF place_renders [OF assms(3,2)], of line out]
    printk_pieces [OF assms(4)] assms(1,5)
  by (simp add: warn_text_def newline)

section \<open>Properties\<close>

text \<open>
  C29. \<^verbatim>\<open>printk\<close> and the system call behind the user's \<^verbatim>\<open>printk\<close> transmit what the control string describes over
  the serial port, in order, once the port is set up; they return however long it is busy.
\<close>

theorem printk_transmits:
  assumes "board_chips P view" "lcr (view d) AND 0x80 = 0" "renders m ps args out"
  shows "\<exists>d'. serial_printk P m (control ps @ [0]) args d = Some (Inr (0, d'))
    \<and> sys_vprintk P m (control ps @ [0]) args d = Some (Inr d')
    \<and> view d' = (view d)\<lparr>sent := sent (view d) @ out, full := full (view d) \<or> out \<noteq> []\<rparr>"
  using send_transmits [OF assms(1,2), of out] printk_pieces [OF assms(3), of "[]"] vfprintf_renders [OF assms(3), of 0 "[]"]
  by (auto simp: serial_printk_def sys_vprintk_def)

theorem printk_transmits_witness:
  "\<exists>d'. serial_printk sim_board_ports (\<lambda>_. 0) (control [Text 97, Decimal, Text 32, Hex] @ [0]) [- 5, 255] sim_board_start
      = Some (Inr (0, d')) \<and> sent (chips d') = [97, 45, 53, 32, 70, 70]"
proof -
  have "renders (\<lambda>_. 0) [Text 97, Decimal, Text 32, Hex] [- 5, 255]
      (97 # (decimal (- 5) @ 32 # (numeral_of 16 (unat (255 :: u32)) @ [])))"
    by (intro renders.intros) simp_all
  moreover have "lcr (chips sim_board_start) AND 0x80 = 0" by (simp add: sim_board_start_def)
  ultimately show ?thesis using printk_transmits [OF sim_board_chips]
    by (fastforce simp: decimal_def numeral_of.simps digit_def Representation_def sim_board_start_def)
qed

text \<open>
  A failed assertion is reported wrongly and then stops the machine for good: \<^verbatim>\<open>_panic\<close> hands its \<^verbatim>\<open>va_list\<close> to
  \<^verbatim>\<open>printk\<close> as if it were the first argument, so that the \<^verbatim>\<open>%s\<close> of \<^verbatim>\<open>my_assert\<close> prints the bytes of the stack, from
  the pointer to the text of the condition on, and not the text; after it no interrupt can wake the processor.
\<close>

lemma panic_prints_stack:
  assumes "string_in m file fs" "string_in m args str" "load_at args 4 m = bytes_of_u32 x" "0 \<notin> set (bytes_of_u32 x)"
  shows "\<exists>c'. panic m file line (text_of ''assertion failed: %s'' @ [0]) args junk (out, c) =
      Inr (out @ text_of ''Fatal ('' @ fs @ text_of '':'' @ decimal line @ text_of ''): assertion failed: '' @ str @ [10], c')
    \<and> take 4 str = bytes_of_u32 x \<and> cpu_halted c' \<and> \<not> can_interrupt c'"
proof -
  have "renders m (map Text (text_of ''assertion failed: '') @ [String]) (args # junk) (text_of ''assertion failed: '' @ str @ [])"
    by (rule renders_text [OF _ renders.string [OF assms(2) renders.empty]]) (simp add: text_of_def)
  moreover have "text_of ''assertion failed: %s'' = control (map Text (text_of ''assertion failed: '') @ [String])"
    by (simp add: text_of_def)
  ultimately have p: "warn_text ''Fatal (%s:%d): '' m file line (text_of ''assertion failed: %s'' @ [0]) args junk out =
      Inr (out @ text_of ''Fatal ('' @ fs @ text_of '':'' @ decimal line @ text_of ''): '' @ (text_of ''assertion failed: '' @ str) @ [10])"
    using warn_text_prints [OF place_control(2) _ assms(1), of "map Text (text_of ''assertion failed: '') @ [String]" args junk] 
    by (simp add: place_control(2) text_of_def)
  have "4 \<le> length str"
  proof (rule ccontr)
    assume "\<not> 4 \<le> length str"
    then have "load_at args 4 m ! length str = 0"
      using assms(2) by (simp add: load_at_map string_in_def)
    then show False using assms(3,4) \<open>\<not> 4 \<le> length str\<close> nth_mem [of "length str" "bytes_of_u32 x"]
      by (simp add: length_bytes_of_u32)
  qed
  then have "take 4 str = load_at args 4 m"
    using assms(2) by (intro nth_equalityI) (auto simp: load_at_map string_in_def)
  then show ?thesis
    using p assms(3) by (simp add: panic_def text_of_def sys_crash_def wait_for_interrupt_def disable_interrupt_def
        can_interrupt_def and.assoc)
qed

lemma load_at_four: "load_at P 4 m = [m P, m (P + 1), m (P + 2), m (P + 3)]"
  by (simp add: load_at_map upt_rec)

lemma panic_prints_stack_witness:
  "\<forall>c. \<exists>c'. panic (store_at 0x1000 [102, 0] (store_at 0x2000 [65, 66, 67, 68, 0] (\<lambda>_. 0))) 0x1000 7
        (text_of ''assertion failed: %s'' @ [0]) 0x2000 [] ([], c) =
      Inr (text_of ''Fatal (f:7): assertion failed: ABCD'' @ [10], c') \<and> cpu_halted c'"
proof
  fix c
  let ?m = "store_at 0x1000 [102, 0] (store_at 0x2000 [65, 66, 67, 68, 0] (\<lambda>_. 0))"
  have s: "string_in ?m 0x1000 [102]" "string_in ?m 0x2000 [65, 66, 67, 68]"
    by (simp_all add: string_in_def All_less_Suc)
  have x: "load_at 0x2000 4 ?m = bytes_of_u32 0x44434241" "0 \<notin> set (bytes_of_u32 0x44434241)"
    by (simp_all add: bytes_of_u32_def load_at_four)
  show "\<exists>c'. panic ?m 0x1000 7 (text_of ''assertion failed: %s'' @ [0]) 0x2000 [] ([], c) =
      Inr (text_of ''Fatal (f:7): assertion failed: ABCD'' @ [10], c') \<and> cpu_halted c'"
    using panic_prints_stack [OF s x, of 7 "[]" "[]" c] by (auto simp: text_of_def decimal_def numeral_of.simps digit_def Representation_def)
qed

end
