(* ===== verification/Frames.thy ===== *)
theory Frames
  imports Report Paging
begin

text \<open>
  The page descriptors of \<^verbatim>\<open>inc/pmap.h\<close>: the conversions between physical addresses, kernel addresses and
  \<^verbatim>\<open>struct PageInfo\<close>. Nothing sets up the array, \<^verbatim>\<open>npages\<close> and \<^verbatim>\<open>pages\<close> keep their zeros; nothing calls the functions
  yet. A pointer to a descriptor is its address; what is printed is appended to the output.
\<close>

unbundle bit_operations_syntax

record PageInfo =
  pp_link :: u32
  pp_ref :: u16

definition sizeof_PageInfo :: u32 where [simp]: "sizeof_PageInfo = 8"

definition npages :: u32 where "npages = 0"
definition pages :: u32 where "pages = 0"

text \<open>
  \<open>file\<close> is the bytes of \<^verbatim>\<open>__FILE__\<close>, which the two functions hand to \<^verbatim>\<open>printk\<close> as the control string, and \<open>msg\<close> the
  address of the message.
\<close>

definition paddr :: "memory \<Rightarrow> u8 list \<Rightarrow> u32 \<Rightarrow> u32 \<Rightarrow> u32 \<Rightarrow> u8 list \<Rightarrow> (u32 \<times> u8 list) result" where
  "paddr m file line msg kva out =
     andThen (if kva < KERNBASE then printk m file [line, msg, kva] out else Inr (0, out)) (\<lambda>(_, out1).
       Inr (kva - KERNBASE, out1))"

definition kaddr :: "memory \<Rightarrow> u8 list \<Rightarrow> u32 \<Rightarrow> u32 \<Rightarrow> u32 \<Rightarrow> u8 list \<Rightarrow> (u32 \<times> u8 list) result" where
  "kaddr m file line msg pa out =
     andThen (if npages \<le> PGNUM pa then printk m file [line, msg, pa] out else Inr (0, out)) (\<lambda>(_, out1).
       Inr (pa + KERNBASE, out1))"

text \<open>The difference of two pointers is divided by the size of what they point to, with its sign.\<close>

definition page2pa :: "u32 \<Rightarrow> u32" where
  "page2pa pp = push_bit PGSHIFT (signed_drop_bit 3 (pp - pages))"

definition pa2page :: "memory \<Rightarrow> u32 \<Rightarrow> u8 list \<Rightarrow> (u32 \<times> u8 list) result" where
  "pa2page m pa out =
     andThen (if npages \<le> PGNUM pa then printk m (text_of ''pa2page called with invalid pa'' @ [0]) [] out else Inr (0, out))
       (\<lambda>(_, out1). Inr (pages + sizeof_PageInfo * PGNUM pa, out1))"

definition page2kva :: "memory \<Rightarrow> u8 list \<Rightarrow> u32 \<Rightarrow> u32 \<Rightarrow> u32 \<Rightarrow> u8 list \<Rightarrow> (u32 \<times> u8 list) result" where
  "page2kva m file line msg pp out = kaddr m file line msg (page2pa pp) out"

section \<open>The conversions invert each other\<close>

lemma page_address: "push_bit 12 (drop_bit 12 pa) = (pa AND NOT 0xFFF :: u32)"
proof -
  have m: "(0xFFF :: u32) = mask 12" by (simp add: mask_numeral)
  have "bit (push_bit 12 (drop_bit 12 pa)) n = bit (pa AND NOT (mask 12)) n" if "n < LENGTH(32)" for n
    using that by (cases "12 \<le> n") (simp_all add: bit_simps)
  then show ?thesis unfolding m by (rule bit_word_eqI)
qed

lemma page2pa_descriptor: "page2pa (pages + sizeof_PageInfo * PGNUM pa) = PTE_ADDR pa"
proof -
  have "unat pa < 2 ^ 32" using unsigned_less [of pa] by simp
  then have n: "unat (PGNUM pa) < 1048576" unfolding unat_fields(4) by simp
  then have "unat (8 * PGNUM pa) = 8 * unat (PGNUM pa)" by (simp add: unat_word_ariths)
  then have "sint (8 * PGNUM pa) = 8 * int (unat (PGNUM pa))" using n by (subst sint_small) simp_all
  then have "sint (signed_drop_bit 3 (8 * PGNUM pa)) = int (unat (PGNUM pa))"
    by (simp add: sint_signed_drop_bit_eq drop_bit_eq_div)
  also have "\<dots> = sint (PGNUM pa)" using n by (subst sint_small) simp_all
  finally have "signed_drop_bit 3 (8 * PGNUM pa) = PGNUM pa" by (rule signed_word_eqI)
  then show ?thesis
    by (simp add: page2pa_def pages_def) (simp add: PGNUM_def PTE_ADDR_def page_address)
qed

lemma kernel_address_round_trip:
  assumes "kaddr m file line msg pa out = Inr (va, out1)" "unat pa + unat KERNBASE < 2 ^ 32"
  shows "paddr m file line msg va out1 = Inr (pa, out1)"
proof -
  have "va = pa + KERNBASE" using assms(1) by (auto simp: kaddr_def andThen_eq_Inr)
  moreover have "KERNBASE \<le> pa + KERNBASE" using assms(2) by (simp add: word_le_nat_alt unat_word_ariths)
  ultimately have "\<not> va < KERNBASE" "va - KERNBASE = pa" by (simp_all add: not_less)
  then show ?thesis by (simp add: paddr_def del: KERNBASE_def)
qed

text \<open>Every address is beyond the memory of which \<^verbatim>\<open>npages\<close> counts the pages: \<^verbatim>\<open>KADDR\<close> always prints the file name.\<close>

lemma kaddr_prints_file:
  assumes "\<forall>c \<in> set cs. c \<noteq> 0 \<and> c \<noteq> 37"
  shows "kaddr m (cs @ [0]) line msg pa out = Inr (pa + KERNBASE, out @ cs)"
proof -
  have "vfprintf m (cs @ [0]) args n out = Inr (n + length cs, out @ cs)" for args n out
    using assms by (induction cs arbitrary: n out) (auto simp: vfprintf.simps)
  then show ?thesis by (simp add: kaddr_def printk_def npages_def)
qed

end
