(* ===== verification/Elf.thy ===== *)
theory Elf
  imports Disk
begin

text \<open>
  The executable format, \<^verbatim>\<open>inc/elf.h\<close>: the file header, the program headers and the section headers,
  and their bytes as the compiler lays the structures out. Each layout is an interpretation of the
  locale \<open>codec\<close>.
\<close>

section \<open>inc/elf.h\<close>

definition ELF_MAGIC :: u32 where [simp]: "ELF_MAGIC = 0x464C457F"

record elf =
  e_magic :: u32
  e_elf :: "u8 list"
  e_type :: u16
  e_machine :: u16
  e_version :: u32
  e_entry :: u32
  e_phoff :: u32
  e_shoff :: u32
  e_flags :: u32
  e_ehsize :: u16
  e_phentsize :: u16
  e_phnum :: u16
  e_shentsize :: u16
  e_shnum :: u16
  e_shstrndx :: u16

record proghdr =
  p_type :: u32
  p_offset :: u32
  p_va :: u32
  p_pa :: u32
  p_filesz :: u32
  p_memsz :: u32
  p_flags :: u32
  p_align :: u32

record secthdr =
  sh_name :: u32
  sh_type :: u32
  sh_flags :: u32
  sh_addr :: u32
  sh_offset :: u32
  sh_size :: u32
  sh_link :: u32
  sh_info :: u32
  sh_addralign :: u32
  sh_entsize :: u32

definition ELF_PROG_LOAD :: u32 where [simp]: "ELF_PROG_LOAD = 1"
definition ELF_PROG_FLAG_EXEC :: u32 where [simp]: "ELF_PROG_FLAG_EXEC = 1"
definition ELF_PROG_FLAG_WRITE :: u32 where [simp]: "ELF_PROG_FLAG_WRITE = 2"
definition ELF_PROG_FLAG_READ :: u32 where [simp]: "ELF_PROG_FLAG_READ = 4"
definition ELF_SHT_NULL :: u32 where [simp]: "ELF_SHT_NULL = 0"
definition ELF_SHT_PROGBITS :: u32 where [simp]: "ELF_SHT_PROGBITS = 1"
definition ELF_SHT_SYMTAB :: u32 where [simp]: "ELF_SHT_SYMTAB = 2"
definition ELF_SHT_STRTAB :: u32 where [simp]: "ELF_SHT_STRTAB = 3"
definition ELF_SHN_UNDEF :: u32 where [simp]: "ELF_SHN_UNDEF = 0"

section \<open>Bytes\<close>

text \<open>The word at an offset of a structure.\<close>

definition word_at :: "u8 list \<Rightarrow> nat \<Rightarrow> u32" where
  "word_at bs n = u32_of_bytes (take 4 (drop n bs))"

definition half_at :: "u8 list \<Rightarrow> nat \<Rightarrow> u16" where
  "half_at bs n = u16_of_bytes (take 2 (drop n bs))"

definition elf_of_bytes :: "u8 list \<Rightarrow> elf" where
  "elf_of_bytes bs =
     \<lparr>e_magic = word_at bs 0, e_elf = take 12 (drop 4 bs), e_type = half_at bs 16, e_machine = half_at bs 18,
      e_version = word_at bs 20, e_entry = word_at bs 24, e_phoff = word_at bs 28, e_shoff = word_at bs 32,
      e_flags = word_at bs 36, e_ehsize = half_at bs 40, e_phentsize = half_at bs 42, e_phnum = half_at bs 44,
      e_shentsize = half_at bs 46, e_shnum = half_at bs 48, e_shstrndx = half_at bs 50\<rparr>"

definition bytes_of_elf :: "elf \<Rightarrow> u8 list" where
  "bytes_of_elf e = bytes_of_u32 (e_magic e) @ e_elf e @ bytes_of_u16 (e_type e) @ bytes_of_u16 (e_machine e)
     @ bytes_of_u32 (e_version e) @ bytes_of_u32 (e_entry e) @ bytes_of_u32 (e_phoff e) @ bytes_of_u32 (e_shoff e)
     @ bytes_of_u32 (e_flags e) @ bytes_of_u16 (e_ehsize e) @ bytes_of_u16 (e_phentsize e) @ bytes_of_u16 (e_phnum e)
     @ bytes_of_u16 (e_shentsize e) @ bytes_of_u16 (e_shnum e) @ bytes_of_u16 (e_shstrndx e)"

definition elf_wf :: "elf \<Rightarrow> bool" where
  "elf_wf e \<longleftrightarrow> length (e_elf e) = 12"

interpretation elf: codec bytes_of_elf elf_of_bytes elf_wf 52
  by unfold_locales
    (auto simp: elf_wf_def bytes_of_elf_def elf_of_bytes_def word_at_def half_at_def codec_simps
      u32_of_bytes_of_u32 u16_of_bytes_of_u16)

definition proghdr_of_bytes :: "u8 list \<Rightarrow> proghdr" where
  "proghdr_of_bytes bs =
     \<lparr>p_type = word_at bs 0, p_offset = word_at bs 4, p_va = word_at bs 8, p_pa = word_at bs 12,
      p_filesz = word_at bs 16, p_memsz = word_at bs 20, p_flags = word_at bs 24, p_align = word_at bs 28\<rparr>"

definition bytes_of_proghdr :: "proghdr \<Rightarrow> u8 list" where
  "bytes_of_proghdr h = bytes_of_u32 (p_type h) @ bytes_of_u32 (p_offset h) @ bytes_of_u32 (p_va h)
     @ bytes_of_u32 (p_pa h) @ bytes_of_u32 (p_filesz h) @ bytes_of_u32 (p_memsz h) @ bytes_of_u32 (p_flags h)
     @ bytes_of_u32 (p_align h)"

interpretation proghdr: codec bytes_of_proghdr proghdr_of_bytes "\<lambda>_. True" 32
  by unfold_locales
    (auto simp: bytes_of_proghdr_def proghdr_of_bytes_def word_at_def codec_simps u32_of_bytes_of_u32)

end
