(* ===== verification/Loader.thy ===== *)
theory Loader
  imports Util Kernel_Inv Traps Devices Elf
begin

text \<open>
  The start of the kernel, \<^verbatim>\<open>kernel/init.c\<close>: \<^verbatim>\<open>kernel_init\<close> and the loader of the user program, over the
  devices, the descriptor tables, the file system and the processes of the other theories. What
  \<^verbatim>\<open>printk\<close> prints on the way is left out.
\<close>

section \<open>kernel/init.c\<close>

definition SECTCOUNT :: nat where [simp]: "SECTCOUNT = 1"
definition USER_START :: u32 where [simp]: "USER_START = 0x8048000"

text \<open>Bytes stored at virtual addresses, in ascending order, through the directory in \<^verbatim>\<open>cr3\<close>.\<close>

fun virtual_write :: "(u32 \<Rightarrow> u32 option) \<Rightarrow> u32 \<Rightarrow> u8 list \<Rightarrow> memory \<Rightarrow> memory result" where
  "virtual_write xl a [] m = Inr m"
| "virtual_write xl a (b # bs) m =
     (case xl a of
        None \<Rightarrow> Inl (Out_of_bounds ''page fault'')
      | Some p \<Rightarrow> virtual_write xl (a + 1) bs (m(p := b)))"

definition sizeof_Proghdr :: nat where [simp]: "sizeof_Proghdr = 32"

text \<open>\<^verbatim>\<open>ph[i]\<close>, where \<^verbatim>\<open>ph\<close> points \<open>off\<close> bytes into the header.\<close>

definition proghdr_at :: "u8 list \<Rightarrow> u32 \<Rightarrow> nat \<Rightarrow> proghdr result" where
  "proghdr_at header off i =
     (let a = unat off + sizeof_Proghdr * i
      in if a + sizeof_Proghdr \<le> length header then Inr (proghdr_of_bytes (take sizeof_Proghdr (drop a header)))
         else Inl (Out_of_bounds ''header''))"

definition load_segment :: "u32 \<Rightarrow> u32 \<Rightarrow> nat \<Rightarrow> proghdr \<Rightarrow> kernel \<Rightarrow> fs_state \<Rightarrow> (kernel \<times> fs_state) result" where
  "load_segment etp utp fd ph k s =
     (let xl = (\<lambda>va. map_option fst (translate etp utp (mem k) (cr3 k) va))
      in andThen (fs_lseek fd (sint (p_offset ph)) SEEK_SET s) (\<lambda>(_, s1).
         andThen (fs_read fd (sint (p_filesz ph)) s1) (\<lambda>(r, bytes, s2).
         andThen (virtual_write xl (p_pa ph) bytes (pmem (mem k))) (\<lambda>m1.
         andThen (my_assert ''fs_read == ph->p_filesz'' (of_int r = p_filesz ph)) (\<lambda>_.
         andThen (virtual_write xl (p_pa ph + p_filesz ph) (replicate (unat (p_memsz ph - p_filesz ph)) 0) m1) (\<lambda>m2.
           Inr (k\<lparr>mem := (mem k)\<lparr>pmem := m2\<rparr>\<rparr>, s2)))))))"

fun load_segments :: "u32 \<Rightarrow> u32 \<Rightarrow> nat \<Rightarrow> u8 list \<Rightarrow> u32 \<Rightarrow> nat list \<Rightarrow> kernel \<Rightarrow> fs_state \<Rightarrow> (kernel \<times> fs_state) result" where
  "load_segments etp utp fd header off [] k s = Inr (k, s)"
| "load_segments etp utp fd header off (i # is) k s =
     andThen (proghdr_at header off i) (\<lambda>ph.
       if p_type ph = 1 \<and> p_memsz ph \<noteq> 0
       then andThen (load_segment etp utp fd ph k s) (\<lambda>(k1, s1). load_segments etp utp fd header off is k1 s1)
       else load_segments etp utp fd header off is k s)"

definition userprog_load :: "u32 \<Rightarrow> u32 \<Rightarrow> nat \<Rightarrow> u8 list \<Rightarrow> kernel \<Rightarrow> fs_state \<Rightarrow> (u32 \<times> kernel \<times> fs_state) result" where
  "userprog_load etp utp p filename k s =
     andThen (my_assert ''get_pid()==pid'' (get_pid k = p)) (\<lambda>_.
     andThen (pcb_page_init etp p (mem k)) (\<lambda>m1.
     andThen (alloc_page utp USER_START (PTE_P OR PTE_W OR PTE_U) 0 m1) (\<lambda>(pa, m2).
     andThen (fs_open (Some filename) O_RDONLY s) (\<lambda>(fd, s1).
     if fd < 0 then Inl (Panic ''fs_open failed'')
     else andThen (fs_read (nat fd) (int (SECTSIZE * SECTCOUNT)) s1) (\<lambda>(r, header, s2).
     andThen (my_assert ''fs_read == SECTSIZE * SECTCOUNT'' (r = int (SECTSIZE * SECTCOUNT))) (\<lambda>_.
     let e = elf_of_bytes header
     in andThen (my_assert ''e_magic'' (e_magic e = 0x464C457F)) (\<lambda>_.
     andThen (my_assert ''e_phoff'' (e_phoff e + ucast (e_phnum e) * of_nat sizeof_Proghdr \<le> of_nat (SECTSIZE * SECTCOUNT))) (\<lambda>_.
     andThen (load_segments etp utp (nat fd) header (e_phoff e) [0..<unat (e_phnum e)] (k\<lparr>mem := m2, cr3 := p\<rparr>) s2) (\<lambda>(k1, s3).
     andThen (fs_close (nat fd) s3) (\<lambda>(c, s4).
     andThen (my_assert ''!fs_close(fd)'' (c = 0)) (\<lambda>_. Inr (e_entry e, k1, s4))))))))))))"

record 'd machine =
  kern :: kernel
  files :: fs_state
  tables :: traps
  dev :: 'd

definition kernel_init :: "'d ports \<Rightarrow> (nat \<Rightarrow> u32) \<Rightarrow> u32 \<Rightarrow> u32 \<Rightarrow> u32 \<Rightarrow> 'd machine \<Rightarrow> 'd machine result" where
  "kernel_init P handlers pts_addr etp utp M =
     (let d1 = init_serial P (dev M);
          d2 = init_timer P d1;
          d3 = pic_init P d2;
          t = trap_init handlers pts_addr (tables M);
          s = fs_init (files M)
      in andThen (userprog_load etp utp 0 (c_string ''user.bin'') (kern M) s) (\<lambda>(eip, k1, s1).
         andThen (pcb_init_p0 0 USER_START eip (2 OR FL_IF) k1) (\<lambda>k2.
           Inr \<lparr>kern = pcb_exec 0 k2, files = s1, tables = t, dev = d3\<rparr>)))"

section \<open>Writing to the user's memory\<close>

text \<open>Where the translation is a shift by \<open>c\<close>, the bytes end up shifted by \<open>c\<close>.\<close>

lemma virtual_write_shift:
  assumes "\<And>i. i < length bs \<Longrightarrow> xl (a + of_nat i) = Some (a + of_nat i + c)" "length bs < 2 ^ 32"
  shows "virtual_write xl a bs m = Inr (\<lambda>p. let j = unat (p - (a + c)) in if j < length bs then bs ! j else m p)"
  using assms
proof (induction bs arbitrary: a m)
  case (Cons b bs a m)
  have "xl (a + 1 + of_nat i) = Some (a + 1 + of_nat i + c)" if "i < length bs" for i
    using Cons.prems(1) [of "Suc i"] that by (simp add: ac_simps)
  moreover have "length bs < 2 ^ 32" using Cons.prems(2) by simp
  ultimately have IH: "virtual_write xl (a + 1) bs (m(a + c := b)) =
      Inr (\<lambda>p. let j = unat (p - (a + 1 + c)) in if j < length bs then bs ! j else (m(a + c := b)) p)"
    by (rule Cons.IH)
  have "(let j = unat (p - (a + 1 + c)) in if j < length bs then bs ! j else (m(a + c := b)) p)
      = (let j = unat (p - (a + c)) in if j < Suc (length bs) then (b # bs) ! j else m p)" for p
    using unat_sub_Suc [of p "a + c"] Cons.prems(2)
    by (cases "p = a + c") (simp_all add: Let_def add.commute add.left_commute)
  then show ?case using IH Cons.prems(1) [of 0] by simp
qed simp

lemma user_region:
  assumes "layout_ok etp utp" "own_space utp 0 st" "134217728 \<le> unat a" "unat a + n \<le> 138412032" "i < n"
  shows "translate etp utp st 0 (a + of_nat i) = Some (a + of_nat i + 0xF9000000, 7)"
    "user_access etp utp st 0 (a + of_nat i) = Some (a + of_nat i + 0xF9000000)"
proof -
  let ?k = "unat a - 134217728 + i"
  have a: "a + of_nat i = 0x8000000 + of_nat ?k"
    using assms(3) by (simp add: of_nat_diff)
  have k: "?k < 4194304" using assms(3-5) by simp
  have "0x8000000 + of_nat ?k + 0xF9000000 = (of_nat ((4 + 0) * 4194304) + of_nat ?k :: u32)" by simp
  then show t: "translate etp utp st 0 (a + of_nat i) = Some (a + of_nat i + 0xF9000000, 7)"
    using own_space_translate [OF assms(1,2) k] unfolding a by metis
  show "user_access etp utp st 0 (a + of_nat i) = Some (a + of_nat i + 0xF9000000)"
    by (simp add: user_access_def t)
qed

section \<open>One segment\<close>

text \<open>What the loader can load: inside the 4 MB of the process, and from the bytes there are.\<close>

definition segment_ok :: "nat \<Rightarrow> proghdr \<Rightarrow> bool" where
  "segment_ok n h \<longleftrightarrow> 134217728 \<le> unat (p_pa h) \<and> unat (p_pa h) + unat (p_memsz h) \<le> 138412032
     \<and> unat (p_filesz h) \<le> unat (p_memsz h) \<and> unat (p_filesz h) \<le> n"

definition loaded :: "u8 list \<Rightarrow> proghdr \<Rightarrow> memory \<Rightarrow> memory" where
  "loaded img h m = (\<lambda>p. let j = unat (p - (p_pa h + 0xF9000000))
     in if j < unat (p_filesz h) then img ! j else if j < unat (p_memsz h) then 0 else m p)"

lemma zero_range:
  fixes b z :: u32
  assumes "unat f \<le> unat z"
  shows "unat (p - (b + f)) < unat (z - f) \<longleftrightarrow> unat f \<le> unat (p - b) \<and> unat (p - b) < unat z"
proof -
  have z: "unat (z - f) = unat z - unat f" using assms by (simp add: unat_sub word_le_nat_alt)
  have e: "p - (b + f) = p - b - f" by simp
  show ?thesis
  proof (cases "unat f \<le> unat (p - b)")
    case True
    then have "unat (p - (b + f)) = unat (p - b) - unat f" unfolding e by (simp add: unat_sub word_le_nat_alt)
    then show ?thesis using True z by auto
  next
    case False
    then have "unat (p - (b + f)) = 4294967296 + unat (p - b) - unat f"
      unfolding e unat_sub_if_size by (simp add: word_le_nat_alt word_size)
    moreover have "unat z < 4294967296" using unsigned_less [of z] by simp
    ultimately show ?thesis using False z by auto
  qed
qed

lemma load_segment_ok:
  assumes lay: "layout_ok etp utp" and own: "own_space utp 0 (mem k)" and cr3: "cr3 k = 0"
    and rep: "file_rep s fd ns bl" and op: "fd < 1024" "opened (fd_pool s fd)"
    and seg: "segment_ok (length (file_bytes s fd bl)) h"
  shows "\<exists>s'. load_segment etp utp fd h k s =
        Inr (k\<lparr>mem := (mem k)\<lparr>pmem := loaded (file_bytes s fd bl) h (pmem (mem k))\<rparr>\<rparr>, s')
    \<and> file_rep s' fd ns bl \<and> opened (fd_pool s' fd) \<and> file_bytes s' fd bl = file_bytes s fd bl"
proof -
  let ?img = "file_bytes s fd bl" and ?n = "unat (p_filesz h)" and ?c = "0xF9000000 :: u32"
  let ?xl = "\<lambda>va. map_option fst (translate etp utp (mem k) (cr3 k) va)"
  have seg': "134217728 \<le> unat (p_pa h)" "unat (p_pa h) + unat (p_memsz h) \<le> 138412032"
      "?n \<le> unat (p_memsz h)" "?n \<le> length ?img" using seg by (simp_all add: segment_ok_def)
  have xl: "?xl (p_pa h + of_nat i) = Some (p_pa h + of_nat i + ?c)" if "i < unat (p_memsz h)" for i
    using user_region(1) [OF lay own seg'(1,2) that] cr3 by simp
  obtain s1 where s1: "fs_lseek fd (sint (p_offset h)) SEEK_SET s = Inr (0, s1)" "file_rep s1 fd ns bl"
      "file_bytes s1 fd bl = ?img" "pos s1 fd = 0" "size_of s1 fd = size_of s fd" "fs_step fd (set ns \<union> set bl) s s1"
    using rewind_ok [OF rep op] by metis
  have op1: "opened (fd_pool s1 fd)" using fs_stepD(1) [OF s1(6)] op by simp
  have size: "length ?img = size_of s fd" by (rule file_bytes_length [OF rep])
  then have "size_of s1 fd < 2147483648" using file_rep_size [OF rep] s1(5) by simp
  then have sint: "sint (p_filesz h) = int ?n" using seg'(4) size s1(5) by (intro sint_small) simp
  obtain s2 where s2: "fs_read fd (int ?n) s1 = Inr (int ?n, take ?n ?img, s2)" "file_rep s2 fd ns bl"
      "file_bytes s2 fd bl = ?img" "fs_step fd (set ns \<union> set bl) s1 s2"
    using fs_read_ok [OF s1(2) op(1) op1, of ?n] seg'(4) size s1(3,4,5) by (auto simp: min_def)
  have op2: "opened (fd_pool s2 fd)" using fs_stepD(1) [OF s2(4)] op1 by simp
  let ?m1 = "\<lambda>p. let j = unat (p - (p_pa h + ?c)) in if j < ?n then ?img ! j else pmem (mem k) p"
  have w1: "virtual_write ?xl (p_pa h) (take ?n ?img) m = Inr (\<lambda>p. let j = unat (p - (p_pa h + ?c))
      in if j < ?n then ?img ! j else m p)" for m
    using virtual_write_shift [of "take ?n ?img" ?xl "p_pa h" ?c m] xl seg'
    by (simp add: min_absorb2 Let_def cong: if_cong)
  let ?z = "unat (p_memsz h - p_filesz h)"
  have z: "?z = unat (p_memsz h) - ?n" using seg'(3) by (simp add: unat_sub word_le_nat_alt)
  have xz: "?xl (p_pa h + p_filesz h + of_nat i) = Some (p_pa h + p_filesz h + of_nat i + ?c)" if "i < ?z" for i
  proof -
    have e: "p_pa h + p_filesz h + of_nat i = p_pa h + of_nat (?n + i)" by simp
    show ?thesis unfolding e by (rule xl) (use that z in linarith)
  qed
  have "length (replicate ?z (0 :: u8)) < 2 ^ 32" using z seg'(2) by simp
  with xz have "virtual_write ?xl (p_pa h + p_filesz h) (replicate ?z 0) m = Inr (\<lambda>p.
      let j = unat (p - (p_pa h + p_filesz h + ?c)) in if j < length (replicate ?z (0 :: u8)) then replicate ?z 0 ! j else m p)" for m
    by (intro virtual_write_shift) simp_all
  moreover have "p_pa h + p_filesz h + ?c = p_pa h + ?c + p_filesz h" by (simp only: ac_simps)
  ultimately have w2: "virtual_write ?xl (p_pa h + p_filesz h) (replicate ?z 0) m = Inr (\<lambda>p.
      let j = unat (p - (p_pa h + ?c + p_filesz h)) in if j < ?z then 0 else m p)" for m
    by (simp only: length_replicate nth_replicate cong: if_cong)
  have "load_segment etp utp fd h k s = Inr (k\<lparr>mem := (mem k)\<lparr>pmem := loaded ?img h (pmem (mem k))\<rparr>\<rparr>, s2)"
    using s1(1) s2(1) unfolding load_segment_def Let_def sint
    by (auto simp: w1 w2 loaded_def Let_def zero_range [OF seg'(3)] fun_eq_iff)
  then show ?thesis using s2(2,3) op2 by blast
qed

section \<open>All segments\<close>

definition loadable :: "proghdr \<Rightarrow> bool" where
  "loadable h \<longleftrightarrow> p_type h = ELF_PROG_LOAD \<and> p_memsz h \<noteq> 0"

definition headers :: "u8 list \<Rightarrow> u32 \<Rightarrow> nat list \<Rightarrow> proghdr list" where
  "headers header off is = filter loadable (map (\<lambda>i. proghdr_of_bytes (take 32 (drop (unat off + 32 * i) header))) is)"

lemma load_segments_ok:
  assumes "layout_ok etp utp" "own_space utp 0 (mem k)" "cr3 k = 0" "file_rep s fd ns bl" "fd < 1024"
    "opened (fd_pool s fd)" "\<forall>h \<in> set (headers header off is). segment_ok (length (file_bytes s fd bl)) h"
    "\<forall>i \<in> set is. unat off + 32 * i + 32 \<le> length header"
  shows "\<exists>s'. load_segments etp utp fd header off is k s =
        Inr (k\<lparr>mem := (mem k)\<lparr>pmem := fold (loaded (file_bytes s fd bl)) (headers header off is) (pmem (mem k))\<rparr>\<rparr>, s')
    \<and> file_rep s' fd ns bl \<and> opened (fd_pool s' fd)"
  using assms
proof (induction "is" arbitrary: k s)
  case (Cons i "is" k s)
  let ?h = "proghdr_of_bytes (take 32 (drop (unat off + 32 * i) header))"
  have at: "proghdr_at header off i = Inr ?h" using Cons.prems(8) by (simp add: proghdr_at_def)
  show ?case
  proof (cases "loadable ?h")
    case False
    then have "headers header off (i # is) = headers header off is" by (simp add: headers_def)
    moreover from this have "\<forall>h \<in> set (headers header off is). segment_ok (length (file_bytes s fd bl)) h"
      using Cons.prems(7) by simp
    moreover have "load_segments etp utp fd header off (i # is) k s = load_segments etp utp fd header off is k s"
      using at False by (auto simp: loadable_def)
    ultimately show ?thesis using Cons.IH [OF Cons.prems(1-6)] Cons.prems(8) by simp
  next
    case True
    then have hs: "headers header off (i # is) = ?h # headers header off is" by (simp add: headers_def)
    then have "segment_ok (length (file_bytes s fd bl)) ?h" using Cons.prems(7) by simp
    from load_segment_ok [OF Cons.prems(1-6) this] obtain s1 where
      s1: "load_segment etp utp fd ?h k s = Inr (k\<lparr>mem := (mem k)\<lparr>pmem := loaded (file_bytes s fd bl) ?h (pmem (mem k))\<rparr>\<rparr>, s1)"
        "file_rep s1 fd ns bl" "opened (fd_pool s1 fd)" "file_bytes s1 fd bl = file_bytes s fd bl" by blast
    let ?k1 = "k\<lparr>mem := (mem k)\<lparr>pmem := loaded (file_bytes s fd bl) ?h (pmem (mem k))\<rparr>\<rparr>"
    have own: "own_space utp 0 (mem ?k1)" "cr3 ?k1 = 0"
      using Cons.prems(2,3) by (simp_all add: own_space_def own_table_def)
    have "\<forall>h \<in> set (headers header off is). segment_ok (length (file_bytes s1 fd bl)) h"
      "\<forall>i \<in> set is. unat off + 32 * i + 32 \<le> length header" using Cons.prems(7,8) hs s1(4) by simp_all
    note IH = Cons.IH [OF Cons.prems(1) own s1(2) Cons.prems(5) s1(3) this]
    have "load_segments etp utp fd header off (i # is) k s = load_segments etp utp fd header off is ?k1 s1"
      using s1(1) at True by (simp add: loadable_def)
    with IH show ?thesis using s1(4) hs by simp
  qed
qed (simp add: headers_def)

text \<open>Segments that do not overlap keep what was loaded into them.\<close>

definition apart :: "proghdr \<Rightarrow> proghdr \<Rightarrow> bool" where
  "apart g h \<longleftrightarrow> unat (p_pa g) + unat (p_memsz g) \<le> unat (p_pa h) \<or> unat (p_pa h) + unat (p_memsz h) \<le> unat (p_pa g)"

lemma loaded_at:
  assumes "segment_ok n h" "j < unat (p_memsz h)"
  shows "loaded img h m (p_pa h + of_nat j + 0xF9000000) = (if j < unat (p_filesz h) then img ! j else 0)"
proof -
  have "j < 2 ^ 32" using assms by (simp add: segment_ok_def)
  moreover have "p_pa h + of_nat j + 0xF9000000 - (p_pa h + 0xF9000000) = of_nat j" by simp
  ultimately have "unat (p_pa h + of_nat j + 0xF9000000 - (p_pa h + 0xF9000000)) = j"
    by (simp only: unat_of_nat_u32)
  then show ?thesis using assms(2) by (simp only: loaded_def Let_def if_True)
qed

lemma loaded_apart:
  assumes "segment_ok n g" "segment_ok n' h" "apart g h" "j < unat (p_memsz h)"
  shows "loaded img g m (p_pa h + of_nat j + 0xF9000000) = m (p_pa h + of_nat j + 0xF9000000)"
proof -
  have h: "unat (p_pa h + of_nat j) = unat (p_pa h) + j"
    using assms(2,4) unat_add_of_nat [of "p_pa h" j] by (simp add: segment_ok_def)
  have e: "p_pa h + of_nat j + 0xF9000000 - (p_pa g + 0xF9000000) = p_pa h + of_nat j - p_pa g" by simp
  have "unat (p_memsz g) \<le> unat (p_pa h + of_nat j - p_pa g)"
    using assms h unfolding unat_sub_if_size by (auto simp: apart_def segment_ok_def word_size)
  then show ?thesis using assms(1) unfolding loaded_def Let_def e by (simp add: segment_ok_def)
qed

lemma fold_loaded_apart:
  assumes "\<forall>g \<in> set gs. segment_ok n g \<and> apart g h" "segment_ok n' h" "j < unat (p_memsz h)"
  shows "fold (loaded img) gs m (p_pa h + of_nat j + 0xF9000000) = m (p_pa h + of_nat j + 0xF9000000)"
  using assms(1) by (induction gs arbitrary: m) (use loaded_apart assms(2,3) in auto)

lemma fold_loaded:
  assumes "\<forall>g \<in> set gs. segment_ok n g" "sorted_wrt apart gs" "h \<in> set gs" "j < unat (p_memsz h)"
  shows "fold (loaded img) gs m (p_pa h + of_nat j + 0xF9000000) = (if j < unat (p_filesz h) then img ! j else 0)"
  using assms
proof (induction gs arbitrary: m)
  case (Cons g gs m)
  show ?case
  proof (cases "h \<in> set gs")
    case True
    then show ?thesis using Cons by simp
  next
    case False
    then have h: "h = g" using Cons.prems(3) by simp
    have "\<forall>x \<in> set gs. segment_ok n x \<and> apart x h"
      using Cons.prems(1,2) h by (auto simp: apart_def)
    from fold_loaded_apart [OF this, of n j] Cons.prems(1,4) loaded_at [of n h j] h show ?thesis by simp
  qed
qed simp

section \<open>The whole start\<close>

lemma header_bound:
  fixes off :: u32
  assumes "unat off + 32 * unat (n :: u16) \<le> 512"
  shows "off + ucast n * of_nat sizeof_Proghdr \<le> of_nat (SECTSIZE * SECTCOUNT)"
proof -
  have "off + ucast n * of_nat sizeof_Proghdr = off + of_nat (32 * unat n)" by (simp add: mult.commute)
  moreover have "unat (off + of_nat (32 * unat n)) = unat off + 32 * unat n"
    using assms unat_add_of_nat [of off "32 * unat n"] by simp
  ultimately show ?thesis using assms by (simp add: word_le_nat_alt mult.commute)
qed

text \<open>The directory and the table of process 0, as the loader sets them up.\<close>

lemma first_space:
  obtains pa m1 m2 where "pcb_page_init etp 0 m = Inr m1" "alloc_page utp USER_START (PTE_P OR PTE_W OR PTE_U) 0 m1 = Inr (pa, m2)"
    "own_space utp 0 m2" "pmem m2 = pmem m"
proof -
  have p: "(0 :: nat) < 64" "(0 :: nat) < 28" by simp_all
  let ?m1 = "set_pde 0 960 (etp + PTE_P + PTE_W) (set_pde 0 0 (etp + PTE_P) m)"
  obtain m2 where m2: "alloc_page utp USER_START 7 0 ?m1 = Inr (of_nat ((4 + 0) * 4194304), m2)"
    "own_table 0 7 m2" "pmem m2 = pmem ?m1"
    "user_pgdir m2 = (user_pgdir ?m1)(0 := (user_pgdir ?m1 0)(unat (PDX USER_START) := table_pa utp 0 OR 7))"
    using alloc_page_ok [OF p(2), of utp USER_START 7 ?m1] by blast
  have "unat (PDX USER_START) = 32" by (simp add: unat_fields)
  then have "own_space utp 0 m2" using m2 by (simp add: own_space_def)
  then show thesis using that [OF pcb_page_init_ok [OF p(1)]] m2 by simp
qed

definition entry_frame :: "u32 \<Rightarrow> trapframe" where
  "entry_frame eip = zero_frame\<lparr>tf_ds := GD_UD OR 3, tf_es := GD_UD OR 3, tf_ss := GD_UD OR 3, tf_esp := USER_START,
     tf_cs := GD_UT OR 3, tf_eip := eip, tf_eflags := 2 OR FL_IF\<rparr>"

lemma first_process:
  assumes "own_space utp 0 (mem k)" "sem_pool k = replicate 3 0" "\<not> interrupts k"
  shows "\<exists>k'. pcb_init_p0 0 USER_START eip (2 OR FL_IF) k = Inr k' \<and> kernel_ok utp (pcb_exec 0 k')
    \<and> get_pid (pcb_exec 0 k') = 0 \<and> tf (user_pcbs (pcb_exec 0 k') 0) = entry_frame eip
    \<and> mem (pcb_exec 0 k') = mem k"
  using assms
  by (simp add: pcb_init_p0_def Let_def pcb_exec_def kernel_ok_def table_ok_def pcb_ok_def get_pid_def upd_pcb_def
      own_space_def entry_frame_def)

lemma userprog_load_ok:
  assumes lay: "layout_ok etp utp" and k: "get_pid k = 0" and d: "disk_ok d"
    and found: "lookup user_name (mounted d) = Some m" "stored (mounted d) m ns bl"
    and img: "img = stored_bytes (mounted d) m bl" "512 \<le> length img"
    and e: "e = elf_of_bytes (take 512 img)" "e_magic e = ELF_MAGIC" "unat (e_phoff e) + 32 * unat (e_phnum e) \<le> 512"
    and hs: "hs = headers (take 512 img) (e_phoff e) [0..<unat (e_phnum e)]" "\<forall>h \<in> set hs. segment_ok (length img) h"
  shows "\<exists>m2 s'. userprog_load etp utp 0 (c_string ''user.bin'') k (mounted d)
      = Inr (e_entry e, k\<lparr>mem := m2\<lparr>pmem := fold (loaded img) hs (pmem (mem k))\<rparr>, cr3 := 0\<rparr>, s') \<and> own_space utp 0 m2"
proof -
  let ?s = "mounted d"
  note mo = mounted_ok [OF d]
  have buf: "length (buffer (fd_pool ?s 0)) = 512" using mo(4) by (simp add: closed_fd_def)
  obtain s1 where o: "open_existing m 0 O_RDONLY ?s = (int 0, s1)" "file_rep s1 0 ns bl"
      "file_bytes s1 0 bl = img" "pos s1 0 = 0" "opened (fd_pool s1 0)"
    using open_existing_ok [OF found(2) mo(1) buf, of O_RDONLY] img(1) by auto
  have name: "c_string ''user.bin'' = user_name @ [0]" by (simp add: user_name_def c_string_def)
  have op: "fs_open (Some (c_string ''user.bin'')) O_RDONLY ?s = Inr (0, s1)"
    using fs_open_cases [OF mo(3) user_name(1,2), of O_RDONLY] found(1) o(1) mo(2) by (simp add: name)
  have z: "(0 :: nat) < 1024" by simp
  have size: "size_of s1 0 = length img" using file_bytes_length [OF o(2)] o(3) by simp
  obtain s2 where r: "fs_read 0 (int 512) s1 = Inr (int 512, take 512 img, s2)" "file_rep s2 0 ns bl"
      "file_bytes s2 0 bl = img" "fs_step 0 (set ns \<union> set bl) s1 s2"
    using fs_read_ok [OF o(2) z o(5), of 512] img(2) o(3,4) size by (auto simp: min_def)
  have o2: "opened (fd_pool s2 0)" using fs_stepD(1) [OF r(4)] o(5) by simp
  obtain pa m1 m2 where sp: "pcb_page_init etp 0 (mem k) = Inr m1"
      "alloc_page utp USER_START (PTE_P OR PTE_W OR PTE_U) 0 m1 = Inr (pa, m2)" "own_space utp 0 m2" "pmem m2 = pmem (mem k)"
    using first_space by blast
  let ?k = "k\<lparr>mem := m2, cr3 := 0\<rparr>"
  have "\<forall>i \<in> set [0..<unat (e_phnum e)]. unat (e_phoff e) + 32 * i + 32 \<le> length (take 512 img)"
    using e(3) img(2) by auto
  from load_segments_ok [OF lay _ _ r(2) z o2 _ this, of ?k] hs r(3) sp(3,4) obtain s3 where
    l: "load_segments etp utp 0 (take 512 img) (e_phoff e) [0..<unat (e_phnum e)] ?k s2
        = Inr (?k\<lparr>mem := m2\<lparr>pmem := fold (loaded img) hs (pmem (mem k))\<rparr>\<rparr>, s3)"
      "file_rep s3 0 ns bl" "opened (fd_pool s3 0)" by auto
  obtain s4 where c: "fs_close 0 s3 = Inr (0, s4)" using fs_close_ok [OF l(2) z l(3)] by blast
  have "userprog_load etp utp 0 (c_string ''user.bin'') k ?s = Inr (e_entry e,
      k\<lparr>mem := m2\<lparr>pmem := fold (loaded img) hs (pmem (mem k))\<rparr>, cr3 := 0\<rparr>, s4)"
    using k sp(1,2) op r(1) e(2) l(1) c header_bound [OF e(3)]
    by (simp add: userprog_load_def e(1) [symmetric] Let_def)
  then show ?thesis using sp(3) by blast
qed

lemma kernel_init_ok:
  assumes "layout_ok etp utp" "get_pid (kern M) = 0" "sem_pool (kern M) = replicate 3 0" "\<not> interrupts (kern M)"
    and "files M = start_process d" "disk_ok d" "lookup user_name (mounted d) = Some m" "stored (mounted d) m ns bl"
    and "img = stored_bytes (mounted d) m bl" "512 \<le> length img" "e = elf_of_bytes (take 512 img)"
    and "e_magic e = ELF_MAGIC" "unat (e_phoff e) + 32 * unat (e_phnum e) \<le> 512"
    and "hs = headers (take 512 img) (e_phoff e) [0..<unat (e_phnum e)]"
    and "\<forall>h \<in> set hs. segment_ok (length img) h" "sorted_wrt apart hs"
  shows "\<exists>M'. kernel_init P handlers pts_addr etp utp M = Inr M' \<and> kernel_ok utp (kern M') \<and> get_pid (kern M') = 0
    \<and> tf (user_pcbs (kern M') 0) = entry_frame (e_entry e)
    \<and> (\<forall>h \<in> set hs. \<forall>j < unat (p_memsz h). \<exists>pa. user_access etp utp (mem (kern M')) 0 (p_pa h + of_nat j) = Some pa
        \<and> pmem (mem (kern M')) pa = (if j < unat (p_filesz h) then img ! j else 0))"
proof -
  let ?k = "kern M"
  obtain m2 s' where u: "userprog_load etp utp 0 (c_string ''user.bin'') ?k (mounted d)
      = Inr (e_entry e, ?k\<lparr>mem := m2\<lparr>pmem := fold (loaded img) hs (pmem (mem ?k))\<rparr>, cr3 := 0\<rparr>, s')" "own_space utp 0 m2"
    using userprog_load_ok [OF assms(1,2,6-15)] by blast
  let ?m = "m2\<lparr>pmem := fold (loaded img) hs (pmem (mem ?k))\<rparr>"
  have own: "own_space utp 0 ?m" using u(2) by (simp add: own_space_def own_table_def)
  obtain k' where k': "pcb_init_p0 0 USER_START (e_entry e) (2 OR FL_IF) (?k\<lparr>mem := ?m, cr3 := 0\<rparr>) = Inr k'"
      "kernel_ok utp (pcb_exec 0 k')" "get_pid (pcb_exec 0 k') = 0" "tf (user_pcbs (pcb_exec 0 k') 0) = entry_frame (e_entry e)"
      "mem (pcb_exec 0 k') = ?m"
    using first_process [of utp "?k\<lparr>mem := ?m, cr3 := 0\<rparr>" "e_entry e"] own assms(3,4) by auto
  have "\<exists>pa. user_access etp utp ?m 0 (p_pa h + of_nat j) = Some pa
      \<and> pmem ?m pa = (if j < unat (p_filesz h) then img ! j else 0)" if h: "h \<in> set hs" "j < unat (p_memsz h)" for h j
  proof -
    have "segment_ok (length img) h" using assms(15) h(1) by simp
    then have "134217728 \<le> unat (p_pa h)" "unat (p_pa h) + unat (p_memsz h) \<le> 138412032"
      by (simp_all add: segment_ok_def)
    from user_region(2) [OF assms(1) own this h(2)] fold_loaded [OF assms(15,16) h] show ?thesis by simp
  qed
  moreover have "\<exists>M'. kernel_init P handlers pts_addr etp utp M = Inr M' \<and> kern M' = pcb_exec 0 k'"
    using u(1) k'(1) assms(5) by (simp add: kernel_init_def Let_def mounted_def [symmetric])
  ultimately show ?thesis using k'(2-5) by metis
qed

section \<open>Properties\<close>

text \<open>
  C30. The start of the kernel: with a file \<^verbatim>\<open>user.bin\<close> on the disk whose first sector holds the program
  headers, and whose segments lie apart in the 4 MB of a process, \<^verbatim>\<open>kernel_init\<close> reaches user mode in
  process 0 at the entry point, with its stack below 0x8048000 and interrupts on, in a state that
  satisfies the invariant of the kernel. Every loadable segment holds the first \<^verbatim>\<open>p_filesz\<close> bytes of the
  \<^emph>\<open>file\<close>, whatever \<^verbatim>\<open>p_offset\<close> says, and zeros up to \<^verbatim>\<open>p_memsz\<close>.
\<close>

theorem boot_runs_user_program:
  assumes "layout_ok etp utp" "get_pid (kern M) = 0" "sem_pool (kern M) = replicate 3 0" "\<not> interrupts (kern M)"
    and "files M = start_process d" "disk_ok d" "lookup user_name (mounted d) = Some m" "stored (mounted d) m ns bl"
    and "img = stored_bytes (mounted d) m bl" "512 \<le> length img" "e = elf_of_bytes (take 512 img)"
    and "e_magic e = ELF_MAGIC" "unat (e_phoff e) + 32 * unat (e_phnum e) \<le> 512"
    and "hs = headers (take 512 img) (e_phoff e) [0..<unat (e_phnum e)]"
    and "\<forall>h \<in> set hs. segment_ok (length img) h" "sorted_wrt apart hs"
  shows "\<exists>M'. kernel_init P handlers pts_addr etp utp M = Inr M' \<and> kernel_ok utp (kern M') \<and> get_pid (kern M') = 0
    \<and> tf (user_pcbs (kern M') 0) = entry_frame (e_entry e)
    \<and> (\<forall>h \<in> set hs. \<forall>j < unat (p_memsz h). \<exists>pa. user_access etp utp (mem (kern M')) 0 (p_pa h + of_nat j) = Some pa
        \<and> pmem (mem (kern M')) pa = (if j < unat (p_filesz h) then img ! j else 0))"
  by (rule kernel_init_ok [OF assms])

text \<open>An image with the kernel and a program of one segment, run on the simulated devices.\<close>

definition sample_elf :: elf where
  "sample_elf = \<lparr>e_magic = ELF_MAGIC, e_elf = replicate 12 0, e_type = 2, e_machine = 3, e_version = 1, e_entry = 0x8048080,
     e_phoff = 52, e_shoff = 0, e_flags = 0, e_ehsize = 52, e_phentsize = 32, e_phnum = 1, e_shentsize = 0, e_shnum = 0,
     e_shstrndx = 0\<rparr>"

definition sample_proghdr :: proghdr where
  "sample_proghdr = \<lparr>p_type = ELF_PROG_LOAD, p_offset = 0, p_va = 0x8048000, p_pa = 0x8048000, p_filesz = 600, p_memsz = 4096,
     p_flags = 7, p_align = 4096\<rparr>"

definition sample_program :: "u8 list" where
  "sample_program = bytes_of_elf sample_elf @ bytes_of_proghdr sample_proghdr @ replicate 516 0x90"

lemma elf_prefix: "elf_wf e \<Longrightarrow> elf_of_bytes (bytes_of_elf e @ r) = e"
  by (simp add: elf_wf_def bytes_of_elf_def elf_of_bytes_def word_at_def half_at_def codec_simps
      u32_of_bytes_of_u32 u16_of_bytes_of_u16)

lemma sample_program:
  "length sample_program = 600" "elf_of_bytes (take 512 sample_program) = sample_elf"
  "headers (take 512 sample_program) 52 [0..<1] = [sample_proghdr]"
proof -
  have wf: "elf_wf sample_elf" by (simp add: elf_wf_def sample_elf_def)
  note len = elf.enc_length [OF wf] proghdr.enc_length [OF TrueI, of sample_proghdr]
  show "length sample_program = 600" by (simp add: sample_program_def len)
  have t: "take 512 sample_program = bytes_of_elf sample_elf @ bytes_of_proghdr sample_proghdr @ replicate 428 0x90"
    by (simp add: sample_program_def len)
  show "elf_of_bytes (take 512 sample_program) = sample_elf" unfolding t by (rule elf_prefix [OF wf])
  have "take 32 (drop 52 (take 512 sample_program)) = bytes_of_proghdr sample_proghdr" unfolding t by (simp add: len)
  then show "headers (take 512 sample_program) 52 [0..<1] = [sample_proghdr]"
    by (simp add: headers_def proghdr.dec_enc loadable_def sample_proghdr_def)
qed

definition boot_kernel :: kernel where
  "boot_kernel = (sample_kernel (\<lambda>_. idle_pcb))\<lparr>ts_top := Boot_stack, mem := sample_paging, sem_pool := replicate 3 0\<rparr>"

theorem boot_runs_user_program_witness:
  "\<exists>d1 d2 M'. write_myfs kernel_name [1] blank_disk = Inr d1 \<and> write_myfs user_name sample_program d1 = Inr d2
    \<and> kernel_init sim_board_ports (\<lambda>v. 0xF0100000) 0xF0123450 0x102000 0x200000
        \<lparr>kern = boot_kernel, files = start_process d2, tables = sample_traps, dev = sim_board_start\<rparr> = Inr M'
    \<and> kernel_ok 0x200000 (kern M') \<and> tf_eip (tf (user_pcbs (kern M') 0)) = 0x8048080"
proof -
  have n: "sectors_for (length [1 :: u8]) = 2" "sectors_for (length sample_program) = 3"
    by (simp_all add: sample_program(1) sectors_for_def blocks_for_def inodes_for_def)
  obtain d1 ns bl where d1: "write_myfs kernel_name [1] blank_disk = Inr d1" "disk_ok d1"
    "lookup user_name (mounted d1) = None" "free_slot (mounted d1) = Some 1"
    "free_blocks (bitmap (mounted d1)) + sectors_for (length [1 :: u8]) = 4096"
    by (rule kernel_on_formatted [OF blank_formatted, of "[1]"]) (use n(1) in auto)
  then have "sectors_for (length sample_program) \<le> free_blocks (bitmap (mounted d1))" unfolding n by simp
  from write_myfs_new [OF d1(2) user_name(1,2) d1(3,4) _ this] user_name(3) obtain d2 ms cl where
    d2: "write_myfs user_name sample_program d1 = Inr d2" "disk_ok d2" "lookup user_name (mounted d2) = Some 1"
      "stored (mounted d2) 1 ms cl" "stored_bytes (mounted d2) 1 cl = sample_program" by auto
  have k: "get_pid boot_kernel = 0" "sem_pool boot_kernel = replicate 3 0" "\<not> interrupts boot_kernel"
    by (simp_all add: boot_kernel_def sample_kernel_def get_pid_def)
  have e: "e_magic sample_elf = ELF_MAGIC" "unat (e_phoff sample_elf) + 32 * unat (e_phnum sample_elf) \<le> 512"
      "[sample_proghdr] = headers (take 512 sample_program) (e_phoff sample_elf) [0..<unat (e_phnum sample_elf)]"
      "e_entry sample_elf = 0x8048080"
    using sample_program(3) by (simp_all add: sample_elf_def)
  have s: "\<forall>h \<in> set [sample_proghdr]. segment_ok (length sample_program) h" "sorted_wrt apart [sample_proghdr]"
    by (simp_all add: segment_ok_def sample_proghdr_def sample_program(1))
  let ?M = "\<lparr>kern = boot_kernel, files = start_process d2, tables = sample_traps, dev = sim_board_start\<rparr>"
  have "\<exists>M'. kernel_init sim_board_ports (\<lambda>v. 0xF0100000) 0xF0123450 0x102000 0x200000 ?M = Inr M'
      \<and> kernel_ok 0x200000 (kern M') \<and> tf (user_pcbs (kern M') 0) = entry_frame (e_entry sample_elf)"
    using boot_runs_user_program [OF sample_layout _ _ _ _ d2(2-4) d2(5) [symmetric] _ sample_program(2) [symmetric] e(1,2,3) s,
      of ?M sim_board_ports "\<lambda>v. 0xF0100000" "0xF0123450"] k by (simp add: sample_program(1)) blast
  then show ?thesis using d1(1) d2(1) e(4) by (auto simp: entry_frame_def zero_frame_def)
qed

end
