(* ===== verification/Boot.thy ===== *)
theory Boot
  imports Loader
begin

text \<open>
  The boot loader, \<^verbatim>\<open>boot/main.c\<close>: it reads the kernel from the first file of the disk, inode by inode,
  through \<^verbatim>\<open>readsect\<close>, without the file system. \<open>None\<close> is a drive that never gets ready. The memory is
  flat: paging is still off.
\<close>

section \<open>boot/main.c\<close>

fun boot_memset :: "u32 \<Rightarrow> u8 \<Rightarrow> nat \<Rightarrow> memory \<Rightarrow> memory" where
  "boot_memset dest c 0 m = m"
| "boot_memset dest c (Suc s) m = boot_memset (dest + 1) c s (m(dest := c))"

record 'd boot =
  the_inode :: Fs.inode
  index_inode :: nat
  bmem :: memory
  bdev :: 'd

function seek_inode :: "'d ports \<Rightarrow> nat \<Rightarrow> 'd boot \<Rightarrow> 'd boot option" where
  "seek_inode P target b =
     (if index_inode b < target then
        (case readsect P (FSOFFSET_DATA + next_inode (the_inode b)) (bdev b) of
           None \<Rightarrow> None
         | Some (s, d1) \<Rightarrow>
             seek_inode P target (b\<lparr>the_inode := inode_of_bytes s, index_inode := index_inode b + 1, bdev := d1\<rparr>))
      else Some b)"
  by pat_completeness auto
termination
  by (relation "measure (\<lambda>(P, target, b). target - index_inode b)") auto

declare seek_inode.simps [simp del]

text \<open>The loop over the sectors of a segment; \<^verbatim>\<open>count\<close> is a signed \<^verbatim>\<open>int\<close>.\<close>

function copy_blocks :: "'d ports \<Rightarrow> u32 \<Rightarrow> u32 \<Rightarrow> nat \<Rightarrow> nat \<Rightarrow> 'd boot \<Rightarrow> 'd boot result option" where
  "copy_blocks P pa filesz i count b =
     (if count < unat filesz then
        if count + SECTSIZE \<ge> 2 ^ 31 then Some (Inl (Diverges ''count''))
        else (case readsect P (FSOFFSET_DATA + dataBlocks (the_inode b) ! i) (bdev b) of
           None \<Rightarrow> None
         | Some (s, d1) \<Rightarrow>
             let b1 = b\<lparr>bmem := store_at (pa + of_nat count) s (bmem b), bdev := d1\<rparr>
             in if i + 1 = N_INODE_DATABLOCK then
                  (case readsect P (FSOFFSET_DATA + next_inode (the_inode b1)) (bdev b1) of
                     None \<Rightarrow> None
                   | Some (s2, d2) \<Rightarrow> copy_blocks P pa filesz 0 (count + SECTSIZE)
                       (b1\<lparr>the_inode := inode_of_bytes s2, index_inode := index_inode b1 + 1, bdev := d2\<rparr>))
                else copy_blocks P pa filesz (i + 1) (count + SECTSIZE) b1)
      else Some (Inr b))"
  by pat_completeness auto
termination
  by (relation "measure (\<lambda>(P, pa, filesz, i, count, b). unat filesz - count)") auto

declare copy_blocks.simps [simp del]

definition boot_segment :: "'d ports \<Rightarrow> proghdr \<Rightarrow> 'd boot \<Rightarrow> 'd boot result option" where
  "boot_segment P ph b =
     (if p_memsz ph = 0 then Some (Inr b)
      else (case seek_inode P (unat (p_offset ph) div SECTSIZE div N_INODE_DATABLOCK) b of
         None \<Rightarrow> None
       | Some b1 \<Rightarrow>
           (case copy_blocks P (p_pa ph) (p_filesz ph) (unat (p_offset ph) div SECTSIZE mod N_INODE_DATABLOCK) 0 b1 of
              None \<Rightarrow> None
            | Some (Inl e) \<Rightarrow> Some (Inl e)
            | Some (Inr b2) \<Rightarrow> Some (Inr (b2\<lparr>bmem := boot_memset (p_pa ph + p_filesz ph) 0
                (unat (p_memsz ph - p_filesz ph)) (bmem b2)\<rparr>)))))"

fun boot_segments :: "'d ports \<Rightarrow> u8 list \<Rightarrow> u32 \<Rightarrow> nat list \<Rightarrow> 'd boot \<Rightarrow> 'd boot result option" where
  "boot_segments P header off [] b = Some (Inr b)"
| "boot_segments P header off (i # is) b =
     (case proghdr_at header off i of
        Inl e \<Rightarrow> Some (Inl e)
      | Inr ph \<Rightarrow>
          (case boot_segment P ph b of
             None \<Rightarrow> None
           | Some (Inl e) \<Rightarrow> Some (Inl e)
           | Some (Inr b1) \<Rightarrow> boot_segments P header off is b1))"

text \<open>The result is the state at the jump, and where the jump goes.\<close>

definition bootmain :: "'d ports \<Rightarrow> memory \<Rightarrow> 'd \<Rightarrow> (u32 \<times> 'd boot) result option" where
  "bootmain P m d =
     (case readsect P FSOFFSET_DATA d of
        None \<Rightarrow> None
      | Some (s, d1) \<Rightarrow>
          (case readsect P (FSOFFSET_DATA + 1) d1 of
             None \<Rightarrow> None
           | Some (header, d2) \<Rightarrow>
               let e = elf_of_bytes header
               in map_option (\<lambda>r. andThen r (\<lambda>b. Inr (e_entry e, b)))
                    (boot_segments P header (e_phoff e) [0..<unat (e_phnum e)]
                      \<lparr>the_inode = inode_of_bytes s, index_inode = 0, bmem = m, bdev = d2\<rparr>)))"

section \<open>Memory\<close>

lemma boot_memset_eq: "boot_memset a c n m = store_at a (replicate n c) m"
  by (induction n arbitrary: a m) simp_all

section \<open>Following the chain of inodes\<close>

definition kernel_file :: "disk \<Rightarrow> u32 list \<Rightarrow> u32 list \<Rightarrow> bool" where
  "kernel_file D ns bl \<longleftrightarrow> disk_ok D \<and> length bl \<le> 127 * length ns \<and> (\<forall>n \<in> set ns \<union> set bl. unat n < 4096)
     \<and> (\<forall>k < length ns. inode_at ns bl k (inode_of_bytes (disk_read (FSOFFSET_DATA + ns ! k) D)))"

definition follows :: "('d \<Rightarrow> ata) \<Rightarrow> disk \<Rightarrow> u32 list \<Rightarrow> 'd boot \<Rightarrow> bool" where
  "follows view D ns b \<longleftrightarrow> sectors (view (bdev b)) = D
     \<and> (index_inode b < length ns \<longrightarrow> the_inode b = inode_of_bytes (disk_read (FSOFFSET_DATA + ns ! index_inode b) D))"

lemma stored_kernel_file:
  assumes "disk_ok D" "stored (mounted D) 0 ns bl"
  shows "kernel_file D ns bl" "stored_bytes (mounted D) 0 bl = take (unat (fileSize (dir (mounted D) ! 0)))
    (concat (map (\<lambda>n. disk_read (FSOFFSET_DATA + n) D) bl))"
proof -
  have I: "IDE_READ n (mounted D) = disk_read (FSOFFSET_DATA + n) D" for n
    using mounted_ok(5) [OF assms(1)] by (simp add: IDE_READ_def add.commute)
  have c: "chain_ok (bitmap (mounted D)) (\<lambda>n. inode_of_bytes (disk_read (FSOFFSET_DATA + n) D)) (dir (mounted D) ! 0) ns bl"
    using assms(2) unfolding stored_def I by simp
  show "kernel_file D ns bl"
    unfolding kernel_file_def using chain_okD(1,9) [OF c] assms(1)
    by (auto dest: chain_okD(10,11) [OF c] used_bound)
  show "stored_bytes (mounted D) 0 bl = take (unat (fileSize (dir (mounted D) ! 0)))
    (concat (map (\<lambda>n. disk_read (FSOFFSET_DATA + n) D) bl))" by (simp only: stored_bytes_def I)
qed

lemma read_data:
  assumes "ata_drive P view" "sectors (view d) = D" "unat n < 4096"
  obtains d' where "readsect P (FSOFFSET_DATA + n) d = Some (disk_read (FSOFFSET_DATA + n) D, d')" "sectors (view d') = D"
proof -
  have "unat (n + of_nat 3) = unat n + 3" using assms(3) by (intro unat_add_of_nat) simp
  then have "unat (FSOFFSET_DATA + n) < 2 ^ 28" using assms(3) by (simp add: add.commute)
  from readsect_disk [OF assms(1) this, of d] show thesis using that assms(2) by blast
qed

text \<open>The link of an inode of the file, also of the last one, is a data sector of the disk.\<close>

lemma next_small:
  assumes "kernel_file D ns bl" "follows view D ns b" "index_inode b < length ns"
  shows "unat (next_inode (the_inode b)) < 4096"
    "Suc (index_inode b) < length ns \<Longrightarrow> next_inode (the_inode b) = ns ! Suc (index_inode b)"
proof -
  have "inode_at ns bl (index_inode b) (the_inode b)" using assms by (simp add: kernel_file_def follows_def)
  then have n: "next_inode (the_inode b) = (if Suc (index_inode b) < length ns then ns ! Suc (index_inode b) else 0)"
    by (simp add: inode_at_def)
  then show "Suc (index_inode b) < length ns \<Longrightarrow> next_inode (the_inode b) = ns ! Suc (index_inode b)" by simp
  show "unat (next_inode (the_inode b)) < 4096"
    using assms(1) unfolding n kernel_file_def by (auto dest: nth_mem)
qed

lemma next_step:
  assumes "ata_drive P view" "kernel_file D ns bl" "follows view D ns b" "index_inode b < length ns"
  obtains s d1 where "readsect P (FSOFFSET_DATA + next_inode (the_inode b)) (bdev b) = Some (s, d1)"
    "follows view D ns (b\<lparr>the_inode := inode_of_bytes s, index_inode := index_inode b + 1, bdev := d1\<rparr>)"
proof -
  note n = next_small [OF assms(2-4)]
  have "sectors (view (bdev b)) = D" using assms(3) by (simp add: follows_def)
  then obtain d1 where r: "readsect P (FSOFFSET_DATA + next_inode (the_inode b)) (bdev b)
      = Some (disk_read (FSOFFSET_DATA + next_inode (the_inode b)) D, d1)" "sectors (view d1) = D"
    using read_data [OF assms(1) _ n(1)] by blast
  show thesis by (rule that [OF r(1)]) (use r(2) n(2) in \<open>simp add: follows_def\<close>)
qed

lemma seek_inode_ok:
  assumes "ata_drive P view" "kernel_file D ns bl"
  shows "\<lbrakk>follows view D ns b; index_inode b \<le> t; t \<le> length ns\<rbrakk> \<Longrightarrow>
    \<exists>b'. seek_inode P t b = Some b' \<and> follows view D ns b' \<and> index_inode b' = t \<and> bmem b' = bmem b"
proof (induction "t - index_inode b" arbitrary: b)
  case 0
  then show ?case by (subst seek_inode.simps) simp
next
  case (Suc n b)
  then have i: "index_inode b < t" by simp
  obtain s d1 where r: "readsect P (FSOFFSET_DATA + next_inode (the_inode b)) (bdev b) = Some (s, d1)"
      "follows view D ns (b\<lparr>the_inode := inode_of_bytes s, index_inode := index_inode b + 1, bdev := d1\<rparr>)"
    using next_step [OF assms Suc.prems(1)] i Suc.prems(3) by (metis less_le_trans)
  let ?b = "b\<lparr>the_inode := inode_of_bytes s, index_inode := index_inode b + 1, bdev := d1\<rparr>"
  have "n = t - index_inode ?b" "index_inode ?b \<le> t" using Suc.hyps(2) i by simp_all
  from Suc.hyps(1) [OF this(1) r(2) this(2) Suc.prems(3)] show ?case using i r(1)
    by (subst seek_inode.simps) simp
qed

section \<open>Copying sectors\<close>

definition kernel_bytes :: "disk \<Rightarrow> u32 list \<Rightarrow> u8 list" where
  "kernel_bytes D bl = concat (map (\<lambda>n. disk_read (FSOFFSET_DATA + n) D) bl)"

lemma kernel_bytes_block:
  assumes "disk_ok D" "q < length bl"
  shows "length (disk_read (FSOFFSET_DATA + bl ! q) D) = 512"
    "j < 512 \<Longrightarrow> disk_read (FSOFFSET_DATA + bl ! q) D ! j = kernel_bytes D bl ! (512 * q + j)"
proof -
  show l: "length (disk_read (FSOFFSET_DATA + bl ! q) D) = 512" using assms(1) by (simp add: disk_ok_def disk_read_def)
  assume "j < 512"
  moreover have "take 512 (drop (512 * q) (kernel_bytes D bl)) = disk_read (FSOFFSET_DATA + bl ! q) D"
    using slice_concat_const [of "map (\<lambda>n. disk_read (FSOFFSET_DATA + n) D) bl" 512 q 0 512] assms
    by (auto simp: kernel_bytes_def disk_ok_def disk_read_def)
  moreover have "length (kernel_bytes D bl) = 512 * length bl"
    using length_concat_const [of "map (\<lambda>n. disk_read (FSOFFSET_DATA + n) D) bl" 512] assms(1)
    by (auto simp: kernel_bytes_def disk_ok_def disk_read_def)
  ultimately show "disk_read (FSOFFSET_DATA + bl ! q) D ! j = kernel_bytes D bl ! (512 * q + j)"
    using assms(2) by (metis (no_types, lifting) nth_drop nth_take le_add1 less_or_eq_imp_le mult_le_mono2)
qed

lemma store_block:
  fixes a :: u32
  assumes "length s = 512" "n * 512 + 512 < 2 ^ 32"
  shows "(let j = unat (p - (a + 512)) in if j < 512 * n then x ! (512 * Suc q + j) else store_at a s m p)
    = (let j = unat (p - a) in if j < 512 then s ! j else if j < 512 * Suc n then x ! (512 * q + j) else m p)"
proof -
  have e: "p - (a + 512) = p - a - 512" by simp
  have st: "store_at a s m p = (if unat (p - a) < 512 then s ! unat (p - a) else m p)"
    using store_at_eq [of s a m p] assms(1) by simp
  show ?thesis
  proof (cases "512 \<le> unat (p - a)")
    case True
    then have "unat (p - (a + 512)) = unat (p - a) - 512" unfolding e by (simp add: unat_sub word_le_nat_alt)
    then show ?thesis using True st by (auto simp: Let_def)
  next
    case False
    then have "unat (p - (a + 512)) = 4294967296 + unat (p - a) - 512"
      unfolding e unat_sub_if_size by (simp add: word_le_nat_alt word_size)
    then show ?thesis using False st assms(2) by (auto simp: Let_def)
  qed
qed

text \<open>\<open>q\<close> is the number of the sector in the file, \<open>n\<close> the number of sectors still to come.\<close>

lemma copy_blocks_ok:
  assumes "ata_drive P view" "kernel_file D ns bl"
  shows "\<lbrakk>follows view D ns b; index_inode b = q div 127; i = q mod 127; q + n \<le> length bl;
      unat filesz \<le> count + 512 * n; n > 0 \<longrightarrow> count + 512 * (n - 1) < unat filesz; unat filesz < 2 ^ 30\<rbrakk> \<Longrightarrow>
    \<exists>b'. copy_blocks P pa filesz i count b = Some (Inr b') \<and> follows view D ns b' \<and> index_inode b' = (q + n) div 127
      \<and> bmem b' = (\<lambda>p. let j = unat (p - (pa + of_nat count)) in if j < 512 * n then kernel_bytes D bl ! (512 * q + j) else bmem b p)"
proof (induction n arbitrary: b q i count)
  case 0
  then show ?case by (subst copy_blocks.simps) (simp add: Let_def)
next
  case (Suc n b q i count)
  have ok: "disk_ok D" and len: "length bl \<le> 127 * length ns" using assms(2) by (simp_all add: kernel_file_def)
  have q: "q < length bl" using Suc.prems(4) by simp
  then have k: "index_inode b < length ns" using len Suc.prems(2) by (simp add: less_mult_imp_div_less mult.commute)
  then have "inode_at ns bl (index_inode b) (the_inode b)"
    using assms(2) Suc.prems(1) by (simp add: kernel_file_def follows_def)
  then have blk: "dataBlocks (the_inode b) ! i = bl ! q"
    using Suc.prems(2,3) q by (simp add: inode_at_def)
  have sec: "sectors (view (bdev b)) = D" using Suc.prems(1) by (simp add: follows_def)
  have "unat (bl ! q) < 4096" using assms(2) q by (simp add: kernel_file_def)
  then obtain d1 where r: "readsect P (FSOFFSET_DATA + bl ! q) (bdev b) = Some (disk_read (FSOFFSET_DATA + bl ! q) D, d1)"
      "sectors (view d1) = D" using read_data [OF assms(1) sec] by blast
  let ?s = "disk_read (FSOFFSET_DATA + bl ! q) D"
  let ?b1 = "b\<lparr>bmem := store_at (pa + of_nat count) ?s (bmem b), bdev := d1\<rparr>"
  have f1: "follows view D ns ?b1" "index_inode ?b1 = index_inode b"
    using Suc.prems(1) r(2) by (simp_all add: follows_def)
  have cnt: "count < unat filesz" "count + 512 < 2 ^ 31" using Suc.prems(6,7) by simp_all
  obtain b2 where b2: "copy_blocks P pa filesz i count b = copy_blocks P pa filesz (Suc q mod 127) (count + 512) b2"
      "follows view D ns b2" "index_inode b2 = Suc q div 127" "bmem b2 = bmem ?b1"
  proof (cases "i + 1 = 127")
    case False
    then have "Suc q mod 127 = i + 1" "Suc q div 127 = index_inode b" using Suc.prems(2,3) by (simp_all add: mod_Suc div_Suc)
    then have "copy_blocks P pa filesz i count b = copy_blocks P pa filesz (Suc q mod 127) (count + 512) ?b1"
      by (subst copy_blocks.simps) (use r(1) cnt False blk in \<open>simp add: Let_def\<close>)
    then show thesis by (rule that) (use f1 \<open>Suc q div 127 = index_inode b\<close> in simp_all)
  next
    case True
    then have i: "Suc q mod 127 = 0" "Suc q div 127 = index_inode b + 1" using Suc.prems(2,3) by (simp_all add: mod_Suc div_Suc)
    obtain s2 d2 where n: "readsect P (FSOFFSET_DATA + next_inode (the_inode ?b1)) (bdev ?b1) = Some (s2, d2)"
        "follows view D ns (?b1\<lparr>the_inode := inode_of_bytes s2, index_inode := index_inode ?b1 + 1, bdev := d2\<rparr>)"
      using next_step [OF assms f1(1)] f1(2) k by metis
    let ?b2 = "?b1\<lparr>the_inode := inode_of_bytes s2, index_inode := index_inode ?b1 + 1, bdev := d2\<rparr>"
    have "copy_blocks P pa filesz i count b = copy_blocks P pa filesz (Suc q mod 127) (count + 512) ?b2"
      by (subst copy_blocks.simps) (use r(1) cnt True blk i n(1) in \<open>simp add: Let_def\<close>)
    then show thesis by (rule that [OF _ n(2)]) (use i in simp_all)
  qed
  have "Suc q + n \<le> length bl" "unat filesz \<le> count + 512 + 512 * n" "n > 0 \<longrightarrow> count + 512 + 512 * (n - 1) < unat filesz"
    using Suc.prems(4-6) by (cases n; simp)+
  from Suc.IH [OF b2(2,3) refl this Suc.prems(7)] obtain b' where
    b': "copy_blocks P pa filesz (Suc q mod 127) (count + 512) b2 = Some (Inr b')" "follows view D ns b'"
      "index_inode b' = (Suc q + n) div 127"
      "bmem b' = (\<lambda>p. let j = unat (p - (pa + of_nat (count + 512)))
        in if j < 512 * n then kernel_bytes D bl ! (512 * Suc q + j) else bmem b2 p)" by blast
  have l: "length ?s = 512" by (rule kernel_bytes_block(1) [OF ok q])
  have "512 * n < unat filesz" using Suc.prems(6) by simp
  then have small: "n * 512 + 512 < 2 ^ 32" using Suc.prems(7) by simp
  have a: "pa + of_nat (count + 512) = pa + of_nat count + 512" by simp
  have "bmem b' p = (let j = unat (p - (pa + of_nat count))
      in if j < 512 * Suc n then kernel_bytes D bl ! (512 * q + j) else bmem b p)" for p
    unfolding b'(4) b2(4) a
    using store_block [OF l small, of p "pa + of_nat count" "kernel_bytes D bl" q "bmem b"] kernel_bytes_block(2) [OF ok q]
    by (auto simp: Let_def)
  then show ?case using b2(1) b'(1-3) by auto
qed

section \<open>Segments\<close>

definition sectors_of :: "proghdr \<Rightarrow> nat" where
  "sectors_of h = (unat (p_filesz h) + 511) div 512"

text \<open>What the loop can load: whole sectors, from the bytes there are, without running around the address space.\<close>

definition bootable :: "nat \<Rightarrow> proghdr \<Rightarrow> bool" where
  "bootable n h \<longleftrightarrow> unat (p_offset h) mod 512 = 0 \<and> unat (p_offset h) + unat (p_filesz h) \<le> n
     \<and> unat (p_filesz h) \<le> unat (p_memsz h) \<and> unat (p_filesz h) < 2 ^ 30
     \<and> unat (p_pa h) + max (unat (p_memsz h)) (512 * sectors_of h) < 2 ^ 32"

definition booted :: "u8 list \<Rightarrow> proghdr \<Rightarrow> memory \<Rightarrow> memory" where
  "booted kb h m = (\<lambda>p. let j = unat (p - p_pa h)
     in if j < unat (p_filesz h) then kb ! (unat (p_offset h) + j)
        else if j < unat (p_memsz h) then 0
        else if j < 512 * sectors_of h then kb ! (unat (p_offset h) + j) else m p)"

lemma boot_segment_ok:
  assumes drive: "ata_drive P view" and kf: "kernel_file D ns bl" and h: "bootable (512 * length bl) h" "p_memsz h \<noteq> 0"
    and b: "follows view D ns b" "index_inode b \<le> unat (p_offset h) div 512 div 127"
  shows "\<exists>b'. boot_segment P h b = Some (Inr b') \<and> follows view D ns b'
    \<and> index_inode b' = (unat (p_offset h) div 512 + sectors_of h) div 127
    \<and> bmem b' = booted (kernel_bytes D bl) h (bmem b)"
proof -
  let ?q = "unat (p_offset h) div 512" and ?n = "sectors_of h" and ?kb = "kernel_bytes D bl"
  have hd: "512 * ?q = unat (p_offset h)" "512 * ?q + unat (p_filesz h) \<le> 512 * length bl"
      "unat (p_filesz h) \<le> unat (p_memsz h)" "unat (p_filesz h) < 2 ^ 30"
    using h(1) by (auto simp: bootable_def)
  have n: "?q + ?n \<le> length bl" "unat (p_filesz h) \<le> 0 + 512 * ?n" "?n > 0 \<longrightarrow> 0 + 512 * (?n - 1) < unat (p_filesz h)"
    using hd(2) unfolding sectors_of_def by linarith+
  have len: "length bl \<le> 127 * length ns" using kf by (simp add: kernel_file_def)
  then have t: "?q div 127 \<le> length ns" using n(1) by linarith
  obtain b1 where b1: "seek_inode P (?q div 127) b = Some b1" "follows view D ns b1" "index_inode b1 = ?q div 127" "bmem b1 = bmem b"
    using seek_inode_ok [OF drive kf b t] by blast
  obtain b2 where b2: "copy_blocks P (p_pa h) (p_filesz h) (?q mod 127) 0 b1 = Some (Inr b2)" "follows view D ns b2"
      "index_inode b2 = (?q + ?n) div 127" "bmem b2 = (\<lambda>p. let j = unat (p - (p_pa h + of_nat 0))
        in if j < 512 * ?n then ?kb ! (512 * ?q + j) else bmem b1 p)"
    using copy_blocks_ok [OF drive kf b1(2,3) refl n hd(4)] by blast
  let ?m = "boot_memset (p_pa h + p_filesz h) 0 (unat (p_memsz h - p_filesz h)) (bmem b2)"
  have "unat (p_memsz h - p_filesz h) < 2 ^ 32" using unsigned_less [of "p_memsz h - p_filesz h"] by simp
  then have "?m p = (if unat (p - (p_pa h + p_filesz h)) < unat (p_memsz h - p_filesz h) then 0 else bmem b2 p)" for p
    using store_at_eq [of "replicate (unat (p_memsz h - p_filesz h)) 0" "p_pa h + p_filesz h" "bmem b2" p]
    by (simp add: boot_memset_eq Let_def)
  then have "?m = booted ?kb h (bmem b)"
    using n(2) by (auto simp: booted_def zero_range [OF hd(3)] b2(4) b1(4) hd(1) Let_def fun_eq_iff)
  moreover have "boot_segment P h b = Some (Inr (b2\<lparr>bmem := ?m\<rparr>))"
    using h(2) b1(1) b2(1) by (simp add: boot_segment_def)
  ultimately show ?thesis using b2(2,3) by (auto simp: follows_def)
qed

definition boot_headers :: "u8 list \<Rightarrow> u32 \<Rightarrow> nat list \<Rightarrow> proghdr list" where
  "boot_headers header off is = filter (\<lambda>h. p_memsz h \<noteq> 0)
     (map (\<lambda>i. proghdr_of_bytes (take 32 (drop (unat off + 32 * i) header))) is)"

text \<open>The sectors of one segment end before those of the next begin.\<close>

definition in_order :: "proghdr \<Rightarrow> proghdr \<Rightarrow> bool" where
  "in_order g h \<longleftrightarrow> unat (p_offset g) div 512 + sectors_of g \<le> unat (p_offset h) div 512"

lemma boot_segments_ok:
  assumes drive: "ata_drive P view" and kf: "kernel_file D ns bl"
  shows "\<lbrakk>follows view D ns b; \<forall>h \<in> set (boot_headers header off is). bootable (512 * length bl) h
        \<and> index_inode b \<le> unat (p_offset h) div 512 div 127;
      sorted_wrt in_order (boot_headers header off is); \<forall>i \<in> set is. unat off + 32 * i + 32 \<le> length header\<rbrakk> \<Longrightarrow>
    \<exists>b'. boot_segments P header off is b = Some (Inr b')
      \<and> bmem b' = fold (booted (kernel_bytes D bl)) (boot_headers header off is) (bmem b)"
proof (induction "is" arbitrary: b)
  case (Cons i "is" b)
  let ?h = "proghdr_of_bytes (take 32 (drop (unat off + 32 * i) header))"
  have at: "proghdr_at header off i = Inr ?h" using Cons.prems(4) by (simp add: proghdr_at_def)
  show ?case
  proof (cases "p_memsz ?h = 0")
    case True
    then have "boot_headers header off (i # is) = boot_headers header off is" by (simp add: boot_headers_def)
    moreover have "boot_segment P ?h b = Some (Inr b)" using True by (simp add: boot_segment_def)
    ultimately show ?thesis using Cons.IH [OF Cons.prems(1)] Cons.prems(2-4) at by simp
  next
    case False
    then have hs: "boot_headers header off (i # is) = ?h # boot_headers header off is" by (simp add: boot_headers_def)
    then have h: "bootable (512 * length bl) ?h" "index_inode b \<le> unat (p_offset ?h) div 512 div 127"
      using Cons.prems(2) by simp_all
    obtain b1 where b1: "boot_segment P ?h b = Some (Inr b1)" "follows view D ns b1"
        "index_inode b1 = (unat (p_offset ?h) div 512 + sectors_of ?h) div 127"
        "bmem b1 = booted (kernel_bytes D bl) ?h (bmem b)"
      using boot_segment_ok [OF drive kf h(1) False Cons.prems(1) h(2)] by blast
    have "\<forall>g \<in> set (boot_headers header off is). bootable (512 * length bl) g \<and> index_inode b1 \<le> unat (p_offset g) div 512 div 127"
      using Cons.prems(2,3) unfolding hs b1(3) by (auto simp: in_order_def div_le_mono)
    from Cons.IH [OF b1(2) this] Cons.prems(3,4) hs b1(1,4) at show ?thesis by simp
  qed
qed (simp add: boot_headers_def)

text \<open>Segments whose sectors do not overlap in memory keep what was loaded into them.\<close>

definition extent :: "proghdr \<Rightarrow> nat" where
  "extent h = max (unat (p_memsz h)) (512 * sectors_of h)"

definition boot_apart :: "proghdr \<Rightarrow> proghdr \<Rightarrow> bool" where
  "boot_apart g h \<longleftrightarrow> unat (p_pa g) + extent g \<le> unat (p_pa h) \<or> unat (p_pa h) + extent h \<le> unat (p_pa g)"

lemma bootable_memory: "bootable n h \<Longrightarrow> unat (p_pa h) + unat (p_memsz h) < 4294967296"
  by (auto simp: bootable_def max_def split: if_splits)

lemma booted_at:
  assumes "bootable n h" "j < unat (p_memsz h)"
  shows "booted kb h m (p_pa h + of_nat j) = (if j < unat (p_filesz h) then kb ! (unat (p_offset h) + j) else 0)"
proof -
  have "j < 2 ^ 32" using bootable_memory [OF assms(1)] assms(2) by simp
  moreover have "p_pa h + of_nat j - p_pa h = of_nat j" by simp
  ultimately have "unat (p_pa h + of_nat j - p_pa h) = j" by (simp only: unat_of_nat_u32)
  then show ?thesis using assms(2) by (simp only: booted_def Let_def if_True)
qed

lemma booted_apart:
  assumes "bootable n g" "bootable n h" "boot_apart g h" "j < unat (p_memsz h)"
  shows "booted kb g m (p_pa h + of_nat j) = m (p_pa h + of_nat j)"
proof -
  have h: "unat (p_pa h + of_nat j) = unat (p_pa h) + j"
    using bootable_memory [OF assms(2)] assms(4) unat_add_of_nat [of "p_pa h" j] by simp
  have "extent g \<le> unat (p_pa h + of_nat j - p_pa g)"
    using assms h unfolding unat_sub_if_size by (auto simp: boot_apart_def bootable_def extent_def word_size)
  then show ?thesis using assms(1) unfolding booted_def Let_def by (simp add: bootable_def extent_def)
qed

lemma fold_booted_apart:
  assumes "\<forall>g \<in> set gs. bootable n g \<and> boot_apart g h" "bootable n h" "j < unat (p_memsz h)"
  shows "fold (booted kb) gs m (p_pa h + of_nat j) = m (p_pa h + of_nat j)"
  using assms(1) by (induction gs arbitrary: m) (use booted_apart assms(2,3) in auto)

lemma fold_booted:
  assumes "\<forall>g \<in> set gs. bootable n g" "sorted_wrt boot_apart gs" "h \<in> set gs" "j < unat (p_memsz h)"
  shows "fold (booted kb) gs m (p_pa h + of_nat j) = (if j < unat (p_filesz h) then kb ! (unat (p_offset h) + j) else 0)"
  using assms
proof (induction gs arbitrary: m)
  case (Cons g gs m)
  show ?case
  proof (cases "h \<in> set gs")
    case True
    then show ?thesis using Cons by simp
  next
    case False
    then have h: "h = g" using Cons.prems(3) by simp
    have "\<forall>x \<in> set gs. bootable n x \<and> boot_apart x h"
      using Cons.prems(1,2) h by (auto simp: boot_apart_def)
    from fold_booted_apart [OF this, of j] Cons.prems(1,4) booted_at [of n h j] h show ?thesis by simp
  qed
qed simp

lemma bootmain_ok:
  assumes "ata_drive P view" "sectors (view d) = D" "disk_ok D" "stored (mounted D) 0 ns bl" "hd ns = 0" "bl ! 0 = 1"
    and "img = stored_bytes (mounted D) 0 bl" "512 \<le> length img" "e = elf_of_bytes (take 512 img)"
    and "unat (e_phoff e) + 32 * unat (e_phnum e) \<le> 512"
    and "hs = boot_headers (take 512 img) (e_phoff e) [0..<unat (e_phnum e)]"
    and "\<forall>h \<in> set hs. bootable (length img) h" "sorted_wrt in_order hs" "sorted_wrt boot_apart hs"
  shows "\<exists>b. bootmain P m d = Some (Inr (e_entry e, b)) \<and> (\<forall>h \<in> set hs. \<forall>j < unat (p_memsz h).
      bmem b (p_pa h + of_nat j) = (if j < unat (p_filesz h) then img ! (unat (p_offset h) + j) else 0))"
proof -
  let ?kb = "kernel_bytes D bl"
  note kf = stored_kernel_file [OF assms(3,4)]
  have img: "img = take (unat (fileSize (dir (mounted D) ! 0))) ?kb"
    using kf(2) assms(7) by (simp only: kernel_bytes_def)
  have kb: "length ?kb = 512 * length bl"
    using length_concat_const [of "map (\<lambda>n. disk_read (FSOFFSET_DATA + n) D) bl" 512] assms(3)
    by (auto simp: kernel_bytes_def disk_ok_def disk_read_def)
  have len: "length img \<le> 512 * length bl" unfolding img length_take kb by simp
  then have bl: "0 < length bl" using assms(8) by (cases bl) auto
  have ns: "0 < length ns" using kf(1) bl by (auto simp: kernel_file_def)
  have head: "take 512 img = disk_read (FSOFFSET_DATA + 1) D"
  proof (rule nth_equalityI)
    show "length (take 512 img) = length (disk_read (FSOFFSET_DATA + 1) D)"
      using assms(8) kernel_bytes_block(1) [OF assms(3) bl] assms(6) by simp
    fix j
    assume "j < length (take 512 img)"
    then show "take 512 img ! j = disk_read (FSOFFSET_DATA + 1) D ! j"
      using kernel_bytes_block(2) [OF assms(3) bl, of j] assms(6) by (simp add: img)
  qed
  obtain d1 where r1: "readsect P (FSOFFSET_DATA + 0) d = Some (disk_read (FSOFFSET_DATA + 0) D, d1)" "sectors (view d1) = D"
    by (rule read_data [OF assms(1,2), of 0]) auto
  obtain d2 where r2: "readsect P (FSOFFSET_DATA + 1) d1 = Some (disk_read (FSOFFSET_DATA + 1) D, d2)" "sectors (view d2) = D"
    by (rule read_data [OF assms(1) r1(2), of 1]) auto
  let ?b = "\<lparr>the_inode = inode_of_bytes (disk_read (FSOFFSET_DATA + 0) D), index_inode = 0, bmem = m, bdev = d2\<rparr>"
  have f: "follows view D ns ?b" using r2(2) assms(5) ns by (simp add: follows_def hd_conv_nth)
  have o: "\<forall>h \<in> set hs. bootable (512 * length bl) h \<and> index_inode ?b \<le> unat (p_offset h) div 512 div 127"
    using assms(12) len by (auto simp: bootable_def)
  have i: "\<forall>i \<in> set [0..<unat (e_phnum e)]. unat (e_phoff e) + 32 * i + 32 \<le> length (take 512 img)"
    using assms(8,10) by auto
  obtain b where b: "boot_segments P (take 512 img) (e_phoff e) [0..<unat (e_phnum e)] ?b = Some (Inr b)"
      "bmem b = fold (booted ?kb) hs m"
    using boot_segments_ok [OF assms(1) kf(1) f o [unfolded assms(11)] assms(13) [unfolded assms(11)] i] assms(11) by auto
  have "bmem b (p_pa h + of_nat j) = (if j < unat (p_filesz h) then img ! (unat (p_offset h) + j) else 0)"
    if "h \<in> set hs" "j < unat (p_memsz h)" for h j
  proof -
    have "unat (p_offset h) + unat (p_filesz h) \<le> length img" using assms(12) that(1) by (simp add: bootable_def)
    then have "j < unat (p_filesz h) \<Longrightarrow> ?kb ! (unat (p_offset h) + j) = img ! (unat (p_offset h) + j)" by (simp add: img)
    then show ?thesis using fold_booted [OF assms(12,14) that, of ?kb m] b(2) by simp
  qed
  moreover have "bootmain P m d = Some (Inr (e_entry e, b))"
    using r1(1) r2(1) b(1) unfolding bootmain_def head [symmetric] assms(9) by (simp add: Let_def)
  ultimately show ?thesis by blast
qed

section \<open>Properties\<close>

text \<open>
  C35. The boot loader: on a working drive whose first file has its inode in block 0 and its header in
  block 1, as the comments of \<^verbatim>\<open>bootmain\<close> ask for, with program headers in the first sector, segments
  that start at sector boundaries of the file, in order, and whose sectors do not overlap in
  memory, it returns, jumps to the entry point, and every segment holds its own bytes of the file
  and zeros up to \<^verbatim>\<open>p_memsz\<close>, however many inodes the file has.
\<close>

theorem bootmain_loads_kernel:
  assumes "ata_drive P view" "sectors (view d) = D" "disk_ok D" "stored (mounted D) 0 ns bl" "hd ns = 0" "bl ! 0 = 1"
    and "img = stored_bytes (mounted D) 0 bl" "512 \<le> length img" "e = elf_of_bytes (take 512 img)"
    and "unat (e_phoff e) + 32 * unat (e_phnum e) \<le> 512"
    and "hs = boot_headers (take 512 img) (e_phoff e) [0..<unat (e_phnum e)]"
    and "\<forall>h \<in> set hs. bootable (length img) h" "sorted_wrt in_order hs" "sorted_wrt boot_apart hs"
  shows "\<exists>b. bootmain P m d = Some (Inr (e_entry e, b)) \<and> (\<forall>h \<in> set hs. \<forall>j < unat (p_memsz h).
      bmem b (p_pa h + of_nat j) = (if j < unat (p_filesz h) then img ! (unat (p_offset h) + j) else 0))"
  by (rule bootmain_ok [OF assms])

text \<open>A disk with a kernel of two sectors; its segment is the second one.\<close>

definition boot_elf :: elf where
  "boot_elf = sample_elf\<lparr>e_entry := 0x100000\<rparr>"

definition boot_proghdr :: proghdr where
  "boot_proghdr = sample_proghdr\<lparr>p_offset := 512, p_pa := 0x100000, p_filesz := 300, p_memsz := 1000\<rparr>"

definition boot_header :: sector where
  "boot_header = bytes_of_elf boot_elf @ bytes_of_proghdr boot_proghdr @ replicate 428 0"

definition boot_dir :: "dirent list" where
  "boot_dir = \<lparr>fileName = kernel_name @ replicate 14 0, fileSize = 1024, inodeOffset = 0\<rparr>
     # replicate 15 \<lparr>fileName = replicate 24 0, fileSize = 0, inodeOffset = 0\<rparr>"

definition boot_inode :: Fs.inode where
  "boot_inode = \<lparr>dataBlocks = 1 # 2 # replicate 125 0, next_inode = 0\<rparr>"

definition boot_disk :: disk where
  "boot_disk = (\<lambda>n. replicate 512 0)(1 := bytes_of_bitmap (replicate 128 (- 1)), 2 := bytes_of_dir boot_dir,
     3 := bytes_of_inode boot_inode, 4 := boot_header, 5 := replicate 512 0xAB)"

lemma boot_disk_parts:
  "bitmap_wf (replicate 128 (- 1))" "dir_wf boot_dir" "inode_wf boot_inode" "length boot_header = 512" "elf_wf boot_elf"
proof -
  show e: "elf_wf boot_elf" by (simp add: elf_wf_def boot_elf_def sample_elf_def)
  show "length boot_header = 512"
    using elf.enc_length [OF e] proghdr.enc_length [OF TrueI, of boot_proghdr] by (simp add: boot_header_def)
qed (simp_all add: bitmap_wf_def dir_wf_def dirent_wf_def boot_dir_def inode_wf_def boot_inode_def kernel_name(3))

lemma boot_disk_ok: "disk_ok boot_disk"
  using boot_disk_parts bitmap.enc_length dir.enc_length inode.enc_length
  by (simp add: disk_ok_def boot_disk_def)

lemma boot_disk_mounted:
  "bitmap (mounted boot_disk) = replicate 128 (- 1)" "dir (mounted boot_disk) = boot_dir"
  "IDE_READ 0 (mounted boot_disk) = bytes_of_inode boot_inode" "IDE_READ 1 (mounted boot_disk) = boot_header"
  "IDE_READ 2 (mounted boot_disk) = replicate 512 0xAB"
  using boot_disk_parts by (simp_all add: mounted_def boot_disk_def disk_read_def bitmap.dec_enc dir.dec_enc IDE_READ_def)

lemma boot_disk_stored:
  "stored (mounted boot_disk) 0 [0] [1, 2]"
  "stored_bytes (mounted boot_disk) 0 [1, 2] = boot_header @ replicate 512 0xAB"
proof -
  have u: "used (replicate 128 (- 1)) n" if "unat n < 4096" for n
    using that by (simp add: used_def less_mult_imp_div_less)
  have "inode_at [0] [1, 2] 0 boot_inode"
    by (auto simp: inode_at_def inode_wf_def boot_inode_def nth_Cons less_Suc_eq split: nat.splits)
  then show "stored (mounted boot_disk) 0 [0] [1, 2]"
    using boot_disk_parts(3) by (simp add: stored_def chain_ok_def tight_def boot_disk_mounted inode.dec_enc u boot_dir_def)
  show "stored_bytes (mounted boot_disk) 0 [1, 2] = boot_header @ replicate 512 0xAB"
    using boot_disk_parts(4) by (simp add: stored_bytes_def boot_disk_mounted boot_dir_def)
qed

text \<open>A kernel of two sectors: the headers, then 300 bytes for 0x100000.\<close>

definition boot_image :: "u8 list" where "boot_image = boot_header @ replicate 512 0xAB"

lemma boot_image:
  "length boot_image = 1024" "elf_of_bytes (take 512 boot_image) = boot_elf"
  "boot_headers (take 512 boot_image) (e_phoff boot_elf) [0..<unat (e_phnum boot_elf)] = [boot_proghdr]"
  "unat (e_phoff boot_elf) + 32 * unat (e_phnum boot_elf) \<le> 512" "e_entry boot_elf = 0x100000"
  "\<forall>h \<in> set [boot_proghdr]. bootable (length boot_image) h" "sorted_wrt in_order [boot_proghdr]" "sorted_wrt boot_apart [boot_proghdr]"
proof -
  note len = elf.enc_length [OF boot_disk_parts(5)] proghdr.enc_length [OF TrueI, of boot_proghdr]
  have t: "take 512 boot_image = boot_header" using boot_disk_parts(4) by (simp add: boot_image_def)
  show l: "length boot_image = 1024" using boot_disk_parts(4) by (simp add: boot_image_def)
  show "elf_of_bytes (take 512 boot_image) = boot_elf"
    unfolding t unfolding boot_header_def by (rule elf_prefix [OF boot_disk_parts(5)])
  have "take 32 (drop 52 (take 512 boot_image)) = bytes_of_proghdr boot_proghdr"
    unfolding t unfolding boot_header_def by (simp add: len)
  then show "boot_headers (take 512 boot_image) (e_phoff boot_elf) [0..<unat (e_phnum boot_elf)] = [boot_proghdr]"
    by (simp add: boot_headers_def proghdr.dec_enc boot_elf_def sample_elf_def boot_proghdr_def)
  show "\<forall>h \<in> set [boot_proghdr]. bootable (length boot_image) h" "sorted_wrt in_order [boot_proghdr]" "sorted_wrt boot_apart [boot_proghdr]"
    using l by (simp_all add: bootable_def sectors_of_def boot_proghdr_def)
qed (simp_all add: boot_elf_def sample_elf_def)

theorem bootmain_loads_kernel_witness:
  "\<exists>b. bootmain sim_ports (\<lambda>p. 7) (sim_start\<lparr>sim_raw := (sim_raw sim_start)\<lparr>sectors := boot_disk\<rparr>\<rparr>) = Some (Inr (0x100000, b))
    \<and> bmem b (0x100000 + of_nat 299) = 0xAB \<and> bmem b (0x100000 + of_nat 300) = 0"
proof -
  let ?d = "sim_start\<lparr>sim_raw := (sim_raw sim_start)\<lparr>sectors := boot_disk\<rparr>\<rparr>"
  have d: "sectors (sim_ata ?d) = boot_disk"
    using boot_disk_ok by (simp add: sim_ata_def disk_ok_def)
  obtain b where b: "bootmain sim_ports (\<lambda>p. 7) ?d = Some (Inr (e_entry boot_elf, b))"
      "\<forall>h \<in> set [boot_proghdr]. \<forall>j < unat (p_memsz h).
         bmem b (p_pa h + of_nat j) = (if j < unat (p_filesz h) then boot_image ! (unat (p_offset h) + j) else 0)"
    using bootmain_loads_kernel [OF sim_drive _ boot_disk_ok boot_disk_stored(1) _ _ boot_disk_stored(2) [folded boot_image_def, symmetric] _
        boot_image(2) [symmetric] boot_image(4) boot_image(3) [symmetric] boot_image(6-8), of ?d "\<lambda>p. 7"] d boot_image(1) by auto
  have f: "p_pa boot_proghdr = 0x100000" "unat (p_memsz boot_proghdr) = 1000" "unat (p_filesz boot_proghdr) = 300"
      "unat (p_offset boot_proghdr) = 512" by (simp_all add: boot_proghdr_def)
  have "bmem b (0x100000 + of_nat j) = (if j < 300 then boot_image ! (512 + j) else 0)" if "j < 1000" for j
  proof -
    have "boot_proghdr \<in> set [boot_proghdr]" by simp
    from b(2) [rule_format, OF this, of j] that show ?thesis unfolding f by blast
  qed
  from this [of 299] this [of 300]
  have "bmem b (0x100000 + of_nat 299) = boot_image ! (512 + 299)" "bmem b (0x100000 + of_nat 300) = 0" by (simp_all only: if_True, simp_all)
  moreover have "boot_image ! (512 + 299) = 0xAB" using boot_disk_parts(4) by (simp add: boot_image_def nth_append)
  ultimately show ?thesis using b(1) boot_image(5) by auto
qed

end
