(* ===== verification/Game.thy ===== *)
theory Game
  imports CString
begin

text \<open>
  The hangman game: \<^verbatim>\<open>game/rand.c\<close>, \<^verbatim>\<open>game/keyboard.c\<close>, \<^verbatim>\<open>game/effect.c\<close> and the loop of \<^verbatim>\<open>game/game.c\<close>, as a
  state machine of frames and interrupts. Keys and ticks arrive between the frames: a key that
  arrives while \<^verbatim>\<open>update_keypress\<close> runs is seen by it or by the next one, as if it had come before
  or after, and the three reads of the volatile \<^verbatim>\<open>tick\<close> in one frame are separate. Characters are
  bytes, 97 is the code of the letter a. \<^verbatim>\<open>tick\<close> is an unbounded integer; \<^verbatim>\<open>hangman_init\<close> resets it.
\<close>

unbundle bit_operations_syntax

section \<open>game/sel\_words.h and game/game.h\<close>

definition NR_WORDS :: nat where [simp]: "NR_WORDS = 126"

definition sel_words :: "string list" where
  "sel_words =
   [''acres'', ''adult'', ''advice'', ''arrangement'', ''attempt'', ''august'', ''autumn'', ''border'',
    ''breeze'', ''brick'', ''calm'', ''canal'', ''casey'', ''cast'', ''chose'', ''claws'', ''coach'',
    ''constantly'', ''contrast'', ''cookies'', ''customs'', ''damage'', ''danny'', ''deeply'', ''depth'',
    ''discussion'', ''doll'', ''donkey'', ''egypt'', ''ellen'', ''essential'', ''exchange'', ''exist'',
    ''explanation'', ''facing'', ''film'', ''finest'', ''fireplace'', ''floating'', ''folks'', ''fort'',
    ''garage'', ''grabbed'', ''grandmother'', ''habit'', ''happily'', ''harry'', ''heading'', ''hunter'',
    ''illinois'', ''image'', ''independent'', ''instant'', ''january'', ''kids'', ''label'', ''lee'',
    ''lungs'', ''manufacturing'', ''martin'', ''mathematics'', ''melted'', ''memory'', ''mill'',
    ''mission'', ''monkey'', ''mount'', ''mysterious'', ''neighborhood'', ''norway'', ''nuts'',
    ''occasionally'', ''official'', ''ourselves'', ''palace'', ''pennsylvania'', ''philadelphia'',
    ''plates'', ''poetry'', ''policeman'', ''positive'', ''possibly'', ''practical'', ''pride'',
    ''promised'', ''recall'', ''relationship'', ''remarkable'', ''require'', ''rhyme'', ''rocky'',
    ''rubbed'', ''rush'', ''sale'', ''satellites'', ''satisfied'', ''scared'', ''selection'', ''shake'',
    ''shaking'', ''shallow'', ''shout'', ''silly'', ''simplest'', ''slight'', ''slip'', ''slope'', ''soap'',
    ''solar'', ''species'', ''spin'', ''stiff'', ''swung'', ''tales'', ''thumb'', ''tobacco'', ''toy'',
    ''trap'', ''treated'', ''tune'', ''university'', ''vapor'', ''vessels'', ''wealth'', ''wolf'', ''zoo'']"

definition PROB_HIDE :: int where [simp]: "PROB_HIDE = 70"
definition NR_KEY :: nat where [simp]: "NR_KEY = 26"
definition COUNTDOWN :: int where [simp]: "COUNTDOWN = 50"
definition MISS_END :: int where [simp]: "MISS_END = 10"
definition FPS :: int where [simp]: "FPS = 30"
definition HZ :: int where [simp]: "HZ = 100"

datatype letter_state = UNKNOWN | IN_WORD | OUT_WORD

text \<open>The static variables of the game.\<close>

record game =
  seed :: u32
  letter_pressed :: "bool list"
  key_code :: int
  letter_known :: "letter_state list"
  hit :: int
  miss :: int
  wrong_guess :: "u8 list"
  ans :: "u8 list"
  show_str :: "u8 list"
  count_down :: int
  tick :: int
  now :: int
  target :: int
  num_draw :: int
  real_fps :: int
  redraw :: bool

section \<open>game/rand.c\<close>

definition srand :: "u32 \<Rightarrow> game \<Rightarrow> game" where
  "srand s g = g\<lparr>seed := s\<rparr>"

definition rand :: "game \<Rightarrow> int \<times> game" where
  "rand g = (let s = 0x015A4E35 * seed g + 1 in (uint (drop_bit 16 s AND 0x7FFF), g\<lparr>seed := s\<rparr>))"

section \<open>game/keyboard.c\<close>

definition letter_code :: "int list" where
  "letter_code = [30, 48, 46, 32, 18, 33, 34, 35, 23, 36, 37, 38, 50, 49, 24, 25, 16, 19, 31, 20, 22, 47, 17, 45, 21, 44]"

fun press_loop :: "int \<Rightarrow> nat list \<Rightarrow> bool list \<Rightarrow> bool list" where
  "press_loop scan_code [] pressed = pressed"
| "press_loop scan_code (i # is) pressed =
     press_loop scan_code is (if letter_code ! i = scan_code then pressed[i := True] else pressed)"

definition press_key :: "int \<Rightarrow> game \<Rightarrow> game" where
  "press_key scan_code g = g\<lparr>letter_pressed := press_loop scan_code [0..<26] (letter_pressed g)\<rparr>"

definition release_key :: "int \<Rightarrow> game \<Rightarrow> game result" where
  "release_key index g =
     andThen (my_assert ''0 <= index && index < 26'' (0 \<le> index \<and> index < 26)) (\<lambda>_.
       Inr (g\<lparr>letter_pressed := (letter_pressed g)[nat index := False]\<rparr>))"

definition query_key :: "int \<Rightarrow> game \<Rightarrow> bool result" where
  "query_key index g =
     andThen (my_assert ''0 <= index && index < 26'' (0 \<le> index \<and> index < 26)) (\<lambda>_.
       array_get ''letter_pressed'' (letter_pressed g) (nat index))"

definition last_key_code :: "game \<Rightarrow> int" where
  "last_key_code g = key_code g"

definition keyboard_event :: "int \<Rightarrow> game \<Rightarrow> game" where
  "keyboard_event code g = press_key code (g\<lparr>key_code := code\<rparr>)"

section \<open>game/effect.c\<close>

definition reset_miss :: "game \<Rightarrow> game" where "reset_miss g = g\<lparr>miss := 0\<rparr>"
definition reset_hit :: "game \<Rightarrow> game" where "reset_hit g = g\<lparr>hit := 0\<rparr>"
definition get_hit :: "game \<Rightarrow> int" where "get_hit g = hit g"
definition get_miss :: "game \<Rightarrow> int" where "get_miss g = miss g"

text \<open>\<^verbatim>\<open>letter_known[c - 'a']\<close> for a \<^verbatim>\<open>char\<close>; a character below a is an access in front of the array.\<close>

definition known_at :: "u8 \<Rightarrow> game \<Rightarrow> letter_state result" where
  "known_at c g =
     (if sint c - 97 < 0 then Inl (Out_of_bounds ''letter_known'')
      else array_get ''letter_known'' (letter_known g) (nat (sint c - 97)))"

text \<open>The loop over the letters of the word for key \<open>i\<close>.\<close>

fun match_loop :: "nat \<Rightarrow> u8 list \<Rightarrow> bool \<Rightarrow> letter_state list \<Rightarrow> bool \<times> letter_state list" where
  "match_loop i [] found known = (found, known)"
| "match_loop i (c # cs) found known =
     (if sint c - 97 \<noteq> int i then match_loop i cs found known else match_loop i cs True (known[i := IN_WORD]))"

text \<open>
  One new key. \<^verbatim>\<open>bool found\<close> is declared without a value; \<open>garbage\<close> is what it holds then.
\<close>

definition guess :: "bool \<Rightarrow> nat \<Rightarrow> game \<Rightarrow> game result" where
  "guess garbage i g =
     andThen (strlen (ans g)) (\<lambda>n.
       let (found, known) = match_loop i (take n (ans g)) garbage (letter_known g);
           g1 = g\<lparr>letter_known := known\<rparr>
       in if \<not> found then
            if miss g1 < 0 then Inl (Out_of_bounds ''wrong_guess'')
            else andThen (array_put ''wrong_guess'' (wrong_guess g1) (nat (miss g1)) (97 + of_nat i)) (\<lambda>w.
              Inr (g1\<lparr>wrong_guess := w, miss := miss g1 + 1, letter_known := (letter_known g1)[i := OUT_WORD]\<rparr>))
          else Inr g1)"

function key_loop :: "(nat \<Rightarrow> bool) \<Rightarrow> nat \<Rightarrow> game \<Rightarrow> game result" where
  "key_loop garbage i g =
     (if i < NR_KEY then
        andThen (query_key (int i) g) (\<lambda>p.
          if \<not> p then key_loop garbage (i + 1) g
          else andThen (release_key (int i) g) (\<lambda>g1.
            andThen (array_get ''letter_known'' (letter_known g1) i) (\<lambda>k.
              if k \<noteq> UNKNOWN then Inr g1
              else andThen (guess (garbage i) i g1) (\<lambda>g2. key_loop garbage (i + 1) g2))))
      else Inr g)"
  by pat_completeness auto
termination
  by (relation "measure (\<lambda>(garbage, i, g). NR_KEY - i)") auto

declare key_loop.simps [simp del]

fun show_loop :: "nat list \<Rightarrow> game \<Rightarrow> game result" where
  "show_loop [] g = Inr g"
| "show_loop (i # is) g =
     andThen (known_at (ans g ! i) g) (\<lambda>k.
       if k = IN_WORD
       then andThen (array_put ''show_str'' (show_str g) i (ans g ! i)) (\<lambda>s. show_loop is (g\<lparr>show_str := s\<rparr>))
       else show_loop is g)"

definition update_keypress :: "(nat \<Rightarrow> bool) \<Rightarrow> game \<Rightarrow> game result" where
  "update_keypress garbage g =
     andThen (key_loop garbage 0 g) (\<lambda>g1.
     andThen (strlen (ans g1)) (\<lambda>n. show_loop [0..<n] g1))"

section \<open>game/game.c\<close>

definition timer_event :: "game \<Rightarrow> game" where "timer_event g = g\<lparr>tick := tick g + 1\<rparr>"
definition set_fps :: "int \<Rightarrow> game \<Rightarrow> game" where "set_fps v g = g\<lparr>real_fps := v\<rparr>"
definition get_fps :: "game \<Rightarrow> int" where "get_fps g = real_fps g"

fun win_loop :: "nat list \<Rightarrow> game \<Rightarrow> bool result" where
  "win_loop [] g = Inr True"
| "win_loop (i # is) g =
     andThen (known_at (ans g ! i) g) (\<lambda>k. if k \<noteq> IN_WORD then Inr False else win_loop is g)"

definition check_win :: "game \<Rightarrow> bool result" where
  "check_win g = andThen (strlen (ans g)) (\<lambda>n. win_loop [0..<n] g)"

fun release_loop :: "nat list \<Rightarrow> game \<Rightarrow> game result" where
  "release_loop [] g = Inr g"
| "release_loop (i # is) g = andThen (release_key (int i) g) (release_loop is)"

fun reveal_loop :: "nat list \<Rightarrow> game \<Rightarrow> game result" where
  "reveal_loop [] g = Inr g"
| "reveal_loop (i # is) g =
     (let (r, g1) = rand g
      in if r mod 100 > PROB_HIDE then
           let idx = sint (ans g1 ! i) - 97
           in if idx < 0 then Inl (Out_of_bounds ''letter_known'')
              else andThen (array_put ''letter_known'' (letter_known g1) (nat idx) IN_WORD) (\<lambda>k.
                reveal_loop is (g1\<lparr>letter_known := k\<rparr>))
         else reveal_loop is g1)"

fun hide_loop :: "nat list \<Rightarrow> game \<Rightarrow> game result" where
  "hide_loop [] g = Inr g"
| "hide_loop (i # is) g =
     andThen (known_at (ans g ! i) g) (\<lambda>k.
       if k = UNKNOWN
       then andThen (array_put ''show_str'' (show_str g) i 95) (\<lambda>s. hide_loop is (g\<lparr>show_str := s\<rparr>))
       else hide_loop is g)"

definition hangman_init :: "game \<Rightarrow> game result" where
  "hangman_init g0 =
     (let g1 = reset_hit (reset_miss g0);
          g2 = g1\<lparr>tick := 0, now := 0\<rparr>;
          (r, g3) = rand g2
      in andThen (array_get ''sel_words'' sel_words (nat (r mod int NR_WORDS))) (\<lambda>w.
         andThen (strcpy (ans g3) (map of_char w @ [0])) (\<lambda>a.
           let g4 = g3\<lparr>ans := a, count_down := COUNTDOWN, letter_known := replicate NR_KEY UNKNOWN\<rparr>
           in andThen (release_loop [0..<NR_KEY] g4) (\<lambda>g5.
              andThen (strlen (ans g5)) (\<lambda>n.
              andThen (reveal_loop [0..<n] g5) (\<lambda>g6.
              andThen (strcpy (show_str g6) (ans g6)) (\<lambda>s.
                hide_loop [0..<n] (g6\<lparr>show_str := s\<rparr>))))))))"

text \<open>The loop that catches up with the target.\<close>

definition one_tick :: "game \<Rightarrow> game" where
  "one_tick g =
     (let g1 = (if now g mod (HZ div 2) = 0 then g\<lparr>count_down := count_down g - 1\<rparr> else g);
          g2 = (if now g1 mod (HZ div FPS) = 0 then g1\<lparr>redraw := True\<rparr> else g1);
          g3 = (if now g2 mod (HZ div 2) = 0 then
                  let f = num_draw g2 * 2 + 1; f1 = (if f > FPS then FPS else f)
                  in (set_fps f1 g2)\<lparr>num_draw := 0\<rparr>
                else g2)
      in g3\<lparr>now := now g3 + 1\<rparr>)"

lemma one_tick_fields [simp]:
  "now (one_tick g) = now g + 1" "target (one_tick g) = target g" "tick (one_tick g) = tick g" "ans (one_tick g) = ans g"
  "show_str (one_tick g) = show_str g" "letter_known (one_tick g) = letter_known g" "miss (one_tick g) = miss g"
  "wrong_guess (one_tick g) = wrong_guess g" "letter_pressed (one_tick g) = letter_pressed g" "hit (one_tick g) = hit g"
  "seed (one_tick g) = seed g" "count_down (one_tick g) = count_down g - (if now g mod 50 = 0 then 1 else 0)"
  by (simp_all add: one_tick_def Let_def set_fps_def)

function catch_up :: "game \<Rightarrow> game" where
  "catch_up g = (if now g < target g then catch_up (one_tick g) else g)"
  by pat_completeness auto
termination
  by (relation "measure (\<lambda>g. nat (target g - now g))") auto

declare catch_up.simps [simp del]

text \<open>
  The condition of the inner loop, and one run of its body up to the drawing. \<open>a\<close> and \<open>b\<close> ticks
  come between the reads of \<^verbatim>\<open>tick\<close>.
\<close>

definition playing :: "game \<Rightarrow> bool result" where
  "playing g = andThen (check_win g) (\<lambda>w. Inr (\<not> w \<and> count_down g > 0 \<and> get_miss g < MISS_END))"

definition frame :: "(nat \<Rightarrow> bool) \<Rightarrow> nat \<Rightarrow> nat \<Rightarrow> game \<Rightarrow> game result" where
  "frame garbage a b g =
     (if now g = tick g then Inr g
      else let g1 = g\<lparr>tick := tick g + int a\<rparr>
           in andThen (my_assert ''now < tick'' (now g1 < tick g1)) (\<lambda>_.
              let g2 = g1\<lparr>tick := tick g1 + int b\<rparr>;
                  g3 = g2\<lparr>target := tick g2, redraw := False\<rparr>
              in andThen (update_keypress garbage g3) (\<lambda>g4.
                 let g5 = catch_up g4
                 in Inr (if redraw g5 then g5\<lparr>num_draw := num_draw g5 + 1\<rparr> else g5))))"

text \<open>Which of the endings is drawn.\<close>

datatype ending = Time_up | Won | Hung | No_ending

definition ending_of :: "game \<Rightarrow> ending result" where
  "ending_of g =
     (if count_down g \<le> 0 then Inr Time_up
      else andThen (check_win g) (\<lambda>w. Inr (if w then Won else if get_miss g \<ge> MISS_END then Hung else No_ending)))"

text \<open>
  The phases of \<^verbatim>\<open>main_loop\<close>, and what happens in them: an interrupt, a frame, the end of a round, and
  the restart when the key r is pressed.
\<close>

datatype phase = Round | Over ending

inductive main_loop :: "phase \<times> game \<Rightarrow> phase \<times> game \<Rightarrow> bool" where
  timer: "main_loop (p, g) (p, timer_event g)"
| key: "main_loop (p, g) (p, keyboard_event code g)"
| next_frame: "\<lbrakk>playing g = Inr True; frame garbage a b g = Inr g'\<rbrakk> \<Longrightarrow> main_loop (Round, g) (Round, g')"
| ends: "\<lbrakk>playing g = Inr False; ending_of g = Inr e\<rbrakk> \<Longrightarrow> main_loop (Round, g) (Over e, g)"
| restart: "\<lbrakk>query_key (114 - 97) g = Inr True; hangman_init g = Inr g'\<rbrakk> \<Longrightarrow> main_loop (Over e, g) (Round, g')"

inductive_cases main_loopE: "main_loop (p, g) q"

end
