(* ===== verification/Game_Inv.thy ===== *)
theory Game_Inv
  imports Game
begin

text \<open>
  What holds of the game between its steps, and what it gives: no access outside an array and no failed
  assertion, the screen that shows exactly the letters found, the misses that are the wrong letters,
  and the end of every round.
\<close>

section \<open>The word and its letters\<close>

definition the_word :: "game \<Rightarrow> u8 list" where
  "the_word g = takeWhile (\<lambda>c. c \<noteq> 0) (ans g)"

definition letter :: "u8 \<Rightarrow> bool" where
  "letter c \<longleftrightarrow> 97 \<le> unat c \<and> unat c \<le> 122"

definition code :: "nat \<Rightarrow> u8" where
  "code i = 97 + of_nat i"

definition known_of :: "game \<Rightarrow> u8 \<Rightarrow> letter_state" where
  "known_of g c = letter_known g ! (unat c - 97)"

lemma unat_code: "i < 26 \<Longrightarrow> unat (code i) = 97 + i"
proof -
  assume "i < 26"
  then have "unat (of_nat i :: u8) = i" by (simp add: unat_of_nat)
  then show ?thesis using \<open>i < 26\<close> by (simp add: code_def unat_word_ariths)
qed

lemma sint_char: "unat c < 128 \<Longrightarrow> sint (c :: u8) = int (unat c)"
proof -
  assume c: "unat c < 128"
  have u: "uint c = int (unat c)" by simp
  with c have "- 128 \<le> uint c" "uint c < 128" by linarith+
  then have "sint c = uint c" unfolding sint_uint by (simp add: signed_take_bit_int_eq_self)
  then show ?thesis using u by linarith
qed

lemma sint_letter: "letter c \<Longrightarrow> sint c - 97 = int (unat c - 97)"
proof -
  assume c: "letter c"
  then have "sint c = int (unat c)" by (intro sint_char) (simp add: letter_def)
  moreover have "int (unat c - 97) = int (unat c) - 97" using c unfolding letter_def by linarith
  ultimately show ?thesis by linarith
qed

lemma letter_index: "letter c \<Longrightarrow> unat c - 97 < 26"
  by (auto simp: letter_def)

lemma letter_code_index: "letter c \<Longrightarrow> code (unat c - 97) = c"
  by (metis letter_def letter_index le_add_diff_inverse unat_code word_unat_eq_iff)

lemma code_inj: "\<lbrakk>i < 26; j < 26\<rbrakk> \<Longrightarrow> code i = code j \<longleftrightarrow> i = j"
  by (metis add_left_cancel unat_code)

lemma known_at_letter:
  "\<lbrakk>letter c; length (letter_known g) = 26\<rbrakk> \<Longrightarrow> known_at c g = Inr (known_of g c)"
proof -
  assume c: "letter c" and l: "length (letter_known g) = 26"
  show ?thesis using letter_index [OF c] l by (simp add: known_at_def known_of_def array_get_def sint_letter [OF c])
qed

lemma matches_key: "\<lbrakk>letter c; i < 26\<rbrakk> \<Longrightarrow> sint c - 97 \<noteq> int i \<longleftrightarrow> c \<noteq> code i"
proof -
  assume c: "letter c" and i: "i < 26"
  have "unat c - 97 = i \<longleftrightarrow> c = code i" using letter_code_index [OF c] unat_code [OF i] by auto
  then show ?thesis unfolding sint_letter [OF c] by simp
qed

section \<open>The invariant\<close>

definition arrays_ok :: "game \<Rightarrow> bool" where
  "arrays_ok g \<longleftrightarrow> length (letter_pressed g) = 26 \<and> length (wrong_guess g) = 26 \<and> length (ans g) = 30 \<and> length (show_str g) = 30"

definition wrong_letters :: "game \<Rightarrow> nat set" where
  "wrong_letters g = {i. i < 26 \<and> letter_known g ! i = OUT_WORD}"

definition letters_ok :: "game \<Rightarrow> bool" where
  "letters_ok g \<longleftrightarrow> length (letter_known g) = 26
     \<and> (\<forall>i < 26. (letter_known g ! i = IN_WORD \<longrightarrow> code i \<in> set (the_word g))
            \<and> (letter_known g ! i = OUT_WORD \<longrightarrow> code i \<notin> set (the_word g)))
     \<and> miss g = int (card (wrong_letters g)) \<and> set (take (card (wrong_letters g)) (wrong_guess g)) = code ` wrong_letters g"

text \<open>Letters that are not found are hidden; in between the frames the others are shown.\<close>

definition hidden :: "game \<Rightarrow> bool" where
  "hidden g \<longleftrightarrow> show_str g ! length (the_word g) = 0
     \<and> (\<forall>j < length (the_word g). known_of g (the_word g ! j) \<noteq> IN_WORD \<longrightarrow> show_str g ! j = 95)"

definition shown :: "game \<Rightarrow> bool" where
  "shown g \<longleftrightarrow> (\<forall>j < length (the_word g). known_of g (the_word g ! j) = IN_WORD \<longrightarrow> show_str g ! j = the_word g ! j)"

definition clock_ok :: "game \<Rightarrow> bool" where
  "clock_ok g \<longleftrightarrow> 0 \<le> now g \<and> now g \<le> tick g \<and> count_down g = 50 - (now g + 49) div 50 \<and> hit g = 0"

definition round_ok :: "game \<Rightarrow> bool" where
  "round_ok g \<longleftrightarrow> arrays_ok g \<and> 0 \<in> set (ans g) \<and> (\<forall>c \<in> set (the_word g). letter c) \<and> length (the_word g) \<le> 13
     \<and> letters_ok g \<and> hidden g"

definition game_ok :: "game \<Rightarrow> bool" where
  "game_ok g \<longleftrightarrow> round_ok g \<and> shown g \<and> clock_ok g"

lemma the_word_split:
  assumes "0 \<in> set (ans g)"
  shows "\<exists>rest. ans g = the_word g @ 0 # rest" "0 \<notin> set (the_word g)"
proof -
  show "0 \<notin> set (the_word g)" by (auto simp: the_word_def dest: set_takeWhileD)
  have "dropWhile (\<lambda>c. c \<noteq> 0) (ans g) \<noteq> []" using assms by (auto simp: dropWhile_eq_Nil_conv)
  then obtain c rest where d: "dropWhile (\<lambda>c. c \<noteq> 0) (ans g) = c # rest" by (cases "dropWhile (\<lambda>c. c \<noteq> 0) (ans g)") auto
  then have "c = 0" using hd_dropWhile [of "\<lambda>c. c \<noteq> 0" "ans g"] by auto
  then show "\<exists>rest. ans g = the_word g @ 0 # rest"
    using takeWhile_dropWhile_id [of "\<lambda>c. c \<noteq> 0" "ans g"] d unfolding the_word_def by metis
qed

lemma word_facts:
  assumes "0 \<in> set (ans g)"
  shows "strlen (ans g) = Inr (length (the_word g))" "take (length (the_word g)) (ans g) = the_word g"
    "i < length (the_word g) \<Longrightarrow> ans g ! i = the_word g ! i"
proof -
  obtain rest where r: "ans g = the_word g @ 0 # rest" using the_word_split(1) [OF assms] by blast
  show "strlen (ans g) = Inr (length (the_word g))" by (subst r) (rule strlen_NUL [OF the_word_split(2) [OF assms]])
  show "take (length (the_word g)) (ans g) = the_word g" by (subst r) simp
  show "i < length (the_word g) \<Longrightarrow> ans g ! i = the_word g ! i" by (subst r) (simp add: nth_append)
qed

lemma the_word_cong: "ans g' = ans g \<Longrightarrow> the_word g' = the_word g"
  by (simp add: the_word_def)

section \<open>One key\<close>

lemma match_loop_eq:
  "\<lbrakk>\<forall>c \<in> set cs. letter c; i < 26\<rbrakk> \<Longrightarrow>
    match_loop i cs found known = (found \<or> code i \<in> set cs, if code i \<in> set cs then known[i := IN_WORD] else known)"
  by (induction i cs found known rule: match_loop.induct) (auto simp: matches_key)

text \<open>The effect of one new key: found, counted as a miss, or lost.\<close>

definition found_key :: "nat \<Rightarrow> game \<Rightarrow> game" where
  "found_key i g = g\<lparr>letter_known := (letter_known g)[i := IN_WORD]\<rparr>"

definition missed_key :: "nat \<Rightarrow> game \<Rightarrow> game" where
  "missed_key i g = g\<lparr>wrong_guess := (wrong_guess g)[nat (miss g) := code i], miss := miss g + 1,
     letter_known := (letter_known g)[i := OUT_WORD]\<rparr>"

lemma wrong_letters_less:
  assumes "i < 26" "letter_known g ! i = UNKNOWN"
  shows "card (wrong_letters g) < 26" "finite (wrong_letters g)"
proof -
  show fin: "finite (wrong_letters g)" by (simp add: wrong_letters_def)
  have "wrong_letters g \<subseteq> {..<26} - {i}" using assms(2) by (auto simp: wrong_letters_def)
  then have "card (wrong_letters g) \<le> card ({..<26} - {i})" by (intro card_mono) auto
  then show "card (wrong_letters g) < 26" using assms(1) by simp
qed

lemma guess_eq:
  assumes "round_ok g" "i < 26" "letter_known g ! i = UNKNOWN"
  shows "guess garbage i g = Inr (if code i \<in> set (the_word g) then found_key i g else if garbage then g else missed_key i g)"
proof -
  have r: "0 \<in> set (ans g)" "\<forall>c \<in> set (the_word g). letter c" "length (wrong_guess g) = 26" "length (letter_known g) = 26"
      "miss g = int (card (wrong_letters g))"
    using assms(1) by (simp_all add: round_ok_def arrays_ok_def letters_ok_def)
  show ?thesis
    using wrong_letters_less(1) [OF assms(2,3)] r(3-5)
    by (auto simp: guess_def word_facts [OF r(1)] match_loop_eq [OF r(2) assms(2)] array_put_def found_key_def missed_key_def code_def)
qed

lemma known_of_update:
  assumes "letter c" "i < 26" "length (letter_known g) = 26"
  shows "known_of (g\<lparr>letter_known := (letter_known g)[i := k]\<rparr>) c = (if c = code i then k else known_of g c)"
  using assms letter_index [OF assms(1)] letter_code_index [OF assms(1)] unat_code [OF assms(2)]
  by (auto simp: known_of_def nth_list_update)

lemma word_letter_code: "\<lbrakk>round_ok g; j < length (the_word g)\<rbrakk> \<Longrightarrow> letter (the_word g ! j)"
  by (simp add: round_ok_def)

lemma found_key_ok:
  assumes "round_ok g" "i < 26" "letter_known g ! i = UNKNOWN" "code i \<in> set (the_word g)"
  shows "round_ok (found_key i g)"
proof -
  let ?g = "found_key i g"
  have w: "the_word ?g = the_word g" by (rule the_word_cong) (simp add: found_key_def)
  have l: "letters_ok g" "hidden g" using assms(1) by (simp_all add: round_ok_def)
  have "wrong_letters ?g = wrong_letters g"
    using assms(2,3) l(1) by (auto simp: wrong_letters_def found_key_def letters_ok_def nth_list_update)
  then have "letters_ok ?g"
    using l(1) assms(2,4) by (auto simp: letters_ok_def w) (auto simp: found_key_def nth_list_update split: if_splits)
  moreover have "known_of ?g c \<noteq> IN_WORD \<Longrightarrow> letter c \<Longrightarrow> known_of g c \<noteq> IN_WORD" for c
    using known_of_update [of c i g IN_WORD] assms(2) l(1) by (simp add: found_key_def letters_ok_def split: if_splits)
  then have "hidden ?g"
    using l(2) word_letter_code [OF assms(1)] by (auto simp: hidden_def w) (auto simp: found_key_def)
  ultimately show ?thesis using assms(1) by (simp add: round_ok_def w) (simp add: found_key_def arrays_ok_def)
qed

lemma missed_key_ok:
  assumes "round_ok g" "i < 26" "letter_known g ! i = UNKNOWN" "code i \<notin> set (the_word g)"
  shows "round_ok (missed_key i g)"
proof -
  let ?g = "missed_key i g" and ?n = "card (wrong_letters g)"
  have w: "the_word ?g = the_word g" by (rule the_word_cong) (simp add: missed_key_def)
  have l: "letters_ok g" "hidden g" using assms(1) by (simp_all add: round_ok_def)
  have len: "length (letter_known g) = 26" "length (wrong_guess g) = 26" "miss g = int ?n"
    using assms(1) by (simp_all add: round_ok_def letters_ok_def arrays_ok_def)
  have wl: "wrong_letters ?g = insert i (wrong_letters g)"
    using assms(2,3) len(1) by (auto simp: wrong_letters_def missed_key_def nth_list_update)
  have i: "i \<notin> wrong_letters g" using assms(3) by (simp add: wrong_letters_def)
  have c: "card (wrong_letters ?g) = Suc ?n" unfolding wl using wrong_letters_less(2) [OF assms(2,3)] i by simp
  have "take (Suc ?n) (wrong_guess ?g) = take ?n (wrong_guess g) @ [code i]"
    using wrong_letters_less(1) [OF assms(2,3)] len by (simp add: missed_key_def take_Suc_conv_app_nth)
  then have "letters_ok ?g"
    using l(1) assms(2,4) unfolding letters_ok_def w c by (auto simp: wl) (auto simp: missed_key_def nth_list_update split: if_splits)
  moreover have "known_of ?g d \<noteq> IN_WORD \<Longrightarrow> letter d \<Longrightarrow> d \<in> set (the_word g) \<Longrightarrow> known_of g d \<noteq> IN_WORD" for d
    using known_of_update [of d i "missed_key i g" OUT_WORD] known_of_update [of d i g OUT_WORD] assms(2,4) len
    by (auto simp: missed_key_def known_of_def split: if_splits)
  then have "hidden ?g"
    using l(2) word_letter_code [OF assms(1)] by (auto simp: hidden_def w) (auto simp: missed_key_def)
  ultimately show ?thesis using assms(1) len by (simp add: round_ok_def w) (simp add: missed_key_def arrays_ok_def)
qed

section \<open>The keys of a frame\<close>

text \<open>What \<^verbatim>\<open>update_keypress\<close> leaves alone.\<close>

definition same_round :: "game \<Rightarrow> game \<Rightarrow> bool" where
  "same_round g h \<longleftrightarrow> ans h = ans g \<and> now h = now g \<and> tick h = tick g \<and> target h = target g \<and> count_down h = count_down g
     \<and> redraw h = redraw g \<and> num_draw h = num_draw g \<and> hit h = hit g"

lemma same_round_trans: "\<lbrakk>same_round g h; same_round h k\<rbrakk> \<Longrightarrow> same_round g k"
  by (simp add: same_round_def)

lemma round_ok_release: "round_ok g \<Longrightarrow> round_ok (g\<lparr>letter_pressed := (letter_pressed g)[i := b]\<rparr>)"
  by (simp add: round_ok_def arrays_ok_def letters_ok_def hidden_def the_word_def known_of_def wrong_letters_def)

lemma guess_ok:
  assumes "round_ok g" "i < 26" "letter_known g ! i = UNKNOWN"
  shows "\<exists>h. guess garbage i g = Inr h \<and> round_ok h \<and> same_round g h \<and> show_str h = show_str g"
  using guess_eq [OF assms] found_key_ok [OF assms] missed_key_ok [OF assms] assms(1)
  by (auto simp: same_round_def found_key_def missed_key_def)

lemma key_loop_ok:
  "round_ok g \<Longrightarrow> \<exists>h. key_loop garbage i g = Inr h \<and> round_ok h \<and> same_round g h"
proof (induction "26 - i" arbitrary: i g)
  case 0
  then show ?case by (subst key_loop.simps) (simp add: same_round_def)
next
  case (Suc d i g)
  have i: "i < 26" "d = 26 - (i + 1)" using Suc.hyps(2) by simp_all
  have p: "length (letter_pressed g) = 26" "length (letter_known g) = 26"
    using Suc.prems by (simp_all add: round_ok_def arrays_ok_def letters_ok_def)
  let ?g1 = "g\<lparr>letter_pressed := (letter_pressed g)[i := False]\<rparr>"
  note ok1 = round_ok_release [OF Suc.prems, of i False]
  have run: "key_loop garbage i g = (if \<not> letter_pressed g ! i then key_loop garbage (i + 1) g
      else if letter_known g ! i \<noteq> UNKNOWN then Inr ?g1
      else andThen (guess (garbage i) i ?g1) (key_loop garbage (i + 1)))"
    using i(1) p by (subst key_loop.simps) (simp add: query_key_def release_key_def array_get_def)
  show ?case
  proof (cases "letter_pressed g ! i \<and> letter_known g ! i = UNKNOWN")
    case True
    then obtain h where h: "guess (garbage i) i ?g1 = Inr h" "round_ok h" "same_round ?g1 h"
      using guess_ok [OF ok1 i(1)] by auto
    obtain k where "key_loop garbage (i + 1) h = Inr k" "round_ok k" "same_round h k"
      using Suc.hyps(1) [OF i(2) h(2)] by blast
    with h True show ?thesis unfolding run by (auto simp: same_round_def)
  next
    case False
    then show ?thesis using Suc.hyps(1) [OF i(2) Suc.prems] ok1 unfolding run by (auto simp: same_round_def)
  qed
qed

lemma show_loop_ok:
  assumes "set is \<subseteq> {..<length (the_word g)}" "round_ok g"
  shows "\<exists>h. show_loop is g = Inr h \<and> h = g\<lparr>show_str := show_str h\<rparr> \<and> round_ok h
    \<and> (\<forall>j < length (the_word g). show_str h ! j =
        (if j \<in> set is \<and> known_of g (the_word g ! j) = IN_WORD then the_word g ! j else show_str g ! j))"
  using assms
proof (induction "is" arbitrary: g)
  case (Cons i "is" g)
  have i: "i < length (the_word g)" and sub: "set is \<subseteq> {..<length (the_word g)}" using Cons.prems(1) by auto
  have z: "0 \<in> set (ans g)" and len: "length (letter_known g) = 26" "length (show_str g) = 30" "length (the_word g) \<le> 13"
    using Cons.prems(2) by (simp_all add: round_ok_def letters_ok_def arrays_ok_def)
  have k: "known_at (ans g ! i) g = Inr (known_of g (the_word g ! i))"
    unfolding word_facts(3) [OF z i] by (rule known_at_letter [OF word_letter_code [OF Cons.prems(2) i] len(1)])
  show ?case
  proof (cases "known_of g (the_word g ! i) = IN_WORD")
    case False
    then show ?thesis using Cons.IH [OF sub Cons.prems(2)] k i by auto
  next
    case True
    let ?g = "g\<lparr>show_str := (show_str g)[i := the_word g ! i]\<rparr>"
    have w: "the_word ?g = the_word g" "\<And>c. known_of ?g c = known_of g c" by (simp_all add: the_word_def known_of_def)
    have "round_ok ?g"
      using Cons.prems(2) i True unfolding round_ok_def hidden_def letters_ok_def arrays_ok_def w
      by (auto simp: wrong_letters_def nth_list_update)
    moreover have "set is \<subseteq> {..<length (the_word ?g)}" using sub w by simp
    ultimately obtain h where h: "show_loop is ?g = Inr h" "h = ?g\<lparr>show_str := show_str h\<rparr>" "round_ok h"
      "\<forall>j < length (the_word g). show_str h ! j = (if j \<in> set is \<and> known_of g (the_word g ! j) = IN_WORD
         then the_word g ! j else show_str ?g ! j)" using Cons.IH [of ?g] unfolding w by blast
    have "show_loop (i # is) g = Inr h"
      using k True h(1) i len word_facts(3) [OF z i] by (simp add: array_put_def)
    moreover have "h = g\<lparr>show_str := show_str h\<rparr>" by (subst h(2)) simp
    moreover have "\<forall>j < length (the_word g). show_str h ! j = (if j \<in> set (i # is) \<and> known_of g (the_word g ! j) = IN_WORD
         then the_word g ! j else show_str g ! j)"
      using h(4) True i len by (auto simp: nth_list_update)
    ultimately show ?thesis using h(3) by blast
  qed
qed simp

lemma show_loop_frame: "show_loop is g = Inr h \<Longrightarrow> h = g\<lparr>show_str := show_str h\<rparr>"
proof (induction "is" arbitrary: g)
  case (Cons i "is" g)
  then obtain s where "show_loop is (g\<lparr>show_str := s\<rparr>) = Inr h \<or> show_loop is g = Inr h"
    by (auto simp: andThen_eq_Inr split: if_splits)
  then show ?case using Cons.IH by fastforce
qed simp

lemma update_keypress_ok:
  assumes "round_ok g"
  shows "\<exists>h. update_keypress garbage g = Inr h \<and> round_ok h \<and> shown h \<and> same_round g h"
proof -
  obtain g1 where g1: "key_loop garbage 0 g = Inr g1" "round_ok g1" "same_round g g1" using key_loop_ok [OF assms] by blast
  have z: "0 \<in> set (ans g1)" using g1(2) by (simp add: round_ok_def)
  obtain h where h: "show_loop [0..<length (the_word g1)] g1 = Inr h" "h = g1\<lparr>show_str := show_str h\<rparr>" "round_ok h"
      "\<forall>j < length (the_word g1). show_str h ! j = (if j \<in> set [0..<length (the_word g1)] \<and> known_of g1 (the_word g1 ! j) = IN_WORD
         then the_word g1 ! j else show_str g1 ! j)"
  proof -
    have "set [0..<length (the_word g1)] \<subseteq> {..<length (the_word g1)}" by auto
    from show_loop_ok [OF this g1(2)] show thesis using that by blast
  qed
  have w: "the_word h = the_word g1" "\<And>c. known_of h c = known_of g1 c"
    by (subst h(2), simp add: the_word_def known_of_def)+
  have "shown h" using h(4) by (simp add: shown_def w)
  moreover have "same_round g1 h" by (subst h(2)) (simp add: same_round_def)
  ultimately show ?thesis
    using g1(1) h(1,3) same_round_trans [OF g1(3)] by (auto simp: update_keypress_def word_facts(1) [OF z])
qed

section \<open>A frame\<close>

lemma half_seconds: "((x :: int) + 49) div 50 + (if x mod 50 = 0 then 1 else 0) = (x + 1 + 49) div 50"
proof -
  define q r where "q = x div 50" and "r = x mod 50"
  have x: "x = r + q * 50" and r: "0 \<le> r" "r < 50" by (simp_all add: q_def r_def)
  have "(x + 49) div 50 = q + (r + 49) div 50" using div_mult_self1 [of 50 "r + 49" q] by (simp add: x algebra_simps)
  moreover have "(x + 1 + 49) div 50 = q + 1 + r div 50" using div_mult_self1 [of 50 r "q + 1"] by (simp add: x algebra_simps)
  moreover have "(r + 49) div 50 = (if r = 0 then 0 else 1)" using r by (auto simp: div_eq_0_iff int_div_pos_eq [of "r + 49" 50 1 "r - 1"])
  moreover have "r div 50 = 0" using r by (simp add: div_eq_0_iff)
  ultimately show ?thesis unfolding r_def [symmetric] by simp
qed

lemma catch_up_ok:
  "now g \<le> target g \<Longrightarrow> clock_ok g \<Longrightarrow> target g = tick g \<Longrightarrow>
    now (catch_up g) = target g \<and> clock_ok (catch_up g) \<and> tick (catch_up g) = tick g \<and> ans (catch_up g) = ans g
    \<and> show_str (catch_up g) = show_str g \<and> letter_known (catch_up g) = letter_known g \<and> miss (catch_up g) = miss g
    \<and> wrong_guess (catch_up g) = wrong_guess g \<and> letter_pressed (catch_up g) = letter_pressed g"
proof (induction g rule: catch_up.induct)
  case (1 g)
  show ?case
  proof (cases "now g < target g")
    case True
    have e: "(now g + 49) div 50 + (if now g mod 50 = 0 then 1 else 0) = (now g + 1 + 49) div 50" by (rule half_seconds)
    have c: "count_down g = 50 - (now g + 49) div 50" "0 \<le> now g" "hit g = 0" using "1.prems"(2) by (simp_all add: clock_ok_def)
    have "count_down (one_tick g) = 50 - (now (one_tick g) + 49) div 50"
      unfolding one_tick_fields c(1) using e by linarith
    then have "clock_ok (one_tick g)" using c(2,3) True "1.prems"(3) by (simp add: clock_ok_def)
    moreover have "catch_up g = catch_up (one_tick g)" by (subst catch_up.simps) (simp add: True)
    ultimately show ?thesis using "1.IH" [OF True] "1.prems" True by simp
  next
    case False
    then have "catch_up g = g" by (subst catch_up.simps) simp
    then show ?thesis using "1.prems" False by simp
  qed
qed

text \<open>Two games that differ in nothing the invariant speaks about.\<close>

lemma game_ok_cong:
  assumes "ans h = ans g" "show_str h = show_str g" "letter_known h = letter_known g" "miss h = miss g"
    "wrong_guess h = wrong_guess g" "length (letter_pressed h) = length (letter_pressed g)"
  shows "round_ok h = round_ok g" "shown h = shown g" "the_word h = the_word g" "known_of h = known_of g"
    "wrong_letters h = wrong_letters g"
proof -
  show w: "the_word h = the_word g" "known_of h = known_of g" "wrong_letters h = wrong_letters g"
    using assms by (auto simp: the_word_def known_of_def wrong_letters_def)
  show "round_ok h = round_ok g" "shown h = shown g"
    using assms w by (simp_all add: round_ok_def shown_def arrays_ok_def letters_ok_def hidden_def)
qed

lemma frame_ok:
  assumes "game_ok g"
  shows "\<exists>h. frame garbage a b g = Inr h \<and> game_ok h \<and> (now g \<noteq> tick g \<longrightarrow> now h = tick g + int a + int b)"
proof (cases "now g = tick g")
  case True
  then show ?thesis using assms by (simp add: frame_def)
next
  case False
  let ?g3 = "g\<lparr>tick := tick g + int a + int b, target := tick g + int a + int b, redraw := False\<rparr>"
  have g: "round_ok g" "clock_ok g" using assms by (simp_all add: game_ok_def)
  have "round_ok ?g3" using g(1) game_ok_cong(1) [of ?g3 g] by simp
  then obtain g4 where g4: "update_keypress garbage ?g3 = Inr g4" "round_ok g4" "shown g4" "same_round ?g3 g4"
    using update_keypress_ok by blast
  have c4: "clock_ok g4" "now g4 \<le> target g4" "target g4 = tick g4" "target g4 = tick g + int a + int b"
    using g4(4) g(2) by (simp_all add: same_round_def clock_ok_def)
  note c = catch_up_ok [OF c4(2,1,3)]
  let ?h = "if redraw (catch_up g4) then (catch_up g4)\<lparr>num_draw := num_draw (catch_up g4) + 1\<rparr> else catch_up g4"
  have "frame garbage a b g = Inr ?h"
    using False g(2) g4(1) by (simp add: frame_def Let_def clock_ok_def)
  moreover have "round_ok ?h = round_ok g4" by (rule game_ok_cong(1)) (use c in simp_all)
  moreover have "shown ?h = shown g4" by (rule game_ok_cong(2)) (use c in simp_all)
  moreover have "clock_ok ?h" "now ?h = tick g + int a + int b" using c c4(4) by (auto simp: clock_ok_def)
  ultimately show ?thesis using g4(2,3) by (auto simp: game_ok_def)
qed

section \<open>Winning\<close>

lemma win_loop_eq:
  assumes "round_ok g" "set is \<subseteq> {..<length (the_word g)}"
  shows "win_loop is g = Inr (\<forall>i \<in> set is. known_of g (the_word g ! i) = IN_WORD)"
  using assms(2)
proof (induction "is")
  case (Cons i "is")
  have z: "0 \<in> set (ans g)" "length (letter_known g) = 26" using assms(1) by (simp_all add: round_ok_def letters_ok_def)
  have i: "i < length (the_word g)" using Cons.prems by auto
  show ?case
    using Cons known_at_letter [OF word_letter_code [OF assms(1) i] z(2)] word_facts(3) [OF z(1) i] by simp
qed simp

lemma check_win_eq:
  assumes "round_ok g"
  shows "check_win g = Inr (\<forall>c \<in> set (the_word g). known_of g c = IN_WORD)"
proof -
  have z: "0 \<in> set (ans g)" using assms by (simp add: round_ok_def)
  have "set [0..<length (the_word g)] \<subseteq> {..<length (the_word g)}" by auto
  from win_loop_eq [OF assms this] show ?thesis
    by (auto simp: check_win_def word_facts(1) [OF z] all_set_conv_all_nth)
qed

text \<open>The player has won when the line on the screen is the word.\<close>

lemma won_shown:
  assumes "game_ok g"
  shows "check_win g = Inr (take (length (the_word g)) (show_str g) = the_word g)"
proof -
  let ?w = "the_word g"
  have r: "round_ok g" "shown g" "hidden g" "length (show_str g) = 30" "length ?w \<le> 13" "\<forall>c \<in> set ?w. letter c"
    using assms by (simp_all add: game_ok_def round_ok_def arrays_ok_def)
  have "(\<forall>c \<in> set ?w. known_of g c = IN_WORD) \<longleftrightarrow> take (length ?w) (show_str g) = ?w"
  proof
    assume "\<forall>c \<in> set ?w. known_of g c = IN_WORD"
    then show "take (length ?w) (show_str g) = ?w"
      using r(2,4,5) by (intro nth_equalityI) (auto simp: shown_def)
  next
    assume t: "take (length ?w) (show_str g) = ?w"
    have "known_of g (?w ! j) = IN_WORD" if j: "j < length ?w" for j
    proof (rule ccontr)
      assume "known_of g (?w ! j) \<noteq> IN_WORD"
      then have "show_str g ! j = 95" using r(3) j by (simp add: hidden_def)
      moreover have "show_str g ! j = ?w ! j" using t j by (metis nth_take)
      ultimately have "letter 95" using r(6) j by (metis nth_mem)
      then show False by (simp add: letter_def)
    qed
    then show "\<forall>c \<in> set ?w. known_of g c = IN_WORD" by (auto simp: in_set_conv_nth)
  qed
  then show ?thesis using check_win_eq [OF r(1)] by simp
qed

section \<open>A new round\<close>

lemma sel_words_ok:
  "length sel_words = 126" "w \<in> set sel_words \<Longrightarrow> length w \<le> 13 \<and> (\<forall>c \<in> set w. letter (of_char c))"
proof -
  show "length sel_words = 126" by (simp add: sel_words_def)
  have "\<forall>w \<in> set sel_words. length w \<le> 13 \<and> (\<forall>c \<in> set w. letter (of_char c))"
    by (simp add: sel_words_def letter_def)
  then show "w \<in> set sel_words \<Longrightarrow> length w \<le> 13 \<and> (\<forall>c \<in> set w. letter (of_char c))" by blast
qed

lemma release_loop_ok:
  "set is \<subseteq> {..<26} \<Longrightarrow> \<exists>h. release_loop is g = Inr h \<and> h = g\<lparr>letter_pressed := letter_pressed h\<rparr>
    \<and> length (letter_pressed h) = length (letter_pressed g)"
proof (induction "is" arbitrary: g)
  case (Cons i "is" g)
  let ?g = "g\<lparr>letter_pressed := (letter_pressed g)[i := False]\<rparr>"
  obtain h where h: "release_loop is ?g = Inr h" "h = ?g\<lparr>letter_pressed := letter_pressed h\<rparr>"
      "length (letter_pressed h) = length (letter_pressed ?g)" using Cons.IH [of ?g] Cons.prems by auto
  have "h = g\<lparr>letter_pressed := letter_pressed h\<rparr>" by (subst h(2)) simp
  then show ?case using h Cons.prems by (auto simp: release_key_def)
qed simp

lemma reveal_loop_ok:
  assumes "\<forall>i \<in> set is. letter (ans g ! i) \<and> ans g ! i \<in> W" "length (letter_known g) = 26"
    "\<forall>i < 26. letter_known g ! i \<noteq> OUT_WORD \<and> (letter_known g ! i = IN_WORD \<longrightarrow> code i \<in> W)"
  shows "\<exists>h. reveal_loop is g = Inr h \<and> h = g\<lparr>letter_known := letter_known h, seed := seed h\<rparr>
    \<and> length (letter_known h) = 26
    \<and> (\<forall>i < 26. letter_known h ! i \<noteq> OUT_WORD \<and> (letter_known h ! i = IN_WORD \<longrightarrow> code i \<in> W))"
  using assms
proof (induction "is" arbitrary: g)
  case (Cons i "is" g)
  obtain r s where rand: "rand g = (r, g\<lparr>seed := s\<rparr>)" by (simp add: rand_def Let_def)
  have c: "letter (ans g ! i)" "ans g ! i \<in> W" using Cons.prems(1) by auto
  define j where "j = unat (ans g ! i) - 97"
  have j: "j < 26" "code j = ans g ! i" "sint (ans g ! i) - 97 = int j"
    using letter_index [OF c(1)] letter_code_index [OF c(1)] sint_letter [OF c(1)] by (simp_all add: j_def)
  let ?g = "if r mod 100 > 70 then g\<lparr>seed := s, letter_known := (letter_known g)[j := IN_WORD]\<rparr> else g\<lparr>seed := s\<rparr>"
  have run: "reveal_loop (i # is) g = reveal_loop is ?g"
    using rand j Cons.prems(2) by (simp add: array_put_def Let_def)
  have a: "ans ?g = ans g" "length (letter_known ?g) = 26" using Cons.prems(2) by auto
  have k: "\<forall>i < 26. letter_known ?g ! i \<noteq> OUT_WORD \<and> (letter_known ?g ! i = IN_WORD \<longrightarrow> code i \<in> W)"
    using Cons.prems(2,3) j c(2) by (auto simp: nth_list_update split: if_splits)
  obtain h where h: "reveal_loop is ?g = Inr h" "h = ?g\<lparr>letter_known := letter_known h, seed := seed h\<rparr>"
      "length (letter_known h) = 26"
      "\<forall>i < 26. letter_known h ! i \<noteq> OUT_WORD \<and> (letter_known h ! i = IN_WORD \<longrightarrow> code i \<in> W)"
    using Cons.IH [of ?g] Cons.prems(1) a k by auto
  have "h = g\<lparr>letter_known := letter_known h, seed := seed h\<rparr>" by (subst h(2)) simp
  then show ?case using run h by auto
qed simp

lemma hide_loop_ok:
  assumes "\<forall>i \<in> set is. i < length (show_str g) \<and> letter (ans g ! i)" "length (letter_known g) = 26"
  shows "\<exists>h. hide_loop is g = Inr h \<and> h = g\<lparr>show_str := show_str h\<rparr> \<and> length (show_str h) = length (show_str g)
    \<and> (\<forall>j < length (show_str g). show_str h ! j =
         (if j \<in> set is \<and> known_of g (ans g ! j) = UNKNOWN then 95 else show_str g ! j))"
  using assms
proof (induction "is" arbitrary: g)
  case (Cons i "is" g)
  let ?g = "if known_of g (ans g ! i) = UNKNOWN then g\<lparr>show_str := (show_str g)[i := 95]\<rparr> else g"
  have i: "i < length (show_str g)" "letter (ans g ! i)" using Cons.prems(1) by auto
  have run: "hide_loop (i # is) g = hide_loop is ?g"
    using known_at_letter [OF i(2) Cons.prems(2)] i(1) by (simp add: array_put_def)
  have s: "ans ?g = ans g" "letter_known ?g = letter_known g" "known_of ?g = known_of g" "length (show_str ?g) = length (show_str g)"
    by (auto simp: known_of_def)
  obtain h where h: "hide_loop is ?g = Inr h" "h = ?g\<lparr>show_str := show_str h\<rparr>" "length (show_str h) = length (show_str g)"
      "\<forall>j < length (show_str g). show_str h ! j = (if j \<in> set is \<and> known_of g (ans g ! j) = UNKNOWN then 95 else show_str ?g ! j)"
    using Cons.IH [of ?g] Cons.prems unfolding s by auto
  have "h = g\<lparr>show_str := show_str h\<rparr>" by (subst h(2)) simp
  moreover have "\<forall>j < length (show_str g). show_str h ! j =
      (if j \<in> set (i # is) \<and> known_of g (ans g ! j) = UNKNOWN then 95 else show_str g ! j)"
    using h(4) i(1) by (auto simp: nth_list_update)
  ultimately show ?case using run h(1,3) by auto
qed simp

lemma rand_index: "fst (rand g) mod 126 \<ge> 0" "nat (fst (rand g) mod 126) < 126"
  by (simp_all add: rand_def Let_def)

lemma the_word_of: "0 \<notin> set p \<Longrightarrow> ans g = p @ 0 # r \<Longrightarrow> the_word g = p"
proof -
  have "0 \<notin> set p \<Longrightarrow> takeWhile (\<lambda>c. c \<noteq> 0) (p @ 0 # r) = p" by (induction p) auto
  then show "0 \<notin> set p \<Longrightarrow> ans g = p @ 0 # r \<Longrightarrow> the_word g = p" by (simp add: the_word_def)
qed

lemma strcpy_word:
  assumes "0 \<in> set (ans g)" "length (the_word g) < length d"
  shows "strcpy d (ans g) = Inr (the_word g @ 0 # drop (Suc (length (the_word g))) d)"
proof -
  obtain rest where r: "ans g = the_word g @ 0 # rest" using the_word_split(1) [OF assms(1)] by blast
  have "take (length (the_word g) + 1) (ans g) = the_word g @ [0]" by (subst r) simp
  then show ?thesis using assms(2) by (simp add: strcpy_def word_facts(1) [OF assms(1)] splice_at_def)
qed

text \<open>A round before its word is shown: the word is chosen, its first letters are given away.\<close>

lemma hangman_word:
  assumes "arrays_ok g"
  obtains w g1 where "w \<in> set sel_words" "the_word g1 = map of_char w" "0 \<in> set (ans g1)"
    "hangman_init g = andThen (strcpy (show_str g1) (ans g1)) (\<lambda>s. hide_loop [0..<length w] (g1\<lparr>show_str := s\<rparr>))"
    "\<forall>i < 26. letter_known g1 ! i \<noteq> OUT_WORD \<and> (letter_known g1 ! i = IN_WORD \<longrightarrow> code i \<in> set (the_word g1))"
    "length (letter_known g1) = 26" "length (ans g1) = 30" "length (show_str g1) = 30" "length (letter_pressed g1) = 26"
    "length (wrong_guess g1) = 26" "miss g1 = 0" "now g1 = 0" "tick g1 = 0" "count_down g1 = 50" "hit g1 = 0"
proof -
  define g2 where "g2 = (reset_hit (reset_miss g))\<lparr>tick := 0, now := 0\<rparr>"
  obtain r g3 where rand: "rand g2 = (r, g3)" by fastforce
  define w where "w = sel_words ! nat (r mod 126)"
  have r: "nat (r mod 126) < 126" using rand_index(2) [of g2] rand by simp
  then have "w \<in> set sel_words" using sel_words_ok(1) by (simp add: w_def)
  then have w: "length w \<le> 13" "\<forall>c \<in> set w. letter (of_char c)" using sel_words_ok(2) by auto
  let ?w = "map of_char w :: u8 list"
  have z: "0 \<notin> set ?w" using w(2) by (auto simp: letter_def)
  have len: "length (ans g3) = 30" "length (show_str g3) = 30" "length (letter_pressed g3) = 26" "length (wrong_guess g3) = 26"
      "miss g3 = 0" "now g3 = 0" "tick g3 = 0" "hit g3 = 0"
    using assms rand by (auto simp: arrays_ok_def g2_def reset_hit_def reset_miss_def rand_def Let_def)
  define a where "a = ?w @ 0 # drop (Suc (length w)) (ans g3)"
  have cpy: "strcpy (ans g3) (?w @ [0]) = Inr a" using strcpy_NUL [OF z] w(1) len(1) by (simp add: a_def)
  define g4 where "g4 = g3\<lparr>ans := a, count_down := 50, letter_known := replicate 26 UNKNOWN\<rparr>"
  have "set [0..<26] \<subseteq> {..<26}" by auto
  from release_loop_ok [OF this, of g4] obtain g5 where g5: "release_loop [0..<26] g4 = Inr g5"
      "g5 = g4\<lparr>letter_pressed := letter_pressed g5\<rparr>" "length (letter_pressed g5) = length (letter_pressed g4)" by blast
  have g5f: "ans g5 = a" "letter_known g5 = replicate 26 UNKNOWN" by (subst g5(2), simp add: g4_def)+
  have a5: "the_word g5 = ?w" "0 \<in> set (ans g5)"
    using g5f the_word_of [OF z, of g5] by (simp_all add: a_def)
  have "ans g5 ! i = ?w ! i" if "i < length w" for i using word_facts(3) [OF a5(2), of i] a5(1) that by simp
  then have "\<forall>i \<in> set [0..<length w]. letter (ans g5 ! i) \<and> ans g5 ! i \<in> set ?w" using w(2) by auto
  then obtain g6 where g6: "reveal_loop [0..<length w] g5 = Inr g6" "g6 = g5\<lparr>letter_known := letter_known g6, seed := seed g6\<rparr>"
      "length (letter_known g6) = 26"
      "\<forall>i < 26. letter_known g6 ! i \<noteq> OUT_WORD \<and> (letter_known g6 ! i = IN_WORD \<longrightarrow> code i \<in> set ?w)"
    using reveal_loop_ok [of "[0..<length w]" g5 "set ?w"] g5f(2) by auto
  have f6: "ans g6 = a" "show_str g6 = show_str g3" "letter_pressed g6 = letter_pressed g5" "wrong_guess g6 = wrong_guess g3"
      "miss g6 = 0" "now g6 = 0" "tick g6 = 0" "count_down g6 = 50" "hit g6 = 0" "length (letter_pressed g5) = 26"
    using len g5(3) by (subst g6(2), (subst g5(2))?, simp add: g4_def)+ (use len g5(3) in \<open>simp add: g4_def\<close>)
  have n: "strlen (ans g5) = Inr (length w)" using word_facts(1) [OF a5(2)] a5(1) by simp
  have init: "hangman_init g = andThen (strcpy (show_str g6) (ans g6)) (\<lambda>s. hide_loop [0..<length w] (g6\<lparr>show_str := s\<rparr>))"
    using rand r sel_words_ok(1) cpy g5(1) n g6(1)
    unfolding hangman_init_def Let_def g2_def [symmetric] by (simp add: array_get_def w_def [symmetric] g4_def [symmetric])
  have "the_word g6 = ?w" "0 \<in> set (ans g6)" using a5 g5f(1) f6(1) by (simp_all add: the_word_def)
  moreover have "length a = 30" using w(1) len(1) by (simp add: a_def)
  ultimately show thesis using that [OF \<open>w \<in> set sel_words\<close> _ _ init] g6(3,4) f6 len by simp
qed

lemma hangman_init_ok:
  assumes "arrays_ok g"
  shows "\<exists>h. hangman_init g = Inr h \<and> game_ok h"
proof -
  obtain w g1 where b: "w \<in> set sel_words" "the_word g1 = map of_char w" "0 \<in> set (ans g1)"
    "hangman_init g = andThen (strcpy (show_str g1) (ans g1)) (\<lambda>s. hide_loop [0..<length w] (g1\<lparr>show_str := s\<rparr>))"
    "\<forall>i < 26. letter_known g1 ! i \<noteq> OUT_WORD \<and> (letter_known g1 ! i = IN_WORD \<longrightarrow> code i \<in> set (the_word g1))"
    "length (letter_known g1) = 26" "length (ans g1) = 30" "length (show_str g1) = 30" "length (letter_pressed g1) = 26"
    "length (wrong_guess g1) = 26" "miss g1 = 0" "now g1 = 0" "tick g1 = 0" "count_down g1 = 50" "hit g1 = 0"
    by (rule hangman_word [OF assms]) (rule that)
  have w: "length w \<le> 13" "\<forall>c \<in> set w. letter (of_char c)" using b(1) sel_words_ok(2) by auto
  let ?w = "map of_char w :: u8 list"
  have at: "ans g1 ! i = ?w ! i" if "i < length w" for i using word_facts(3) [OF b(3), of i] b(2) that by simp
  define s where "s = ?w @ 0 # drop (Suc (length w)) (show_str g1)"
  have cpy: "strcpy (show_str g1) (ans g1) = Inr s"
    using strcpy_word [OF b(3), of "show_str g1"] w(1) b(8) by (simp add: b(2) s_def)
  have s: "length s = 30" "s ! length w = 0" "\<And>j. j < length w \<Longrightarrow> s ! j = ?w ! j"
    using w(1) b(8) by (simp_all add: s_def nth_append)
  let ?g = "g1\<lparr>show_str := s\<rparr>"
  have "\<forall>i \<in> set [0..<length w]. i < length (show_str ?g) \<and> letter (ans ?g ! i)"
    using w s(1) at by auto
  then obtain h where h: "hide_loop [0..<length w] ?g = Inr h" "h = ?g\<lparr>show_str := show_str h\<rparr>" "length (show_str h) = 30"
      "\<forall>j < 30. show_str h ! j = (if j < length w \<and> known_of ?g (ans ?g ! j) = UNKNOWN then 95 else s ! j)"
    using hide_loop_ok [of "[0..<length w]" ?g] b(6) s(1) by auto
  have fh: "ans h = ans g1" "letter_known h = letter_known g1" "letter_pressed h = letter_pressed g1" "wrong_guess h = wrong_guess g1"
      "miss h = 0" "now h = 0" "tick h = 0" "count_down h = 50" "hit h = 0"
    using b by (subst h(2), simp)+
  have wh: "the_word h = ?w" "0 \<in> set (ans h)" using fh(1) b(2,3) by (simp_all add: the_word_def)
  have kh: "known_of h c = known_of g1 c" for c by (simp add: known_of_def fh)
  have no: "wrong_letters h = {}" using b(5) by (auto simp: wrong_letters_def fh)
  have sh: "show_str h ! j = (if known_of g1 (?w ! j) = IN_WORD then ?w ! j else 95)" if j: "j < length w" for j
  proof -
    have "letter (?w ! j)" using w(2) j by simp
    then have "known_of g1 (?w ! j) \<noteq> OUT_WORD" using b(5) letter_index by (simp add: known_of_def)
    then have "known_of g1 (?w ! j) = UNKNOWN \<or> known_of g1 (?w ! j) = IN_WORD" by (cases "known_of g1 (?w ! j)") auto
    moreover have "known_of ?g (ans ?g ! j) = known_of g1 (?w ! j)" using at [OF j] by (simp add: known_of_def)
    ultimately show ?thesis using h(4) j w(1) s(3) [OF j] by auto
  qed
  have "hidden h" using sh h(4) s(2) w(1) by (simp add: hidden_def wh kh)
  moreover have "shown h" using sh by (simp add: shown_def wh kh)
  moreover have "letters_ok h" using b(5,6) fh b(2) by (simp add: letters_ok_def no wh)
  moreover have "arrays_ok h" using h(3) fh b(7-10) b(6) by (simp add: arrays_ok_def)
  moreover have "clock_ok h" using fh by (simp add: clock_ok_def)
  moreover have "hangman_init g = Inr h" using b(4) cpy h(1) by simp
  ultimately show ?thesis using wh w by (auto simp: game_ok_def round_ok_def)
qed

text \<open>The loop passes over the keys that are not pressed.\<close>

lemma key_loop_skip:
  assumes "length (letter_pressed g) = 26" "k \<le> i" "i \<le> 26" "\<forall>j. k \<le> j \<and> j < i \<longrightarrow> \<not> letter_pressed g ! j"
  shows "key_loop garbage k g = key_loop garbage i g"
  using assms(2,4)
proof (induction "i - k" arbitrary: k)
  case (Suc d k)
  have "k < i" using Suc.hyps(2) by simp
  then have "k < 26" "\<not> letter_pressed g ! k" using Suc.prems(2) assms(3) by auto
  then have "key_loop garbage k g = key_loop garbage (k + 1) g"
    using assms(1) by (subst key_loop.simps) (simp add: query_key_def array_get_def)
  then show ?case using Suc.hyps(1) [of "k + 1"] Suc.hyps(2) Suc.prems by simp
qed simp

lemma key_loop_one:
  assumes "round_ok g" "i < 26" "letter_pressed g ! i" "\<forall>j < 26. j \<noteq> i \<longrightarrow> \<not> letter_pressed g ! j" "letter_known g ! i = UNKNOWN"
  shows "key_loop garbage 0 g = guess (garbage i) i (g\<lparr>letter_pressed := replicate 26 False\<rparr>)"
proof -
  have len: "length (letter_pressed g) = 26" "length (letter_known g) = 26"
    using assms(1) by (simp_all add: round_ok_def arrays_ok_def letters_ok_def)
  have r: "(letter_pressed g)[i := False] = replicate 26 False"
    using assms(2,4) len by (intro nth_equalityI) (auto simp: nth_list_update)
  let ?g = "g\<lparr>letter_pressed := replicate 26 False\<rparr>"
  have "round_ok ?g" using round_ok_release [OF assms(1), of i False] r by simp
  from guess_eq [OF this assms(2), of "garbage i"] obtain h where
    h: "guess (garbage i) i ?g = Inr h" "letter_pressed h = replicate 26 False"
    using assms(5) by (auto simp: found_key_def missed_key_def)
  have stop: "key_loop garbage (i + 1) h = Inr h"
    using key_loop_skip [of h "i + 1" 26 garbage] h(2) assms(2) key_loop.simps [of garbage 26 h] by simp
  have "key_loop garbage 0 g = key_loop garbage i g" using key_loop_skip [of g 0 i garbage] len(1) assms(2,4) by simp
  also have "\<dots> = andThen (guess (garbage i) i ?g) (key_loop garbage (i + 1))"
    using assms(2,3,5) len r by (subst key_loop.simps) (simp add: query_key_def release_key_def array_get_def)
  finally show ?thesis using h(1) stop by simp
qed

section \<open>The loop\<close>

lemma length_press_loop [simp]: "length (press_loop c is p) = length p"
  by (induction c "is" p rule: press_loop.induct) simp_all

lemma interrupts_ok: "game_ok g \<Longrightarrow> game_ok (timer_event g)" "game_ok g \<Longrightarrow> game_ok (keyboard_event c g)"
proof -
  have "round_ok (timer_event g) = round_ok g" "shown (timer_event g) = shown g"
    by (rule game_ok_cong; simp add: timer_event_def)+
  then show "game_ok g \<Longrightarrow> game_ok (timer_event g)" by (simp add: game_ok_def clock_ok_def timer_event_def)
  have "round_ok (keyboard_event c g) = round_ok g" "shown (keyboard_event c g) = shown g"
    by (rule game_ok_cong; simp add: keyboard_event_def press_key_def)+
  then show "game_ok g \<Longrightarrow> game_ok (keyboard_event c g)"
    by (simp add: game_ok_def clock_ok_def keyboard_event_def press_key_def)
qed

lemma game_ok_arrays: "game_ok g \<Longrightarrow> arrays_ok g"
  by (simp add: game_ok_def round_ok_def)

lemma playing_eq:
  "game_ok g \<Longrightarrow> playing g = Inr (take (length (the_word g)) (show_str g) \<noteq> the_word g \<and> count_down g > 0 \<and> miss g < 10)"
  by (simp add: playing_def won_shown get_miss_def)

lemma main_loop_ok: "main_loop q r \<Longrightarrow> game_ok (snd q) \<Longrightarrow> game_ok (snd r)"
proof (induction rule: main_loop.induct)
  case (next_frame g garbage a b g')
  then show ?case using frame_ok [of g garbage a b] by simp
next
  case (restart g g' e)
  then show ?case using hangman_init_ok [OF game_ok_arrays, of g] by simp
qed (simp_all add: interrupts_ok)

lemma main_loops_ok: "main_loop\<^sup>*\<^sup>* q r \<Longrightarrow> game_ok (snd q) \<Longrightarrow> game_ok (snd r)"
  by (induction rule: rtranclp_induct) (auto intro: main_loop_ok)

section \<open>Properties\<close>

text \<open>
  C32. The game is safe and the screen is right: from a first \<^verbatim>\<open>hangman_init\<close> on, through any interleaving
  of ticks, keys, frames and new rounds, no assertion fails and no array is left; the line on the screen
  shows the letters found and hides the others; the misses are the number of wrong letters tried, all
  of them in \<^verbatim>\<open>wrong_guess\<close>; the player has won exactly when the line is the word; and a round
  that is over has one of the three endings.
\<close>

theorem hangman_invariant:
  assumes "arrays_ok g0" "hangman_init g0 = Inr g" "main_loop\<^sup>*\<^sup>* (Round, g) (p, h)"
  shows "game_ok h \<and> check_win h = Inr (take (length (the_word h)) (show_str h) = the_word h)
    \<and> miss h = int (card {i. i < 26 \<and> letter_known h ! i = OUT_WORD})
    \<and> (\<exists>b. playing h = Inr b) \<and> (\<exists>h'. frame garbage a b h = Inr h') \<and> (\<exists>h'. hangman_init h = Inr h')
    \<and> (playing h = Inr False \<longrightarrow> ending_of h \<in> {Inr Time_up, Inr Won, Inr Hung})"
proof -
  have "game_ok g" using hangman_init_ok [OF assms(1)] assms(2) by auto
  then have ok: "game_ok h" using main_loops_ok [OF assms(3)] by simp
  have "miss h = int (card {i. i < 26 \<and> letter_known h ! i = OUT_WORD})"
    using ok by (simp add: game_ok_def round_ok_def letters_ok_def wrong_letters_def)
  moreover have "playing h = Inr False \<Longrightarrow> ending_of h \<in> {Inr Time_up, Inr Won, Inr Hung}"
    using playing_eq [OF ok] won_shown [OF ok] by (auto simp: ending_of_def get_miss_def)
  ultimately show ?thesis
    using ok won_shown [OF ok] playing_eq [OF ok] frame_ok [OF ok] hangman_init_ok [OF game_ok_arrays [OF ok]] by blast
qed

definition power_on :: game where
  "power_on = \<lparr>seed = 0, letter_pressed = replicate 26 False, key_code = 0, letter_known = replicate 26 UNKNOWN, hit = 0, miss = 0,
     wrong_guess = replicate 26 0, ans = replicate 30 0, show_str = replicate 30 0, count_down = 0, tick = 0, now = 0, target = 0,
     num_draw = 0, real_fps = 0, redraw = False\<rparr>"

lemma power_on_arrays: "arrays_ok power_on"
  by (simp add: arrays_ok_def power_on_def)

theorem hangman_invariant_witness:
  "\<exists>g. hangman_init power_on = Inr g \<and> game_ok (timer_event (keyboard_event 30 g))"
proof -
  obtain g where g: "hangman_init power_on = Inr g" using hangman_init_ok [OF power_on_arrays] by blast
  have "main_loop\<^sup>*\<^sup>* (Round, g) (Round, timer_event (keyboard_event 30 g))"
    by (rule rtranclp.intros(2) [OF r_into_rtranclp]) (rule main_loop.key, rule main_loop.timer)
  with g hangman_invariant [OF power_on_arrays g] show ?thesis by blast
qed

text \<open>
  C34. Every round ends: the countdown is 50 minus the half seconds that have begun, so that the frame that
  sees tick 2451 is the last one, whatever keys are pressed, and none before it runs out of time.
\<close>

theorem round_ends:
  assumes "game_ok g" "frame garbage a b g = Inr h"
  shows "(count_down h > 0 \<longleftrightarrow> now h \<le> 2450) \<and> (2451 \<le> tick g \<longrightarrow> playing h = Inr False)"
proof -
  obtain h': "game_ok h" "now g \<noteq> tick g \<longrightarrow> now h = tick g + int a + int b"
    using frame_ok [OF assms(1), of garbage a b] assms(2) by auto
  have c: "count_down h = 50 - (now h + 49) div 50" using h'(1) by (simp add: game_ok_def clock_ok_def)
  have pos: "count_down h > 0 \<longleftrightarrow> now h \<le> 2450" unfolding c by linarith
  have "now g = tick g \<Longrightarrow> h = g" using assms(2) by (simp add: frame_def)
  then have "2451 \<le> tick g \<Longrightarrow> now h > 2450" using h'(2) by auto
  then show ?thesis using pos playing_eq [OF h'(1)] by auto
qed

theorem round_ends_witness:
  "\<exists>g h. hangman_init power_on = Inr g \<and> frame (\<lambda>_. True) 0 0 ((timer_event ^^ 3000) g) = Inr h \<and> playing h = Inr False"
proof -
  obtain g where g: "hangman_init power_on = Inr g" "game_ok g" using hangman_init_ok [OF power_on_arrays] by blast
  have "tick ((timer_event ^^ n) g) = tick g + int n" for n by (induction n) (simp_all add: timer_event_def)
  moreover have "game_ok ((timer_event ^^ n) g)" for n by (induction n) (use g(2) in \<open>simp_all add: interrupts_ok\<close>)
  ultimately have ok: "game_ok ((timer_event ^^ n) g) \<and> tick ((timer_event ^^ n) g) = tick g + int n" for n by blast
  have "0 \<le> tick g" using g(2) by (simp add: game_ok_def clock_ok_def)
  then have t: "2451 \<le> tick ((timer_event ^^ 3000) g)" using ok [of 3000] by simp
  obtain h where "frame (\<lambda>_. True) 0 0 ((timer_event ^^ 3000) g) = Inr h" using frame_ok ok by blast
  with round_ends [OF conjunct1 [OF ok [of 3000]] this] t g(1) show ?thesis by blast
qed

text \<open>
  A new key in a frame: a letter of the word is marked and appears at each of its places, and nowhere
  else does the line change; a letter that is not in it is counted as a miss only if the uninitialised
  variable \<^verbatim>\<open>found\<close> happens to hold false, and is forgotten otherwise.
\<close>

lemma new_key:
  assumes "game_ok g" "i < 26" "letter_pressed g ! i" "\<forall>j < 26. j \<noteq> i \<longrightarrow> \<not> letter_pressed g ! j" "letter_known g ! i = UNKNOWN"
  shows "\<exists>h. update_keypress garbage g = Inr h \<and> letter_pressed h = replicate 26 False
    \<and> miss h = miss g + (if code i \<in> set (the_word g) \<or> garbage i then 0 else 1)
    \<and> letter_known h = (letter_known g)[i := (if code i \<in> set (the_word g) then IN_WORD else if garbage i then UNKNOWN else OUT_WORD)]
    \<and> (\<forall>j < length (the_word g). show_str h ! j =
        (if known_of g (the_word g ! j) = IN_WORD \<or> the_word g ! j = code i then the_word g ! j else 95))"
proof -
  have r: "round_ok g" using assms(1) by (simp add: game_ok_def)
  let ?g = "g\<lparr>letter_pressed := replicate 26 False\<rparr>"
  have rg: "round_ok ?g" "the_word ?g = the_word g"
    using game_ok_cong(1,3) [of ?g g] r by (simp_all add: round_ok_def arrays_ok_def)
  have run: "key_loop garbage 0 g = Inr (if code i \<in> set (the_word g) then found_key i ?g else if garbage i then ?g else missed_key i ?g)"
    using key_loop_one [OF r assms(2-5)] guess_eq [OF rg(1) assms(2)] assms(5) rg(2) by simp
  obtain h where h: "update_keypress garbage g = Inr h" "round_ok h" "shown h" "same_round g h"
    using update_keypress_ok [OF r] by blast
  define g1 where "g1 = (if code i \<in> set (the_word g) then found_key i ?g else if garbage i then ?g else missed_key i ?g)"
  have g1: "key_loop garbage 0 g = Inr g1" "ans g1 = ans g" "miss g1 = miss g + (if code i \<in> set (the_word g) \<or> garbage i then 0 else 1)"
    "letter_pressed g1 = replicate 26 False" "letter_known g1 = (letter_known g)[i := (if code i \<in> set (the_word g) then IN_WORD
       else if garbage i then UNKNOWN else OUT_WORD)]"
    using run assms(5) list_update_id [of "letter_known g" i] by (auto simp: g1_def found_key_def missed_key_def)
  obtain n where "show_loop [0..<n] g1 = Inr h" using h(1) g1(1) by (auto simp: update_keypress_def andThen_eq_Inr)
  then have hh: "h = g1\<lparr>show_str := show_str h\<rparr>" by (rule show_loop_frame)
  have f: "letter_pressed h = letter_pressed g1" "miss h = miss g1" "letter_known h = letter_known g1"
    by (subst hh, simp)+
  have w: "the_word h = the_word g" using h(4) by (simp add: the_word_def same_round_def)
  have k: "known_of h c = IN_WORD \<longleftrightarrow> known_of g c = IN_WORD \<or> c = code i" if "c \<in> set (the_word g)" for c
    using known_of_update [of c i g] that assms(2,5) r f(3) g1(5) unat_code [OF assms(2)]
    by (auto simp: known_of_def round_ok_def letters_ok_def split: if_splits)
  have "show_str h ! j = (if known_of g (the_word g ! j) = IN_WORD \<or> the_word g ! j = code i then the_word g ! j else 95)"
    if "j < length (the_word g)" for j
    using h(2,3) k [of "the_word g ! j"] that by (auto simp: round_ok_def hidden_def shown_def w)
  then show ?thesis using h(1) f g1 by simp
qed

definition two_letters :: game where
  "two_letters = power_on\<lparr>ans := [97, 98] @ replicate 28 0, show_str := [95, 95] @ replicate 28 0, count_down := 50,
     letter_pressed := (replicate 26 False)[2 := True]\<rparr>"

lemma two_letters: "game_ok two_letters" "the_word two_letters = [97, 98]"
proof -
  show w: "the_word two_letters = [97, 98]" by (simp add: the_word_def two_letters_def)
  have "wrong_letters two_letters = {}" by (auto simp: wrong_letters_def two_letters_def power_on_def)
  moreover have "known_of two_letters 97 = UNKNOWN" "known_of two_letters 98 = UNKNOWN"
    by (simp_all add: known_of_def two_letters_def power_on_def)
  ultimately show "game_ok two_letters"
    unfolding game_ok_def round_ok_def letters_ok_def hidden_def shown_def w
    by (simp add: two_letters_def power_on_def arrays_ok_def clock_ok_def letter_def less_Suc_eq all_conj_distrib)
qed

lemma new_key_witness:
  "\<exists>h. update_keypress (\<lambda>_. True) two_letters = Inr h \<and> miss h = 0 \<and> letter_pressed h = replicate 26 False"
proof -
  have "letter_pressed two_letters ! 2" "\<forall>j < 26. j \<noteq> 2 \<longrightarrow> \<not> letter_pressed two_letters ! j"
    "letter_known two_letters ! 2 = UNKNOWN" "miss two_letters = 0"
    by (simp_all add: two_letters_def power_on_def nth_list_update)
  with new_key [OF two_letters(1), of 2 "\<lambda>_. True"] show ?thesis by auto
qed

end
