(* ===== verification/Video.thy ===== *)
theory Video
  imports Game_Inv
begin

text \<open>
  The drawing of the game: \<^verbatim>\<open>inc/video.h\<close>, \<^verbatim>\<open>game/video.c\<close>, \<^verbatim>\<open>game/draw.c\<close> and the font of \<^verbatim>\<open>game/font.c\<close>. The
  state is the buffer \<^verbatim>\<open>vbuf\<close> and what the system call \<^verbatim>\<open>sys_display\<close> last copied to the screen. A
  coordinate is an integer, x counts the rows from the top and y the columns, as in the code. The
  reference is a picture made of layers of glyphs.
\<close>

unbundle bit_operations_syntax

section \<open>game/font.c\<close>

definition font8x8_basic :: "u8 list list" where
  "font8x8_basic =
   [[0x00, 0x00, 0x00, 0x00, 0x00, 0x00, 0x00, 0x00], [0x00, 0x00, 0x00, 0x00, 0x00, 0x00, 0x00, 0x00],
    [0x00, 0x00, 0x00, 0x00, 0x00, 0x00, 0x00, 0x00], [0x00, 0x00, 0x00, 0x00, 0x00, 0x00, 0x00, 0x00],
    [0x00, 0x00, 0x00, 0x00, 0x00, 0x00, 0x00, 0x00], [0x00, 0x00, 0x00, 0x00, 0x00, 0x00, 0x00, 0x00],
    [0x00, 0x00, 0x00, 0x00, 0x00, 0x00, 0x00, 0x00], [0x00, 0x00, 0x00, 0x00, 0x00, 0x00, 0x00, 0x00],
    [0x00, 0x00, 0x00, 0x00, 0x00, 0x00, 0x00, 0x00], [0x00, 0x00, 0x00, 0x00, 0x00, 0x00, 0x00, 0x00],
    [0x00, 0x00, 0x00, 0x00, 0x00, 0x00, 0x00, 0x00], [0x00, 0x00, 0x00, 0x00, 0x00, 0x00, 0x00, 0x00],
    [0x00, 0x00, 0x00, 0x00, 0x00, 0x00, 0x00, 0x00], [0x00, 0x00, 0x00, 0x00, 0x00, 0x00, 0x00, 0x00],
    [0x00, 0x00, 0x00, 0x00, 0x00, 0x00, 0x00, 0x00], [0x00, 0x00, 0x00, 0x00, 0x00, 0x00, 0x00, 0x00],
    [0x00, 0x00, 0x00, 0x00, 0x00, 0x00, 0x00, 0x00], [0x00, 0x00, 0x00, 0x00, 0x00, 0x00, 0x00, 0x00],
    [0x00, 0x00, 0x00, 0x00, 0x00, 0x00, 0x00, 0x00], [0x00, 0x00, 0x00, 0x00, 0x00, 0x00, 0x00, 0x00],
    [0x00, 0x00, 0x00, 0x00, 0x00, 0x00, 0x00, 0x00], [0x00, 0x00, 0x00, 0x00, 0x00, 0x00, 0x00, 0x00],
    [0x00, 0x00, 0x00, 0x00, 0x00, 0x00, 0x00, 0x00], [0x00, 0x00, 0x00, 0x00, 0x00, 0x00, 0x00, 0x00],
    [0x00, 0x00, 0x00, 0x00, 0x00, 0x00, 0x00, 0x00], [0x00, 0x00, 0x00, 0x00, 0x00, 0x00, 0x00, 0x00],
    [0x00, 0x00, 0x00, 0x00, 0x00, 0x00, 0x00, 0x00], [0x00, 0x00, 0x00, 0x00, 0x00, 0x00, 0x00, 0x00],
    [0x00, 0x00, 0x00, 0x00, 0x00, 0x00, 0x00, 0x00], [0x00, 0x00, 0x00, 0x00, 0x00, 0x00, 0x00, 0x00],
    [0x00, 0x00, 0x00, 0x00, 0x00, 0x00, 0x00, 0x00], [0x00, 0x00, 0x00, 0x00, 0x00, 0x00, 0x00, 0x00],
    [0x00, 0x00, 0x00, 0x00, 0x00, 0x00, 0x00, 0x00], [0x18, 0x3C, 0x3C, 0x18, 0x18, 0x00, 0x18, 0x00],
    [0x36, 0x36, 0x00, 0x00, 0x00, 0x00, 0x00, 0x00], [0x36, 0x36, 0x7F, 0x36, 0x7F, 0x36, 0x36, 0x00],
    [0x0C, 0x3E, 0x03, 0x1E, 0x30, 0x1F, 0x0C, 0x00], [0x00, 0x63, 0x33, 0x18, 0x0C, 0x66, 0x63, 0x00],
    [0x1C, 0x36, 0x1C, 0x6E, 0x3B, 0x33, 0x6E, 0x00], [0x06, 0x06, 0x03, 0x00, 0x00, 0x00, 0x00, 0x00],
    [0x18, 0x0C, 0x06, 0x06, 0x06, 0x0C, 0x18, 0x00], [0x06, 0x0C, 0x18, 0x18, 0x18, 0x0C, 0x06, 0x00],
    [0x00, 0x66, 0x3C, 0xFF, 0x3C, 0x66, 0x00, 0x00], [0x00, 0x0C, 0x0C, 0x3F, 0x0C, 0x0C, 0x00, 0x00],
    [0x00, 0x00, 0x00, 0x00, 0x00, 0x0C, 0x0C, 0x06], [0x00, 0x00, 0x00, 0x3F, 0x00, 0x00, 0x00, 0x00],
    [0x00, 0x00, 0x00, 0x00, 0x00, 0x0C, 0x0C, 0x00], [0x60, 0x30, 0x18, 0x0C, 0x06, 0x03, 0x01, 0x00],
    [0x3E, 0x63, 0x73, 0x7B, 0x6F, 0x67, 0x3E, 0x00], [0x0C, 0x0E, 0x0C, 0x0C, 0x0C, 0x0C, 0x3F, 0x00],
    [0x1E, 0x33, 0x30, 0x1C, 0x06, 0x33, 0x3F, 0x00], [0x1E, 0x33, 0x30, 0x1C, 0x30, 0x33, 0x1E, 0x00],
    [0x38, 0x3C, 0x36, 0x33, 0x7F, 0x30, 0x78, 0x00], [0x3F, 0x03, 0x1F, 0x30, 0x30, 0x33, 0x1E, 0x00],
    [0x1C, 0x06, 0x03, 0x1F, 0x33, 0x33, 0x1E, 0x00], [0x3F, 0x33, 0x30, 0x18, 0x0C, 0x0C, 0x0C, 0x00],
    [0x1E, 0x33, 0x33, 0x1E, 0x33, 0x33, 0x1E, 0x00], [0x1E, 0x33, 0x33, 0x3E, 0x30, 0x18, 0x0E, 0x00],
    [0x00, 0x0C, 0x0C, 0x00, 0x00, 0x0C, 0x0C, 0x00], [0x00, 0x0C, 0x0C, 0x00, 0x00, 0x0C, 0x0C, 0x06],
    [0x18, 0x0C, 0x06, 0x03, 0x06, 0x0C, 0x18, 0x00], [0x00, 0x00, 0x3F, 0x00, 0x00, 0x3F, 0x00, 0x00],
    [0x06, 0x0C, 0x18, 0x30, 0x18, 0x0C, 0x06, 0x00], [0x1E, 0x33, 0x30, 0x18, 0x0C, 0x00, 0x0C, 0x00],
    [0x3E, 0x63, 0x7B, 0x7B, 0x7B, 0x03, 0x1E, 0x00], [0x0C, 0x1E, 0x33, 0x33, 0x3F, 0x33, 0x33, 0x00],
    [0x3F, 0x66, 0x66, 0x3E, 0x66, 0x66, 0x3F, 0x00], [0x3C, 0x66, 0x03, 0x03, 0x03, 0x66, 0x3C, 0x00],
    [0x1F, 0x36, 0x66, 0x66, 0x66, 0x36, 0x1F, 0x00], [0x7F, 0x46, 0x16, 0x1E, 0x16, 0x46, 0x7F, 0x00],
    [0x7F, 0x46, 0x16, 0x1E, 0x16, 0x06, 0x0F, 0x00], [0x3C, 0x66, 0x03, 0x03, 0x73, 0x66, 0x7C, 0x00],
    [0x33, 0x33, 0x33, 0x3F, 0x33, 0x33, 0x33, 0x00], [0x1E, 0x0C, 0x0C, 0x0C, 0x0C, 0x0C, 0x1E, 0x00],
    [0x78, 0x30, 0x30, 0x30, 0x33, 0x33, 0x1E, 0x00], [0x67, 0x66, 0x36, 0x1E, 0x36, 0x66, 0x67, 0x00],
    [0x0F, 0x06, 0x06, 0x06, 0x46, 0x66, 0x7F, 0x00], [0x63, 0x77, 0x7F, 0x7F, 0x6B, 0x63, 0x63, 0x00],
    [0x63, 0x67, 0x6F, 0x7B, 0x73, 0x63, 0x63, 0x00], [0x1C, 0x36, 0x63, 0x63, 0x63, 0x36, 0x1C, 0x00],
    [0x3F, 0x66, 0x66, 0x3E, 0x06, 0x06, 0x0F, 0x00], [0x1E, 0x33, 0x33, 0x33, 0x3B, 0x1E, 0x38, 0x00],
    [0x3F, 0x66, 0x66, 0x3E, 0x36, 0x66, 0x67, 0x00], [0x1E, 0x33, 0x07, 0x0E, 0x38, 0x33, 0x1E, 0x00],
    [0x3F, 0x2D, 0x0C, 0x0C, 0x0C, 0x0C, 0x1E, 0x00], [0x33, 0x33, 0x33, 0x33, 0x33, 0x33, 0x3F, 0x00],
    [0x33, 0x33, 0x33, 0x33, 0x33, 0x1E, 0x0C, 0x00], [0x63, 0x63, 0x63, 0x6B, 0x7F, 0x77, 0x63, 0x00],
    [0x63, 0x63, 0x36, 0x1C, 0x1C, 0x36, 0x63, 0x00], [0x33, 0x33, 0x33, 0x1E, 0x0C, 0x0C, 0x1E, 0x00],
    [0x7F, 0x63, 0x31, 0x18, 0x4C, 0x66, 0x7F, 0x00], [0x1E, 0x06, 0x06, 0x06, 0x06, 0x06, 0x1E, 0x00],
    [0x03, 0x06, 0x0C, 0x18, 0x30, 0x60, 0x40, 0x00], [0x1E, 0x18, 0x18, 0x18, 0x18, 0x18, 0x1E, 0x00],
    [0x08, 0x1C, 0x36, 0x63, 0x00, 0x00, 0x00, 0x00], [0x00, 0x00, 0x00, 0x00, 0x00, 0x00, 0x00, 0x7E],
    [0x0C, 0x0C, 0x18, 0x00, 0x00, 0x00, 0x00, 0x00], [0x00, 0x00, 0x1E, 0x30, 0x3E, 0x33, 0x6E, 0x00],
    [0x07, 0x06, 0x06, 0x3E, 0x66, 0x66, 0x3B, 0x00], [0x00, 0x00, 0x1E, 0x33, 0x03, 0x33, 0x1E, 0x00],
    [0x38, 0x30, 0x30, 0x3E, 0x33, 0x33, 0x6E, 0x00], [0x00, 0x00, 0x1E, 0x33, 0x3F, 0x03, 0x1E, 0x00],
    [0x1C, 0x36, 0x06, 0x0F, 0x06, 0x06, 0x0F, 0x00], [0x00, 0x00, 0x6E, 0x33, 0x33, 0x3E, 0x30, 0x1F],
    [0x07, 0x06, 0x36, 0x6E, 0x66, 0x66, 0x67, 0x00], [0x0C, 0x00, 0x0E, 0x0C, 0x0C, 0x0C, 0x1E, 0x00],
    [0x30, 0x00, 0x30, 0x30, 0x30, 0x33, 0x33, 0x1E], [0x07, 0x06, 0x66, 0x36, 0x1E, 0x36, 0x67, 0x00],
    [0x0E, 0x0C, 0x0C, 0x0C, 0x0C, 0x0C, 0x1E, 0x00], [0x00, 0x00, 0x33, 0x7F, 0x7F, 0x6B, 0x63, 0x00],
    [0x00, 0x00, 0x1F, 0x33, 0x33, 0x33, 0x33, 0x00], [0x00, 0x00, 0x1E, 0x33, 0x33, 0x33, 0x1E, 0x00],
    [0x00, 0x00, 0x3B, 0x66, 0x66, 0x3E, 0x06, 0x0F], [0x00, 0x00, 0x6E, 0x33, 0x33, 0x3E, 0x30, 0x78],
    [0x00, 0x00, 0x3B, 0x6E, 0x66, 0x06, 0x0F, 0x00], [0x00, 0x00, 0x3E, 0x03, 0x1E, 0x30, 0x1F, 0x00],
    [0x08, 0x0C, 0x3E, 0x0C, 0x0C, 0x2C, 0x18, 0x00], [0x00, 0x00, 0x33, 0x33, 0x33, 0x33, 0x6E, 0x00],
    [0x00, 0x00, 0x33, 0x33, 0x33, 0x1E, 0x0C, 0x00], [0x00, 0x00, 0x63, 0x6B, 0x7F, 0x7F, 0x36, 0x00],
    [0x00, 0x00, 0x63, 0x36, 0x1C, 0x36, 0x63, 0x00], [0x00, 0x00, 0x33, 0x33, 0x33, 0x3E, 0x30, 0x1F],
    [0x00, 0x00, 0x3F, 0x19, 0x0C, 0x26, 0x3F, 0x00], [0x38, 0x0C, 0x0C, 0x07, 0x0C, 0x0C, 0x38, 0x00],
    [0x18, 0x18, 0x18, 0x00, 0x18, 0x18, 0x18, 0x00], [0x07, 0x0C, 0x0C, 0x38, 0x0C, 0x0C, 0x07, 0x00],
    [0x6E, 0x3B, 0x00, 0x00, 0x00, 0x00, 0x00, 0x00], [0x00, 0x00, 0x00, 0x00, 0x00, 0x00, 0x00, 0x00]]"

section \<open>inc/video.h\<close>

definition SCR_WIDTH :: int where [simp]: "SCR_WIDTH = 320"
definition SCR_HEIGHT :: int where [simp]: "SCR_HEIGHT = 200"
definition SCR_SIZE :: nat where [simp]: "SCR_SIZE = 320 * 200"

record video =
  vbuf :: "u8 list"
  display :: "u8 list"

lemma video_updates [simp]: "v\<lparr>vbuf := a, display := b\<rparr> = \<lparr>vbuf = a, display = b\<rparr>"
  by (cases v) simp

definition draw_pixel :: "int \<Rightarrow> int \<Rightarrow> int \<Rightarrow> video \<Rightarrow> video result" where
  "draw_pixel x y color v =
     andThen (my_assert ''x >= 0 && y >= 0 && x < SCR_HEIGHT && y < SCR_WIDTH''
                (x \<ge> 0 \<and> y \<ge> 0 \<and> x < SCR_HEIGHT \<and> y < SCR_WIDTH)) (\<lambda>_.
     andThen (array_put ''vbuf'' (vbuf v) (nat (push_bit 8 x + push_bit 6 x + y)) (of_int color)) (\<lambda>b.
       Inr (v\<lparr>vbuf := b\<rparr>)))"

section \<open>game/video.c\<close>

definition prepare_buffer :: "video \<Rightarrow> video" where
  "prepare_buffer v = v\<lparr>vbuf := replicate SCR_SIZE 0\<rparr>"

text \<open>The system call copies the \<^verbatim>\<open>SCR_SIZE\<close> bytes of the buffer to the video memory.\<close>

definition display_buffer :: "video \<Rightarrow> video" where
  "display_buffer v = v\<lparr>display := vbuf v\<rparr>"

text \<open>The two loops of \<^verbatim>\<open>draw_character\<close>; an element of the font is a signed \<^verbatim>\<open>char\<close>.\<close>

fun draw_bits :: "u8 \<Rightarrow> nat list \<Rightarrow> int \<Rightarrow> int \<Rightarrow> int \<Rightarrow> video \<Rightarrow> video result" where
  "draw_bits p [] x y color v = Inr v"
| "draw_bits p (j # js) x y color v =
     andThen (if drop_bit j (sint p) AND 1 \<noteq> 0 then draw_pixel x (y + int j) color v else Inr v) (draw_bits p js x y color)"

fun draw_rows :: "u8 list \<Rightarrow> nat list \<Rightarrow> int \<Rightarrow> int \<Rightarrow> int \<Rightarrow> video \<Rightarrow> video result" where
  "draw_rows p [] x y color v = Inr v"
| "draw_rows p (i # is) x y color v =
     andThen (draw_bits (p ! i) [0..<8] (x + int i) y color v) (draw_rows p is x y color)"

definition draw_character :: "u8 \<Rightarrow> int \<Rightarrow> int \<Rightarrow> int \<Rightarrow> video \<Rightarrow> video result" where
  "draw_character ch x y color v =
     andThen (my_assert ''(ch & 0x80) == 0'' (ch AND 0x80 = 0)) (\<lambda>_.
     andThen (array_get ''font8x8_basic'' font8x8_basic (nat (sint ch))) (\<lambda>p.
       draw_rows p [0..<8] x y color v))"

fun draw_string :: "u8 list \<Rightarrow> int \<Rightarrow> int \<Rightarrow> int \<Rightarrow> video \<Rightarrow> video result" where
  "draw_string [] x y color v = Inl (Out_of_bounds ''str'')"
| "draw_string (c # str) x y color v =
     (if c = 0 then Inr v
      else andThen (draw_character c x y color v)
             (if y + 8 \<ge> SCR_WIDTH then draw_string str (x + 8) 0 color else draw_string str x (y + 8) color))"

section \<open>game/draw.c\<close>

text \<open>A string literal, with its terminator, and the macro \<^verbatim>\<open>c_width\<close>.\<close>

definition chars :: "string \<Rightarrow> u8 list" where
  "chars s = map of_char s"

definition end_tip :: "u8 list" where "end_tip = chars ''PRESS R TO RESTART'' @ [0]"
definition endword :: "u8 list" where "endword = chars ''Congratulations! You win.'' @ [0]"
definition tip :: "u8 list" where "tip = chars ''Guess the word:'' @ [0]"

definition c_width :: "u8 list \<Rightarrow> int result" where
  "c_width str = andThen (strlen str) (\<lambda>n. Inr (int n div 2 * 8))"

fun miss_loop :: "nat list \<Rightarrow> int \<Rightarrow> game \<Rightarrow> video \<Rightarrow> video result" where
  "miss_loop [] skip g v = Inr v"
| "miss_loop (i # is) skip g v =
     andThen (array_get ''wrong_guess'' (wrong_guess g) i) (\<lambda>c.
     andThen (draw_character (of_int (sint c + 65 - 97)) (SCR_HEIGHT - 9) skip 12 v) (miss_loop is (skip + 12) g))"

text \<open>The buffer of \<^verbatim>\<open>itoa\<close> ends with a zero that is never overwritten.\<close>

definition draw_miss :: "game \<Rightarrow> video \<Rightarrow> video result" where
  "draw_miss g v =
     (let miss = itoa (get_miss g) @ [0]
      in andThen (draw_string (chars ''MISS:'' @ [0]) (SCR_HEIGHT - 18) 0 12 v) (\<lambda>v.
         andThen (strlen (chars ''MISS:'' @ [0])) (\<lambda>n.
         andThen (draw_string miss (SCR_HEIGHT - 18) (int n * 8) 12 v) (\<lambda>v.
           miss_loop [0..<nat (get_miss g)] 0 g v))))"

text \<open>
  \<open>hits\<close> is the local array \<^verbatim>\<open>hit\<close>, with whatever it holds at the start; the assertion on its address is
  true of any array.
\<close>

definition redraw_screen :: "u8 list \<Rightarrow> game \<Rightarrow> video \<Rightarrow> video result" where
  "redraw_screen hits g v0 =
     (let v = prepare_buffer v0
      in andThen (c_width tip) (\<lambda>w.
         andThen (draw_string tip (SCR_HEIGHT div 4 - 8) (SCR_WIDTH div 2 - w) 48 v) (\<lambda>v.
         andThen (c_width (show_str g)) (\<lambda>w.
         andThen (draw_string (show_str g) (SCR_HEIGHT div 4 + 8) (SCR_WIDTH div 2 - w) 48 v) (\<lambda>v.
         andThen (strcpy hits (itoa (get_hit g) @ [0])) (\<lambda>hits.
         andThen (strlen hits) (\<lambda>n.
         andThen (draw_string hits 0 (SCR_WIDTH - int n * 8) 10 v) (\<lambda>v.
         andThen (draw_miss g v) (\<lambda>v.
         andThen (draw_string (chars ''TIME:'' @ [0]) 0 0 14 v) (\<lambda>v.
         andThen (strlen (chars ''TIME:'' @ [0])) (\<lambda>n.
         andThen (draw_string (itoa (count_down g) @ [0]) 0 (int n * 8) 14 v) (\<lambda>v.
           Inr (display_buffer v)))))))))))))"

definition draw_fail :: "u8 list \<Rightarrow> video \<Rightarrow> video result" where
  "draw_fail word v0 =
     andThen (c_width word) (\<lambda>w.
     andThen (draw_string word (SCR_HEIGHT div 2 - 12) (SCR_WIDTH div 2 - w) 14 (prepare_buffer v0)) (\<lambda>v.
     andThen (c_width end_tip) (\<lambda>w.
     andThen (draw_string end_tip (SCR_HEIGHT div 2) (SCR_WIDTH div 2 - w) 14 v) (\<lambda>v.
       Inr (display_buffer v)))))"

definition draw_win :: "video \<Rightarrow> video result" where
  "draw_win v0 =
     andThen (c_width endword) (\<lambda>w.
     andThen (draw_string endword (SCR_HEIGHT div 2 - 12) (SCR_WIDTH div 2 - w) 14 (prepare_buffer v0)) (\<lambda>v.
     andThen (c_width end_tip) (\<lambda>w.
     andThen (draw_string end_tip (SCR_HEIGHT div 2) (SCR_WIDTH div 2 - w) 14 v) (\<lambda>v.
       Inr (display_buffer v)))))"

text \<open>The drawing in the loop of the game: after a frame that asks for it, and at the end of a round.\<close>

definition drawn_frame :: "u8 list \<Rightarrow> (nat \<Rightarrow> bool) \<Rightarrow> nat \<Rightarrow> nat \<Rightarrow> game \<Rightarrow> video \<Rightarrow> (game \<times> video) result" where
  "drawn_frame hits garbage a b g v =
     andThen (frame garbage a b g) (\<lambda>h.
       if now g \<noteq> tick g \<and> redraw h then andThen (redraw_screen hits h v) (\<lambda>v. Inr (h, v)) else Inr (h, v))"

definition draw_ending :: "ending \<Rightarrow> video \<Rightarrow> video result" where
  "draw_ending e v =
     (case e of Time_up \<Rightarrow> draw_fail (chars ''TIME IS UP! '' @ [0]) v
      | Won \<Rightarrow> draw_win v
      | Hung \<Rightarrow> draw_fail (chars ''The man was hung to death. CRUEL YOU'' @ [0]) v
      | No_ending \<Rightarrow> Inr v)"

section \<open>Pictures made of layers\<close>

text \<open>The pixel at row x and column y, and a layer of one colour over a picture.\<close>

definition pixel :: "u8 list \<Rightarrow> nat \<Rightarrow> nat \<Rightarrow> u8" where
  "pixel b x y = b ! (320 * x + y)"

definition blit :: "(nat \<times> nat) set \<Rightarrow> u8 \<Rightarrow> u8 list \<Rightarrow> u8 list" where
  "blit S color b = map (\<lambda>k. if (k div 320, k mod 320) \<in> S then color else b ! k) [0..<length b]"

definition glyph :: "u8 \<Rightarrow> nat \<Rightarrow> nat \<Rightarrow> bool" where
  "glyph c i j \<longleftrightarrow> bit (font8x8_basic ! unat c ! i) j"

definition glyph_at :: "u8 \<Rightarrow> nat \<Rightarrow> nat \<Rightarrow> (nat \<times> nat) set" where
  "glyph_at c x y = {(x + i, y + j) | i j. i < 8 \<and> j < 8 \<and> glyph c i j}"

primrec text_at :: "u8 list \<Rightarrow> nat \<Rightarrow> nat \<Rightarrow> (nat \<times> nat) set" where
  "text_at [] x y = {}"
| "text_at (c # cs) x y = glyph_at c x y \<union> text_at cs x (y + 8)"

lemma length_blit [simp]: "length (blit S color b) = length b"
  by (simp add: blit_def)

lemma blit_empty [simp]: "blit {} color b = b"
  by (simp add: blit_def map_nth)

lemma blit_blit [simp]: "blit S color (blit T color b) = blit (S \<union> T) color b"
  by (simp add: blit_def)

lemma pixel_blit:
  "\<lbrakk>length b = SCR_SIZE; x < 200; y < 320\<rbrakk> \<Longrightarrow> pixel (blit S color b) x y = (if (x, y) \<in> S then color else pixel b x y)"
  by (simp add: pixel_def blit_def)

lemma blit_one:
  assumes "y < 320"
  shows "blit {(x, y)} color b = b[320 * x + y := color]"
proof -
  have "(k div 320, k mod 320) = (x, y) \<longleftrightarrow> k = 320 * x + y" for k
    using assms mod_mult_div_eq [of k 320] by auto
  then show ?thesis by (intro nth_equalityI) (auto simp: blit_def nth_list_update)
qed

section \<open>What the operations draw\<close>

lemma draw_pixel_eq:
  "\<lbrakk>length (vbuf v) = SCR_SIZE; x < 200; y < 320\<rbrakk> \<Longrightarrow>
   draw_pixel (int x) (int y) color v = Inr (v\<lparr>vbuf := blit {(x, y)} (of_int color) (vbuf v)\<rparr>)"
  by (simp add: draw_pixel_def array_put_def blit_one push_bit_eq_mult nat_add_distrib nat_mult_distrib flip: of_nat_add)

lemma drop_bit_font: "j < 8 \<Longrightarrow> drop_bit j (sint (p :: u8)) AND 1 \<noteq> 0 \<longleftrightarrow> bit p j"
proof -
  have "drop_bit j (sint p) AND 1 \<noteq> 0 \<longleftrightarrow> bit (sint p) j" by (simp add: and_one_eq bit_iff_odd_drop_bit odd_iff_mod_2_eq_one)
  moreover assume "j < 8"
  then have "bit (sint p) j \<longleftrightarrow> bit p j" by (simp add: bit_sint_iff min_def)
  ultimately show ?thesis by simp
qed

lemma draw_bits_eq:
  "\<lbrakk>length (vbuf v) = SCR_SIZE; x < 200; \<forall>j \<in> set js. j < 8; y + 8 \<le> 320\<rbrakk> \<Longrightarrow>
   draw_bits p js (int x) (int y) color v
     = Inr (v\<lparr>vbuf := blit {(x, y + j) | j. j \<in> set js \<and> bit p j} (of_int color) (vbuf v)\<rparr>)"
proof (induction js arbitrary: v)
  case (Cons j js)
  let ?S = "\<lambda>js. {(x, y + j) | j. j \<in> set js \<and> bit p j}"
  have S: "?S (j # js) = ?S js \<union> (if bit p j then {(x, y + j)} else {})" by auto
  have j: "j < 8" using Cons.prems by simp
  show ?case
    using Cons.IH Cons.prems draw_pixel_eq [of _ x "y + j" color] unfolding S
    by (simp add: drop_bit_font [OF j])
qed simp

lemma draw_rows_eq:
  "\<lbrakk>length (vbuf v) = SCR_SIZE; \<forall>i \<in> set is. i < 8; x + 8 \<le> 200; y + 8 \<le> 320\<rbrakk> \<Longrightarrow>
   draw_rows p is (int x) (int y) color v
     = Inr (v\<lparr>vbuf := blit {(x + i, y + j) | i j. i \<in> set is \<and> j < 8 \<and> bit (p ! i) j} (of_int color) (vbuf v)\<rparr>)"
proof (induction "is" arbitrary: v)
  case (Cons i "is")
  let ?S = "\<lambda>is. {(x + i, y + j) | i j. i \<in> set is \<and> j < 8 \<and> bit (p ! i) j}"
  have S: "?S (i # is) = ?S is \<union> {(x + i, y + j) | j. j < 8 \<and> bit (p ! i) j}" by auto
  show ?case
    using Cons.IH Cons.prems draw_bits_eq [of _ "x + i" "[0..<8]" y "p ! i" color] unfolding S by simp
qed simp

definition ascii :: "u8 \<Rightarrow> bool" where
  "ascii c \<longleftrightarrow> unat c < 128"

lemma length_font [simp]: "length font8x8_basic = 128"
  by (simp add: font8x8_basic_def)

lemma ascii_sint: "ascii c \<Longrightarrow> sint c = int (unat c)"
  unfolding ascii_def by (rule sint_char)

lemma ascii_assert: "ascii c \<Longrightarrow> c AND 0x80 = 0"
proof -
  assume c: "ascii c"
  have "int (unat c) < 128" using c unfolding ascii_def by linarith
  then have "uint c div 2 ^ 7 = 0" by (intro div_pos_pos_trivial) simp_all
  then have "\<not> bit (uint c) 7" unfolding bit_iff_odd by simp
  then have c7: "\<not> bit c 7" by (simp add: bit_uint_iff)
  have "bit (0x80 :: u8) n \<longleftrightarrow> n = 7" if "n < 8" for n
    using that by (auto simp: less_Suc_eq numeral_eq_Suc bit_Suc)
  with c7 show ?thesis by (intro bit_word_eqI) (auto simp: bit_and_iff)
qed

lemma draw_character_eq:
  assumes "length (vbuf v) = SCR_SIZE" "ascii c" "x + 8 \<le> 200" "y + 8 \<le> 320"
  shows "draw_character c (int x) (int y) color v = Inr (v\<lparr>vbuf := blit (glyph_at c x y) (of_int color) (vbuf v)\<rparr>)"
  using assms draw_rows_eq [of v "[0..<8]" x y "font8x8_basic ! unat c" color]
  by (simp add: draw_character_def ascii_assert ascii_sint array_get_def ascii_def glyph_at_def glyph_def)

definition plain :: "u8 list \<Rightarrow> bool" where
  "plain p \<longleftrightarrow> (\<forall>c \<in> set p. ascii c \<and> c \<noteq> 0)"

lemma plain_simps [simp]: "plain []" "plain (c # p) \<longleftrightarrow> ascii c \<and> c \<noteq> 0 \<and> plain p"
  by (simp_all add: plain_def)

lemma draw_string_eq:
  assumes "length (vbuf v) = SCR_SIZE" "plain p" "x + 8 \<le> 200" "y + 8 * length p \<le> 320"
  shows "draw_string (p @ 0 # rest) (int x) (int y) color v
    = Inr (v\<lparr>vbuf := blit (text_at p x y) (of_int color) (vbuf v)\<rparr>)"
  using assms
proof (induction p arbitrary: v y)
  case (Cons c p)
  let ?v = "v\<lparr>vbuf := blit (glyph_at c x y) (of_int color) (vbuf v)\<rparr>"
  have head: "draw_character c (int x) (int y) color v = Inr ?v"
    using Cons.prems by (intro draw_character_eq) simp_all
  show ?case
  proof (cases "y + 8 \<ge> 320")
    case True
    then have "p = []" using Cons.prems(4) by (cases p) auto
    with head Cons.prems show ?thesis by simp
  next
    case False
    with Cons.IH [of ?v "y + 8"] head Cons.prems show ?thesis by (simp add: Un_commute add.commute)
  qed
qed simp
section \<open>The strings\<close>

lemma strlen_plain: "plain p \<Longrightarrow> strlen (p @ 0 # rest) = Inr (length p)"
  by (rule strlen_NUL) (auto simp: plain_def)

lemma c_width_plain: "plain p \<Longrightarrow> c_width (p @ 0 # rest) = Inr (int (8 * (length p div 2)))"
  by (simp add: c_width_def strlen_plain)

lemma strcpy_plain: "\<lbrakk>plain p; length p < length d\<rbrakk> \<Longrightarrow> \<exists>rest. strcpy d (p @ [0]) = Inr (p @ 0 # rest)"
  by (subst strcpy_NUL) (auto simp: plain_def)

lemma plain_literals:
  "plain (chars ''MISS:'')" "plain (chars ''TIME:'')" "plain (chars ''Guess the word:'')" "plain (chars ''PRESS R TO RESTART'')"
  "plain (chars ''Congratulations! You win.'')" "plain (chars ''TIME IS UP! '')" "plain (chars ''The man was hung to death. CRUEL YOU'')"
  by (simp_all add: chars_def ascii_def)

lemma length_chars [simp]: "length (chars s) = length s"
  by (simp add: chars_def)

lemma plain_itoa: "plain (itoa a)"
proof -
  have digit: "ascii (of_int (48 + a smod 10)) \<and> (of_int (48 + a smod 10) :: u8) \<noteq> 0" for a :: int
  proof -
    have "- 10 < a smod 10" "a smod 10 < 10" using smod_int_range [of 10 a] by auto
    then have "unat (of_int (48 + a smod 10) :: u8) = nat (48 + a smod 10)"
      unfolding unat_eq_nat_uint uint_word_of_int by simp
    moreover have "0 < nat (48 + a smod 10)" "nat (48 + a smod 10) < 128" using \<open>- 10 < a smod 10\<close> \<open>a smod 10 < 10\<close> by auto
    ultimately show ?thesis unfolding ascii_def by (metis less_numeral_extra(3) unsigned_0)
  qed
  have "plain p \<Longrightarrow> plain (itoa_loop a p)" for p
    by (induction a p rule: itoa_loop.induct) (subst itoa_loop.simps, use digit in \<open>simp add: Let_def\<close>)
  then show ?thesis by (simp add: itoa_def)
qed

lemma length_itoa: "\<lbrakk>\<bar>a\<bar> < 10 ^ n; 0 < n\<rbrakk> \<Longrightarrow> length (itoa a) \<le> n"
proof -
  have "\<bar>a\<bar> < 10 ^ n \<Longrightarrow> 0 < n \<Longrightarrow> length (itoa_loop a p) \<le> length p + n" for p
  proof (induction n arbitrary: a p)
    case (Suc n)
    show ?case
    proof (cases "a sdiv 10 = 0")
      case True
      then show ?thesis by (subst itoa_loop.simps) simp
    next
      case False
      have "\<bar>a sdiv 10\<bar> = \<bar>a\<bar> div 10" by (cases "a = 0") (simp_all add: signed_divide_int_def abs_mult abs_sgn_eq)
      then have "\<bar>a sdiv 10\<bar> < 10 ^ n" using Suc.prems(1) by simp
      moreover have "0 < n" using False Suc.prems(1) \<open>\<bar>a sdiv 10\<bar> < 10 ^ n\<close> by (cases n) auto
      ultimately show ?thesis using Suc.IH [of "a sdiv 10" "of_int (48 + a smod 10) # p"] False
        by (subst itoa_loop.simps) (simp add: Let_def)
    qed
  qed simp
  from this [of "[]"] show "\<lbrakk>\<bar>a\<bar> < 10 ^ n; 0 < n\<rbrakk> \<Longrightarrow> length (itoa a) \<le> n" by (simp add: itoa_def)
qed

lemmas draw_literal = draw_string_eq [where rest = "[]"] plain_literals plain_itoa strlen_plain [where rest = "[]"]
  c_width_plain [where rest = "[]"]

section \<open>The screen\<close>

primrec misses_at :: "u8 list \<Rightarrow> nat \<Rightarrow> (nat \<times> nat) set" where
  "misses_at [] y = {}"
| "misses_at (c # cs) y = glyph_at (c - 32) 191 y \<union> misses_at cs (y + 12)"

text \<open>The line with the word, and the whole screen, from the bottom layer up.\<close>

definition word_line :: "game \<Rightarrow> u8 list" where
  "word_line g = take (length (the_word g)) (show_str g)"

definition screen_of :: "game \<Rightarrow> u8 list" where
  "screen_of g =
     blit (text_at (chars ''TIME:'') 0 0 \<union> text_at (itoa (count_down g)) 0 40) 14
     (blit (text_at (chars ''MISS:'') 182 0 \<union> text_at (itoa (miss g)) 182 40
              \<union> misses_at (take (nat (miss g)) (wrong_guess g)) 0) 12
     (blit (text_at (itoa (hit g)) 0 (320 - 8 * length (itoa (hit g)))) 10
     (blit (text_at (chars ''Guess the word:'') 42 104
              \<union> text_at (word_line g) 58 (160 - 8 * (length (word_line g) div 2))) 48
     (replicate SCR_SIZE 0))))"

lemma miss_loop_eq:
  assumes "length (vbuf v) = SCR_SIZE" "\<forall>i \<in> set is. i < length (wrong_guess g) \<and> letter (wrong_guess g ! i)" "y + 12 * length is \<le> 312"
  shows "miss_loop is (int y) g v = Inr (v\<lparr>vbuf := blit (misses_at (map (\<lambda>i. wrong_guess g ! i) is) y) 12 (vbuf v)\<rparr>)"
  using assms
proof (induction "is" arbitrary: v y)
  case (Cons i "is")
  let ?c = "wrong_guess g ! i"
  have l: "letter ?c" using Cons.prems by simp
  have "unat (?c - 32) = unat ?c - 32"
    using l by (subst unat_sub) (auto simp: letter_def word_le_nat_alt)
  then have "ascii (?c - 32)" using l unfolding letter_def ascii_def by linarith
  moreover have "(of_int (sint ?c + 65 - 97) :: u8) = ?c - 32" by simp
  ultimately have "draw_character (of_int (sint ?c + 65 - 97)) (SCR_HEIGHT - 9) (int y) 12 v
      = Inr (v\<lparr>vbuf := blit (glyph_at (?c - 32) 191 y) 12 (vbuf v)\<rparr>)"
    using draw_character_eq [of v "?c - 32" 191 y 12] Cons.prems by simp
  with Cons.IH [of "v\<lparr>vbuf := blit (glyph_at (?c - 32) 191 y) 12 (vbuf v)\<rparr>" "y + 12"] Cons.prems
  show ?case by (simp add: array_get_def Un_commute add.commute del: of_int_add of_int_diff)
qed simp

lemma word_line_facts:
  assumes "game_ok g"
  shows "\<exists>rest. show_str g = word_line g @ 0 # rest" "plain (word_line g)" "length (word_line g) = length (the_word g)"
    "length (the_word g) \<le> 13"
    "j < length (the_word g) \<Longrightarrow> word_line g ! j = (if known_of g (the_word g ! j) = IN_WORD then the_word g ! j else 95)"
proof -
  let ?n = "length (the_word g)"
  have g: "length (show_str g) = 30" "?n \<le> 13" "show_str g ! ?n = 0" "\<forall>c \<in> set (the_word g). letter c" "hidden g" "shown g"
    using assms by (simp_all add: game_ok_def round_ok_def arrays_ok_def hidden_def)
  show "length (word_line g) = ?n" "?n \<le> 13" using g by (simp_all add: word_line_def)
  show nth: "j < ?n \<Longrightarrow> word_line g ! j = (if known_of g (the_word g ! j) = IN_WORD then the_word g ! j else 95)" for j
    using g(5,6) by (auto simp: word_line_def hidden_def shown_def)
  show "\<exists>rest. show_str g = word_line g @ 0 # rest"
    using id_take_nth_drop [of ?n "show_str g"] g by (auto simp: word_line_def)
  have "ascii c \<and> c \<noteq> 0" if c: "c \<in> set (word_line g)" for c
  proof -
    obtain j where "j < ?n" "c = word_line g ! j" using c \<open>length (word_line g) = ?n\<close> by (auto simp: in_set_conv_nth)
    then have "c = 95 \<or> letter c" using nth g(4) by auto
    then show ?thesis by (auto simp: ascii_def letter_def)
  qed
  then show "plain (word_line g)" by (simp add: plain_def)
qed

lemma draw_miss_eq:
  assumes "game_ok g" "length (vbuf v) = SCR_SIZE"
  shows "draw_miss g v = Inr (v\<lparr>vbuf := blit (text_at (chars ''MISS:'') 182 0 \<union> text_at (itoa (miss g)) 182 40
           \<union> misses_at (take (nat (miss g)) (wrong_guess g)) 0) 12 (vbuf v)\<rparr>)"
proof -
  let ?n = "card (wrong_letters g)"
  have g: "miss g = int ?n" "length (wrong_guess g) = 26" "set (take ?n (wrong_guess g)) = code ` wrong_letters g"
    using assms(1) by (simp_all add: game_ok_def round_ok_def letters_ok_def arrays_ok_def)
  have n: "?n \<le> 26" using card_mono [of "{..<26}" "wrong_letters g"] by (auto simp: wrong_letters_def)
  then have "length (itoa (miss g)) \<le> 2" by (intro length_itoa) (simp_all add: g(1))
  moreover have "wrong_guess g ! i \<in> code ` wrong_letters g" if "i < ?n" for i
    using that n g(2) by (subst g(3) [symmetric]) (auto simp: in_set_conv_nth)
  then have "\<forall>i \<in> set [0..<?n]. i < length (wrong_guess g) \<and> letter (wrong_guess g ! i)"
    using n g(2) unat_code by (fastforce simp: letter_def wrong_letters_def)
  moreover have "map (\<lambda>i. wrong_guess g ! i) [0..<?n] = take ?n (wrong_guess g)"
    using n g(2) by (intro nth_equalityI) simp_all
  ultimately show ?thesis
    using assms(2) n miss_loop_eq [of _ "[0..<?n]" g 0]
      draw_literal(1) [of _ "chars ''MISS:''" 182 0 12] draw_literal(1) [of _ "itoa (miss g)" 182 40 12]
    by (simp add: draw_miss_def Let_def get_miss_def g(1) draw_literal(2-) Un_assoc Un_left_commute Un_commute)
qed

lemma redraw_screen_eq:
  assumes "game_ok g" "\<bar>count_down g\<bar> < 10 ^ 10" "\<bar>hit g\<bar> < 10 ^ 10" "length hits = 30"
  shows "redraw_screen hits g v = Inr \<lparr>vbuf = screen_of g, display = screen_of g\<rparr>"
proof -
  let ?l = "word_line g" and ?h = "itoa (hit g)"
  let ?b0 = "replicate SCR_SIZE 0 :: u8 list"
  obtain rest where l: "show_str g = ?l @ 0 # rest" "plain ?l" "length ?l \<le> 13" using word_line_facts(1-4) [OF assms(1)] by auto
  have c: "length (itoa (count_down g)) \<le> 10" and h: "length ?h \<le> 10" using assms(2,3) by (simp_all add: length_itoa)
  obtain rest' where cpy: "strcpy hits (?h @ [0]) = Inr (?h @ 0 # rest')" using strcpy_plain [OF plain_itoa] h assms(4) by force
  have tip: "c_width tip = Inr 56" by (simp add: tip_def draw_literal(2-))
  have d1: "draw_string tip 42 104 48 (v\<lparr>vbuf := ?b0\<rparr>) = Inr (v\<lparr>vbuf := blit (text_at (chars ''Guess the word:'') 42 104) 48 ?b0\<rparr>)"
    using draw_literal(1) [of "v\<lparr>vbuf := ?b0\<rparr>" "chars ''Guess the word:''" 42 104 48] by (simp add: tip_def draw_literal(2-))
  let ?y = "160 - 8 * (length ?l div 2)"
  have y: "int ?y = 160 - int (8 * (length ?l div 2))" "?y + 8 * length ?l \<le> 320" using l(3) by (simp_all add: of_nat_diff)
  have d2: "draw_string (show_str g) 58 (160 - int (8 * (length ?l div 2))) 48 w
      = Inr (w\<lparr>vbuf := blit (text_at ?l 58 ?y) 48 (vbuf w)\<rparr>)" if "length (vbuf w) = SCR_SIZE" for w
    using draw_string_eq [OF that l(2), of 58 ?y rest 48] y by (simp add: l(1) [symmetric])
  have z: "int (320 - 8 * length ?h) = 320 - int (length ?h) * 8" using h by (simp add: of_nat_diff)
  have d3: "draw_string (?h @ 0 # rest') 0 (320 - int (length ?h) * 8) 10 w
      = Inr (w\<lparr>vbuf := blit (text_at ?h 0 (320 - 8 * length ?h)) 10 (vbuf w)\<rparr>)" if "length (vbuf w) = SCR_SIZE" for w
    using draw_string_eq [OF that plain_itoa, of 0 "320 - 8 * length ?h" "hit g" rest' 10] h unfolding z by simp
  note lit = draw_literal(1) [of _ "chars ''TIME:''" 0 0 14] draw_literal(1) [of _ "itoa (count_down g)" 0 40 14]
  show ?thesis
    using lit c d1 d2 d3 cpy
    by (simp add: redraw_screen_def Let_def prepare_buffer_def display_buffer_def tip get_hit_def screen_of_def
        l(1) [symmetric] c_width_plain [OF l(2), of rest, folded l(1)] strlen_plain [OF plain_itoa] draw_literal(2-) draw_miss_eq [OF assms(1)] Un_commute)
qed

lemma text_at_rows: "(r, c) \<in> text_at p x y \<Longrightarrow> x \<le> r \<and> r < x + 8"
  by (induction p arbitrary: y) (auto simp: glyph_at_def)

lemma text_at_cols: "(r, c) \<in> text_at p x y \<Longrightarrow> y \<le> c"
proof (induction p arbitrary: y)
  case (Cons a p)
  show ?case using Cons.IH [of "y + 8"] Cons.prems by (auto simp: glyph_at_def)
qed simp

lemma misses_at_rows: "(r, c) \<in> misses_at p y \<Longrightarrow> 191 \<le> r"
  by (induction p arbitrary: y) (auto simp: glyph_at_def)

lemma text_at_nth:
  "\<lbrakk>j < length p; i < 8; k < 8\<rbrakk> \<Longrightarrow> (x + i, y + 8 * j + k) \<in> text_at p x y \<longleftrightarrow> glyph (p ! j) i k"
proof (induction p arbitrary: y j)
  case (Cons c p)
  show ?case
  proof (cases j)
    case 0
    then show ?thesis using Cons.prems text_at_cols [of "x + i" "y + k" p x "y + 8"] by (auto simp: glyph_at_def)
  next
    case (Suc j')
    then have "(x + i, y + 8 * j + k) \<notin> glyph_at c x y" by (auto simp: glyph_at_def)
    then show ?thesis using Cons.IH [of j' "y + 8"] Cons.prems Suc by (simp add: algebra_simps)
  qed
qed simp

lemma screen_of_line:
  assumes "game_ok g" "j < length (the_word g)" "i < 8" "k < 8"
  shows "pixel (screen_of g) (58 + i) (160 - 8 * (length (the_word g) div 2) + 8 * j + k)
    = (if glyph (word_line g ! j) i k then 48 else 0)"
proof -
  define y0 where "y0 = 160 - 8 * (length (the_word g) div 2)"
  let ?y = "y0 + 8 * j + k"
  have l: "length (word_line g) = length (the_word g)" "length (the_word g) \<le> 13" using word_line_facts(3,4) [OF assms(1)] by auto
  have y: "?y < 320" "58 + i < 200" using l assms(2-4) by (auto simp: y0_def)
  have other: "(58 + i, ?y) \<notin> text_at p x y" if "x + 8 \<le> 58 \<or> 66 \<le> x" for p x y
    using text_at_rows [of "58 + i" ?y p x y] that assms(3) by auto
  have "(58 + i, ?y) \<notin> misses_at p y" for p y
    using misses_at_rows [of "58 + i" ?y p y] assms(3) by auto
  moreover have "(58 + i, ?y) \<in> text_at (word_line g) 58 y0 \<longleftrightarrow> glyph (word_line g ! j) i k"
    using text_at_nth [of j "word_line g" i k 58] assms l by simp
  moreover have "pixel (replicate SCR_SIZE 0) (58 + i) ?y = 0" using y by (simp add: pixel_def)
  ultimately show ?thesis
    using y l(1) unfolding y0_def [symmetric] by (simp add: screen_of_def pixel_blit other y0_def [symmetric])
qed

lemma draw_ending_ok: "\<exists>b. draw_ending e v = Inr (if e = No_ending then v else \<lparr>vbuf = b, display = b\<rparr>)"
proof -
  have fail: "\<exists>b. draw_fail (p @ [0]) v = Inr \<lparr>vbuf = b, display = b\<rparr>" if p: "plain p" "length p \<le> 40" for p
  proof -
    let ?y = "160 - 8 * (length p div 2)"
    have y: "int ?y = 160 - int (8 * (length p div 2))" "?y + 8 * length p \<le> 320"
      using p(2) by (simp add: of_nat_diff, presburger)
    have d: "draw_string (p @ [0]) 88 (160 - int (8 * (length p div 2))) 14 w = Inr (w\<lparr>vbuf := blit (text_at p 88 ?y) 14 (vbuf w)\<rparr>)"
      if "length (vbuf w) = SCR_SIZE" for w
      using draw_string_eq [OF that p(1), of 88 ?y "[]" 14] y by simp
    show ?thesis
      using d c_width_plain [OF p(1), of "[]"] draw_literal(1) [of _ "chars ''PRESS R TO RESTART''" 100 88 14]
      by (simp add: draw_fail_def prepare_buffer_def display_buffer_def end_tip_def draw_literal(2-))
  qed
  have "draw_win v = draw_fail endword v" by (simp add: draw_win_def draw_fail_def)
  then show ?thesis
    by (cases e) (simp_all add: draw_ending_def fail plain_literals endword_def)
qed

section \<open>Properties\<close>

text \<open>
  C33. A frame of a running game, drawn, fails no assertion and writes outside no buffer; the screen is the
  layered picture of the new state, and the line with the word shows exactly the glyphs of the letters
  found, with an underscore in the place of every other letter.
\<close>

theorem screen_shows_word:
  assumes "game_ok g" "tick g + int a + int b < 2 ^ 31" "length hits = 30"
  shows "\<exists>h. frame garbage a b g = Inr h
    \<and> drawn_frame hits garbage a b g v
        = Inr (h, if now g \<noteq> tick g \<and> redraw h then \<lparr>vbuf = screen_of h, display = screen_of h\<rparr> else v)
    \<and> (\<forall>j < length (the_word h). \<forall>i < 8. \<forall>k < 8.
         pixel (screen_of h) (58 + i) (160 - 8 * (length (the_word h) div 2) + 8 * j + k)
           = (if glyph (if known_of h (the_word h ! j) = IN_WORD then the_word h ! j else 95) i k then 48 else 0))"
proof -
  obtain h where h: "frame garbage a b g = Inr h" "game_ok h" "now g \<noteq> tick g \<longrightarrow> now h = tick g + int a + int b"
    using frame_ok [OF assms(1)] by blast
  have c: "count_down h = 50 - (now h + 49) div 50" "hit h = 0" "0 \<le> now h" using h(2) by (simp_all add: game_ok_def clock_ok_def)
  have "redraw_screen hits h v = Inr \<lparr>vbuf = screen_of h, display = screen_of h\<rparr>" if "now g \<noteq> tick g"
  proof -
    have "now h < 2 ^ 31" using h(3) that assms(2) by simp
    then have "\<bar>count_down h\<bar> < 10 ^ 10" using c by simp
    then show ?thesis using redraw_screen_eq [OF h(2) _ _ assms(3)] c(2) by simp
  qed
  then show ?thesis using h(1) screen_of_line [OF h(2)] word_line_facts(5) [OF h(2)] by (auto simp: drawn_frame_def)
qed

theorem screen_shows_word_witness:
  "\<exists>h v'. drawn_frame (replicate 30 7) (\<lambda>_. True) 0 0 (two_letters\<lparr>tick := 1\<rparr>) \<lparr>vbuf = [], display = []\<rparr> = Inr (h, v')"
proof -
  have "round_ok (two_letters\<lparr>tick := 1\<rparr>) = round_ok two_letters" "shown (two_letters\<lparr>tick := 1\<rparr>) = shown two_letters"
    by (rule game_ok_cong; simp)+
  then have "game_ok (two_letters\<lparr>tick := 1\<rparr>)" using two_letters(1) by (simp add: game_ok_def clock_ok_def two_letters_def power_on_def)
  from screen_shows_word [OF this, of 0 0 "replicate 30 7"] show ?thesis by fastforce
qed

end
