(* ===== verification/Spec2Isabelle.thy ===== *)
theory Spec2Isabelle
  imports Fs_Meta Semaphore Mutex User Entry Tlb Isolation Start Frames Boot Video
begin

text \<open>
  A model of the NJU OSLab system: an x86 boot loader, a kernel with paging, processes, semaphores and a
  small file system, the host tools that fill the disk image, and a hangman game that runs as a user
  program. The theories below translate the C sources function by function; this one collects them and
  says how they fit together.

  \<^bold>\<open>How the parts interact.\<close> The host tool \<^verbatim>\<open>write_myfs\<close> stores the kernel and the user program in an image
  with the code of \<^verbatim>\<open>kernel/fs.c\<close>. \<^verbatim>\<open>bootmain\<close> reads the first file of the image sector by sector and jumps to
  the kernel. \<^verbatim>\<open>kernel_init\<close> initialises the devices and the file system, loads \<^verbatim>\<open>user.bin\<close> with it, makes
  process 0 and leaves for user mode. From then on the kernel runs only in \<^verbatim>\<open>trap\<close>: system calls, timer ticks
  and keys; a trap may end in \<^verbatim>\<open>sched_process\<close>, which continues in another process. The game calls the kernel
  through the wrappers of \<^verbatim>\<open>game/syscall.c\<close>.

  \<^bold>\<open>Theories and sources.\<close>

    \<^item> \<open>Prelude\<close>: results with faults, lists and words. \<open>CString\<close>: \<^verbatim>\<open>lib/string.c\<close>.
    \<^item> \<open>Disk\<close>: the layout of \<^verbatim>\<open>kernel/fs.h\<close> and the coding of its structures into sectors. \<open>Fs\<close>:
      every function of \<^verbatim>\<open>kernel/fs.c\<close> on the record \<open>fs\<close> of its static variables and the disk.
      \<open>Fs_Alloc\<close>, \<open>Fs_Rep\<close>, \<open>Fs_Fetch\<close>, \<open>Fs_File\<close>, \<open>Fs_Ops\<close>, \<open>Fs_Open\<close>: the allocator, what it means that a
      descriptor represents a file, and the operations against files as lists of bytes. \<open>Fs_Types\<close>: the sizes of its
      arrays through any sequence of calls. \<open>Fs_Meta\<close>: the flags of the directory and the bitmap, through any sequence
      of calls. \<open>Util\<close>: \<^verbatim>\<open>util/*.c\<close>.
    \<^item> \<open>Mmu\<close>: \<^verbatim>\<open>inc/mmu.h\<close>, \<^verbatim>\<open>inc/memlayout.h\<close>. \<open>Entrypgdir\<close>: \<^verbatim>\<open>kernel/entrypgdir.c\<close>. \<open>X86\<close>: \<^verbatim>\<open>inc/x86.h\<close>, \<^verbatim>\<open>inc/cpu.h\<close>.
      \<open>Paging\<close>: \<^verbatim>\<open>kernel/pmap.c\<close> and the walk of the processor through the tables it writes. \<open>Tlb\<close>: the same with the
      translation buffer of the processor. \<open>Isolation\<close>: the address spaces through any sequence of calls. \<open>Frames\<close>: the page descriptors of \<^verbatim>\<open>inc/pmap.h\<close>.
    \<^item> \<open>Kernel\<close>: processes, semaphores, scheduler, system calls and the dispatch of traps on the record \<open>kernel\<close>.
      \<open>Sched\<close>: the scheduler against its reference. \<open>Semaphore\<close>: the semaphores against the contract of a
      counting semaphore. \<open>Kernel_Inv\<close>: the kernel as a state machine and its invariant. \<open>Mutex\<close>: critical sections.
      \<open>Syscalls\<close>: fork, and calls that switch. \<open>Traps\<close>: the descriptor tables of \<^verbatim>\<open>kernel/trap.c\<close>. \<open>Entry\<close>:
      \<^verbatim>\<open>kernel/trapentry.S\<close> and the frame on the stack. \<open>User\<close>: \<^verbatim>\<open>game/syscall.c\<close>, \<^verbatim>\<open>game/common.c\<close> and \<^verbatim>\<open>main\<close>,
      for the father and for a child.
    \<^item> \<open>Console\<close>: \<^verbatim>\<open>kernel/printk.c\<close>. \<open>Report\<close>: its output over the serial port, \<^verbatim>\<open>_warn\<close>, \<^verbatim>\<open>_panic\<close>,
      \<^verbatim>\<open>kernel/abort.c\<close>. \<open>Ide\<close>: \<^verbatim>\<open>kernel/ide.c\<close> and the sector reader of \<^verbatim>\<open>boot/main.c\<close>.
      \<open>Devices\<close>: \<^verbatim>\<open>kernel/serial.c\<close>, \<^verbatim>\<open>kernel/timer.c\<close>, \<^verbatim>\<open>kernel/irq.c\<close>.
    \<^item> \<open>Start\<close>: \<^verbatim>\<open>boot/boot.S\<close> and \<^verbatim>\<open>kernel/entry.S\<close>. \<open>Elf\<close>: \<^verbatim>\<open>inc/elf.h\<close>. \<open>Loader\<close>: \<^verbatim>\<open>kernel/init.c\<close>. \<open>Boot\<close>: \<^verbatim>\<open>bootmain\<close>.
    \<^item> \<open>Game\<close>, \<open>Game_Inv\<close>: \<^verbatim>\<open>game/game.c\<close>, \<^verbatim>\<open>effect.c\<close>, \<^verbatim>\<open>keyboard.c\<close>, \<^verbatim>\<open>rand.c\<close>, and what holds of the game.
      \<open>Video\<close>: \<^verbatim>\<open>game/video.c\<close>, \<^verbatim>\<open>draw.c\<close>, \<^verbatim>\<open>font.c\<close>.

  \<^bold>\<open>How the code is translated.\<close> A function of the code is a function of the state it uses, with the state
  returned; \<open>'a result\<close> is \<open>fault + 'a\<close>, and every failed assertion, panic and access outside an array is a
  fault of its own. Words keep their width; an \<^verbatim>\<open>int\<close> is an \<open>int\<close> where the code only counts with it. A loop is a
  recursive function over its counter; the loops that may run for ever, in the scheduler and the drivers, are
  partial functions into \<open>option\<close>, \<open>None\<close> standing for a loop that does not end, and their
  properties say when they return. The only fuel is the 4097 rounds of the reading loop of \<^verbatim>\<open>read_myfs\<close>: a
  file has at most 4096 sectors, and each round but the last reads one.

  \<^bold>\<open>What is assumed of the outside.\<close> Port instructions are parameters. \<open>ata_drive\<close> states what an ATA drive
  does with the commands of the driver while it does not report itself busy, and that it reports itself ready after finitely
  many polls: of an access while it is busy nothing is promised, so that the loops that wait are needed.
  \<open>board_chips\<close> states what the timer, the interrupt controllers and the serial port do, a byte written to the port while it
  is busy being lost; \<open>controller_ready\<close> that the keyboard controller empties its input buffer; all are satisfied by simulated devices, on
  which the examples run. The BIOS call of \<^verbatim>\<open>boot.S\<close> is a parameter, and so is \<open>keep\<close>, what the translation buffer
  holds on to. The theories other than \<open>Tlb\<close> walk through the tables at each access; a property of \<open>Tlb\<close> says when that
  is the same, and another that two forks without a reload of \<^verbatim>\<open>cr3\<close> between them are not: what is said of the memory of later
  children, as of the six the game forks in a row, holds for a processor without a translation buffer.

  \<^bold>\<open>What the lemmas show.\<close> For the file system: a descriptor represents a list of bytes through every operation, blocks are
  never shared, closing makes the disk alone hold the file, and no change of the metadata is forgotten. For address spaces: through any forks and shares each process reaches its own
  4 MB, up to the pages shared to it, and nothing else. For the kernel: one process runs, the scheduler is its reference and never fails an assertion,
  and semaphores bound the processes in a critical section. For the way in and out:
  a trap builds the frame the C code expects, and a process resumes as it was interrupted. For the start: the bytes
  of the kernel are in memory where its headers ask for them, those of the user program are the first of its file, and paging is switched on under running code; at the end of
  this theory the parts from \<^verbatim>\<open>make\<close> to user mode are put together. For the game: no array is left,
  the screen shows what was guessed, and every round ends. Where the code does something else than it seems to mean,
  a property or a lemma states what it does.

  \<^bold>\<open>Not modelled.\<close> Prototypes and declarations. In the state of the kernel, the messages it prints: they change nothing
  else, and what \<^verbatim>\<open>printk\<close> does with them is in \<open>Report\<close>. Interrupts in the middle of a frame of the game are taken before
  or after it. What \<^verbatim>\<open>main\<close> has behind its endless loops is a parameter, which is shown not to matter. The kernel runs on byte-addressed memory only where bytes matter, at the entry, in the loaders and for
  the memory of the processes; its own variables are the fields of records. In \<^verbatim>\<open>bootmain\<close> the buffers of the header and
  of the inode, the stack and the code of the loader are outside of the memory it fills, so that a segment that is loaded over
  them would go unnoticed. \<^verbatim>\<open>sys_wait_intr\<close> is the enabling and disabling of interrupts; the trap taken at its \<^verbatim>\<open>hlt\<close> is not
  part of it.
\<close>

section \<open>From the image to user mode\<close>

text \<open>
  What \<^verbatim>\<open>bootmain\<close> and \<^verbatim>\<open>userprog_load\<close> ask of the two files that the \<^verbatim>\<open>Makefile\<close> writes into the image: the headers in the
  first sector, and segments that fit and lie apart.
\<close>

definition kernel_image :: "u8 list \<Rightarrow> elf \<Rightarrow> proghdr list \<Rightarrow> bool" where
  "kernel_image img e hs \<longleftrightarrow> 512 \<le> length img \<and> e = elf_of_bytes (take 512 img)
     \<and> unat (e_phoff e) + 32 * unat (e_phnum e) \<le> 512
     \<and> hs = boot_headers (take 512 img) (e_phoff e) [0..<unat (e_phnum e)]
     \<and> (\<forall>h \<in> set hs. bootable (length img) h) \<and> sorted_wrt in_order hs \<and> sorted_wrt boot_apart hs"

definition user_image :: "u8 list \<Rightarrow> elf \<Rightarrow> proghdr list \<Rightarrow> bool" where
  "user_image img e hs \<longleftrightarrow> 512 \<le> length img \<and> e = elf_of_bytes (take 512 img) \<and> e_magic e = ELF_MAGIC
     \<and> unat (e_phoff e) + 32 * unat (e_phnum e) \<le> 512
     \<and> hs = headers (take 512 img) (e_phoff e) [0..<unat (e_phnum e)]
     \<and> (\<forall>h \<in> set hs. segment_ok (length img) h) \<and> sorted_wrt apart hs"

text \<open>Both files on one disk: the kernel where the boot loader looks for it, the program under its name.\<close>

lemma both_stored:
  assumes "formatted d" "kb \<noteq> []" "sectors_for (length kb) + sectors_for (length ub) \<le> 4096"
  obtains d1 d2 ns bl ms cl where "write_myfs kernel_name kb d = Inr d1" "write_myfs user_name ub d1 = Inr d2" "disk_ok d2"
    "stored (mounted d2) 0 ns bl" "stored_bytes (mounted d2) 0 bl = kb" "hd ns = 0" "bl ! 0 = 1"
    "lookup user_name (mounted d2) = Some 1" "stored (mounted d2) 1 ms cl" "stored_bytes (mounted d2) 1 cl = ub"
proof -
  obtain d1 ns bl where d1: "write_myfs kernel_name kb d = Inr d1" "disk_ok d1" "stored (mounted d1) 0 ns bl"
    "stored_bytes (mounted d1) 0 bl = kb" "lookup user_name (mounted d1) = None" "free_slot (mounted d1) = Some 1"
    "free_blocks (bitmap (mounted d1)) + sectors_for (length kb) = 4096" "hd ns = 0" "bl ! 0 = 1"
    by (rule kernel_on_formatted [OF assms(1), of kb]) (use assms(2,3) in auto)
  have room: "sectors_for (length ub) \<le> free_blocks (bitmap (mounted d1))" using d1(7) assms(3) by linarith
  obtain d2 ms cl where d2: "write_myfs user_name ub d1 = Inr d2" "disk_ok d2" "lookup user_name (mounted d2) = Some 1"
      "stored (mounted d2) 1 ms cl" "stored_bytes (mounted d2) 1 cl = ub"
      "\<forall>m ns' bl'. m \<noteq> 1 \<longrightarrow> stored (mounted d1) m ns' bl' \<longrightarrow> stored (mounted d2) m ns' bl'
         \<and> stored_bytes (mounted d2) m bl' = stored_bytes (mounted d1) m bl'"
    using write_myfs_new [OF d1(2) user_name(1,2) d1(5,6) _ room] user_name(3) by auto
  have "stored (mounted d2) 0 ns bl \<and> stored_bytes (mounted d2) 0 bl = kb" using d2(6) d1(3,4) by auto
  then show thesis using that d1(1,8,9) d2(1-5) by blast
qed

text \<open>A segment is in the memory of process 0 as its header asks: the bytes at \<^verbatim>\<open>p_offset\<close> in the file, then zeros.\<close>

definition as_asked :: "u32 \<Rightarrow> u32 \<Rightarrow> paging \<Rightarrow> u8 list \<Rightarrow> proghdr \<Rightarrow> bool" where
  "as_asked etp utp st img h \<longleftrightarrow> (\<forall>j < unat (p_memsz h). \<exists>pa. user_access etp utp st 0 (p_pa h + of_nat j) = Some pa
     \<and> pmem st pa = (if j < unat (p_filesz h) then img ! (unat (p_offset h) + j) else 0))"

lemma as_asked_iff:
  assumes "\<forall>j < unat (p_memsz h). \<exists>pa. user_access etp utp st 0 (p_pa h + of_nat j) = Some pa
      \<and> pmem st pa = (if j < unat (p_filesz h) then img ! j else 0)"
    and "unat (p_filesz h) \<le> unat (p_memsz h)"
  shows "as_asked etp utp st img h \<longleftrightarrow> (\<forall>j < unat (p_filesz h). img ! (unat (p_offset h) + j) = img ! j)"
proof -
  have "(\<exists>pa. user_access etp utp st 0 (p_pa h + of_nat j) = Some pa
       \<and> pmem st pa = (if j < unat (p_filesz h) then img ! (unat (p_offset h) + j) else 0))
     \<longleftrightarrow> (j < unat (p_filesz h) \<longrightarrow> img ! (unat (p_offset h) + j) = img ! j)" if "j < unat (p_memsz h)" for j
    using assms(1) that by auto
  then show ?thesis unfolding as_asked_def using assms(2) by (meson order_less_le_trans)
qed

text \<open>
  C1. From \<^verbatim>\<open>make\<close> to user mode. The two runs of \<^verbatim>\<open>write_myfs\<close> in the \<^verbatim>\<open>Makefile\<close> put \<^verbatim>\<open>kernel.bin\<close> and
  \<^verbatim>\<open>user.bin\<close> on a formatted image; from that image, on any drive that holds it, \<^verbatim>\<open>bootmain\<close> loads every segment of the
  kernel, from its \<^verbatim>\<open>p_offset\<close> in the file, and jumps to its entry point; and \<^verbatim>\<open>kernel_init\<close> mounts it, fills every
  segment of \<^verbatim>\<open>user.bin\<close> in process 0 and enters user mode at the program's entry point, in a state that satisfies the
  invariant of the kernel, as does every state that traps and stores of the processes lead to from there.
  What \<^verbatim>\<open>kernel_init\<close> puts into a segment are the first \<^verbatim>\<open>p_filesz\<close> bytes of the file and zeros behind them, wherever in the
  file the header says the segment is, since \<^verbatim>\<open>fs_lseek\<close> with \<^verbatim>\<open>SEEK_SET\<close> ignores the offset the loader gives it: so a
  segment is what its header asks for when its \<^verbatim>\<open>p_offset\<close> is 0, and for another \<^verbatim>\<open>p_offset\<close> exactly when the file has
  the same bytes at both places.
\<close>

theorem image_boots:
  assumes "formatted d" "kernel_image kb ke khs" "user_image ub ue uhs"
    and "sectors_for (length kb) + sectors_for (length ub) \<le> 4096" "ata_drive P view" "layout_ok etp utp"
  shows "\<exists>d1 d2. write_myfs kernel_name kb d = Inr d1 \<and> write_myfs user_name ub d1 = Inr d2
    \<and> disk_ok d2 \<and> (\<forall>m x. sectors (view x) = d2 \<longrightarrow> (\<exists>b. bootmain P m x = Some (Inr (e_entry ke, b))
        \<and> (\<forall>h \<in> set khs. \<forall>j < unat (p_memsz h). bmem b (p_pa h + of_nat j) =
             (if j < unat (p_filesz h) then kb ! (unat (p_offset h) + j) else 0))))
    \<and> (\<forall>M. files M = start_process d2 \<and> get_pid (kern M) = 0 \<and> sem_pool (kern M) = replicate 3 0 \<and> \<not> interrupts (kern M)
        \<longrightarrow> (\<exists>M'. kernel_init Q handlers pts_addr etp utp M = Inr M' \<and> kernel_ok utp (kern M') \<and> get_pid (kern M') = 0
          \<and> tf (user_pcbs (kern M') 0) = entry_frame (e_entry ue)
          \<and> (\<forall>h \<in> set uhs. \<forall>j < unat (p_memsz h). \<exists>pa. user_access etp utp (mem (kern M')) 0 (p_pa h + of_nat j) = Some pa
              \<and> pmem (mem (kern M')) pa = (if j < unat (p_filesz h) then ub ! j else 0))
          \<and> (\<forall>h \<in> set uhs. as_asked etp utp (mem (kern M')) ub h \<longleftrightarrow>
               (\<forall>j < unat (p_filesz h). ub ! (unat (p_offset h) + j) = ub ! j))
          \<and> (\<forall>k. (kernel_step etp utp)\<^sup>*\<^sup>* (kern M') k \<longrightarrow> kernel_ok utp k)))"
proof -
  have k: "512 \<le> length kb" "ke = elf_of_bytes (take 512 kb)" "unat (e_phoff ke) + 32 * unat (e_phnum ke) \<le> 512"
    "khs = boot_headers (take 512 kb) (e_phoff ke) [0..<unat (e_phnum ke)]"
    "\<forall>h \<in> set khs. bootable (length kb) h" "sorted_wrt in_order khs" "sorted_wrt boot_apart khs"
    using assms(2) unfolding kernel_image_def by blast+
  have u: "512 \<le> length ub" "ue = elf_of_bytes (take 512 ub)" "e_magic ue = ELF_MAGIC"
    "unat (e_phoff ue) + 32 * unat (e_phnum ue) \<le> 512"
    "uhs = headers (take 512 ub) (e_phoff ue) [0..<unat (e_phnum ue)]"
    "\<forall>h \<in> set uhs. segment_ok (length ub) h" "sorted_wrt apart uhs"
    using assms(3) unfolding user_image_def by blast+
  have "kb \<noteq> []" using k(1) by auto
  then obtain d1 d2 ns bl ms cl where w: "write_myfs kernel_name kb d = Inr d1" "write_myfs user_name ub d1 = Inr d2" "disk_ok d2"
      "stored (mounted d2) 0 ns bl" "stored_bytes (mounted d2) 0 bl = kb" "hd ns = 0" "bl ! 0 = 1"
      "lookup user_name (mounted d2) = Some 1" "stored (mounted d2) 1 ms cl" "stored_bytes (mounted d2) 1 cl = ub"
    by (rule both_stored [OF assms(1) _ assms(4)]) blast
  note boot = bootmain_ok [OF assms(5) _ w(3,4,6,7) w(5) [symmetric] k]
  have init: "\<exists>M'. kernel_init Q handlers pts_addr etp utp M = Inr M' \<and> kernel_ok utp (kern M') \<and> get_pid (kern M') = 0
      \<and> tf (user_pcbs (kern M') 0) = entry_frame (e_entry ue)
      \<and> (\<forall>h \<in> set uhs. \<forall>j < unat (p_memsz h). \<exists>pa. user_access etp utp (mem (kern M')) 0 (p_pa h + of_nat j) = Some pa
          \<and> pmem (mem (kern M')) pa = (if j < unat (p_filesz h) then ub ! j else 0))
      \<and> (\<forall>h \<in> set uhs. as_asked etp utp (mem (kern M')) ub h \<longleftrightarrow>
           (\<forall>j < unat (p_filesz h). ub ! (unat (p_offset h) + j) = ub ! j))
      \<and> (\<forall>k. (kernel_step etp utp)\<^sup>*\<^sup>* (kern M') k \<longrightarrow> kernel_ok utp k)"
    if "files M = start_process d2" "get_pid (kern M) = 0" "sem_pool (kern M) = replicate 3 0" "\<not> interrupts (kern M)" for M
  proof -
    note before = that
    obtain M' where i: "kernel_init Q handlers pts_addr etp utp M = Inr M'" "kernel_ok utp (kern M')" "get_pid (kern M') = 0"
        "tf (user_pcbs (kern M') 0) = entry_frame (e_entry ue)"
        "\<forall>h \<in> set uhs. \<forall>j < unat (p_memsz h). \<exists>pa. user_access etp utp (mem (kern M')) 0 (p_pa h + of_nat j) = Some pa
          \<and> pmem (mem (kern M')) pa = (if j < unat (p_filesz h) then ub ! j else 0)"
      using kernel_init_ok [OF assms(6) before(2-4,1) w(3,8,9) w(10) [symmetric] u, of Q handlers pts_addr] by blast
    have "as_asked etp utp (mem (kern M')) ub h \<longleftrightarrow> (\<forall>j < unat (p_filesz h). ub ! (unat (p_offset h) + j) = ub ! j)"
      if h: "h \<in> set uhs" for h
      by (rule as_asked_iff) (use i(5) u(6) h in \<open>auto simp: segment_ok_def word_le_nat_alt\<close>)
    then show ?thesis using i kernel_steps_ok by blast
  qed
  show ?thesis
    by (rule exI [of _ d1], rule exI [of _ d2], intro conjI w(1-3) allI impI)
      (rule boot, assumption, elim conjE, rule init, assumption+)
qed

lemma sample_images: "kernel_image boot_image boot_elf [boot_proghdr]" "user_image sample_program sample_elf [sample_proghdr]"
proof -
  show "kernel_image boot_image boot_elf [boot_proghdr]"
    unfolding kernel_image_def boot_image(2,3) using boot_image(1,4,6-8) by simp
  have "unat (e_phoff sample_elf) + 32 * unat (e_phnum sample_elf) \<le> 512" by (simp add: sample_elf_def)
  then show "user_image sample_program sample_elf [sample_proghdr]"
    using sample_program unfolding user_image_def sample_program(2)
    by (simp add: segment_ok_def sample_proghdr_def sample_elf_def)
qed

theorem image_boots_witness:
  "\<exists>d1 d2 b M'. write_myfs kernel_name boot_image blank_disk = Inr d1 \<and> write_myfs user_name sample_program d1 = Inr d2
    \<and> bootmain sim_ports (\<lambda>p. 7) (sim_start\<lparr>sim_raw := (sim_raw sim_start)\<lparr>sectors := d2\<rparr>\<rparr>) = Some (Inr (0x100000, b))
    \<and> kernel_init sim_board_ports (\<lambda>v. 0xF0100000) 0xF0123450 0x102000 0x200000
        \<lparr>kern = boot_kernel, files = start_process d2, tables = sample_traps, dev = sim_board_start\<rparr> = Inr M'
    \<and> tf_eip (tf (user_pcbs (kern M') 0)) = 0x8048080"
proof -
  let ?x = "\<lambda>d2. sim_start\<lparr>sim_raw := (sim_raw sim_start)\<lparr>sectors := d2\<rparr>\<rparr>"
  let ?M = "\<lambda>d2. \<lparr>kern = boot_kernel, files = start_process d2, tables = sample_traps, dev = sim_board_start\<rparr>"
  have room: "sectors_for (length boot_image) + sectors_for (length sample_program) \<le> 4096"
    by (simp add: boot_image(1) sample_program(1) sectors_for_def blocks_for_def inodes_for_def)
  obtain d1 d2 where w: "write_myfs kernel_name boot_image blank_disk = Inr d1" "write_myfs user_name sample_program d1 = Inr d2"
      "disk_ok d2" "sectors (sim_ata (?x d2)) = d2 \<longrightarrow> (\<exists>b. bootmain sim_ports (\<lambda>p. 7) (?x d2) = Some (Inr (e_entry boot_elf, b)))"
      "files (?M d2) = start_process d2 \<and> get_pid (kern (?M d2)) = 0 \<and> sem_pool (kern (?M d2)) = replicate 3 0
        \<and> \<not> interrupts (kern (?M d2)) \<longrightarrow>
        (\<exists>M'. kernel_init sim_board_ports (\<lambda>v. 0xF0100000) 0xF0123450 0x102000 0x200000 (?M d2) = Inr M'
          \<and> tf (user_pcbs (kern M') 0) = entry_frame (e_entry sample_elf))"
    using image_boots [OF blank_formatted sample_images room sim_drive sample_layout] by blast
  have "sectors (sim_ata (?x d2)) = d2" using w(3) by (simp add: sim_ata_def disk_ok_def)
  then obtain b where b: "bootmain sim_ports (\<lambda>p. 7) (?x d2) = Some (Inr (0x100000, b))" using w(4) boot_image(5) by auto
  obtain M' where "kernel_init sim_board_ports (\<lambda>v. 0xF0100000) 0xF0123450 0x102000 0x200000 (?M d2) = Inr M'"
      "tf (user_pcbs (kern M') 0) = entry_frame (e_entry sample_elf)"
    using w(5) by (auto simp: boot_kernel_def sample_kernel_def get_pid_def)
  moreover from this have "tf_eip (tf (user_pcbs (kern M') 0)) = 0x8048080" by (simp add: entry_frame_def sample_elf_def)
  ultimately show ?thesis using w(1,2) b by blast
qed

end
